(* ===== verification/Prelude.thy ===== *)
theory Prelude
  imports Complex_Main "HOL-Library.List_Lexorder" "HOL-Library.Char_ord" "HOL-Library.Product_Lexorder"
begin

text \<open>
  Shared vocabulary of the development: the types of identifiers and instants, the
  \<open>timedelta\<close> constructors, tables as lists of rows under a key, and two interfaces as
  locales: a machine whose operations keep an invariant, and a table of rows under a key whose
  rows are only rewritten in ways that keep the key.

  An instant is an \<open>int\<close>, the number of microseconds since the Unix epoch, which is the
  resolution of Python's \<open>datetime\<close> and of the \<open>TIMESTAMPTZ\<close> columns; a \<open>timedelta\<close> is a
  difference of two instants. The code's coercions of a zone-less value to UTC
  (\<open>_as_utc\<close>, \<open>_aware\<close>, \<open>aware\<close>) are the identity on instants. A UUID is the
  128-bit number it denotes, as a \<open>nat\<close>: the order of UUID columns, of \<open>UUID\<close> objects and of
  the fixed-width hexadecimal text \<open>str(uuid)\<close> is the order of these numbers. Hotkeys, slot
  identifiers and labels are strings.
\<close>

type_synonym time = int
type_synonym timedelta = int
type_synonym uuid = nat
type_synonym hotkey = string
type_synonym slot = string

definition td_seconds :: "int \<Rightarrow> timedelta" where
  "td_seconds n = n * 1000000"

definition td_minutes :: "int \<Rightarrow> timedelta" where
  "td_minutes n = td_seconds (n * 60)"

definition td_hours :: "int \<Rightarrow> timedelta" where
  "td_hours n = td_minutes (n * 60)"

named_theorems td_defs
declare td_seconds_def [td_defs] td_minutes_def [td_defs] td_hours_def [td_defs]

subsection \<open>Tables as lists of rows\<close>

text \<open>
  A table is the list of its rows. \<open>get_row\<close> is \<open>session.get\<close> (a read by primary
  key), \<open>select_first\<close> a \<open>SELECT \<dots> LIMIT 1\<close>, \<open>update_where\<close> the effect of
  assigning attributes of the loaded rows.
\<close>

definition get_row :: "('r \<Rightarrow> 'k) \<Rightarrow> 'k \<Rightarrow> 'r list \<Rightarrow> 'r option" where
  "get_row key k rows = List.find (\<lambda>r. key r = k) rows"

definition select_first :: "('r \<Rightarrow> bool) \<Rightarrow> 'r list \<Rightarrow> 'r option" where
  "select_first p rows = List.find p rows"

definition update_where :: "('r \<Rightarrow> bool) \<Rightarrow> ('r \<Rightarrow> 'r) \<Rightarrow> 'r list \<Rightarrow> 'r list" where
  "update_where p f rows = map (\<lambda>r. if p r then f r else r) rows"

definition set_row :: "('r \<Rightarrow> 'k) \<Rightarrow> 'r \<Rightarrow> 'r list \<Rightarrow> 'r list" where
  "set_row key r rows = update_where (\<lambda>r'. key r' = key r) (\<lambda>_. r) rows"

named_theorems row_simps

lemma find_SomeD: "List.find p xs = Some x \<Longrightarrow> p x \<and> x \<in> set xs"
  by (induction xs) (auto split: if_splits)

lemma select_first_SomeD: "select_first p rows = Some r \<Longrightarrow> p r \<and> r \<in> set rows"
  by (simp add: select_first_def find_SomeD)

lemma select_first_NoneD: "select_first p rows = None \<Longrightarrow> r \<in> set rows \<Longrightarrow> \<not> p r"
  by (auto simp: select_first_def find_None_iff)

lemma select_first_None_iff: "select_first p rows = None \<longleftrightarrow> (\<forall>r \<in> set rows. \<not> p r)"
  by (auto simp: select_first_def find_None_iff)

lemma select_first_eqI:
  assumes "r \<in> set rows" and "p r" and "\<And>s. s \<in> set rows \<Longrightarrow> p s \<Longrightarrow> s = r"
  shows "select_first p rows = Some r"
proof (cases "select_first p rows")
  case None
  from select_first_NoneD [OF this assms(1)] assms(2) show ?thesis by simp
next
  case (Some s)
  from select_first_SomeD [OF this] have "s = r" by (intro assms(3)) simp_all
  with Some show ?thesis by simp
qed

lemma select_first_order_irrelevant:
  assumes "set rows = set rows'" and "\<And>r s. r \<in> set rows \<Longrightarrow> s \<in> set rows \<Longrightarrow> p r \<Longrightarrow> p s \<Longrightarrow> r = s"
  shows "select_first p rows = select_first p rows'"
proof (cases "select_first p rows")
  case None
  then have "select_first p rows' = None" using assms(1) by (simp add: select_first_None_iff)
  with None show ?thesis by simp
next
  case (Some r)
  then have r: "p r" "r \<in> set rows" by (auto dest: select_first_SomeD)
  have "select_first p rows' = Some r"
    by (rule select_first_eqI) (use r assms in blast)+
  with Some show ?thesis by simp
qed

lemma get_row_SomeD: "get_row key k rows = Some r \<Longrightarrow> key r = k \<and> r \<in> set rows"
  unfolding get_row_def by (drule find_SomeD) simp

lemma get_row_None_iff: "get_row key k rows = None \<longleftrightarrow> k \<notin> key ` set rows"
  by (auto simp: get_row_def find_None_iff)

lemma update_where_Nil [row_simps]: "update_where p f [] = []"
  by (simp add: update_where_def)

lemma update_where_Cons [row_simps]:
  "update_where p f (r # rows) = (if p r then f r else r) # update_where p f rows"
  by (simp add: update_where_def)

lemma length_update_where [row_simps]: "length (update_where p f rows) = length rows"
  by (simp add: update_where_def)

lemma set_update_where:
  "set (update_where p f rows) = (\<lambda>r. if p r then f r else r) ` set rows"
  by (simp add: update_where_def)

lemma in_update_whereE:
  assumes "r \<in> set (update_where p f rows)"
  obtains "r \<in> set rows" "\<not> p r" | r0 where "r0 \<in> set rows" "p r0" "r = f r0"
  using assms by (auto simp: set_update_where split: if_splits)

lemma map_update_where_same:
  "(\<And>r. r \<in> set rows \<Longrightarrow> p r \<Longrightarrow> g (f r) = g r) \<Longrightarrow> map g (update_where p f rows) = map g rows"
  by (induction rows) (auto simp: row_simps)

lemma filter_update_where_drop:
  "(\<And>r. r \<in> set rows \<Longrightarrow> p r \<Longrightarrow> \<not> q (f r)) \<Longrightarrow>
   filter q (update_where p f rows) = filter (\<lambda>r. q r \<and> \<not> p r) rows"
  by (induction rows) (auto simp: row_simps)

lemma filter_update_where_same:
  "(\<And>r. r \<in> set rows \<Longrightarrow> p r \<Longrightarrow> q (f r) = q r) \<Longrightarrow>
   filter q (update_where p f rows) = update_where p f (filter q rows)"
  by (induction rows) (auto simp: row_simps)

lemma update_where_id:
  "(\<And>r. r \<in> set rows \<Longrightarrow> p r \<Longrightarrow> f r = r) \<Longrightarrow> update_where p f rows = rows"
  by (induction rows) (auto simp: row_simps)

lemma distinct_key_eq:
  "distinct (map key rows) \<Longrightarrow> r \<in> set rows \<Longrightarrow> s \<in> set rows \<Longrightarrow> key r = key s \<Longrightarrow> r = s"
  by (auto simp: distinct_map dest: inj_onD)

lemma get_row_eqI:
  assumes "distinct (map key rows)" and "r \<in> set rows"
  shows "get_row key (key r) rows = Some r"
proof (cases "get_row key (key r) rows")
  case None
  with assms(2) show ?thesis by (auto simp: get_row_None_iff)
next
  case (Some s)
  then have "key s = key r" and "s \<in> set rows" by (auto dest: get_row_SomeD)
  with assms Some show ?thesis by (auto dest: distinct_key_eq)
qed

lemma map_key_set_row [row_simps]: "map key (set_row key r rows) = map key rows"
  unfolding set_row_def by (rule map_update_where_same) simp

lemma in_set_row: "s \<in> set (set_row key r rows) \<Longrightarrow> s = r \<or> (s \<in> set rows \<and> key s \<noteq> key r)"
  by (auto simp: set_row_def set_update_where)

lemma set_row_mem: "key r \<in> key ` set rows \<Longrightarrow> r \<in> set (set_row key r rows)"
  by (force simp: set_row_def set_update_where image_iff)

lemma get_row_set_row:
  "get_row key k (set_row key r rows) =
     (if k = key r then map_option (\<lambda>_. r) (get_row key k rows) else get_row key k rows)"
  by (induction rows) (auto simp: get_row_def set_row_def row_simps)

lemma get_row_append_new:
  "get_row key k (rows @ [r]) =
     (case get_row key k rows of Some s \<Rightarrow> Some s | None \<Rightarrow> if key r = k then Some r else None)"
  by (induction rows) (auto simp: get_row_def)

lemma filter_set_row_other:
  "(\<And>s. s \<in> set rows \<Longrightarrow> key s = key r \<Longrightarrow> \<not> p s) \<Longrightarrow> \<not> p r \<Longrightarrow>
   filter p (set_row key r rows) = filter p rows"
  by (induction rows) (auto simp: set_row_def row_simps)

text \<open>\<open>SELECT \<dots> ORDER BY key LIMIT 1\<close>.\<close>

definition first_by :: "('r \<Rightarrow> 'k :: linorder) \<Rightarrow> 'r list \<Rightarrow> 'r option" where
  "first_by key rows = (case sort_key key rows of [] \<Rightarrow> None | r # _ \<Rightarrow> Some r)"

lemma first_by_None_iff [simp]: "first_by key rows = None \<longleftrightarrow> rows = []"
proof -
  have "sort_key key rows = [] \<longleftrightarrow> rows = []" by (metis length_0_conv length_sort)
  then show ?thesis by (auto simp: first_by_def split: list.splits)
qed

lemma first_by_SomeD:
  assumes "first_by key rows = Some r"
  shows "r \<in> set rows" and "s \<in> set rows \<Longrightarrow> key r \<le> key s"
proof -
  from assms obtain rs where s: "sort_key key rows = r # rs" by (auto simp: first_by_def split: list.splits)
  have mem: "set (r # rs) = set rows" using set_sort [of key rows] s by simp
  then show "r \<in> set rows" by auto
  have "sorted (map key (r # rs))" using sorted_sort_key [of key rows] s by simp
  then show "s \<in> set rows \<Longrightarrow> key r \<le> key s" using mem by auto
qed

lemma first_by_Cons_single [simp]: "first_by key [r] = Some r"
  by (simp add: first_by_def)

lemma first_by_filter_hit: "first_by k xs = Some x \<Longrightarrow> p x \<Longrightarrow> first_by k (filter p xs) = Some x"
  by (simp add: first_by_def filter_sort [symmetric] split: list.splits)

lemma length_filter_update_where_le:
  "(\<And>r. r \<in> set rows \<Longrightarrow> p r \<Longrightarrow> q (f r) \<Longrightarrow> q r) \<Longrightarrow> length (filter q (update_where p f rows)) \<le> length (filter q rows)"
  by (induction rows) (auto simp: row_simps le_SucI)

lemma length_filter_set_row_le:
  "distinct (map key rows) \<Longrightarrow> length (filter q (set_row key r rows)) \<le> Suc (length (filter q rows))"
proof (induction rows)
  case (Cons x rows)
  show ?case
  proof (cases "key x = key r")
    case True
    then have "set_row key r rows = rows"
      using Cons.prems unfolding set_row_def by (intro update_where_id) (metis distinct.simps(2) image_eqI list.set_map list.simps(9))
    then show ?thesis by (simp add: set_row_def row_simps)
  next
    case False
    then show ?thesis using Cons by (simp add: set_row_def row_simps)
  qed
qed (simp add: set_row_def row_simps)

subsection \<open>Keyed reads\<close>

lemma insort_key_map: "insort_key k (f x) (map f xs) = map f (insort_key (\<lambda>x. k (f x)) x xs)"
  by (induction xs) auto

lemma sort_key_map: "sort_key k (map f xs) = map f (sort_key (\<lambda>x. k (f x)) xs)"
  by (induction xs) (simp_all add: insort_key_map)

lemma first_by_Nil [simp]: "first_by k [] = None"
  by (simp add: first_by_def)

lemma first_by_map: "first_by k (map f xs) = map_option f (first_by (\<lambda>x. k (f x)) xs)"
  by (simp add: first_by_def sort_key_map split: list.split)

lemma first_by_eqI:
  assumes "x \<in> set xs" and "\<And>y. y \<in> set xs \<Longrightarrow> y \<noteq> x \<Longrightarrow> k x < k y"
  shows "first_by k xs = Some x"
proof (cases "first_by k xs")
  case None
  with assms(1) show ?thesis by simp
next
  case (Some y)
  from first_by_SomeD(1) [OF this] first_by_SomeD(2) [OF this assms(1)] assms(2) [of y] have "y = x" by force
  with Some show ?thesis by simp
qed

lemma set_set_row:
  assumes "distinct (map key rows)" and "r \<in> set rows" and "key r' = key r"
  shows "set (set_row key r' rows) = insert r' (set rows - {r})"
proof -
  have "(if key s = key r' then r' else s) = (if s = r then r' else s)" if "s \<in> set rows" for s
    using distinct_key_eq [OF assms(1) that assms(2)] assms(3) by auto
  then have "set (set_row key r' rows) = (\<lambda>s. if s = r then r' else s) ` set rows"
    unfolding set_row_def set_update_where by (intro image_cong) auto
  with assms(2) show ?thesis by auto
qed

subsection \<open>Sums over rows\<close>

definition sum_rows :: "('r \<Rightarrow> int) \<Rightarrow> 'r list \<Rightarrow> int" where
  "sum_rows f rows = sum_list (map f rows)"

lemma sum_rows_simps [simp]:
  "sum_rows f [] = 0"
  "sum_rows f (r # rows) = f r + sum_rows f rows"
  "sum_rows f (xs @ ys) = sum_rows f xs + sum_rows f ys"
  by (simp_all add: sum_rows_def)

lemma sum_rows_nonneg: "(\<And>r. r \<in> set rows \<Longrightarrow> 0 \<le> f r) \<Longrightarrow> 0 \<le> sum_rows f rows"
  unfolding sum_rows_def by (induction rows) auto

lemma sum_rows_filter_split:
  "sum_rows f (filter p rows) + sum_rows f (filter (\<lambda>r. \<not> p r) rows) = sum_rows f rows"
  by (induction rows) auto

lemma sum_rows_cong: "(\<And>r. r \<in> set rows \<Longrightarrow> f r = g r) \<Longrightarrow> sum_rows f rows = sum_rows g rows"
  unfolding sum_rows_def by (induction rows) auto

lemma sum_rows_mono: "(\<And>r. r \<in> set rows \<Longrightarrow> f r \<le> g r) \<Longrightarrow> sum_rows f rows \<le> sum_rows g rows"
  unfolding sum_rows_def by (rule sum_list_mono) simp

lemma length_filter_sum: "int (length (filter p rows)) = sum_rows (\<lambda>r. if p r then 1 else 0) rows"
  by (induction rows) auto

lemma sum_rows_set_row:
  assumes "distinct (map key rows)" and "get_row key (key r') rows = Some r"
  shows "sum_rows f (set_row key r' rows) = sum_rows f rows - f r + f r'"
  using assms
proof (induction rows)
  case (Cons x rows)
  show ?case
  proof (cases "key x = key r'")
    case True
    then have x: "x = r" using Cons.prems(2) by (simp add: get_row_def)
    have "set_row key r' rows = rows"
      using Cons.prems(1) True unfolding set_row_def by (intro update_where_id) (metis distinct.simps(2) image_eqI list.set_map list.simps(9))
    then show ?thesis using True x by (simp add: set_row_def row_simps)
  next
    case False
    then show ?thesis using Cons by (simp add: set_row_def row_simps get_row_def)
  qed
qed (simp add: get_row_def)

lemma sum_rows_zero: "(\<And>r. r \<in> set rows \<Longrightarrow> f r = 0) \<Longrightarrow> sum_rows f rows = 0"
  by (induction rows) auto

lemma sum_member_le:
  "r \<in> set rows \<Longrightarrow> (\<And>x. x \<in> set rows \<Longrightarrow> 0 \<le> f x) \<Longrightarrow> f r \<le> sum_rows f rows"
proof (induction rows)
  case (Cons x rows)
  then show ?case using sum_rows_nonneg [of rows f] by fastforce
qed simp

subsection \<open>Machines with an invariant\<close>

text \<open>
  The contract every stateful component offers: a total step function on a state and an
  invariant that every step keeps. A run of any sequence of operations keeps it too, so a
  property of the initial state that the invariant implies holds along every interleaving.
\<close>

locale guarded_machine =
  fixes step :: "'op \<Rightarrow> 's \<Rightarrow> 's"
    and guard :: "'op \<Rightarrow> bool"
    and invar :: "'s \<Rightarrow> bool"
  assumes guarded_step: "guard x \<Longrightarrow> invar s \<Longrightarrow> invar (step x s)"
begin

lemma guarded_run: "list_all guard ops \<Longrightarrow> invar s \<Longrightarrow> invar (fold step ops s)"
  by (induction ops arbitrary: s) (auto intro: guarded_step)

end

text \<open>A machine whose every operation is unconditional.\<close>

locale invariant_machine =
  fixes step :: "'op \<Rightarrow> 's \<Rightarrow> 's"
    and invar :: "'s \<Rightarrow> bool"
  assumes step_invar: "invar s \<Longrightarrow> invar (step x s)"

sublocale invariant_machine \<subseteq> guarded: guarded_machine step "\<lambda>_. True" invar
  by unfold_locales (rule step_invar)

context invariant_machine
begin

lemma run_invar: "invar s \<Longrightarrow> invar (fold step ops s)"
  by (rule guarded.guarded_run) (simp add: list.pred_True)

lemma run_prefix_invar: "invar s \<Longrightarrow> invar (fold step (take n ops) s)"
  by (rule run_invar)

end

text \<open>
  A monotone quantity of a machine: what the state has recorded is never forgotten by a step,
  so it is not forgotten by a run.
\<close>

locale monotone_machine = invariant_machine step invar
  for step :: "'op \<Rightarrow> 's \<Rightarrow> 's" and invar :: "'s \<Rightarrow> bool" +
  fixes grows :: "'s \<Rightarrow> 's \<Rightarrow> bool"
  assumes grows_refl: "grows s s"
    and grows_trans: "grows s t \<Longrightarrow> grows t u \<Longrightarrow> grows s u"
    and step_grows: "invar s \<Longrightarrow> grows s (step x s)"
begin

lemma run_grows: "invar s \<Longrightarrow> grows s (fold step ops s)"
proof (induction ops arbitrary: s)
  case Nil
  show ?case by (simp add: grows_refl)
next
  case (Cons x ops)
  have "grows s (step x s)" using Cons.prems by (rule step_grows)
  moreover have "grows (step x s) (fold step ops (step x s))"
    using Cons.prems by (intro Cons.IH step_invar)
  ultimately show ?case by (auto intro: grows_trans)
qed

end

end
