(* ===== verification/Canonical_Json.thy ===== *)
theory Canonical_Json
  imports Prelude
begin

text \<open>
  The deterministic JSON encoding the audit log hashes
  (\<open>ditto/db/queries/audit.py\<close>, \<open>_canonical_bytes\<close>):
  \<open>json.dumps(content, sort_keys=True, separators=(",", ":"))\<close>. Python text is a list of
  Unicode code points; the encoder writes ASCII only. A float is carried as the text of its
  \<open>repr\<close>, which is what the encoder writes and what identifies the float. An object is the
  list of its items in insertion order. The theory defines the encoder and proves that it loses
  nothing: equal encodings come from values that are equal up to the order of object items.
\<close>

type_synonym pytext = "nat list"

definition ptext :: "string \<Rightarrow> pytext" where
  "ptext s = map of_char s"

text \<open>\<open>sep.join(parts)\<close>.\<close>

fun join_with :: "'a list \<Rightarrow> 'a list list \<Rightarrow> 'a list" where
  "join_with sep [] = []"
| "join_with sep [x] = x"
| "join_with sep (x # xs) = x @ sep @ join_with sep xs"

datatype json =
    JNull
  | JBool bool
  | is_JInt: JInt int
  | is_JFloat: JFloat string
  | JStr pytext
  | JArr "json list"
  | JObj "(pytext \<times> json) list"

subsection \<open>The encoder\<close>

definition hexdigit :: "nat \<Rightarrow> char" where
  "hexdigit n = ''0123456789abcdef'' ! (n mod 16)"

fun pad_dec :: "nat \<Rightarrow> nat \<Rightarrow> string" where
  "pad_dec 0 n = []"
| "pad_dec (Suc w) n = pad_dec w (n div 10) @ [hexdigit (n mod 10)]"

fun pad_hex :: "nat \<Rightarrow> nat \<Rightarrow> string" where
  "pad_hex 0 n = []"
| "pad_hex (Suc w) n = pad_hex w (n div 16) @ [hexdigit n]"

definition u_escape :: "nat \<Rightarrow> string" where
  "u_escape n = CHR 0x5C # CHR ''u'' # pad_hex 4 n"

definition escape_cp :: "nat \<Rightarrow> string" where
  "escape_cp n =
     (if n = 0x22 then [CHR 0x5C, CHR 0x22]
      else if n = 0x5C then [CHR 0x5C, CHR 0x5C]
      else if n = 0x0A then [CHR 0x5C, CHR ''n'']
      else if n = 0x0D then [CHR 0x5C, CHR ''r'']
      else if n = 0x09 then [CHR 0x5C, CHR ''t'']
      else if n = 0x0C then [CHR 0x5C, CHR ''f'']
      else if n = 0x08 then [CHR 0x5C, CHR ''b'']
      else if 0x20 \<le> n \<and> n \<le> 0x7E then [char_of n]
      else if n < 0x10000 then u_escape n
      else u_escape (0xD800 + (n - 0x10000) div 1024 mod 1024) @
           u_escape (0xDC00 + (n - 0x10000) mod 1024))"

definition dumps_str :: "pytext \<Rightarrow> string" where
  "dumps_str s = CHR 0x22 # concat (map escape_cp s) @ [CHR 0x22]"

fun dec_nat :: "nat \<Rightarrow> string" where
  "dec_nat n = (if n < 10 then [hexdigit n] else dec_nat (n div 10) @ [hexdigit (n mod 10)])"

declare dec_nat.simps [simp del]

definition dec_int :: "int \<Rightarrow> string" where
  "dec_int i = (if i < 0 then CHR ''-'' # dec_nat (nat (- i)) else dec_nat (nat i))"

fun join_comma :: "string list \<Rightarrow> string" where
  "join_comma [] = []"
| "join_comma [x] = x"
| "join_comma (x # y # xs) = x @ CHR '','' # join_comma (y # xs)"

definition item_text :: "pytext \<times> string \<Rightarrow> string" where
  "item_text kv = dumps_str (fst kv) @ CHR '':'' # snd kv"

primrec dumps :: "json \<Rightarrow> string" where
  "dumps JNull = ''null''"
| "dumps (JBool b) = (if b then ''true'' else ''false'')"
| "dumps (JInt i) = dec_int i"
| "dumps (JFloat r) = r"
| "dumps (JStr s) = dumps_str s"
| "dumps (JArr vs) = CHR ''['' # join_comma (map dumps vs) @ '']''"
| "dumps (JObj kvs) =
     CHR ''{'' # join_comma (map item_text (sort_key fst (map (map_prod id dumps) kvs))) @ ''}''"

subsection \<open>Digits\<close>

lemma hexdigit_eqD:
  assumes "hexdigit m = hexdigit n" shows "m mod 16 = n mod 16"
proof -
  have d: "distinct ''0123456789abcdef''" by simp
  have "m mod 16 < length ''0123456789abcdef''" "n mod 16 < length ''0123456789abcdef''" by simp_all
  with d assms show ?thesis unfolding hexdigit_def by (simp only: nth_eq_iff_index_eq)
qed

definition decimal_digits :: "char set" where
  "decimal_digits = set ''0123456789''"

lemma hexdigit_dec_in: "n < 10 \<Longrightarrow> hexdigit n \<in> decimal_digits"
proof -
  assume n: "n < 10"
  then have "hexdigit n = (''0123456789'' @ ''abcdef'') ! n" by (simp add: hexdigit_def)
  also have "\<dots> = ''0123456789'' ! n" using n by (subst nth_append) simp
  finally show ?thesis using n unfolding decimal_digits_def by (simp only:) (rule nth_mem, simp)
qed

lemma length_pad_hex [simp]: "length (pad_hex w n) = w"
  by (induction w arbitrary: n) auto

lemma length_pad_dec [simp]: "length (pad_dec w n) = w"
  by (induction w arbitrary: n) auto

lemma mod_power_Suc_eqI:
  fixes m n b :: nat
  assumes "m div b mod b ^ w = n div b mod b ^ w" and "m mod b = n mod b"
  shows "m mod b ^ Suc w = n mod b ^ Suc w"
  using assms by (simp only: power_Suc mod_mult2_eq)

lemma pad_hex_inj: "pad_hex w m = pad_hex w n \<Longrightarrow> m mod 16 ^ w = n mod 16 ^ w"
proof (induction w arbitrary: m n)
  case (Suc w)
  from Suc.prems have "pad_hex w (m div 16) = pad_hex w (n div 16)" and "hexdigit m = hexdigit n"
    by simp_all
  then show ?case by (intro mod_power_Suc_eqI Suc.IH hexdigit_eqD)
qed simp

lemma pad_dec_inj: "pad_dec w m = pad_dec w n \<Longrightarrow> m mod 10 ^ w = n mod 10 ^ w"
proof (induction w arbitrary: m n)
  case (Suc w)
  have small: "(k mod 10) mod 16 = k mod 10" for k :: nat
    using mod_less_divisor [of 10 k] by (intro mod_less) linarith
  from Suc.prems have "pad_dec w (m div 10) = pad_dec w (n div 10)"
    and "hexdigit (m mod 10) = hexdigit (n mod 10)" by simp_all
  then have "m mod 10 = n mod 10" by (auto dest: hexdigit_eqD simp: small)
  with \<open>pad_dec w (m div 10) = pad_dec w (n div 10)\<close> show ?case
    by (intro mod_power_Suc_eqI Suc.IH)
qed simp

lemma set_pad_dec: "set (pad_dec w n) \<subseteq> decimal_digits"
proof (induction w arbitrary: n)
  case (Suc w)
  then show ?case using hexdigit_dec_in [of "n mod 10"] by simp
qed simp

lemma dec_nat_nonempty: "dec_nat n \<noteq> []" "[] \<noteq> dec_nat n"
  by (subst dec_nat.simps, simp)+

lemma set_dec_nat: "set (dec_nat n) \<subseteq> decimal_digits"
proof (induction n rule: dec_nat.induct)
  case (1 n)
  then show ?case
    using hexdigit_dec_in [of n] hexdigit_dec_in [of "n mod 10"]
    by (subst dec_nat.simps) auto
qed

lemma dec_nat_inj: "dec_nat m = dec_nat n \<Longrightarrow> m = n"
proof (induction m arbitrary: n rule: dec_nat.induct)
  case (1 m)
  have d: "hexdigit a = hexdigit b \<Longrightarrow> a < 10 \<Longrightarrow> b < 10 \<Longrightarrow> a = b" for a b
    by (drule hexdigit_eqD) simp
  show ?case
  proof (cases "m < 10")
    case True
    with "1.prems" have "n < 10"
      by (auto simp: dec_nat.simps [of m] dec_nat.simps [of n] dec_nat_nonempty split: if_splits)
    with True "1.prems" show ?thesis by (auto simp: dec_nat.simps [of m] dec_nat.simps [of n] intro: d)
  next
    case False
    with "1.prems" have n: "\<not> n < 10"
      by (auto simp: dec_nat.simps [of m] dec_nat.simps [of n] dec_nat_nonempty split: if_splits)
    with False "1.prems" have eq: "dec_nat (m div 10) = dec_nat (n div 10)"
      and "hexdigit (m mod 10) = hexdigit (n mod 10)"
      by (simp_all add: dec_nat.simps [of m] dec_nat.simps [of n])
    then have "m mod 10 = n mod 10" by (intro d) simp_all
    moreover have "m div 10 = n div 10" using eq False by (rule "1.IH" [rotated])
    ultimately show ?thesis by (metis div_mult_mod_eq)
  qed
qed

lemma minus_not_digit: "CHR ''-'' \<notin> decimal_digits"
  by (simp add: decimal_digits_def)

lemma set_dec_int: "set (dec_int i) \<subseteq> insert (CHR ''-'') decimal_digits"
  using set_dec_nat [of "nat (- i)"] set_dec_nat [of "nat i"] by (auto simp: dec_int_def)

lemma dec_nat_not_minus: "dec_nat n \<noteq> CHR ''-'' # xs" "CHR ''-'' # xs \<noteq> dec_nat n"
  using set_dec_nat [of n] minus_not_digit by (metis list.set_intros(1) subsetD)+

lemma dec_int_inj: assumes "dec_int i = dec_int j" shows "i = j"
  using assms by (auto simp: dec_int_def dec_nat_not_minus split: if_splits dest!: dec_nat_inj)

subsection \<open>Strings\<close>

text \<open>A Unicode scalar value: below 0x110000 and not a surrogate.\<close>

definition scalar :: "nat \<Rightarrow> bool" where
  "scalar n \<longleftrightarrow> n < 0xD800 \<or> (0xE000 \<le> n \<and> n < 0x110000)"

lemma u_escape_append_eq:
  assumes "u_escape m @ x = u_escape n @ y" and "m < 0x10000" and "n < 0x10000"
  shows "m = n \<and> x = y"
proof -
  from assms(1) have "pad_hex 4 m = pad_hex 4 n" and "x = y"
    by (auto simp: u_escape_def append_eq_append_conv)
  from pad_hex_inj [OF this(1)] assms(2,3) have "m = n" by simp
  with \<open>x = y\<close> show ?thesis by simp
qed

text \<open>The kinds of escape sequences, told apart by their first two characters.\<close>

definition short_escapes :: "(nat \<times> char) list" where
  "short_escapes =
     [(0x22, CHR 0x22), (0x5C, CHR 0x5C), (0x0A, CHR ''n''), (0x0D, CHR ''r''),
      (0x09, CHR ''t''), (0x0C, CHR ''f''), (0x08, CHR ''b'')]"

lemma short_escape_cp: "(n, c) \<in> set short_escapes \<Longrightarrow> escape_cp n = [CHR 0x5C, c]"
  by (auto simp: short_escapes_def escape_cp_def)

lemma char_of_ascii_inj:
  assumes "char_of m = (char_of n :: char)" and "m \<le> 0x7E" and "n \<le> (0x7E :: nat)"
  shows "m = n"
proof -
  have "of_char (char_of m :: char) = (of_char (char_of n :: char) :: nat)" using assms(1) by simp
  with assms(2,3) show ?thesis by simp
qed

lemma escape_cp_cases:
  assumes "scalar n"
  obtains (short) c where "(n, c) \<in> set short_escapes" "escape_cp n = [CHR 0x5C, c]"
    | (plain) "0x20 \<le> n" "n \<le> 0x7E" "char_of n \<noteq> CHR 0x5C" "char_of n \<noteq> CHR 0x22" "escape_cp n = [char_of n]"
    | (bmp) "n < 0x10000" "\<not> (0xD800 \<le> n \<and> n < 0xE000)" "escape_cp n = u_escape n"
    | (pair) h l where "h = 0xD800 + (n - 0x10000) div 1024" "l = 0xDC00 + (n - 0x10000) mod 1024"
        "0x10000 \<le> n" "h < 0xDC00" "0xD800 \<le> h" "l < 0xE000" "escape_cp n = u_escape h @ u_escape l"
proof (cases "n \<in> fst ` set short_escapes")
  case True
  then obtain c where "(n, c) \<in> set short_escapes" by force
  then show ?thesis using short short_escape_cp by blast
next
  case F: False
  show ?thesis
  proof (cases "0x20 \<le> n \<and> n \<le> 0x7E")
    case True
    have "char_of n \<noteq> CHR 0x5C" "char_of n \<noteq> CHR 0x22"
      using F True by (auto simp: short_escapes_def char_of_eq_iff take_bit_eq_mod)
    then show ?thesis using F True plain by (auto simp: short_escapes_def escape_cp_def)
  next
    case N: False
    show ?thesis
    proof (cases "n < 0x10000")
      case True
      then show ?thesis using F N assms bmp by (auto simp: short_escapes_def escape_cp_def scalar_def)
    next
      case False
      have "(n - 0x10000) div 1024 < 1024" using assms False by (auto simp: scalar_def div_less_iff_less_mult)
      moreover have "(n - 0x10000) mod 1024 < 1024" by simp
      ultimately show ?thesis using False
        by (intro pair [OF refl refl]) (auto simp: escape_cp_def)
    qed
  qed
qed

lemma short_escapes_inj:
  "(m, c) \<in> set short_escapes \<Longrightarrow> (n, c) \<in> set short_escapes \<Longrightarrow> m = n"
  by (auto simp: short_escapes_def)

lemma short_escapes_not_u: "(m, CHR ''u'') \<notin> set short_escapes"
  by (simp add: short_escapes_def)

lemma escape_cp_append_eq:
  assumes "escape_cp m @ x = escape_cp n @ y" and "scalar m" and "scalar n"
  shows "m = n \<and> x = y"
proof (use assms(2) in \<open>cases m rule: escape_cp_cases\<close>)
  case (short c)
  with assms(1) show ?thesis
    by (cases rule: escape_cp_cases [OF assms(3)]) (auto simp: u_escape_def short_escapes_not_u dest: short_escapes_inj)
next
  case plain
  with plain assms(1) show ?thesis
    by (cases rule: escape_cp_cases [OF assms(3)]) (auto simp: u_escape_def intro: char_of_ascii_inj)
next
  case bmp
  show ?thesis
  proof (use assms(3) in \<open>cases n rule: escape_cp_cases\<close>)
    case (pair h l)
    with bmp assms(1) have "m = h" using u_escape_append_eq [of m x h "u_escape l @ y"] by simp
    with pair bmp show ?thesis by simp
  next
    case bmp': bmp
    with bmp assms(1) show ?thesis using u_escape_append_eq [of m x n y] by simp
  qed (use bmp assms(1) in \<open>auto simp: u_escape_def short_escapes_not_u\<close>)
next
  case (pair h l)
  show ?thesis
  proof (use assms(3) in \<open>cases n rule: escape_cp_cases\<close>)
    case bmp
    with pair assms(1) have "h = n" using u_escape_append_eq [of h "u_escape l @ x" n y] by simp
    with pair bmp show ?thesis by simp
  next
    case pair': (pair h' l')
    have "u_escape h @ (u_escape l @ x) = u_escape h' @ (u_escape l' @ y)"
      using assms(1) pair(7) pair'(7) by simp
    then have eq: "h = h' \<and> u_escape l @ x = u_escape l' @ y"
      by (rule u_escape_append_eq) (use pair(4) pair'(4) in linarith)+
    then have "l = l' \<and> x = y"
      by (intro u_escape_append_eq conjunct2 [OF eq]) (use pair(6) pair'(6) in linarith)+
    moreover have "n - 0x10000 = 1024 * (h' - 0xD800) + (l' - 0xDC00)"
      unfolding pair'(1,2) by (simp only: diff_add_inverse mult_div_mod_eq)
    moreover have "m - 0x10000 = 1024 * (h - 0xD800) + (l - 0xDC00)"
      unfolding pair(1,2) by (simp only: diff_add_inverse mult_div_mod_eq)
    ultimately have "n - 0x10000 = m - 0x10000" and "x = y" using eq by metis+
    then show ?thesis using pair(3) pair'(3) by linarith
  qed (use pair assms(1) in \<open>auto simp: u_escape_def short_escapes_not_u\<close>)
qed

lemma escape_cp_not_quote: "scalar n \<Longrightarrow> escape_cp n @ x \<noteq> CHR 0x22 # y"
  by (cases n rule: escape_cp_cases) (auto simp: u_escape_def)

lemma dumps_str_append_eq:
  assumes "dumps_str s @ x = dumps_str t @ y" and "\<forall>n \<in> set s. scalar n" and "\<forall>n \<in> set t. scalar n"
  shows "s = t \<and> x = y"
proof -
  have "concat (map escape_cp s) @ CHR 0x22 # x = concat (map escape_cp t) @ CHR 0x22 # y \<Longrightarrow> ?thesis"
    using assms(2,3)
  proof (induction s arbitrary: t)
    case Nil
    then show ?case by (cases t) (auto simp: escape_cp_not_quote dest!: sym [of "CHR 0x22 # x"])
  next
    case (Cons m s)
    show ?case
    proof (cases t)
      case Nil
      with Cons.prems show ?thesis by (auto simp: escape_cp_not_quote)
    next
      case (Cons n t')
      have "m = n \<and> concat (map escape_cp s) @ CHR 0x22 # x = concat (map escape_cp t') @ CHR 0x22 # y"
        by (rule escape_cp_append_eq) (use Cons Cons.prems in auto)
      with Cons.IH [of t'] Cons.prems Cons show ?thesis by auto
    qed
  qed
  with assms(1) show ?thesis by (simp add: dumps_str_def)
qed

subsection \<open>Values\<close>

text \<open>
  What Python can hand the encoder: text made of scalar values, the \<open>repr\<close> of a float
  (decimal digits, sign, point and exponent, or \<open>NaN\<close>, \<open>Infinity\<close>, \<open>-Infinity\<close>), and dicts, whose
  keys are distinct.
\<close>

definition float_repr :: "string \<Rightarrow> bool" where
  "float_repr r \<longleftrightarrow>
     r = ''NaN'' \<or> r = ''Infinity'' \<or> r = ''-Infinity'' \<or>
     (r \<noteq> [] \<and> hd r \<in> insert (CHR ''-'') decimal_digits \<and>
      set r \<subseteq> decimal_digits \<union> set ''-+.e'' \<and> (\<exists>c \<in> set r. c \<in> set ''.e''))"

primrec wf_json :: "json \<Rightarrow> bool" where
  "wf_json JNull = True"
| "wf_json (JBool b) = True"
| "wf_json (JInt i) = True"
| "wf_json (JFloat r) = float_repr r"
| "wf_json (JStr s) = (\<forall>n \<in> set s. scalar n)"
| "wf_json (JArr vs) = list_all id (map wf_json vs)"
| "wf_json (JObj kvs) =
     (distinct (map fst kvs) \<and> (\<forall>k \<in> set (map fst kvs). \<forall>n \<in> set k. scalar n) \<and>
      list_all snd (map (map_prod id wf_json) kvs))"

text \<open>The value with the items of every object in key order.\<close>

primrec canon :: "json \<Rightarrow> json" where
  "canon JNull = JNull"
| "canon (JBool b) = JBool b"
| "canon (JInt i) = JInt i"
| "canon (JFloat r) = JFloat r"
| "canon (JStr s) = JStr s"
| "canon (JArr vs) = JArr (map canon vs)"
| "canon (JObj kvs) = JObj (sort_key fst (map (map_prod id canon) kvs))"

definition stop_char :: "char \<Rightarrow> bool" where
  "stop_char c \<longleftrightarrow> c = CHR '','' \<or> c = CHR '']'' \<or> c = CHR ''}''"

definition stops :: "string \<Rightarrow> bool" where
  "stops r \<longleftrightarrow> r = [] \<or> stop_char (hd r)"

lemma token_append_eq:
  assumes "a @ r = b @ s" and "\<forall>c \<in> set a. \<not> stop_char c" and "\<forall>c \<in> set b. \<not> stop_char c"
    and "stops r" and "stops s"
  shows "a = b \<and> r = s"
proof -
  have tok: "takeWhile (\<lambda>c. \<not> stop_char c) (t @ u) = t"
    if "\<forall>c \<in> set t. \<not> stop_char c" "stops u" for t u
    using that by (cases u) (auto simp: stops_def takeWhile_append2)
  from tok [OF assms(2,4)] tok [OF assms(3,5)] assms(1) have "a = b" by simp
  with assms(1) show ?thesis by simp
qed

lemma no_stop_digits: "c \<in> decimal_digits \<Longrightarrow> \<not> stop_char c"
  by (auto simp: decimal_digits_def stop_char_def)

lemma no_stop_dec_int: "\<forall>c \<in> set (dec_int i). \<not> stop_char c"
  using set_dec_int [of i] by (auto simp: stop_char_def decimal_digits_def)

lemma no_stop_float: "float_repr r \<Longrightarrow> \<forall>c \<in> set r. \<not> stop_char c"
  unfolding float_repr_def by (elim disjE) (auto simp: stop_char_def decimal_digits_def)

lemma float_repr_not_int: "float_repr r \<Longrightarrow> r \<noteq> dec_int i"
proof
  assume r: "float_repr r" "r = dec_int i"
  then have "set r \<subseteq> insert (CHR ''-'') decimal_digits" using set_dec_int by simp
  with r(1) show False unfolding float_repr_def by (elim disjE) (auto simp: decimal_digits_def)
qed

lemma dec_int_nonempty: "dec_int i \<noteq> []"
  by (simp add: dec_int_def dec_nat_nonempty)

lemma hd_dec_int: "hd (dec_int i) \<in> insert (CHR ''-'') decimal_digits"
  using set_dec_int [of i] hd_in_set [OF dec_int_nonempty] by blast

text \<open>The first character of an encoding tells the kind of the value, numbers apart.\<close>

definition kind_char :: "json \<Rightarrow> char \<Rightarrow> bool" where
  "kind_char v c =
     (case v of JNull \<Rightarrow> c = CHR ''n'' | JBool b \<Rightarrow> c = (if b then CHR ''t'' else CHR ''f'')
      | JInt i \<Rightarrow> c \<in> insert (CHR ''-'') decimal_digits
      | JFloat r \<Rightarrow> c \<in> decimal_digits \<union> set ''-NI''
      | JStr s \<Rightarrow> c = CHR 0x22 | JArr vs \<Rightarrow> c = CHR ''['' | JObj kvs \<Rightarrow> c = CHR ''{'')"

lemma hd_dumps: "wf_json v \<Longrightarrow> dumps v \<noteq> [] \<and> kind_char v (hd (dumps v))"
  using hd_dec_int dec_int_nonempty
  by (cases v) (auto simp: kind_char_def dumps_str_def float_repr_def)

lemma kind_char_agree:
  assumes "dumps v @ r = dumps w @ s" and "wf_json v" and "wf_json w"
  shows "\<exists>c. kind_char v c \<and> kind_char w c"
  using hd_dumps [OF assms(2)] hd_dumps [OF assms(3)] assms(1)
  by (metis hd_append2)

lemma kind_char_not_stop: "kind_char v c \<Longrightarrow> \<not> stop_char c"
  by (cases v) (auto simp: kind_char_def stop_char_def decimal_digits_def split: if_splits)

text \<open>
  Decoding of a comma-separated sequence, for elements that are decodable one by one: the
  encodings are read off from the left up to the closing bracket.
\<close>

lemma join_comma_Cons:
  "join_comma (x # xs) @ c # r = x @ (if xs = [] then c # r else CHR '','' # join_comma xs @ c # r)"
  by (cases xs) auto

lemma join_decode:
  assumes one: "\<And>x y r s. x \<in> set xs \<Longrightarrow> y \<in> set ys \<Longrightarrow> f x @ r = f y @ s \<Longrightarrow> stops r \<Longrightarrow> stops s \<Longrightarrow>
      h x = h y \<and> r = s"
    and start: "\<And>x. x \<in> set xs \<union> set ys \<Longrightarrow> f x \<noteq> [] \<and> \<not> stop_char (hd (f x))"
    and c: "stop_char c" "c \<noteq> CHR '',''"
    and eq: "join_comma (map f xs) @ c # r = join_comma (map f ys) @ c # s"
  shows "map h xs = map h ys \<and> r = s"
  using one start eq
proof (induction xs arbitrary: ys)
  case Nil
  show ?case
  proof (cases ys)
    case (Cons y ys')
    have "f y \<noteq> []" "\<not> stop_char (hd (f y))" using Nil.prems(2) Cons by auto
    with Nil.prems(3) Cons c(1) show ?thesis
      by (cases "f y") (auto simp: join_comma_Cons)
  qed (use Nil in simp)
next
  case (Cons x xs)
  show ?case
  proof (cases ys)
    case Nil
    have "f x \<noteq> []" "\<not> stop_char (hd (f x))" using Cons.prems(2) by auto
    with Cons.prems(3) Nil c(1) show ?thesis
      by (cases "f x") (auto simp: join_comma_Cons)
  next
    case ys: (Cons y ys')
    let ?R = "if map f xs = [] then c # r else CHR '','' # join_comma (map f xs) @ c # r"
    let ?S = "if map f ys' = [] then c # s else CHR '','' # join_comma (map f ys') @ c # s"
    have "f x @ ?R = f y @ ?S"
      using Cons.prems(3) by (simp only: ys list.map join_comma_Cons)
    moreover have "stops ?R" "stops ?S" using c(1) by (auto simp: stops_def stop_char_def)
    ultimately have "h x = h y" and RS: "?R = ?S"
      using Cons.prems(1) [of x y ?R ?S] ys by auto
    moreover have "map h xs = map h ys' \<and> r = s"
    proof (cases "xs = []")
      case True
      with RS c(2) show ?thesis by (auto split: if_splits)
    next
      case False
      with RS c(2) have "join_comma (map f xs) @ c # r = join_comma (map f ys') @ c # s"
        by (auto split: if_splits)
      then show ?thesis using Cons.prems(1,2) ys by (intro Cons.IH) auto
    qed
    ultimately show ?thesis by (simp add: ys)
  qed
qed

lemma insort_key_map_prod:
  "insort_key fst (map_prod id g x) (map (map_prod id g) xs) = map (map_prod id g) (insort_key fst x xs)"
  by (induction xs) auto

lemma sort_key_map_prod:
  "sort_key fst (map (map_prod id g) kvs) = map (map_prod id g) (sort_key fst kvs)"
proof (induction kvs)
  case (Cons kv kvs)
  then show ?case using insort_key_map_prod [of g kv "sort_key fst kvs"] by (simp add: id_def)
qed simp

definition item_dumps :: "pytext \<times> json \<Rightarrow> string" where
  "item_dumps kv = item_text (map_prod id dumps kv)"

lemma dumps_JObj: "dumps (JObj kvs) = CHR ''{'' # join_comma (map item_dumps (sort_key fst kvs)) @ ''}''"
  by (simp add: sort_key_map_prod comp_def flip: item_dumps_def)

lemma canon_JObj: "canon (JObj kvs) = JObj (map (map_prod id canon) (sort_key fst kvs))"
  by (simp add: sort_key_map_prod)

lemma wf_item: "wf_json (JObj kvs) \<Longrightarrow> kv \<in> set kvs \<Longrightarrow> (\<forall>n \<in> set (fst kv). scalar n) \<and> wf_json (snd kv)"
  by (auto simp: list_all_iff)

lemma item_decode:
  assumes "item_dumps x @ r = item_dumps y @ s"
    and "\<forall>n \<in> set (fst x). scalar n" and "\<forall>n \<in> set (fst y). scalar n"
    and val: "dumps (snd x) @ r = dumps (snd y) @ s \<Longrightarrow> canon (snd x) = canon (snd y) \<and> r = s"
  shows "map_prod id canon x = map_prod id canon y \<and> r = s"
proof -
  have "dumps_str (fst x) @ CHR '':'' # dumps (snd x) @ r = dumps_str (fst y) @ CHR '':'' # dumps (snd y) @ s"
    using assms(1) by (simp add: item_dumps_def item_text_def)
  then have "fst x = fst y \<and> CHR '':'' # dumps (snd x) @ r = CHR '':'' # dumps (snd y) @ s"
    using assms(2,3) by (rule dumps_str_append_eq)
  with val show ?thesis by (auto simp: prod_eq_iff)
qed

lemma item_start: "item_dumps x \<noteq> [] \<and> \<not> stop_char (hd (item_dumps x))"
  by (simp add: item_dumps_def item_text_def dumps_str_def stop_char_def)

lemma dumps_start: "wf_json v \<Longrightarrow> dumps v \<noteq> [] \<and> \<not> stop_char (hd (dumps v))"
  using hd_dumps kind_char_not_stop by blast

lemma is_number_agree:
  assumes "is_JInt v \<or> is_JFloat v" and "kind_char v c" and "kind_char w c"
  shows "is_JInt w \<or> is_JFloat w"
  using assms by (cases v; cases w) (auto simp: kind_char_def decimal_digits_def split: if_splits)

lemma number_decode:
  assumes "is_JInt v \<or> is_JFloat v" and "wf_json v" and "wf_json w"
    and eq: "dumps v @ r = dumps w @ s" and stop: "stops r" "stops s"
  shows "canon v = canon w \<and> r = s"
proof -
  have num: "is_JInt w \<or> is_JFloat w"
    using kind_char_agree [OF eq assms(2,3)] is_number_agree [OF assms(1)] by blast
  have "\<forall>c \<in> set (dumps v). \<not> stop_char c" "\<forall>c \<in> set (dumps w). \<not> stop_char c"
    using assms(1-3) num no_stop_dec_int no_stop_float by (cases v; cases w; simp)+
  from token_append_eq [OF eq this stop] have "dumps v = dumps w" and "r = s" by auto
  moreover from this(1) have "v = w"
    using assms(1-3) num by (cases v; cases w) (auto dest: dec_int_inj float_repr_not_int)
  ultimately show ?thesis by simp
qed

lemma dumps_decode:
  "wf_json v \<Longrightarrow> wf_json w \<Longrightarrow> dumps v @ r = dumps w @ s \<Longrightarrow> stops r \<Longrightarrow> stops s \<Longrightarrow>
   canon v = canon w \<and> r = s"
proof (induction v arbitrary: w r s)
  case JNull
  then show ?case
    using kind_char_agree [OF JNull.prems(3,1,2)]
    by (cases w) (auto simp: kind_char_def decimal_digits_def split: if_splits)
next
  case (JBool b)
  then show ?case
    using kind_char_agree [OF JBool.prems(3,1,2)]
    by (cases w) (auto simp: kind_char_def decimal_digits_def split: if_splits)
next
  case (JInt i)
  then show ?case by (intro number_decode) auto
next
  case (JFloat x)
  then show ?case by (intro number_decode) auto
next
  case (JStr x)
  from JStr.prems show ?case
    using kind_char_agree [OF JStr.prems(3,1,2)] dumps_str_append_eq [of x r _ s]
    by (cases w) (auto simp: kind_char_def decimal_digits_def split: if_splits)
next
  case (JArr vs)
  obtain ws where w: "w = JArr ws"
    using kind_char_agree [OF JArr.prems(3,1,2)] by (cases w) (auto simp: kind_char_def decimal_digits_def split: if_splits)
  have "map canon vs = map canon ws \<and> r = s"
  proof (rule join_decode [where f = dumps and c = "CHR '']''"])
    fix x y r s
    assume "x \<in> set vs" "y \<in> set ws" "dumps x @ r = dumps y @ s" "stops r" "stops s"
    then show "canon x = canon y \<and> r = s"
      using JArr.prems(1,2) w by (intro JArr.IH) (auto simp: list_all_iff)
  next
    show "join_comma (map dumps vs) @ CHR '']'' # r = join_comma (map dumps ws) @ CHR '']'' # s"
      using JArr.prems(3) by (simp add: w)
  qed (use JArr.prems(1,2) w in \<open>auto simp: list_all_iff stop_char_def dest: dumps_start [THEN conjunct1]
      dumps_start [THEN conjunct2, unfolded stop_char_def]\<close>)
  then show ?case by (simp add: w)
next
  case (JObj kvs)
  obtain lvs where w: "w = JObj lvs"
    using kind_char_agree [OF JObj.prems(3,1,2)] by (cases w) (auto simp: kind_char_def decimal_digits_def split: if_splits)
  let ?xs = "sort_key fst kvs" and ?ys = "sort_key fst lvs"
  have "map (map_prod id canon) ?xs = map (map_prod id canon) ?ys \<and> r = s"
  proof (rule join_decode [where f = item_dumps and c = "CHR ''}''"])
    fix x y r s
    assume x: "x \<in> set ?xs" "y \<in> set ?ys" and eq: "item_dumps x @ r = item_dumps y @ s" "stops r" "stops s"
    have wf: "(\<forall>n \<in> set (fst x). scalar n) \<and> wf_json (snd x)" "(\<forall>n \<in> set (fst y). scalar n) \<and> wf_json (snd y)"
      using wf_item [OF JObj.prems(1), of x] wf_item [of lvs y] JObj.prems(2) x w by simp_all
    show "map_prod id canon x = map_prod id canon y \<and> r = s"
    proof (rule item_decode [OF eq(1)])
      assume "dumps (snd x) @ r = dumps (snd y) @ s"
      then show "canon (snd x) = canon (snd y) \<and> r = s"
        using x(1) wf eq(2,3) by (intro JObj.IH [of x]) (auto simp: snds.simps prod_set_simps prod_set_defs)
    qed (use wf in auto)
  next
    show "join_comma (map item_dumps ?xs) @ CHR ''}'' # r = join_comma (map item_dumps ?ys) @ CHR ''}'' # s"
      using JObj.prems(3) by (simp add: w dumps_JObj del: dumps.simps)
  qed (use item_start in \<open>auto simp: stop_char_def\<close>)
  then show ?case by (simp add: w canon_JObj del: canon.simps)
qed

lemma dumps_canon: "dumps (canon v) = dumps v"
proof (induction v)
  case (JArr vs)
  then show ?case by (simp add: comp_def cong: map_cong)
next
  case (JObj kvs)
  have "item_dumps (map_prod id canon kv) = item_dumps kv" if "kv \<in> set kvs" for kv
    using JObj [of kv "snd kv"] that
    by (simp add: item_dumps_def item_text_def snds.simps prod_set_defs)
  then have "map (item_dumps \<circ> map_prod id canon) (sort_key fst kvs) = map item_dumps (sort_key fst kvs)"
    by simp
  moreover have "sort_key fst (map (map_prod id canon) (sort_key fst kvs)) = map (map_prod id canon) (sort_key fst kvs)"
    by (simp add: sort_key_map_prod sort_key_id_if_sorted)
  ultimately show ?case by (simp only: canon_JObj dumps_JObj list.map_comp)
qed simp_all

text \<open>
  C39. The canonical encoding of the audit log loses nothing and depends on nothing else:
  two values Python can encode have the same text if and only if they are equal up to the
  order in which their dicts were built.
\<close>

theorem dumps_eq_iff:
  assumes "wf_json v" and "wf_json w"
  shows "dumps v = dumps w \<longleftrightarrow> canon v = canon w"
proof
  assume "dumps v = dumps w"
  then show "canon v = canon w"
    using dumps_decode [OF assms, of "[]" "[]"] by (simp add: stops_def)
next
  assume "canon v = canon w"
  then show "dumps v = dumps w" by (metis dumps_canon)
qed

theorem dumps_eq_iff_witness:
  "dumps (JObj [(ptext ''b'', JStr (ptext ''x'')), (ptext ''a'', JInt (- 7))]) =
   dumps (JObj [(ptext ''a'', JInt (- 7)), (ptext ''b'', JStr (ptext ''x''))])"
  using dumps_eq_iff [of "JObj [(ptext ''b'', JStr (ptext ''x'')), (ptext ''a'', JInt (- 7))]"
      "JObj [(ptext ''a'', JInt (- 7)), (ptext ''b'', JStr (ptext ''x''))]"]
  by (simp add: ptext_def wf_json.simps canon.simps scalar_def)

end
