(* ===== verification/Score_Audit.thy ===== *)
theory Score_Audit
  imports Canonical_Json
begin

text \<open>
  The hash-chained, append-only score audit log, \<open>ditto/db/queries/audit.py\<close>. The table
  \<open>score_audit_entries\<close> is the list of its rows. SHA-256 is a parameter \<open>sha\<close> of the
  definitions that hash (the hexadecimal digest of a byte string); no theorem assumes anything
  about it: where tampering goes unnoticed the theorem exhibits a collision.

  A recorded instant is kept in the fields of a \<open>datetime\<close> in UTC, because its ISO-8601
  text is part of the hash preimage.
\<close>

record datetime =
  dt_year :: nat
  dt_month :: nat
  dt_day :: nat
  dt_hour :: nat
  dt_minute :: nat
  dt_second :: nat
  dt_microsecond :: nat

record audit_entry =
  a_seq :: int
  a_agent_id :: uuid
  a_validator_hotkey :: "pytext option"
  a_event :: pytext
  a_payload :: "(pytext \<times> json) list"
  a_prev_hash :: string
  a_entry_hash :: string
  a_recorded_at :: datetime

definition GENESIS_HASH :: string where
  "GENESIS_HASH = replicate 64 (CHR ''0'')"

definition EVENT_SCORE_INVALIDATED :: pytext where
  "EVENT_SCORE_INVALIDATED = ptext ''score_invalidated''"

definition EVENT_SCORE_RETEST_QUEUED :: pytext where
  "EVENT_SCORE_RETEST_QUEUED = ptext ''score_retest_queued''"

definition EVENT_SCORE_RETEST_REQUESTED :: pytext where
  "EVENT_SCORE_RETEST_REQUESTED = ptext ''score_retest_requested''"

definition EVENT_SCORE_RETEST_RELEASED :: pytext where
  "EVENT_SCORE_RETEST_RELEASED = ptext ''score_retest_released''"

definition SCORE_RETEST_EVENTS :: "pytext list" where
  "SCORE_RETEST_EVENTS =
     [EVENT_SCORE_RETEST_QUEUED, EVENT_SCORE_RETEST_REQUESTED,
      EVENT_SCORE_INVALIDATED, EVENT_SCORE_RETEST_RELEASED]"

subsection \<open>The hash preimage\<close>

definition iso_utc :: "datetime \<Rightarrow> string" where
  "iso_utc d =
     pad_dec 4 (dt_year d) @ ''-'' @ pad_dec 2 (dt_month d) @ ''-'' @ pad_dec 2 (dt_day d) @ ''T'' @
     pad_dec 2 (dt_hour d) @ '':'' @ pad_dec 2 (dt_minute d) @ '':'' @ pad_dec 2 (dt_second d) @
     (if dt_microsecond d = 0 then [] else ''.'' @ pad_dec 6 (dt_microsecond d)) @ ''+00:00''"

definition uuid_str :: "uuid \<Rightarrow> string" where
  "uuid_str u =
     pad_hex 8 (u div 2 ^ 96) @ ''-'' @ pad_hex 4 (u div 2 ^ 80) @ ''-'' @
     pad_hex 4 (u div 2 ^ 64) @ ''-'' @ pad_hex 4 (u div 2 ^ 48) @ ''-'' @ pad_hex 12 u"

definition entry_content ::
  "uuid \<Rightarrow> pytext option \<Rightarrow> pytext \<Rightarrow> (pytext \<times> json) list \<Rightarrow> datetime \<Rightarrow> string \<Rightarrow> json" where
  "entry_content agent_id validator_hotkey event payload recorded_at prev_hash =
     JObj [(ptext ''agent_id'', JStr (ptext (uuid_str agent_id))),
           (ptext ''validator_hotkey'', case validator_hotkey of None \<Rightarrow> JNull | Some h \<Rightarrow> JStr h),
           (ptext ''event'', JStr event),
           (ptext ''payload'', JObj payload),
           (ptext ''recorded_at'', JStr (ptext (iso_utc recorded_at))),
           (ptext ''prev_hash'', JStr (ptext prev_hash))]"

definition canonical_bytes :: "json \<Rightarrow> string" where
  "canonical_bytes content = dumps content"

definition compute_entry_hash :: "(string \<Rightarrow> string) \<Rightarrow> json \<Rightarrow> string" where
  "compute_entry_hash sha content = sha (canonical_bytes content)"

definition content_of :: "audit_entry \<Rightarrow> json" where
  "content_of e =
     entry_content (a_agent_id e) (a_validator_hotkey e) (a_event e) (a_payload e)
       (a_recorded_at e) (a_prev_hash e)"

subsection \<open>Appending and reading\<close>

text \<open>\<open>ORDER BY seq DESC LIMIT 1\<close>.\<close>

definition newest :: "audit_entry list \<Rightarrow> audit_entry option" where
  "newest rows = (case sort_key (\<lambda>e. - a_seq e) rows of [] \<Rightarrow> None | e # _ \<Rightarrow> Some e)"

definition get_audit_head :: "audit_entry list \<Rightarrow> audit_entry option" where
  "get_audit_head rows = newest rows"

text \<open>The sequence number \<open>seq\<close> is the value the table's identity column gives the new row.\<close>

definition append_audit_entry ::
  "(string \<Rightarrow> string) \<Rightarrow> int \<Rightarrow> uuid \<Rightarrow> pytext option \<Rightarrow> pytext \<Rightarrow> (pytext \<times> json) list \<Rightarrow> datetime \<Rightarrow>
   audit_entry list \<Rightarrow> audit_entry list \<times> audit_entry" where
  "append_audit_entry sha seq agent_id validator_hotkey event payload recorded_at rows =
     (let prev_hash = (case newest rows of Some head \<Rightarrow> a_entry_hash head | None \<Rightarrow> GENESIS_HASH);
          content = entry_content agent_id validator_hotkey event payload recorded_at prev_hash;
          entry = \<lparr>a_seq = seq, a_agent_id = agent_id, a_validator_hotkey = validator_hotkey,
                   a_event = event, a_payload = payload, a_prev_hash = prev_hash,
                   a_entry_hash = compute_entry_hash sha content, a_recorded_at = recorded_at\<rparr>
      in (rows @ [entry], entry))"

definition list_audit_entries :: "int \<Rightarrow> nat \<Rightarrow> audit_entry list \<Rightarrow> audit_entry list" where
  "list_audit_entries since_seq limit rows =
     take limit (sort_key a_seq (filter (\<lambda>e. a_seq e > since_seq) rows))"

definition get_latest_score_retest_event ::
  "uuid \<Rightarrow> pytext \<Rightarrow> audit_entry list \<Rightarrow> audit_entry option" where
  "get_latest_score_retest_event agent_id validator_hotkey rows =
     newest (filter (\<lambda>e. a_agent_id e = agent_id \<and> a_validator_hotkey e = Some validator_hotkey \<and>
                         a_event e \<in> set SCORE_RETEST_EVENTS) rows)"

fun verify_audit_chain :: "(string \<Rightarrow> string) \<Rightarrow> string \<Rightarrow> audit_entry list \<Rightarrow> bool" where
  "verify_audit_chain sha running [] = True"
| "verify_audit_chain sha running (entry # entries) =
     (if a_prev_hash entry \<noteq> running then False
      else if compute_entry_hash sha (content_of entry) \<noteq> a_entry_hash entry then False
      else verify_audit_chain sha (a_entry_hash entry) entries)"

subsection \<open>Linked logs\<close>

text \<open>
  What a verifier of a linked log relies on: the check walks the list, and the content that is
  digested fixes the link to the predecessor. The results are about any such log.
\<close>

locale linked_log =
  fixes content :: "'e \<Rightarrow> 'c"
    and digest :: "'c \<Rightarrow> 'h"
    and prev :: "'e \<Rightarrow> 'h"
    and own :: "'e \<Rightarrow> 'h"
    and verify :: "'h \<Rightarrow> 'e list \<Rightarrow> bool"
    and wf :: "'e \<Rightarrow> bool"
  assumes verify_Nil: "verify h []"
    and verify_Cons: "verify h (e # es) \<longleftrightarrow> prev e = h \<and> digest (content e) = own e \<and> verify (own e) es"
    and content_prev: "wf e \<Longrightarrow> wf e' \<Longrightarrow> content e = content e' \<Longrightarrow> prev e = prev e'"
begin

definition tip :: "'h \<Rightarrow> 'e list \<Rightarrow> 'h" where
  "tip h es = (if es = [] then h else own (last es))"

definition collides :: "'e list \<Rightarrow> 'e list \<Rightarrow> bool" where
  "collides es es' \<longleftrightarrow>
     (\<exists>e \<in> set es. \<exists>e' \<in> set es'. content e \<noteq> content e' \<and> digest (content e) = digest (content e'))"

lemma tip_simps [simp]: "tip h [] = h" "tip h (es @ [e]) = own e"
  by (simp_all add: tip_def)

lemma tip_Cons: "tip h (e # es) = tip (own e) es"
  by (cases es) (simp_all add: tip_def)

lemma verify_append: "verify h (es @ es') \<longleftrightarrow> verify h es \<and> verify (tip h es) es'"
  by (induction es arbitrary: h) (auto simp: verify_Nil verify_Cons tip_Cons)

lemma verify_snoc:
  "verify h (es @ [e]) \<longleftrightarrow> verify h es \<and> prev e = tip h es \<and> digest (content e) = own e"
  by (auto simp: verify_append verify_Cons verify_Nil)

text \<open>One step back from a common tip.\<close>

lemma verify_snoc_agree:
  assumes "verify h (es @ [e])" and "verify h (es' @ [e'])" and "own e = own e'"
    and "\<not> collides (es @ [e]) (es' @ [e'])" and "wf e" and "wf e'"
  shows "content e = content e' \<and> tip h es = tip h es' \<and> verify h es \<and> verify h es' \<and> \<not> collides es es'"
proof -
  have "digest (content e) = digest (content e')" using assms(1-3) by (simp add: verify_snoc)
  with assms(4) have "content e = content e'" by (auto simp: collides_def)
  moreover from this have "prev e = prev e'" using assms(5,6) by (intro content_prev)
  moreover have "\<not> collides es es'" using assms(4) by (auto simp: collides_def)
  ultimately show ?thesis using assms(1,2) by (simp add: verify_snoc)
qed

lemma same_tip_same_content:
  assumes "verify h es" "verify h es'" "tip h es = tip h es'" "length es = length es'"
    and "\<not> collides es es'" and "\<forall>e \<in> set es \<union> set es'. wf e"
  shows "list_all2 (\<lambda>e e'. content e = content e' \<and> own e = own e') es es'"
  using assms
proof (induction es arbitrary: es' rule: rev_induct)
  case Nil
  then show ?case by simp
next
  case (snoc e es)
  then obtain fs f where es': "es' = fs @ [f]" by (cases es' rule: rev_cases) auto
  have "own e = own f" using snoc.prems(3) es' by simp
  then have *: "content e = content f \<and> tip h es = tip h fs \<and> verify h es \<and> verify h fs \<and> \<not> collides es fs"
    using snoc.prems es' by (intro verify_snoc_agree) auto
  then have "list_all2 (\<lambda>e e'. content e = content e' \<and> own e = own e') es fs"
    using snoc.prems es' by (intro snoc.IH) auto
  with * \<open>own e = own f\<close> show ?case by (simp add: es' list_all2_appendI)
qed

lemma same_tip_longer:
  assumes "verify h es" "verify h es'" "tip h es = tip h es'" "length es < length es'"
    and "\<not> collides es es'" and "\<forall>e \<in> set es \<union> set es'. wf e"
  shows "\<exists>e \<in> set es'. digest (content e) = h"
  using assms
proof (induction es arbitrary: es' rule: rev_induct)
  case Nil
  then obtain fs f where es': "es' = fs @ [f]" by (cases es' rule: rev_cases) auto
  with Nil show ?case by (auto simp: verify_snoc)
next
  case (snoc e es)
  then obtain fs f where es': "es' = fs @ [f]" by (cases es' rule: rev_cases) auto
  have "own e = own f" using snoc.prems(3) es' by simp
  then have *: "content e = content f \<and> tip h es = tip h fs \<and> verify h es \<and> verify h fs \<and> \<not> collides es fs"
    using snoc.prems es' by (intro verify_snoc_agree) auto
  then have "\<exists>e \<in> set fs. digest (content e) = h"
    using snoc.prems es' by (intro snoc.IH) auto
  then show ?case by (auto simp: es')
qed

end

subsection \<open>The preimage determines the entry\<close>

lemma map_of_sort_key:
  "distinct (map fst kvs) \<Longrightarrow> map_of (sort_key fst kvs) = map_of kvs"
  by (subst map_of_inject_set) (simp_all add: distinct_map)

lemma map_of_map_prod: "map_of (map (map_prod id g) kvs) k = map_option g (map_of kvs k)"
  by (induction kvs) auto

lemma canon_JObj_lookup:
  assumes "canon (JObj xs) = canon (JObj ys)" and "distinct (map fst xs)" and "distinct (map fst ys)"
  shows "map_option canon (map_of xs k) = map_option canon (map_of ys k)"
proof -
  have "map (map_prod id canon) (sort_key fst xs) = map (map_prod id canon) (sort_key fst ys)"
    using assms(1) by (simp only: canon_JObj json.inject)
  then have "map_of (map (map_prod id canon) (sort_key fst xs)) k = map_of (map (map_prod id canon) (sort_key fst ys)) k"
    by simp
  then show ?thesis by (simp add: map_of_map_prod map_of_sort_key assms)
qed

lemma ptext_inj: "ptext s = ptext t \<Longrightarrow> s = t"
  unfolding ptext_def by (rule map_injective) (auto intro: injI)

lemma ptext_scalar: "\<forall>n \<in> set (ptext s). scalar n"
proof
  fix n assume "n \<in> set (ptext s)"
  then have "n < 256" by (auto simp: ptext_def)
  then show "scalar n" by (simp add: scalar_def)
qed

definition wf_datetime :: "datetime \<Rightarrow> bool" where
  "wf_datetime d \<longleftrightarrow>
     dt_year d < 10000 \<and> dt_month d < 100 \<and> dt_day d < 100 \<and> dt_hour d < 100 \<and>
     dt_minute d < 100 \<and> dt_second d < 100 \<and> dt_microsecond d < 1000000"

lemma pad_dec_append_eq:
  assumes "pad_dec w m @ x = pad_dec w n @ y" and "m < 10 ^ w" and "n < 10 ^ w"
  shows "m = n \<and> x = y"
proof -
  from assms(1) have "pad_dec w m = pad_dec w n" and "x = y" by (auto simp: append_eq_append_conv)
  with pad_dec_inj assms(2,3) show ?thesis by fastforce
qed

lemma iso_utc_inj:
  assumes "iso_utc d = iso_utc e" and "wf_datetime d" and "wf_datetime e"
  shows "d = e"
proof -
  have tail: "m = n"
    if "(if m = 0 then [] else CHR ''.'' # pad_dec 6 m) @ ''+00:00'' = (if n = 0 then [] else CHR ''.'' # pad_dec 6 n) @ ''+00:00''"
      and "m < 1000000" "n < 1000000" for m n :: nat
    using that pad_dec_append_eq [of 6 m "''+00:00''" n "''+00:00''"]
    by (auto split: if_splits)
  have w: "dt_year d < 10 ^ 4" "dt_year e < 10 ^ 4" "dt_month d < 10 ^ 2" "dt_month e < 10 ^ 2"
    "dt_day d < 10 ^ 2" "dt_day e < 10 ^ 2" "dt_hour d < 10 ^ 2" "dt_hour e < 10 ^ 2"
    "dt_minute d < 10 ^ 2" "dt_minute e < 10 ^ 2" "dt_second d < 10 ^ 2" "dt_second e < 10 ^ 2"
    "dt_microsecond d < 1000000" "dt_microsecond e < 1000000"
    using assms(2,3) by (auto simp: wf_datetime_def)
  note eq1 = pad_dec_append_eq [OF assms(1) [unfolded iso_utc_def] w(1,2)]
  note eq2 = pad_dec_append_eq [OF conjunct2 [OF eq1, unfolded append_Cons append_Nil list.inject, THEN conjunct2] w(3,4)]
  note eq3 = pad_dec_append_eq [OF conjunct2 [OF eq2, unfolded append_Cons append_Nil list.inject, THEN conjunct2] w(5,6)]
  note eq4 = pad_dec_append_eq [OF conjunct2 [OF eq3, unfolded append_Cons append_Nil list.inject, THEN conjunct2] w(7,8)]
  note eq5 = pad_dec_append_eq [OF conjunct2 [OF eq4, unfolded append_Cons append_Nil list.inject, THEN conjunct2] w(9,10)]
  note eq6 = pad_dec_append_eq [OF conjunct2 [OF eq5, unfolded append_Cons append_Nil list.inject, THEN conjunct2] w(11,12)]
  have "dt_microsecond d = dt_microsecond e"
    by (rule tail [OF conjunct2 [OF eq6] w(13,14)])
  with eq1 eq2 eq3 eq4 eq5 eq6 show ?thesis by (intro datetime.equality) simp_all
qed

lemma pad_hex_append_eq:
  assumes "pad_hex w m @ x = pad_hex w n @ y"
  shows "m mod 16 ^ w = n mod 16 ^ w \<and> x = y"
proof -
  from assms have "pad_hex w m = pad_hex w n" and "x = y" by (auto simp: append_eq_append_conv)
  with pad_hex_inj show ?thesis by blast
qed

lemma div_mod_step:
  "(u :: nat) div (b * c) = v div (b * c) \<Longrightarrow> u div b mod c = v div b mod c \<Longrightarrow> u div b = v div b"
  by (metis div_mult2_eq div_mult_mod_eq)

lemma uuid_str_inj:
  assumes "uuid_str u = uuid_str v" and "u < 2 ^ 128" and "v < 2 ^ 128"
  shows "u = v"
proof -
  note e1 = pad_hex_append_eq [OF assms(1) [unfolded uuid_str_def]]
  note e2 = pad_hex_append_eq [OF conjunct2 [OF e1, unfolded append_Cons append_Nil list.inject, THEN conjunct2]]
  note e3 = pad_hex_append_eq [OF conjunct2 [OF e2, unfolded append_Cons append_Nil list.inject, THEN conjunct2]]
  note e4 = pad_hex_append_eq [OF conjunct2 [OF e3, unfolded append_Cons append_Nil list.inject, THEN conjunct2]]
  note e5 = pad_hex_inj [OF conjunct2 [OF e4, unfolded append_Cons append_Nil list.inject, THEN conjunct2]]
  have "u div 2 ^ 96 < 16 ^ 8" "v div 2 ^ 96 < 16 ^ 8"
    using assms(2,3) by (simp_all add: div_less_iff_less_mult)
  with e1 have a: "u div (2 ^ 80 * 16 ^ 4) = v div (2 ^ 80 * 16 ^ 4)" by simp
  from div_mod_step [OF a conjunct1 [OF e2]] have "u div (2 ^ 64 * 16 ^ 4) = v div (2 ^ 64 * 16 ^ 4)" by simp
  from div_mod_step [OF this conjunct1 [OF e3]] have "u div (2 ^ 48 * 16 ^ 4) = v div (2 ^ 48 * 16 ^ 4)" by simp
  from div_mod_step [OF this conjunct1 [OF e4]] have "u div (1 * 16 ^ 12) = v div (1 * 16 ^ 12)" by simp
  from div_mod_step [OF this] e5 show ?thesis by simp
qed

definition wf_entry :: "audit_entry \<Rightarrow> bool" where
  "wf_entry e \<longleftrightarrow>
     a_agent_id e < 2 ^ 128 \<and> wf_datetime (a_recorded_at e) \<and>
     (\<forall>n \<in> set (a_event e). scalar n) \<and>
     (case a_validator_hotkey e of None \<Rightarrow> True | Some h \<Rightarrow> \<forall>n \<in> set h. scalar n) \<and>
     wf_json (JObj (a_payload e))"

text \<open>Two rows record the same event: everything but the sequence number, the payload as a dict.\<close>

definition same_record :: "audit_entry \<Rightarrow> audit_entry \<Rightarrow> bool" where
  "same_record e e' \<longleftrightarrow>
     a_agent_id e = a_agent_id e' \<and> a_validator_hotkey e = a_validator_hotkey e' \<and>
     a_event e = a_event e' \<and> canon (JObj (a_payload e)) = canon (JObj (a_payload e')) \<and>
     a_recorded_at e = a_recorded_at e' \<and> a_prev_hash e = a_prev_hash e' \<and>
     a_entry_hash e = a_entry_hash e'"

definition entry_items :: "audit_entry \<Rightarrow> (pytext \<times> json) list" where
  "entry_items e =
     [(ptext ''agent_id'', JStr (ptext (uuid_str (a_agent_id e)))),
      (ptext ''validator_hotkey'', case a_validator_hotkey e of None \<Rightarrow> JNull | Some h \<Rightarrow> JStr h),
      (ptext ''event'', JStr (a_event e)),
      (ptext ''payload'', JObj (a_payload e)),
      (ptext ''recorded_at'', JStr (ptext (iso_utc (a_recorded_at e)))),
      (ptext ''prev_hash'', JStr (ptext (a_prev_hash e)))]"

lemma content_of_items: "content_of e = JObj (entry_items e)"
  by (simp add: content_of_def entry_content_def entry_items_def)

lemma ptext_eq_iff [simp]: "ptext s = ptext t \<longleftrightarrow> s = t"
  by (auto dest: ptext_inj)

lemma entry_items_distinct: "distinct (map fst (entry_items e))"
  by (simp add: entry_items_def)

lemma entry_items_lookup:
  "map_of (entry_items e) (ptext ''agent_id'') = Some (JStr (ptext (uuid_str (a_agent_id e))))"
  "map_of (entry_items e) (ptext ''validator_hotkey'') =
     Some (case a_validator_hotkey e of None \<Rightarrow> JNull | Some h \<Rightarrow> JStr h)"
  "map_of (entry_items e) (ptext ''event'') = Some (JStr (a_event e))"
  "map_of (entry_items e) (ptext ''payload'') = Some (JObj (a_payload e))"
  "map_of (entry_items e) (ptext ''recorded_at'') = Some (JStr (ptext (iso_utc (a_recorded_at e))))"
  "map_of (entry_items e) (ptext ''prev_hash'') = Some (JStr (ptext (a_prev_hash e)))"
  by (simp_all add: entry_items_def)

lemma wf_content: "wf_entry e \<Longrightarrow> wf_json (content_of e)"
  using entry_items_distinct [of e] ptext_scalar
  by (auto simp: content_of_items entry_items_def wf_entry_def split: option.splits)

lemma content_of_inj:
  assumes wf: "wf_entry e" "wf_entry e'"
    and bytes: "canonical_bytes (content_of e) = canonical_bytes (content_of e')"
    and hash: "a_entry_hash e = a_entry_hash e'"
  shows "same_record e e'"
proof -
  have "canon (content_of e) = canon (content_of e')"
    using dumps_decode [OF wf_content wf_content, of e e' "[]" "[]"] wf bytes
    by (simp add: canonical_bytes_def stops_def)
  then have look: "map_option canon (map_of (entry_items e) k) = map_option canon (map_of (entry_items e') k)" for k
    by (intro canon_JObj_lookup entry_items_distinct) (simp add: content_of_items)
  have "uuid_str (a_agent_id e) = uuid_str (a_agent_id e')"
    using look [of "ptext ''agent_id''"] by (simp add: entry_items_lookup)
  moreover have "a_validator_hotkey e = a_validator_hotkey e'"
    using look [of "ptext ''validator_hotkey''"] by (simp add: entry_items_lookup split: option.splits)
  moreover have "a_event e = a_event e'"
    using look [of "ptext ''event''"] by (simp add: entry_items_lookup)
  moreover have "canon (JObj (a_payload e)) = canon (JObj (a_payload e'))"
    using look [of "ptext ''payload''"] by (simp only: entry_items_lookup option.map option.inject)
  moreover have "iso_utc (a_recorded_at e) = iso_utc (a_recorded_at e')"
    using look [of "ptext ''recorded_at''"] by (simp add: entry_items_lookup)
  moreover have "a_prev_hash e = a_prev_hash e'"
    using look [of "ptext ''prev_hash''"] by (simp add: entry_items_lookup)
  ultimately show ?thesis
    using wf hash by (auto simp: same_record_def wf_entry_def simp del: canon.simps intro: uuid_str_inj iso_utc_inj)
qed

lemma verify_audit_chain_Cons:
  "verify_audit_chain sha h (e # es) \<longleftrightarrow>
     a_prev_hash e = h \<and> sha (canonical_bytes (content_of e)) = a_entry_hash e \<and>
     verify_audit_chain sha (a_entry_hash e) es"
  by (simp add: compute_entry_hash_def)

lemma content_bytes_prev:
  assumes "wf_entry e" and "wf_entry e'" and "canonical_bytes (content_of e) = canonical_bytes (content_of e')"
  shows "a_prev_hash e = a_prev_hash e'"
proof -
  have "same_record e (e'\<lparr>a_entry_hash := a_entry_hash e\<rparr>)"
    using assms by (intro content_of_inj) (simp_all add: wf_entry_def content_of_def)
  then show ?thesis by (simp add: same_record_def)
qed

interpretation chain: linked_log "\<lambda>e. canonical_bytes (content_of e)" sha a_prev_hash a_entry_hash
  "verify_audit_chain sha" wf_entry for sha
  by unfold_locales (simp, rule verify_audit_chain_Cons, rule content_bytes_prev)

text \<open>The hash a reader of the log publishes as its head.\<close>

definition head_hash :: "audit_entry list \<Rightarrow> string" where
  "head_hash es = (if es = [] then GENESIS_HASH else a_entry_hash (last es))"

lemma head_hash_tip: "head_hash es = chain.tip GENESIS_HASH es"
  by (simp add: head_hash_def chain.tip_def)

text \<open>
  C22. Tamper evidence of the score audit log. Take two logs that both verify from the genesis
  hash and that end in the same head hash. Then they hold the same events in the same order,
  with the same links, unless the pair of logs itself contains two different preimages with the
  same digest, or an entry whose digest is the 64 zeros of the genesis hash. Nothing is assumed
  of the digest function. An entry cannot be edited, dropped, inserted or moved without a
  change of the head hash or one of these two finds.
\<close>

theorem audit_log_tamper_evident:
  assumes "verify_audit_chain sha GENESIS_HASH es" and "verify_audit_chain sha GENESIS_HASH es'"
    and "head_hash es = head_hash es'"
    and "\<forall>e \<in> set es \<union> set es'. wf_entry e"
  shows "list_all2 same_record es es' \<or>
    (\<exists>e \<in> set es. \<exists>e' \<in> set es'. canonical_bytes (content_of e) \<noteq> canonical_bytes (content_of e') \<and>
       sha (canonical_bytes (content_of e)) = sha (canonical_bytes (content_of e'))) \<or>
    (\<exists>e \<in> set es \<union> set es'. sha (canonical_bytes (content_of e)) = GENESIS_HASH)"
proof (cases "chain.collides sha es es'")
  case True
  then show ?thesis by (auto simp: chain.collides_def)
next
  case F: False
  then have F': "\<not> chain.collides sha es' es" by (auto simp: chain.collides_def) metis
  have tip: "chain.tip GENESIS_HASH es = chain.tip GENESIS_HASH es'" using assms(3) by (simp add: head_hash_tip)
  consider "length es = length es'" | "length es < length es'" | "length es' < length es" by linarith
  then show ?thesis
  proof cases
    case 1
    have "list_all2 (\<lambda>e e'. canonical_bytes (content_of e) = canonical_bytes (content_of e') \<and>
        a_entry_hash e = a_entry_hash e') es es'"
      by (rule chain.same_tip_same_content [OF assms(1,2) tip 1 F assms(4)])
    then have "list_all2 same_record es es'"
      using assms(4) by (auto simp: list_all2_conv_all_nth intro!: content_of_inj)
    then show ?thesis by blast
  next
    case 2
    then show ?thesis using chain.same_tip_longer [OF assms(1,2) tip _ F assms(4)] by blast
  next
    case 3
    then show ?thesis using chain.same_tip_longer [OF assms(2,1) tip [symmetric] _ F'] assms(4) by blast
  qed
qed

text \<open>
  A page of the log that starts after an already verified prefix is verified by seeding the
  check with the hash of the last entry of that prefix: checking page by page is checking the
  whole log.
\<close>

theorem verify_audit_chain_pages:
  "verify_audit_chain sha h (es @ es') \<longleftrightarrow>
     verify_audit_chain sha h es \<and>
     verify_audit_chain sha (if es = [] then h else a_entry_hash (last es)) es'"
  using chain.verify_append [of sha h es es'] by (simp add: chain.tip_def)

subsection \<open>Appending keeps the log verifiable\<close>

lemma sort_key_snoc_max:
  "\<forall>e \<in> set rows. f e < f x \<Longrightarrow> sort_key f (rows @ [x]) = sort_key f rows @ [x]"
proof (induction rows)
  case (Cons r rows)
  have ins: "f r < f x \<Longrightarrow> insort_key f r (ys @ [x]) = insort_key f r ys @ [x]" for ys
    by (induction ys) auto
  from Cons show ?case by (simp add: ins)
qed simp

lemma newest_max: "newest rows = Some e \<Longrightarrow> e \<in> set rows \<and> (\<forall>r \<in> set rows. a_seq r \<le> a_seq e)"
proof -
  assume "newest rows = Some e"
  then obtain es where es: "sort_key (\<lambda>e. - a_seq e) rows = e # es"
    by (auto simp: newest_def split: list.splits)
  then have "set rows = set (e # es)" by (metis set_sort)
  moreover have "sorted (map (\<lambda>e. - a_seq e) (e # es))" using sorted_sort_key es by metis
  ultimately show ?thesis by auto
qed

lemma newest_None_iff: "newest rows = None \<longleftrightarrow> rows = []"
  unfolding newest_def by (metis list.case_eq_if option.distinct(1) set_empty set_sort)

lemma newest_last:
  assumes "distinct (map a_seq rows)" and "rows \<noteq> []"
  shows "newest rows = Some (last (sort_key a_seq rows))"
proof -
  let ?up = "sort_key a_seq rows"
  obtain e where e: "newest rows = Some e" using assms(2) newest_None_iff by fastforce
  have ne: "?up \<noteq> []" using assms(2) by (metis set_empty set_sort)
  then have l: "last ?up \<in> set rows" using last_in_set set_sort by metis
  have "a_seq e \<le> a_seq (last ?up)"
  proof -
    have "e \<in> set ?up" using newest_max [OF e] by simp
    then obtain i where "i < length ?up" "?up ! i = e" unfolding in_set_conv_nth by blast
    then show ?thesis
      using sorted_nth_mono [OF sorted_sort_key [of a_seq rows], of i "length ?up - 1"] ne
      by (simp add: last_conv_nth)
  qed
  with newest_max [OF e] l have "a_seq e = a_seq (last ?up)" by (simp add: order_antisym)
  with newest_max [OF e] l assms(1) e show ?thesis by (metis distinct_key_eq)
qed

text \<open>A log as the table holds it: distinct sequence numbers, and it verifies in their order.\<close>

definition log_ok :: "(string \<Rightarrow> string) \<Rightarrow> audit_entry list \<Rightarrow> bool" where
  "log_ok sha rows \<longleftrightarrow>
     distinct (map a_seq rows) \<and> verify_audit_chain sha GENESIS_HASH (sort_key a_seq rows)"

lemma append_audit_entry_log_ok:
  assumes ok: "log_ok sha rows" and seq: "\<forall>e \<in> set rows. a_seq e < seq"
  shows "log_ok sha (fst (append_audit_entry sha seq agent_id validator_hotkey event payload recorded_at rows))"
proof -
  obtain entry where step: "append_audit_entry sha seq agent_id validator_hotkey event payload recorded_at rows = (rows @ [entry], entry)"
    and e: "a_seq entry = seq" "a_entry_hash entry = sha (canonical_bytes (content_of entry))"
      "a_prev_hash entry = (case newest rows of Some head \<Rightarrow> a_entry_hash head | None \<Rightarrow> GENESIS_HASH)"
    by (simp add: append_audit_entry_def Let_def compute_entry_hash_def content_of_def)
  have "distinct (map a_seq (rows @ [entry]))" using ok seq e(1) by (auto simp: log_ok_def)
  moreover have "sort_key a_seq (rows @ [entry]) = sort_key a_seq rows @ [entry]"
    using seq e(1) by (intro sort_key_snoc_max) simp
  moreover have "a_prev_hash entry = chain.tip GENESIS_HASH (sort_key a_seq rows)"
    using ok e(3) newest_last [of rows] newest_None_iff [of rows]
    by (cases "rows = []") (auto simp: log_ok_def chain.tip_def newest_def simp flip: set_empty)
  ultimately show ?thesis
    using ok e(2) by (simp add: log_ok_def step chain.verify_snoc)
qed

text \<open>
  Appends in any order and with any gaps between the sequence numbers the database hands out
  (a rolled-back insert consumes a number).
\<close>

record append_op =
  o_gap :: nat
  o_agent_id :: uuid
  o_validator_hotkey :: "pytext option"
  o_event :: pytext
  o_payload :: "(pytext \<times> json) list"
  o_recorded_at :: datetime

definition next_seq :: "nat \<Rightarrow> audit_entry list \<Rightarrow> int" where
  "next_seq gap rows = fold max (map a_seq rows) 0 + 1 + int gap"

definition audit_step :: "(string \<Rightarrow> string) \<Rightarrow> append_op \<Rightarrow> audit_entry list \<Rightarrow> audit_entry list" where
  "audit_step sha x rows =
     fst (append_audit_entry sha (next_seq (o_gap x) rows) (o_agent_id x) (o_validator_hotkey x)
            (o_event x) (o_payload x) (o_recorded_at x) rows)"

lemma fold_max_ge: "(a :: int) \<le> fold max xs a \<and> (\<forall>x \<in> set xs. x \<le> fold max xs a)"
proof (induction xs arbitrary: a)
  case (Cons y xs)
  from Cons [of "max y a"] show ?case by auto
qed simp

lemma next_seq_greater: "\<forall>e \<in> set rows. a_seq e < next_seq gap rows"
  using fold_max_ge [where xs = "map a_seq rows" and a = 0] by (auto simp: next_seq_def)

interpretation appends: invariant_machine "audit_step sha" "log_ok sha" for sha
  by unfold_locales (simp add: audit_step_def append_audit_entry_log_ok next_seq_greater)

text \<open>
  Whatever is appended, in whatever order: starting from the empty log, the log always
  verifies from the genesis hash in the order of its sequence numbers.
\<close>

theorem audit_log_always_verifies:
  "verify_audit_chain sha GENESIS_HASH (sort_key a_seq (fold (audit_step sha) ops []))"
proof -
  have "log_ok sha (fold (audit_step sha) ops [])"
    by (rule appends.run_invar) (simp add: log_ok_def)
  then show ?thesis by (simp add: log_ok_def)
qed

subsection \<open>A concrete pair of logs\<close>

definition demo_sha :: "string \<Rightarrow> string" where
  "demo_sha x = CHR ''h'' # x"

definition demo_time :: datetime where
  "demo_time = \<lparr>dt_year = 2026, dt_month = 7, dt_day = 27, dt_hour = 12, dt_minute = 0, dt_second = 5, dt_microsecond = 0\<rparr>"

definition demo_log :: "(pytext \<times> json) list \<Rightarrow> audit_entry list" where
  "demo_log payload =
     fst (append_audit_entry demo_sha 1 3 None EVENT_SCORE_INVALIDATED payload demo_time [])"

lemma demo_log_entry:
  "demo_log p = [\<lparr>a_seq = 1, a_agent_id = 3, a_validator_hotkey = None, a_event = EVENT_SCORE_INVALIDATED,
     a_payload = p, a_prev_hash = GENESIS_HASH, a_entry_hash = a_entry_hash (hd (demo_log p)), a_recorded_at = demo_time\<rparr>]"
  by (simp add: demo_log_def append_audit_entry_def newest_def Let_def get_audit_head_def)

lemma demo_log_verifies: "verify_audit_chain demo_sha GENESIS_HASH (demo_log p)"
proof -
  have "log_ok demo_sha (demo_log p)"
    unfolding demo_log_def by (rule append_audit_entry_log_ok) (simp_all add: log_ok_def)
  moreover have "sort_key a_seq (demo_log p) = demo_log p" by (subst (1 2) demo_log_entry) simp
  ultimately show ?thesis by (simp add: log_ok_def)
qed

lemma demo_log_wf: "wf_json (JObj p) \<Longrightarrow> \<forall>e \<in> set (demo_log p). wf_entry e"
  by (subst demo_log_entry) (simp add: wf_entry_def wf_datetime_def demo_time_def EVENT_SCORE_INVALIDATED_def ptext_def scalar_def)

definition payload_1 :: "(pytext \<times> json) list" where
  "payload_1 = [(ptext ''reason'', JStr (ptext ''x'')), (ptext ''n'', JInt 3)]"

definition payload_2 :: "(pytext \<times> json) list" where
  "payload_2 = [(ptext ''n'', JInt 3), (ptext ''reason'', JStr (ptext ''x''))]"

lemma demo_payloads:
  "wf_json (JObj payload_1)" "wf_json (JObj payload_2)" "canon (JObj payload_1) = canon (JObj payload_2)"
  by (simp_all add: payload_1_def payload_2_def ptext_def scalar_def)

lemma demo_head: "canon (JObj p) = canon (JObj q) \<Longrightarrow> head_hash (demo_log p) = head_hash (demo_log q)"
proof -
  assume c: "canon (JObj p) = canon (JObj q)"
  have "canon (entry_content 3 None EVENT_SCORE_INVALIDATED p demo_time GENESIS_HASH) =
    canon (entry_content 3 None EVENT_SCORE_INVALIDATED q demo_time GENESIS_HASH)"
    using c by (simp add: entry_content_def)
  then have "dumps (entry_content 3 None EVENT_SCORE_INVALIDATED p demo_time GENESIS_HASH) =
    dumps (entry_content 3 None EVENT_SCORE_INVALIDATED q demo_time GENESIS_HASH)" by (metis dumps_canon)
  then show ?thesis
    by (simp add: demo_log_def append_audit_entry_def head_hash_def compute_entry_hash_def canonical_bytes_def newest_def Let_def)
qed

theorem audit_log_tamper_evident_witness:
  "verify_audit_chain demo_sha GENESIS_HASH (demo_log payload_1) \<and> demo_log payload_1 \<noteq> demo_log payload_2 \<and>
   list_all2 same_record (demo_log payload_1) (demo_log payload_2)"
proof -
  have ne: "demo_log payload_1 \<noteq> demo_log payload_2"
    by (subst (1 2) demo_log_entry) (simp add: payload_1_def payload_2_def ptext_def)
  have inj: "demo_sha x = demo_sha y \<longleftrightarrow> x = y" "demo_sha x \<noteq> GENESIS_HASH" for x y
    by (simp_all add: demo_sha_def GENESIS_HASH_def numeral_eq_Suc)
  have wf: "\<forall>e \<in> set (demo_log payload_1) \<union> set (demo_log payload_2). wf_entry e"
    using demo_log_wf demo_payloads by blast
  show ?thesis
    using audit_log_tamper_evident [OF demo_log_verifies demo_log_verifies demo_head [OF demo_payloads(3)] wf]
      demo_log_verifies ne by (simp add: inj)
qed

end
