(* ===== verification/Schema.thy ===== *)
theory Schema
  imports Score_Audit
begin

text \<open>
  The rows of the tables the queue, the ledger and the allocator read
  (\<open>ditto/db/models.py\<close>), each record with the columns the modelled code uses. Scores are \<open>Float\<close> columns; a float is modelled by the exact rational it
  denotes, so comparisons and maxima are exact and an average is the unrounded one.
\<close>

text \<open>The values of the \<open>agentstatus\<close> type of the schema.\<close>

datatype agent_status =
    UPLOADED | SCREENING | SCREENING_PASSED | SCREENING_FAILED | EVALUATING
  | AGENT_SCORED | LIVE | ATH_PENDING_REVIEW | BANNED | REJECTED | QUARANTINED

record agent =
  ag_agent_id :: uuid
  ag_miner_hotkey :: hotkey
  ag_status :: agent_status
  ag_created_at :: time
  ag_screening_policy_version :: int
  ag_screened_image_sha256 :: "string option"
  ag_screened_image_size_bytes :: "int option"
  ag_screened_image_id :: "string option"
  ag_screened_image_ref :: "string option"
  ag_screened_image_upload_id :: "uuid option"
  ag_screened_image_verified_at :: "time option"
  ag_sha256 :: string
  ag_screening_reason :: "string option"
  ag_screening_reason_code :: "string option"
  ag_duplicate_of :: "uuid option"
  ag_dataset_seed :: "int option"
  ag_dataset_sha256 :: "string option"
  ag_dataset_run_size :: "string option"
  ag_dataset_seed_block :: "int option"
  ag_dataset_seed_block_hash :: "string option"

record evaluation_payment =
  pm_block_hash :: string
  pm_extrinsic_index :: int
  pm_agent_id :: "uuid option"
  pm_miner_hotkey :: hotkey
  pm_miner_coldkey :: string

record score =
  s_agent_id :: uuid
  s_validator_hotkey :: hotkey
  s_bench_version :: int
  s_composite :: rat
  s_created_at :: time
  s_n :: int
  s_seed :: int
  s_run_id :: string
  s_tool_mean :: rat
  s_memory_mean :: rat
  s_median_ms :: int
  s_generated_at :: time
  s_signature :: "string option"
  s_details :: "json option"
  s_model_calls :: "int option"
  s_model_prompt_tokens :: "int option"
  s_model_completion_tokens :: "int option"

record owner_attestation =
  oa_netuid :: int
  oa_hotkey_lo :: hotkey
  oa_hotkey_hi :: hotkey
  oa_revoked_at :: "time option"

record benchmark_rollout =
  ro_rollout_id :: uuid
  ro_from_version :: int
  ro_desired_version :: int
  ro_status :: string
  ro_created_at :: time
  ro_activated_at :: "time option"
  ro_cohort_size :: int
  ro_rescore_cohort_target :: int
  ro_priority_cohort_target :: int
  ro_blocked_reason :: "string option"

record rollout_member =
  rm_rollout_id :: uuid
  rm_agent_id :: uuid
  rm_position :: int
  rm_frozen_miner_hotkey :: hotkey
  rm_frozen_composite :: rat

record rollout_carryover =
  cv_rollout_id :: uuid
  cv_agent_id :: uuid
  cv_position :: int
  cv_frozen_score_count :: int
  cv_frozen_owner_key :: string

record benchmark_dataset =
  bd_agent_id :: uuid
  bd_bench_version :: int
  bd_seed :: int
  bd_sha256 :: string
  bd_run_size :: string
  bd_seed_block :: "int option"
  bd_seed_block_hash :: "string option"

record rollout_audit =
  ra_audit_id :: uuid
  ra_rollout_id :: uuid
  ra_event :: string
  ra_recorded_at :: time

record queue_withdrawal =
  qw_withdrawal_id :: uuid
  qw_agent_id :: uuid
  qw_bench_version :: int
  qw_evicted_validator_hotkeys :: "hotkey list option"
  qw_reinstated_at :: "time option"
  qw_created_at :: time

record submission_retirement =
  sr_agent_id :: uuid
  sr_bench_version :: int

subsection \<open>Benchmark contracts\<close>

record benchmark_contract =
  bc_version :: int
  bc_minimum_screening_policy_version :: int
  bc_requires_screened_image :: bool

definition CONTRACTS :: "(int \<times> benchmark_contract) list" where
  "CONTRACTS =
     (2, \<lparr>bc_version = 2, bc_minimum_screening_policy_version = 1, bc_requires_screened_image = False\<rparr>) #
     map (\<lambda>v. (v, \<lparr>bc_version = v, bc_minimum_screening_policy_version = 9, bc_requires_screened_image = True\<rparr>))
       [3, 4, 5, 6, 7, 8]"

text \<open>\<open>None\<close> is the \<open>ValueError\<close> of an unsupported version.\<close>

definition get_contract :: "int \<Rightarrow> benchmark_contract option" where
  "get_contract version = map_of CONTRACTS version"

text \<open>The versions are unique and ascending in \<open>CONTRACTS\<close>, so the stable version order is the list's own.\<close>

definition benchmark_contracts :: "benchmark_contract list" where
  "benchmark_contracts = map snd (sort_key fst CONTRACTS)"

definition latest_benchmark_contract :: "benchmark_contract option" where
  "latest_benchmark_contract = get_contract (Max (set (map fst CONTRACTS)))"

definition MIN_SCOREABLE_BENCH_VERSION :: int where
  "MIN_SCOREABLE_BENCH_VERSION = 7"

definition SCORING_QUORUM :: nat where
  "SCORING_QUORUM = 3"

subsection \<open>Benchmark models\<close>

definition V7_MODEL :: string where
  "V7_MODEL = ''openai/gpt-oss-20b''"

definition benchmark_model :: "int \<Rightarrow> string" where
  "benchmark_model bench_version = (if bench_version \<ge> 7 then V7_MODEL else ''qwen/qwen3-32b'')"

end
