(* ===== verification/Tickets.thy ===== *)
theory Tickets
  imports Schema
begin

text \<open>
  The ticket table and the operations that move a ticket through its life:
  \<open>ditto/db/queries/tickets.py\<close> (sweep, confirmation lane, lookups, settlement) and
  \<open>ditto/db/queries/retry_budget.py\<close> (what a failure that was not the agent's fault costs).
  A row of \<open>validator_tickets\<close> is the record \<open>ticket\<close>; the table is the list of its rows
  under the primary key \<open>(agent_id, bench_version, validator_hotkey)\<close>. The row and
  advisory locks of the code serialise the transactions; each operation here is one
  transaction.
\<close>

datatype ticket_status = ISSUED | SCORED | EXPIRED

datatype ticket_purpose = LEGACY_UNCLASSIFIED | CANONICAL_QUORUM | CONTINUAL_RETEST

record ticket =
  t_agent_id :: uuid
  t_validator_hotkey :: hotkey
  t_slot_id :: slot
  t_status :: ticket_status
  t_purpose :: ticket_purpose
  t_purpose_revision :: int
  t_legacy_completion_allowed :: bool
  t_issued_at :: time
  t_deadline :: time
  t_bench_version :: int
  t_seed :: "int option"
  t_dataset_sha256 :: "string option"
  t_seed_block :: "int option"
  t_seed_block_hash :: "string option"
  t_attempt_count :: int
  t_manual_retry_grants :: int
  t_infra_retry_grants :: int
  t_retry_after :: "time option"
  t_first_reported_at :: "time option"
  t_failure_reason :: "string option"
  t_failed_at :: "time option"
  t_failure_detail :: "string option"

type_synonym ticket_key = "uuid \<times> int \<times> hotkey"

definition tkey :: "ticket \<Rightarrow> ticket_key" where
  "tkey t = (t_agent_id t, t_bench_version t, t_validator_hotkey t)"

subsection \<open>Budgets\<close>

definition RETRY_COOLDOWN :: timedelta where
  "RETRY_COOLDOWN = td_hours 6"

definition MAX_ATTEMPTS_PER_VERSION :: int where
  "MAX_ATTEMPTS_PER_VERSION = 1"

definition ticket_attempt_cap :: "ticket \<Rightarrow> int" where
  "ticket_attempt_cap t = MAX_ATTEMPTS_PER_VERSION + t_manual_retry_grants t + t_infra_retry_grants t"

definition retry_budget_spent :: "ticket \<Rightarrow> bool" where
  "retry_budget_spent t \<longleftrightarrow>
     t_attempt_count t \<ge> MAX_ATTEMPTS_PER_VERSION + t_manual_retry_grants t + t_infra_retry_grants t"

definition MAX_INFRA_RETRY_GRANTS :: int where
  "MAX_INFRA_RETRY_GRANTS = 8"

definition MAX_AGENT_INFRA_RETRY_GRANTS :: int where
  "MAX_AGENT_INFRA_RETRY_GRANTS = 12"

definition INFRA_RETRY_BACKOFF_BASE :: timedelta where
  "INFRA_RETRY_BACKOFF_BASE = td_minutes 2"

definition INFRA_RETRY_BACKOFF_CAP :: timedelta where
  "INFRA_RETRY_BACKOFF_CAP = td_minutes 30"

definition infra_retry_backoff :: "int \<Rightarrow> timedelta" where
  "infra_retry_backoff infra_retry_grants =
     (if infra_retry_grants \<le> 1 then INFRA_RETRY_BACKOFF_BASE
      else let steps = min (infra_retry_grants - 1) 20;
               scaled = INFRA_RETRY_BACKOFF_BASE * 2 ^ nat steps
           in min scaled INFRA_RETRY_BACKOFF_CAP)"

definition agent_infra_retry_grants :: "uuid \<Rightarrow> int \<Rightarrow> ticket list \<Rightarrow> int" where
  "agent_infra_retry_grants agent_id bench_version ts =
     sum_rows t_infra_retry_grants
       (filter (\<lambda>t. t_agent_id t = agent_id \<and> t_bench_version t = bench_version) ts)"

definition grant_no_fault_retry :: "int option \<Rightarrow> ticket \<Rightarrow> ticket \<times> bool" where
  "grant_no_fault_retry agent_infra_grants t =
     (if t_infra_retry_grants t \<ge> MAX_INFRA_RETRY_GRANTS then (t, False)
      else if (case agent_infra_grants of None \<Rightarrow> False | Some g \<Rightarrow> g \<ge> MAX_AGENT_INFRA_RETRY_GRANTS)
        then (t, False)
      else (t\<lparr>t_infra_retry_grants := t_infra_retry_grants t + 1\<rparr>, True))"

subsection \<open>Sweep, lookups and settlement\<close>

definition overdue :: "time \<Rightarrow> ticket \<Rightarrow> bool" where
  "overdue now t \<longleftrightarrow> t_status t = ISSUED \<and> t_deadline t \<le> now"

definition expire_ticket :: "ticket \<Rightarrow> ticket" where
  "expire_ticket t = t\<lparr>t_status := EXPIRED, t_retry_after := Some (t_deadline t + RETRY_COOLDOWN)\<rparr>"

definition expire_overdue_tickets :: "time \<Rightarrow> ticket list \<Rightarrow> ticket list \<times> nat" where
  "expire_overdue_tickets now ts =
     (update_where (overdue now) expire_ticket ts, length (filter (overdue now) ts))"

definition get_open_ticket ::
  "uuid \<Rightarrow> hotkey \<Rightarrow> time \<Rightarrow> time \<Rightarrow> int option \<Rightarrow> slot option \<Rightarrow> ticket list \<Rightarrow> ticket option" where
  "get_open_ticket agent_id validator_hotkey now deadline bench_version slot_id ts =
     (case select_first (\<lambda>t. t_agent_id t = agent_id \<and> t_validator_hotkey t = validator_hotkey \<and>
              t_status t = ISSUED \<and>
              (case bench_version of None \<Rightarrow> True | Some v \<Rightarrow> t_bench_version t = v) \<and>
              (case slot_id of None \<Rightarrow> True | Some s \<Rightarrow> t_slot_id t = s)) ts of
        None \<Rightarrow> None
      | Some t \<Rightarrow> if t_deadline t \<le> now \<or> t_deadline t \<noteq> deadline then None else Some t)"

datatype lookup_error = ValueError

definition get_live_slot_ticket ::
  "uuid \<Rightarrow> hotkey \<Rightarrow> slot \<Rightarrow> time \<Rightarrow> bool \<Rightarrow> bool \<Rightarrow> ticket list \<Rightarrow> lookup_error + ticket option" where
  "get_live_slot_ticket agent_id validator_hotkey slot_id now for_update skip_locked ts =
     (if skip_locked \<and> \<not> for_update then Inl ValueError
      else Inr (case select_first (\<lambda>t. t_agent_id t = agent_id \<and> t_validator_hotkey t = validator_hotkey \<and>
                      t_slot_id t = slot_id \<and> t_status t = ISSUED) ts of
                  None \<Rightarrow> None
                | Some t \<Rightarrow> if t_deadline t \<le> now then None else Some t))"

definition list_validator_live_leases :: "hotkey \<Rightarrow> time \<Rightarrow> ticket list \<Rightarrow> ticket list" where
  "list_validator_live_leases validator_hotkey now ts =
     sort_key t_slot_id
       (filter (\<lambda>t. t_validator_hotkey t = validator_hotkey \<and> t_status t = ISSUED \<and> t_deadline t > now) ts)"

definition mark_ticket_scored :: "uuid \<Rightarrow> hotkey \<Rightarrow> int \<Rightarrow> ticket list \<Rightarrow> ticket list" where
  "mark_ticket_scored agent_id validator_hotkey bench_version ts =
     (case get_row tkey (agent_id, bench_version, validator_hotkey) ts of
        None \<Rightarrow> ts
      | Some t \<Rightarrow> set_row tkey (t\<lparr>t_status := SCORED\<rparr>) ts)"

subsection \<open>The confirmation lane\<close>

definition slot_live :: "hotkey \<Rightarrow> slot \<Rightarrow> time \<Rightarrow> ticket \<Rightarrow> bool" where
  "slot_live validator_hotkey slot_id now t \<longleftrightarrow>
     t_validator_hotkey t = validator_hotkey \<and> t_slot_id t = slot_id \<and>
     t_status t = ISSUED \<and> t_deadline t > now"

definition new_confirmation_ticket ::
  "uuid \<Rightarrow> hotkey \<Rightarrow> time \<Rightarrow> timedelta \<Rightarrow> int \<Rightarrow> int option \<Rightarrow> string option \<Rightarrow> slot \<Rightarrow> ticket" where
  "new_confirmation_ticket agent_id validator_hotkey now ttl bench_version seed dataset_sha256 slot_id =
     \<lparr>t_agent_id = agent_id, t_validator_hotkey = validator_hotkey, t_slot_id = slot_id,
      t_status = ISSUED, t_purpose = CONTINUAL_RETEST, t_purpose_revision = 1,
      t_legacy_completion_allowed = False, t_issued_at = now, t_deadline = now + ttl,
      t_bench_version = bench_version, t_seed = seed, t_dataset_sha256 = dataset_sha256,
      t_seed_block = None, t_seed_block_hash = None, t_attempt_count = 1,
      t_manual_retry_grants = 0, t_infra_retry_grants = 0, t_retry_after = None,
      t_first_reported_at = None, t_failure_reason = None, t_failed_at = None,
      t_failure_detail = None\<rparr>"

definition reissue_confirmation_ticket ::
  "time \<Rightarrow> timedelta \<Rightarrow> int \<Rightarrow> int option \<Rightarrow> string option \<Rightarrow> slot \<Rightarrow> ticket \<Rightarrow> ticket" where
  "reissue_confirmation_ticket now ttl bench_version seed dataset_sha256 slot_id t =
     (let same_version = (t_bench_version t = bench_version)
      in t\<lparr>t_status := ISSUED, t_purpose := CONTINUAL_RETEST,
           t_purpose_revision := t_purpose_revision t + 1,
           t_legacy_completion_allowed := False, t_slot_id := slot_id, t_issued_at := now,
           t_deadline := now + ttl, t_bench_version := bench_version, t_seed := seed,
           t_dataset_sha256 := dataset_sha256, t_seed_block := None, t_seed_block_hash := None,
           t_attempt_count := (if same_version then t_attempt_count t + 1 else 1),
           t_manual_retry_grants := (if same_version then t_manual_retry_grants t else 0),
           t_retry_after := None\<rparr>)"

definition cooling_down :: "time \<Rightarrow> ticket \<Rightarrow> bool" where
  "cooling_down now t \<longleftrightarrow> (case t_retry_after t of None \<Rightarrow> False | Some r \<Rightarrow> r > now)"

definition retest_requested :: "uuid \<Rightarrow> hotkey \<Rightarrow> audit_entry list \<Rightarrow> bool" where
  "retest_requested agent_id validator_hotkey alog \<longleftrightarrow>
     (case get_latest_score_retest_event agent_id (ptext validator_hotkey) alog of
        None \<Rightarrow> False | Some e \<Rightarrow> a_event e = EVENT_SCORE_RETEST_REQUESTED)"

definition issue_confirmation_ticket ::
  "uuid \<Rightarrow> hotkey \<Rightarrow> time \<Rightarrow> timedelta \<Rightarrow> int \<Rightarrow> int option \<Rightarrow> string option \<Rightarrow> slot \<Rightarrow>
   agent list \<Rightarrow> audit_entry list \<Rightarrow> ticket list \<Rightarrow> ticket list \<times> ticket option" where
  "issue_confirmation_ticket agent_id validator_hotkey now ttl bench_version seed dataset_sha256 slot_id
     agents alog ts0 =
     (let ts = fst (expire_overdue_tickets now ts0) in
      case select_first (\<lambda>t. t_agent_id t = agent_id \<and> t_validator_hotkey t = validator_hotkey \<and>
             t_bench_version t = bench_version \<and> t_status t = ISSUED \<and> t_deadline t > now) ts of
        Some existing \<Rightarrow>
          (ts, if t_purpose existing = CONTINUAL_RETEST \<and> t_purpose_revision existing > 0 \<and>
                  (seed = None \<or> t_seed existing = seed) \<and>
                  (dataset_sha256 = None \<or> t_dataset_sha256 existing = dataset_sha256)
               then Some existing else None)
      | None \<Rightarrow>
      if select_first (slot_live validator_hotkey slot_id now) ts \<noteq> None then (ts, None)
      else case get_row ag_agent_id agent_id agents of None \<Rightarrow> (ts, None)
      | Some agent \<Rightarrow>
      if ag_status agent \<notin> {AGENT_SCORED, LIVE} then (ts, None)
      else if retest_requested agent_id validator_hotkey alog then (ts, None)
      else case get_row tkey (agent_id, bench_version, validator_hotkey) ts of
        None \<Rightarrow>
          (let t = new_confirmation_ticket agent_id validator_hotkey now ttl bench_version seed
                     dataset_sha256 slot_id
           in (ts @ [t], Some t))
      | Some t0 \<Rightarrow>
          if cooling_down now t0 then (ts, None)
          else (let t = reissue_confirmation_ticket now ttl bench_version seed dataset_sha256 slot_id t0
                in (set_row tkey t ts, Some t)))"

subsection \<open>The table invariant\<close>

text \<open>
  What the schema's constraints demand of the table, and so what every operation has to keep
  for its write to be accepted: the primary key, the partial unique index
  \<open>validator_tickets_one_issued_per_validator_slot_idx\<close> (at most one issued ticket per
  validator slot) and the row checks; and the bound on the automatic grants.
\<close>

definition ticket_ok :: "ticket \<Rightarrow> bool" where
  "ticket_ok t \<longleftrightarrow>
     t_attempt_count t > 0 \<and> t_purpose_revision t \<ge> 0 \<and> t_manual_retry_grants t \<ge> 0 \<and>
     0 \<le> t_infra_retry_grants t \<and> t_infra_retry_grants t \<le> MAX_INFRA_RETRY_GRANTS"

definition same_slot :: "ticket \<Rightarrow> ticket \<Rightarrow> bool" where
  "same_slot t u \<longleftrightarrow> t_validator_hotkey t = t_validator_hotkey u \<and> t_slot_id t = t_slot_id u"

definition one_issued_per_slot :: "ticket list \<Rightarrow> bool" where
  "one_issued_per_slot ts \<longleftrightarrow>
     (\<forall>t \<in> set ts. \<forall>u \<in> set ts. t_status t = ISSUED \<longrightarrow> t_status u = ISSUED \<longrightarrow> same_slot t u \<longrightarrow> tkey t = tkey u)"

definition tickets_ok :: "ticket list \<Rightarrow> bool" where
  "tickets_ok ts \<longleftrightarrow> distinct (map tkey ts) \<and> one_issued_per_slot ts \<and> (\<forall>t \<in> set ts. ticket_ok t)"

lemma same_slot_sym: "same_slot t u \<longleftrightarrow> same_slot u t"
  by (auto simp: same_slot_def)

lemma one_issuedD:
  "one_issued_per_slot ts \<Longrightarrow> t \<in> set ts \<Longrightarrow> u \<in> set ts \<Longrightarrow> t_status t = ISSUED \<Longrightarrow> t_status u = ISSUED \<Longrightarrow>
   same_slot t u \<Longrightarrow> tkey t = tkey u"
  by (simp add: one_issued_per_slot_def)

lemma tickets_ok_unique:
  "tickets_ok ts \<Longrightarrow> t \<in> set ts \<Longrightarrow> u \<in> set ts \<Longrightarrow> t_status t = ISSUED \<Longrightarrow> t_status u = ISSUED \<Longrightarrow>
   same_slot t u \<Longrightarrow> t = u"
  unfolding tickets_ok_def one_issued_per_slot_def by (blast dest: distinct_key_eq)

lemma tickets_ok_rowD: "tickets_ok ts \<Longrightarrow> t \<in> set ts \<Longrightarrow> ticket_ok t"
  by (simp add: tickets_ok_def)

lemma tickets_ok_Nil [simp]: "tickets_ok []"
  by (simp add: tickets_ok_def one_issued_per_slot_def)

text \<open>
  The three ways a row changes: rows are rewritten without issuing (a sweep, a settlement, a
  revocation), one row is put back into \<open>issued\<close> in a free slot, and one row is inserted in a
  free slot.
\<close>

lemma tickets_ok_retire:
  assumes ok: "tickets_ok ts"
    and key: "\<And>t. t \<in> set ts \<Longrightarrow> p t \<Longrightarrow> tkey (f t) = tkey t"
    and row: "\<And>t. t \<in> set ts \<Longrightarrow> p t \<Longrightarrow> ticket_ok (f t)"
    and st: "\<And>t. t \<in> set ts \<Longrightarrow> p t \<Longrightarrow> t_status (f t) \<noteq> ISSUED"
  shows "tickets_ok (update_where p f ts)"
proof -
  have "map tkey (update_where p f ts) = map tkey ts"
    using key by (intro map_update_where_same)
  moreover have "one_issued_per_slot (update_where p f ts)"
    using ok st unfolding tickets_ok_def one_issued_per_slot_def
    by (auto simp: set_update_where split: if_splits)
  moreover have "\<forall>t \<in> set (update_where p f ts). ticket_ok t"
    using ok row by (auto simp: tickets_ok_def set_update_where split: if_splits)
  ultimately show ?thesis using ok by (simp add: tickets_ok_def)
qed

lemma tickets_ok_set_row:
  assumes ok: "tickets_ok ts" and row: "ticket_ok t"
    and free: "t_status t = ISSUED \<Longrightarrow> \<forall>u \<in> set ts. t_status u = ISSUED \<longrightarrow> same_slot t u \<longrightarrow> tkey u = tkey t"
  shows "tickets_ok (set_row tkey t ts)"
proof -
  have "one_issued_per_slot (set_row tkey t ts)"
    unfolding one_issued_per_slot_def
  proof (intro ballI impI)
    fix a b
    assume "a \<in> set (set_row tkey t ts)" "b \<in> set (set_row tkey t ts)"
      and iss: "t_status a = ISSUED" "t_status b = ISSUED" "same_slot a b"
    then consider "a = t" "b = t" | "a = t" "b \<in> set ts" | "b = t" "a \<in> set ts" | "a \<in> set ts" "b \<in> set ts"
      by (auto dest: in_set_row)
    then show "tkey a = tkey b"
    proof cases
      case 2
      then show ?thesis using free iss by simp
    next
      case 3
      then show ?thesis using free iss same_slot_sym by simp
    next
      case 4
      then show ?thesis using ok iss by (auto simp: tickets_ok_def dest: one_issuedD)
    qed simp
  qed
  moreover have "\<forall>u \<in> set (set_row tkey t ts). ticket_ok u"
    using ok row by (auto simp: tickets_ok_def dest: in_set_row)
  ultimately show ?thesis using ok by (simp add: tickets_ok_def row_simps)
qed

lemma tickets_ok_insert:
  assumes ok: "tickets_ok ts" and row: "ticket_ok t" and new: "tkey t \<notin> tkey ` set ts"
    and free: "\<forall>u \<in> set ts. t_status u = ISSUED \<longrightarrow> \<not> same_slot t u"
  shows "tickets_ok (ts @ [t])"
proof -
  have "one_issued_per_slot (ts @ [t])"
    unfolding one_issued_per_slot_def
  proof (intro ballI impI)
    fix a b
    assume "a \<in> set (ts @ [t])" "b \<in> set (ts @ [t])"
      and iss: "t_status a = ISSUED" "t_status b = ISSUED" "same_slot a b"
    then consider "a = t" "b = t" | "a = t" "b \<in> set ts" | "b = t" "a \<in> set ts" | "a \<in> set ts" "b \<in> set ts"
      by auto
    then show "tkey a = tkey b"
    proof cases
      case 2
      then show ?thesis using free iss by simp
    next
      case 3
      then show ?thesis using free iss same_slot_sym by simp
    next
      case 4
      then show ?thesis using ok iss by (auto simp: tickets_ok_def dest: one_issuedD)
    qed simp
  qed
  then show ?thesis using ok row new by (auto simp: tickets_ok_def)
qed

subsection \<open>The sweep\<close>

lemma expire_ticket_ok: "ticket_ok t \<Longrightarrow> ticket_ok (expire_ticket t)"
  by (simp add: expire_ticket_def ticket_ok_def)

lemma tkey_expire_ticket [simp]: "tkey (expire_ticket t) = tkey t"
  by (simp add: expire_ticket_def tkey_def)

lemma sweep_ok: "tickets_ok ts \<Longrightarrow> tickets_ok (fst (expire_overdue_tickets now ts))"
  unfolding expire_overdue_tickets_def fst_conv
  by (rule tickets_ok_retire) (auto simp: tickets_ok_def expire_ticket_ok, simp add: expire_ticket_def)

lemma sweep_live: "t \<in> set (fst (expire_overdue_tickets now ts)) \<Longrightarrow> t_status t = ISSUED \<Longrightarrow> t_deadline t > now"
  by (auto simp: expire_overdue_tickets_def set_update_where expire_ticket_def overdue_def split: if_splits)

lemma sweep_keeps: "t \<in> set ts \<Longrightarrow> \<not> overdue now t \<Longrightarrow> t \<in> set (fst (expire_overdue_tickets now ts))"
  by (force simp: expire_overdue_tickets_def set_update_where)

lemma sweep_keys: "map tkey (fst (expire_overdue_tickets now ts)) = map tkey ts"
  unfolding expire_overdue_tickets_def by (simp add: map_update_where_same)

lemma not_overdue_expired: "\<not> overdue now (expire_ticket t)"
  by (simp add: overdue_def expire_ticket_def)

text \<open>
  The overdue sweep does exactly its job. Afterwards no issued ticket is past its deadline;
  a ticket that was not overdue is untouched; an overdue one is expired with its cooldown counted
  from its own deadline, whenever the sweep ran; and a second sweep over the same window flips
  nothing.
\<close>

theorem expire_overdue_tickets_correct:
  "(\<forall>t \<in> set (fst (expire_overdue_tickets now ts)). t_status t = ISSUED \<longrightarrow> t_deadline t > now) \<and>
   (\<forall>i < length ts. fst (expire_overdue_tickets now ts) ! i =
      (if t_status (ts ! i) = ISSUED \<and> t_deadline (ts ! i) \<le> now
       then (ts ! i)\<lparr>t_status := EXPIRED, t_retry_after := Some (t_deadline (ts ! i) + td_hours 6)\<rparr>
       else ts ! i)) \<and>
   expire_overdue_tickets now (fst (expire_overdue_tickets now ts)) = (fst (expire_overdue_tickets now ts), 0)"
proof (intro conjI)
  show "\<forall>t \<in> set (fst (expire_overdue_tickets now ts)). t_status t = ISSUED \<longrightarrow> t_deadline t > now"
    by (blast intro: sweep_live)
  show "\<forall>i < length ts. fst (expire_overdue_tickets now ts) ! i =
      (if t_status (ts ! i) = ISSUED \<and> t_deadline (ts ! i) \<le> now
       then (ts ! i)\<lparr>t_status := EXPIRED, t_retry_after := Some (t_deadline (ts ! i) + td_hours 6)\<rparr>
       else ts ! i)"
    by (simp add: expire_overdue_tickets_def update_where_def overdue_def expire_ticket_def RETRY_COOLDOWN_def)
  have none: "\<forall>t \<in> set (fst (expire_overdue_tickets now ts)). \<not> overdue now t"
    using sweep_live by (fastforce simp: overdue_def)
  then have "filter (overdue now) (fst (expire_overdue_tickets now ts)) = []"
    by (simp add: filter_empty_conv)
  moreover have "update_where (overdue now) expire_ticket (fst (expire_overdue_tickets now ts)) = fst (expire_overdue_tickets now ts)"
    using none by (intro update_where_id) blast
  ultimately show "expire_overdue_tickets now (fst (expire_overdue_tickets now ts)) = (fst (expire_overdue_tickets now ts), 0)"
    unfolding expire_overdue_tickets_def [of now "fst (expire_overdue_tickets now ts)"] by simp
qed

theorem expire_overdue_tickets_correct_witness:
  "t_status (fst (expire_overdue_tickets 20 [new_confirmation_ticket 1 ''v'' 0 10 7 None None ''slot-0'']) ! 0) = EXPIRED \<and>
   t_retry_after (fst (expire_overdue_tickets 20 [new_confirmation_ticket 1 ''v'' 0 10 7 None None ''slot-0'']) ! 0) = Some (10 + td_hours 6)"
proof -
  let ?t = "new_confirmation_ticket 1 ''v'' 0 10 7 None None ''slot-0''"
  have "t_status ?t = ISSUED \<and> t_deadline ?t = 10" by (simp add: new_confirmation_ticket_def)
  then show ?thesis using expire_overdue_tickets_correct [of 20 "[?t]"] by simp
qed

subsection \<open>Lookups\<close>

text \<open>
  Finding the ticket a score is posted against. For a pinned benchmark version the answer is a
  function of the set of rows, whatever order the database scans them in; and it is exactly the
  validator's issued, unexpired ticket for that agent and version whose deadline is the signed one.
\<close>

theorem get_open_ticket_exact:
  assumes "tickets_ok ts"
  shows "get_open_ticket a h now d (Some v) sl ts = Some t \<longleftrightarrow>
    t \<in> set ts \<and> tkey t = (a, v, h) \<and> t_status t = ISSUED \<and> t_deadline t = d \<and> now < d \<and>
    (case sl of None \<Rightarrow> True | Some s \<Rightarrow> t_slot_id t = s)"
proof -
  let ?p = "\<lambda>t. t_agent_id t = a \<and> t_validator_hotkey t = h \<and> t_status t = ISSUED \<and> t_bench_version t = v \<and>
    (case sl of None \<Rightarrow> True | Some s \<Rightarrow> t_slot_id t = s)"
  have uniq: "r = s" if "r \<in> set ts" "s \<in> set ts" "?p r" "?p s" for r s
    using that assms by (intro distinct_key_eq [of tkey ts]) (simp_all add: tickets_ok_def tkey_def)
  have sel: "select_first ?p ts = Some u \<longleftrightarrow> u \<in> set ts \<and> ?p u" for u
    using select_first_SomeD [of ?p ts u] select_first_eqI [of u ts ?p] uniq by blast
  have "get_open_ticket a h now d (Some v) sl ts = Some t \<longleftrightarrow>
      select_first ?p ts = Some t \<and> \<not> (t_deadline t \<le> now \<or> t_deadline t \<noteq> d)"
    unfolding get_open_ticket_def option.case
    by (cases "select_first ?p ts") (auto simp: conj_ac split: if_splits)
  then show ?thesis unfolding sel by (auto simp: tkey_def)
qed

theorem get_open_ticket_exact_witness:
  "get_open_ticket 1 ''v'' 5 10 (Some 7) (Some ''slot-0'') [new_confirmation_ticket 1 ''v'' 0 10 7 None None ''slot-0''] =
   Some (new_confirmation_ticket 1 ''v'' 0 10 7 None None ''slot-0'')"
proof -
  have "tickets_ok [new_confirmation_ticket 1 ''v'' 0 10 7 None None ''slot-0'']"
    by (simp add: tickets_ok_def one_issued_per_slot_def ticket_ok_def new_confirmation_ticket_def MAX_INFRA_RETRY_GRANTS_def)
  then show ?thesis
    by (subst get_open_ticket_exact) (simp_all add: new_confirmation_ticket_def tkey_def)
qed

lemma get_live_slot_ticket_order:
  assumes "tickets_ok ts" and "set ts = set ts'"
  shows "get_live_slot_ticket a h s now fu sk ts = get_live_slot_ticket a h s now fu sk ts'"
proof -
  have "select_first (\<lambda>t. t_agent_id t = a \<and> t_validator_hotkey t = h \<and> t_slot_id t = s \<and> t_status t = ISSUED) ts =
    select_first (\<lambda>t. t_agent_id t = a \<and> t_validator_hotkey t = h \<and> t_slot_id t = s \<and> t_status t = ISSUED) ts'"
    using assms by (intro select_first_order_irrelevant) (auto intro: tickets_ok_unique simp: same_slot_def)
  then show ?thesis by (simp add: get_live_slot_ticket_def)
qed

definition two_era_leases :: "ticket list" where
  "two_era_leases =
     [(new_confirmation_ticket 1 ''v'' 0 100 7 None None ''slot-0''),
      (new_confirmation_ticket 1 ''v'' 5 100 8 None None ''slot-1'')]"

text \<open>
  The version-less lookup used by heartbeats and by \<open>fail_job\<close> is not determined by the table:
  one validator may hold leases of two benchmark eras on the same agent, in different slots (the
  unique index is per validator slot, not per validator). Here the live lease named by its exact
  deadline is found or missed depending on the order in which the rows are scanned.
\<close>

theorem get_open_ticket_versionless_ambiguous:
  "tickets_ok two_era_leases \<and> tickets_ok (rev two_era_leases) \<and>
   get_open_ticket 1 ''v'' 50 105 None None two_era_leases = None \<and>
   get_open_ticket 1 ''v'' 50 105 None None (rev two_era_leases) = Some (two_era_leases ! 1)"
  by (simp add: two_era_leases_def new_confirmation_ticket_def tickets_ok_def one_issued_per_slot_def
      same_slot_def ticket_ok_def tkey_def MAX_INFRA_RETRY_GRANTS_def get_open_ticket_def select_first_def)

subsection \<open>No-fault grants\<close>

lemma retry_budget_spent_cap: "retry_budget_spent t \<longleftrightarrow> t_attempt_count t \<ge> ticket_attempt_cap t"
  by (simp add: retry_budget_spent_def ticket_attempt_cap_def)

lemma grant_no_fault_retry_cases:
  obtains "grant_no_fault_retry g t = (t, False)"
    | "t_infra_retry_grants t < MAX_INFRA_RETRY_GRANTS"
      "grant_no_fault_retry g t = (t\<lparr>t_infra_retry_grants := t_infra_retry_grants t + 1\<rparr>, True)"
  unfolding grant_no_fault_retry_def by (metis linorder_not_le)

lemma grant_no_fault_retry_ok: "ticket_ok t \<Longrightarrow> ticket_ok (fst (grant_no_fault_retry g t))"
  by (rule grant_no_fault_retry_cases [of g t]) (auto simp: ticket_ok_def)

lemma tkey_grant_no_fault_retry [simp]: "tkey (fst (grant_no_fault_retry g t)) = tkey t"
  by (rule grant_no_fault_retry_cases [of g t]) (auto simp: tkey_def)

lemma backoff_small: "2 \<le> n \<Longrightarrow> n \<le> 4 \<Longrightarrow> infra_retry_backoff n = td_minutes (2 ^ nat n)"
proof -
  assume "2 \<le> n" "n \<le> 4"
  then consider "n = 2" | "n = 3" | "n = 4" by linarith
  then show ?thesis
    by cases (simp_all add: infra_retry_backoff_def INFRA_RETRY_BACKOFF_BASE_def INFRA_RETRY_BACKOFF_CAP_def td_defs Let_def)
qed

lemma backoff_large: "5 \<le> n \<Longrightarrow> infra_retry_backoff n = td_minutes 30"
proof -
  assume n: "5 \<le> n"
  have "(2 :: int) ^ 4 \<le> 2 ^ nat (min (n - 1) 20)" using n by (intro power_increasing) auto
  with n show ?thesis
    by (simp add: infra_retry_backoff_def INFRA_RETRY_BACKOFF_BASE_def INFRA_RETRY_BACKOFF_CAP_def td_defs Let_def)
qed

text \<open>
  The cooldown after the n-th no-fault grant doubles from two minutes (2, 4, 8, 16 minutes) and
  is thirty minutes from the fifth grant on, for any count however large.
\<close>

theorem infra_retry_backoff_schedule:
  "infra_retry_backoff n = td_minutes (if n \<le> 1 then 2 else if n \<le> 4 then 2 ^ nat n else 30)"
  using backoff_small [of n] backoff_large [of n]
  by (cases "n \<le> 1") (auto simp: infra_retry_backoff_def INFRA_RETRY_BACKOFF_BASE_def)

subsection \<open>The confirmation lane\<close>

lemma mark_ticket_scored_ok: "tickets_ok ts \<Longrightarrow> tickets_ok (mark_ticket_scored a h v ts)"
proof (cases "get_row tkey (a, v, h) ts")
  case (Some t)
  assume ok: "tickets_ok ts"
  from Some have "t \<in> set ts" by (auto dest: get_row_SomeD)
  with ok have "ticket_ok (t\<lparr>t_status := SCORED\<rparr>)" by (auto simp: tickets_ok_def ticket_ok_def)
  with ok Some show ?thesis by (auto simp: mark_ticket_scored_def intro!: tickets_ok_set_row)
qed (simp add: mark_ticket_scored_def)

definition free_slot :: "hotkey \<Rightarrow> slot \<Rightarrow> ticket list \<Rightarrow> bool" where
  "free_slot h s ts \<longleftrightarrow> (\<forall>u \<in> set ts. t_status u = ISSUED \<longrightarrow> \<not> (t_validator_hotkey u = h \<and> t_slot_id u = s))"

lemma swept_free_slot:
  "select_first (slot_live h s now) (fst (expire_overdue_tickets now ts)) = None \<Longrightarrow>
   free_slot h s (fst (expire_overdue_tickets now ts))"
  unfolding free_slot_def select_first_None_iff slot_live_def using sweep_live by blast

lemma tickets_ok_issue_row:
  assumes "tickets_ok ts" and "ticket_ok t" and "free_slot (t_validator_hotkey t) (t_slot_id t) ts"
  shows "tickets_ok (set_row tkey t ts)"
    and "tkey t \<notin> tkey ` set ts \<Longrightarrow> tickets_ok (ts @ [t])"
  using assms by (auto intro!: tickets_ok_set_row tickets_ok_insert simp: free_slot_def same_slot_def)

lemma new_confirmation_ticket_ok:
  "ticket_ok (new_confirmation_ticket a h now ttl v sd ds s)"
  "tkey (new_confirmation_ticket a h now ttl v sd ds s) = (a, v, h)"
  "t_slot_id (new_confirmation_ticket a h now ttl v sd ds s) = s"
  "t_validator_hotkey (new_confirmation_ticket a h now ttl v sd ds s) = h"
  by (simp_all add: new_confirmation_ticket_def ticket_ok_def tkey_def MAX_INFRA_RETRY_GRANTS_def)

lemma reissue_confirmation_ticket_ok:
  "ticket_ok t \<Longrightarrow> ticket_ok (reissue_confirmation_ticket now ttl v sd ds s t)"
  "tkey t = (a, v, h) \<Longrightarrow> tkey (reissue_confirmation_ticket now ttl v sd ds s t) = (a, v, h)"
  "t_slot_id (reissue_confirmation_ticket now ttl v sd ds s t) = s"
  "t_validator_hotkey (reissue_confirmation_ticket now ttl v sd ds s t) = t_validator_hotkey t"
  by (auto simp: reissue_confirmation_ticket_def ticket_ok_def tkey_def Let_def)

text \<open>The outcomes of a confirmation claim, after the sweep \<open>ts\<close>.\<close>

lemma issue_confirmation_ticket_cases:
  assumes "ts = fst (expire_overdue_tickets now ts0)"
  obtains
    (resume) t where "issue_confirmation_ticket a h now ttl v sd ds s agents alog ts0 = (ts, Some t)"
      "t \<in> set ts" "tkey t = (a, v, h)" "t_status t = ISSUED" "t_deadline t > now" "t_purpose t = CONTINUAL_RETEST"
      "t_purpose_revision t > 0" "sd = None \<or> t_seed t = sd" "ds = None \<or> t_dataset_sha256 t = ds"
  | (refuse) "issue_confirmation_ticket a h now ttl v sd ds s agents alog ts0 = (ts, None)"
  | (fresh) t ag where "issue_confirmation_ticket a h now ttl v sd ds s agents alog ts0 = (ts @ [t], Some t)"
      "t = new_confirmation_ticket a h now ttl v sd ds s" "(a, v, h) \<notin> tkey ` set ts" "free_slot h s ts"
      "get_row ag_agent_id a agents = Some ag" "ag_status ag \<in> {AGENT_SCORED, LIVE}" "\<not> retest_requested a h alog"
  | (reissue) t t0 ag where "issue_confirmation_ticket a h now ttl v sd ds s agents alog ts0 = (set_row tkey t ts, Some t)"
      "t = reissue_confirmation_ticket now ttl v sd ds s t0" "t0 \<in> set ts" "tkey t0 = (a, v, h)" "t_status t0 \<noteq> ISSUED"
      "\<not> cooling_down now t0" "free_slot h s ts"
      "get_row ag_agent_id a agents = Some ag" "ag_status ag \<in> {AGENT_SCORED, LIVE}" "\<not> retest_requested a h alog"
proof -
  let ?live = "\<lambda>t. t_agent_id t = a \<and> t_validator_hotkey t = h \<and> t_bench_version t = v \<and> t_status t = ISSUED \<and> t_deadline t > now"
  let ?r = "issue_confirmation_ticket a h now ttl v sd ds s agents alog ts0"
  note unf = issue_confirmation_ticket_def Let_def assms [symmetric]
  show ?thesis
  proof (cases "select_first ?live ts")
    case (Some t)
    let ?ok = "t_purpose t = CONTINUAL_RETEST \<and> t_purpose_revision t > 0 \<and> (sd = None \<or> t_seed t = sd) \<and> (ds = None \<or> t_dataset_sha256 t = ds)"
    have r: "?r = (ts, if ?ok then Some t else None)" using Some by (simp add: unf)
    have t: "?live t \<and> t \<in> set ts" using select_first_SomeD [OF Some] .
    show ?thesis
    proof (cases ?ok)
      case True
      with r t show ?thesis by (intro resume [of t]) (simp_all add: tkey_def)
    next
      case False
      then show ?thesis using r by (intro refuse) (simp only: if_False)
    qed
  next
    case N: None
    show ?thesis
    proof (cases "select_first (slot_live h s now) ts \<noteq> None \<or> get_row ag_agent_id a agents = None \<or>
        ag_status (the (get_row ag_agent_id a agents)) \<notin> {AGENT_SCORED, LIVE} \<or> retest_requested a h alog")
      case True
      then show ?thesis using N by (intro refuse) (auto simp: unf split: option.splits)
    next
      case False
      then obtain ag where ag: "get_row ag_agent_id a agents = Some ag" "ag_status ag \<in> {AGENT_SCORED, LIVE}"
        and rt: "\<not> retest_requested a h alog" and sl: "select_first (slot_live h s now) ts = None" by auto
      have free: "free_slot h s ts" using sl swept_free_slot assms by simp
      show ?thesis
      proof (cases "get_row tkey (a, v, h) ts")
        case None
        then have "(a, v, h) \<notin> tkey ` set ts" by (simp add: get_row_None_iff)
        moreover have "?r = (ts @ [new_confirmation_ticket a h now ttl v sd ds s], Some (new_confirmation_ticket a h now ttl v sd ds s))"
          using N None ag rt sl by (simp add: unf)
        ultimately show ?thesis using ag rt free by (intro fresh) simp_all
      next
        case (Some t0)
        have t0: "t0 \<in> set ts" "tkey t0 = (a, v, h)" using get_row_SomeD [OF Some] by simp_all
        have "t_status t0 \<noteq> ISSUED"
        proof
          assume i: "t_status t0 = ISSUED"
          then have "t_deadline t0 > now" using sweep_live t0 assms by simp
          with i t0 N show False using select_first_NoneD [OF N t0(1)] by (simp add: tkey_def)
        qed
        moreover have "?r = (if cooling_down now t0 then (ts, None)
            else (set_row tkey (reissue_confirmation_ticket now ttl v sd ds s t0) ts, Some (reissue_confirmation_ticket now ttl v sd ds s t0)))"
          using N Some ag rt sl by (simp add: unf)
        ultimately show ?thesis using ag rt free t0
          by (cases "cooling_down now t0") (auto intro: refuse reissue)
      qed
    qed
  qed
qed

lemma issue_confirmation_ticket_ok:
  assumes "tickets_ok ts0"
  shows "tickets_ok (fst (issue_confirmation_ticket a h now ttl v sd ds s agents alog ts0))"
proof -
  let ?ts = "fst (expire_overdue_tickets now ts0)"
  have ok: "tickets_ok ?ts" using assms by (rule sweep_ok)
  show ?thesis
  proof (rule issue_confirmation_ticket_cases [OF refl, of a h now ttl v sd ds s agents alog ts0])
    fix t ag
    assume "issue_confirmation_ticket a h now ttl v sd ds s agents alog ts0 = (?ts @ [t], Some t)"
      "t = new_confirmation_ticket a h now ttl v sd ds s" "(a, v, h) \<notin> tkey ` set ?ts" "free_slot h s ?ts"
    then show ?thesis using ok by (auto intro!: tickets_ok_issue_row simp: new_confirmation_ticket_ok)
  next
    fix t t0 ag
    assume "issue_confirmation_ticket a h now ttl v sd ds s agents alog ts0 = (set_row tkey t ?ts, Some t)"
      and t: "t = reissue_confirmation_ticket now ttl v sd ds s t0" "t0 \<in> set ?ts" "tkey t0 = (a, v, h)" "free_slot h s ?ts"
    moreover have "ticket_ok t" using ok t by (auto simp: tickets_ok_def intro: reissue_confirmation_ticket_ok)
    moreover have "t_validator_hotkey t = h" "t_slot_id t = s"
      using t by (auto simp: reissue_confirmation_ticket_ok tkey_def)
    ultimately show ?thesis using ok by (auto intro!: tickets_ok_issue_row(1))
  qed (use ok in simp_all)
qed

text \<open>
  A confirmation claim that returns a ticket returns a live lease of the retest lane: the
  ticket is in the table under the asked agent, benchmark version and validator, issued, unexpired,
  with the continual-retest purpose; the table keeps its constraints; and apart from that ticket
  the claim changed nothing beyond the overdue sweep.
\<close>

theorem confirmation_lease_correct:
  assumes ok: "tickets_ok ts0" and ttl: "ttl > 0"
    and r: "issue_confirmation_ticket a h now ttl v sd ds s agents alog ts0 = (ts', Some t)"
  shows "tickets_ok ts' \<and> t \<in> set ts' \<and> tkey t = (a, v, h) \<and> t_status t = ISSUED \<and> t_deadline t > now \<and>
    t_purpose t = CONTINUAL_RETEST \<and> t_purpose_revision t > 0 \<and>
    (\<forall>u. tkey u \<noteq> (a, v, h) \<longrightarrow> (u \<in> set ts' \<longleftrightarrow> u \<in> set (fst (expire_overdue_tickets now ts0))))"
proof -
  let ?ts = "fst (expire_overdue_tickets now ts0)"
  have ok': "tickets_ok ts'" using issue_confirmation_ticket_ok [OF ok, of a h now ttl v sd ds s agents alog] r by simp
  show ?thesis
  proof (cases rule: issue_confirmation_ticket_cases [OF refl, of a h now ttl v sd ds s agents alog ts0])
    case (1 t')
    then show ?thesis using r ok' by auto
  next
    case 2
    then show ?thesis using r by simp
  next
    case (3 t' ag)
    then have "tkey t = (a, v, h)" using r by (simp add: new_confirmation_ticket_ok)
    with 3 show ?thesis using r ok' ttl by (auto simp: new_confirmation_ticket_def)
  next
    case (4 t' t0 ag)
    then have key: "tkey t = (a, v, h)" using r by (auto intro: reissue_confirmation_ticket_ok)
    have ts': "ts' = set_row tkey t ?ts" using 4 r by simp
    have "tkey t0 \<in> tkey ` set ?ts" using 4(3) by (rule imageI)
    then have "t \<in> set ts'" unfolding ts' using 4(4) key by (intro set_row_mem) simp
    moreover have "t_purpose_revision t0 \<ge> 0" using tickets_ok_rowD [OF sweep_ok [OF ok] 4(3)] by (simp add: ticket_ok_def)
    moreover have "\<forall>u. tkey u \<noteq> (a, v, h) \<longrightarrow> (u \<in> set ts' \<longleftrightarrow> u \<in> set ?ts)"
      unfolding ts' using key by (auto simp: set_row_def set_update_where)
    ultimately show ?thesis using 4(1,2) r ok' ttl key
      by (auto simp: reissue_confirmation_ticket_def Let_def)
  qed
qed

definition scored_agent :: agent where
  "scored_agent = \<lparr>ag_agent_id = 1, ag_miner_hotkey = ''m'', ag_status = AGENT_SCORED, ag_created_at = 0,
     ag_screening_policy_version = 9, ag_screened_image_sha256 = None, ag_screened_image_size_bytes = None,
     ag_screened_image_id = None, ag_screened_image_ref = None, ag_screened_image_upload_id = None,
     ag_screened_image_verified_at = None, ag_sha256 = ''a'', ag_screening_reason = None,
     ag_screening_reason_code = None, ag_duplicate_of = None, ag_dataset_seed = None, ag_dataset_sha256 = None,
     ag_dataset_run_size = None, ag_dataset_seed_block = None, ag_dataset_seed_block_hash = None\<rparr>"

theorem confirmation_lease_correct_witness:
  "\<exists>ts' t. issue_confirmation_ticket 1 ''v'' 0 (td_hours 1) 8 (Some 4) None ''slot-1'' [scored_agent] [] [] = (ts', Some t) \<and>
     t \<in> set ts' \<and> t_deadline t > 0"
proof -
  let ?t = "new_confirmation_ticket 1 ''v'' 0 (td_hours 1) 8 (Some 4) None ''slot-1''"
  have r: "issue_confirmation_ticket 1 ''v'' 0 (td_hours 1) 8 (Some 4) None ''slot-1'' [scored_agent] [] [] = ([?t], Some ?t)"
    by (simp add: issue_confirmation_ticket_def expire_overdue_tickets_def update_where_def select_first_def get_row_def
        scored_agent_def retest_requested_def get_latest_score_retest_event_def newest_def Let_def)
  show ?thesis using confirmation_lease_correct [OF tickets_ok_Nil _ r] r by (auto simp: td_defs)
qed

end
