(* ===== verification/Lease_Liveness.thy ===== *)
theory Lease_Liveness
  imports Tickets
begin

text \<open>
  The gate every platform-initiated lease revocation goes through,
  \<open>ditto/db/queries/lease_liveness.py\<close>: which evidence proves a lease idle, what a
  revocation does to the ticket, and the audit row it leaves. A verdict is the pair of its
  \<open>idle\<close> flag and its reason code; the diagnostic dictionary the code attaches for the log
  line and the audit row is not modelled, nor are the log lines and the Prometheus counters.
  The heartbeat's capacity column is \<open>None\<close>, an unreadable blob, or a blob with the fields of
  \<open>BenchmarkCapacity\<close> (\<open>ditto/api_models/benchmark_capacity.py\<close>), whose validator is
  \<open>capacity_model_validate\<close>.
\<close>

subsection \<open>Heartbeats\<close>

record active_slot =
  sl_slot_id :: slot
  sl_agent_id :: uuid
  sl_bench_version :: int
  sl_progress :: "json option"
  sl_healthy :: bool

record capacity =
  cp_configured_slots :: int
  cp_healthy_slots :: "slot list"
  cp_admission :: string
  cp_active :: "active_slot list"

datatype capacity_blob = Unreadable | Blob capacity

record heartbeat =
  hb_validator_hotkey :: hotkey
  hb_seen_at :: time
  hb_protocol_version :: int
  hb_state :: string
  hb_benchmark_capacity :: "capacity_blob option"
  hb_claimed_slots :: "json option"

definition slot_name :: "nat \<Rightarrow> slot" where
  "slot_name n = ''slot-'' @ dec_nat n"

definition slot_pattern :: "slot \<Rightarrow> bool" where
  "slot_pattern s \<longleftrightarrow> s \<in> set (map slot_name [0..<8])"

definition capacity_model_validate :: "capacity_blob \<Rightarrow> capacity option" where
  "capacity_model_validate blob =
     (case blob of Unreadable \<Rightarrow> None
      | Blob c \<Rightarrow>
        (let configured = map slot_name [0..<nat (cp_configured_slots c)];
             active_ids = map sl_slot_id (cp_active c)
         in if 1 \<le> cp_configured_slots c \<and> cp_configured_slots c \<le> 8 \<and>
               length (cp_healthy_slots c) \<le> 8 \<and> length (cp_active c) \<le> 8 \<and>
               cp_admission c \<in> {''accepting'', ''draining'', ''paused'', ''resource_constrained''} \<and>
               list_all (\<lambda>s. slot_pattern (sl_slot_id s) \<and> sl_bench_version s \<ge> 1) (cp_active c) \<and>
               distinct (cp_healthy_slots c) \<and> distinct active_ids \<and>
               set (cp_healthy_slots c) \<subseteq> set configured \<and> set active_ids \<subseteq> set configured \<and>
               \<not> (cp_admission c \<noteq> ''accepting'' \<and> cp_healthy_slots c \<noteq> [])
            then Some c else None))"

subsection \<open>The verdict\<close>

definition IDLE_EVIDENCE_MAX_AGE :: timedelta where
  "IDLE_EVIDENCE_MAX_AGE = td_seconds 120"

definition LEASE_REPORTING_GRACE :: timedelta where
  "LEASE_REPORTING_GRACE = td_minutes 5"

datatype lease_reason =
    REASON_RUNNING_REPORTED | REASON_NEVER_REPORTED | REASON_HEARTBEAT_MISSING
  | REASON_HEARTBEAT_STALE | REASON_EVIDENCE_PREDATES_LEASE | REASON_CAPACITY_UNREADABLE
  | REASON_SLOT_ACTIVE | REASON_SLOT_CLAIMED | REASON_AGENT_CLAIMED_ELSEWHERE
  | REASON_AGENT_ACTIVE_ELSEWHERE | REASON_IDLE_CAPACITY | REASON_IDLE_STATE
  | REASON_EVICT_OCCUPIED_NOT_PROGRESSING | REASON_EVICT_OCCUPIED_PROGRESSING
  | REASON_EVICT_OCCUPANCY_UNOBSERVABLE | REASON_LEASE_DEADLINE_PASSED

record liveness =
  lv_idle :: bool
  lv_reason :: lease_reason

definition assume_running :: "lease_reason \<Rightarrow> liveness" where
  "assume_running r = \<lparr>lv_idle = False, lv_reason = r\<rparr>"

text \<open>\<open>(claims this slot, agent's other slot)\<close>; anything malformed is no evidence.\<close>

fun claim_loop :: "json list \<Rightarrow> pytext \<Rightarrow> pytext \<Rightarrow> pytext option \<Rightarrow> bool \<times> pytext option" where
  "claim_loop [] slot_id agent_id elsewhere = (False, elsewhere)"
| "claim_loop (entry # entries) slot_id agent_id elsewhere =
     (case entry of
        JObj kvs \<Rightarrow>
          (if map_of kvs (ptext ''slot_id'') = Some (JStr slot_id) then (True, None)
           else case map_of kvs (ptext ''slot_id'') of
                  Some (JStr entry_slot) \<Rightarrow>
                    (if map_of kvs (ptext ''agent_id'') = Some (JStr agent_id)
                     then claim_loop entries slot_id agent_id (Some entry_slot)
                     else claim_loop entries slot_id agent_id elsewhere)
                | _ \<Rightarrow> claim_loop entries slot_id agent_id elsewhere)
      | _ \<Rightarrow> claim_loop entries slot_id agent_id elsewhere)"

definition claim_covers :: "json option \<Rightarrow> slot \<Rightarrow> uuid \<Rightarrow> bool \<times> pytext option" where
  "claim_covers claimed_slots slot_id agent_id =
     (case claimed_slots of
        Some (JArr entries) \<Rightarrow> claim_loop entries (ptext slot_id) (ptext (uuid_str agent_id)) None
      | _ \<Rightarrow> (False, None))"

fun active_verdict :: "active_slot list \<Rightarrow> slot \<Rightarrow> uuid \<Rightarrow> liveness option" where
  "active_verdict [] slot_id agent_id = None"
| "active_verdict (s # ss) slot_id agent_id =
     (if sl_slot_id s = slot_id then Some (assume_running REASON_SLOT_ACTIVE)
      else if sl_agent_id s = agent_id then Some (assume_running REASON_AGENT_ACTIVE_ELSEWHERE)
      else active_verdict ss slot_id agent_id)"

definition capacity_verdict :: "heartbeat \<Rightarrow> ticket \<Rightarrow> slot \<Rightarrow> liveness" where
  "capacity_verdict hb t slot_id =
     (case hb_benchmark_capacity hb of
        None \<Rightarrow> assume_running REASON_CAPACITY_UNREADABLE
      | Some blob \<Rightarrow>
     (case capacity_model_validate blob of
        None \<Rightarrow> assume_running REASON_CAPACITY_UNREADABLE
      | Some c \<Rightarrow>
     (case active_verdict (cp_active c) slot_id (t_agent_id t) of
        Some v \<Rightarrow> v
      | None \<Rightarrow>
     (case claim_covers (hb_claimed_slots hb) slot_id (t_agent_id t) of
        (claimed_slot, claimed_agent) \<Rightarrow>
          if claimed_slot then assume_running REASON_SLOT_CLAIMED
          else if claimed_agent \<noteq> None then assume_running REASON_AGENT_CLAIMED_ELSEWHERE
          else \<lparr>lv_idle = True, lv_reason = REASON_IDLE_CAPACITY\<rparr>))))"

definition lease_liveness ::
  "ticket \<Rightarrow> hotkey \<Rightarrow> slot \<Rightarrow> time \<Rightarrow> bool \<Rightarrow> heartbeat list \<Rightarrow> liveness" where
  "lease_liveness t validator_hotkey slot_id now running_benchmark_reported hbs =
     (if running_benchmark_reported then assume_running REASON_RUNNING_REPORTED
      else if t_first_reported_at t = None then assume_running REASON_NEVER_REPORTED
      else case get_row hb_validator_hotkey validator_hotkey hbs of
        None \<Rightarrow> assume_running REASON_HEARTBEAT_MISSING
      | Some hb \<Rightarrow>
        if now - hb_seen_at hb > IDLE_EVIDENCE_MAX_AGE then assume_running REASON_HEARTBEAT_STALE
        else if hb_seen_at hb \<le> t_issued_at t + LEASE_REPORTING_GRACE
          then assume_running REASON_EVIDENCE_PREDATES_LEASE
        else if hb_protocol_version hb \<ge> 10 then capacity_verdict hb t slot_id
        else if hb_state hb = ''running_benchmark'' then assume_running REASON_RUNNING_REPORTED
        else \<lparr>lv_idle = True, lv_reason = REASON_IDLE_STATE\<rparr>)"

subsection \<open>Operator evictions\<close>

fun occupancy_loop :: "active_slot list \<Rightarrow> slot \<Rightarrow> lease_reason" where
  "occupancy_loop [] slot_id = REASON_EVICT_OCCUPANCY_UNOBSERVABLE"
| "occupancy_loop (s # ss) slot_id =
     (if sl_slot_id s \<noteq> slot_id then occupancy_loop ss slot_id
      else if sl_progress s = None then REASON_EVICT_OCCUPIED_NOT_PROGRESSING
      else REASON_EVICT_OCCUPIED_PROGRESSING)"

definition slot_occupancy :: "heartbeat option \<Rightarrow> ticket \<Rightarrow> lease_reason" where
  "slot_occupancy heartbeat t =
     (case heartbeat of
        None \<Rightarrow> REASON_EVICT_OCCUPANCY_UNOBSERVABLE
      | Some hb \<Rightarrow>
     (case hb_benchmark_capacity hb of
        None \<Rightarrow> REASON_EVICT_OCCUPANCY_UNOBSERVABLE
      | Some blob \<Rightarrow>
     (case capacity_model_validate blob of
        None \<Rightarrow> REASON_EVICT_OCCUPANCY_UNOBSERVABLE
      | Some c \<Rightarrow> occupancy_loop (cp_active c) (t_slot_id t))))"

definition operator_eviction_liveness :: "ticket \<Rightarrow> heartbeat list \<Rightarrow> liveness" where
  "operator_eviction_liveness t hbs =
     \<lparr>lv_idle = True,
      lv_reason = slot_occupancy (get_row hb_validator_hotkey (t_validator_hotkey t) hbs) t\<rparr>"

subsection \<open>Revocation\<close>

datatype revocation_action = ACTION_FORCE_EXPIRED | ACTION_OPERATOR_EVICTED | ACTION_CLOSED_UNSERVICEABLE

record lease_audit =
  la_audit_id :: uuid
  la_agent_id :: uuid
  la_validator_hotkey :: hotkey
  la_slot_id :: slot
  la_bench_version :: int
  la_action :: revocation_action
  la_reason :: lease_reason
  la_context :: string
  la_recorded_at :: time

datatype revocation_error = NotProvenIdle lease_reason

definition record_lease_revocation ::
  "uuid \<Rightarrow> ticket \<Rightarrow> time \<Rightarrow> liveness \<Rightarrow> string \<Rightarrow> revocation_action \<Rightarrow> lease_audit list \<Rightarrow>
   revocation_error + lease_audit list \<times> lease_audit" where
  "record_lease_revocation audit_id t now lv context action audits =
     (if \<not> lv_idle lv then Inl (NotProvenIdle (lv_reason lv))
      else let row = \<lparr>la_audit_id = audit_id, la_agent_id = t_agent_id t,
                      la_validator_hotkey = t_validator_hotkey t, la_slot_id = t_slot_id t,
                      la_bench_version = t_bench_version t, la_action = action,
                      la_reason = lv_reason lv, la_context = context, la_recorded_at = now\<rparr>
           in Inr (audits @ [row], row))"

definition close_lease :: "bool \<Rightarrow> time \<Rightarrow> ticket \<Rightarrow> ticket" where
  "close_lease compensate now t =
     (if compensate then fst (grant_no_fault_retry None t) else t)
       \<lparr>t_status := EXPIRED, t_deadline := now, t_retry_after := Some now\<rparr>"

definition force_expire_lease ::
  "uuid \<Rightarrow> ticket \<Rightarrow> time \<Rightarrow> liveness \<Rightarrow> string \<Rightarrow> revocation_action \<Rightarrow> bool \<Rightarrow>
   ticket list \<times> lease_audit list \<Rightarrow> revocation_error + (ticket list \<times> lease_audit list) \<times> lease_audit" where
  "force_expire_lease audit_id t now lv context action compensate db =
     (case record_lease_revocation audit_id t now lv context action (snd db) of
        Inl e \<Rightarrow> Inl e
      | Inr (audits, row) \<Rightarrow>
          Inr ((set_row tkey (close_lease compensate now t) (fst db), audits), row))"

definition maybe_force_expire_lease ::
  "uuid \<Rightarrow> ticket \<Rightarrow> hotkey \<Rightarrow> slot \<Rightarrow> time \<Rightarrow> string \<Rightarrow> bool \<Rightarrow> heartbeat list \<Rightarrow>
   ticket list \<times> lease_audit list \<Rightarrow> (ticket list \<times> lease_audit list) \<times> bool" where
  "maybe_force_expire_lease audit_id t validator_hotkey slot_id now context running hbs db =
     (let lv = lease_liveness t validator_hotkey slot_id now running hbs
      in if \<not> lv_idle lv then (db, False)
         else case force_expire_lease audit_id t now lv context ACTION_FORCE_EXPIRED True db of
                Inl _ \<Rightarrow> (db, False)
              | Inr (db', _) \<Rightarrow> (db', True))"

subsection \<open>What proves a lease idle\<close>

text \<open>An entry of the claim list that speaks for the slot or for the agent.\<close>

definition entry_claims :: "slot \<Rightarrow> uuid \<Rightarrow> json \<Rightarrow> bool" where
  "entry_claims slot_id agent_id entry \<longleftrightarrow>
     (case entry of
        JObj kvs \<Rightarrow> map_of kvs (ptext ''slot_id'') = Some (JStr (ptext slot_id)) \<or>
          (\<exists>s. map_of kvs (ptext ''slot_id'') = Some (JStr s) \<and>
               map_of kvs (ptext ''agent_id'') = Some (JStr (ptext (uuid_str agent_id))))
      | _ \<Rightarrow> False)"

definition unclaimed :: "json option \<Rightarrow> slot \<Rightarrow> uuid \<Rightarrow> bool" where
  "unclaimed claims slot_id agent_id \<longleftrightarrow>
     (\<forall>entries. claims = Some (JArr entries) \<longrightarrow> (\<forall>e \<in> set entries. \<not> entry_claims slot_id agent_id e))"

lemma claim_loop_elsewhere: "claim_loop es s a (Some x) \<noteq> (False, None)"
  by (induction es arbitrary: x) (auto split: json.splits option.splits)

lemma claim_loop_none:
  "claim_loop es (ptext s) (ptext (uuid_str a)) None = (False, None) \<longleftrightarrow> (\<forall>e \<in> set es. \<not> entry_claims s a e)"
proof (induction es)
  case (Cons e es)
  then show ?case
    by (cases e) (auto simp: entry_claims_def claim_loop_elsewhere split: json.splits option.splits)
qed simp

lemma claim_loop_shape: "claim_loop es s a x = (True, y) \<Longrightarrow> y = None"
  by (induction es arbitrary: x) (auto split: json.splits option.splits if_splits)

lemma claim_covers_none: "claim_covers c s a = (False, None) \<longleftrightarrow> unclaimed c s a"
  by (auto simp: claim_covers_def unclaimed_def claim_loop_none split: option.splits json.splits)

lemma active_verdict_None:
  "active_verdict ss s a = None \<longleftrightarrow> (\<forall>x \<in> set ss. sl_slot_id x \<noteq> s \<and> sl_agent_id x \<noteq> a)"
  by (induction ss) auto

lemma active_verdict_not_idle: "active_verdict ss s a = Some v \<Longrightarrow> \<not> lv_idle v"
  by (induction ss) (auto simp: assume_running_def split: if_splits)

lemma assume_running_idle [simp]: "\<not> lv_idle (assume_running r)"
  by (simp add: assume_running_def)

lemma capacity_verdict_idle:
  "lv_idle (capacity_verdict hb t s) \<longleftrightarrow>
   (\<exists>blob c. hb_benchmark_capacity hb = Some blob \<and> capacity_model_validate blob = Some c \<and>
      (\<forall>x \<in> set (cp_active c). sl_slot_id x \<noteq> s \<and> sl_agent_id x \<noteq> t_agent_id t) \<and>
      unclaimed (hb_claimed_slots hb) s (t_agent_id t))"
  unfolding capacity_verdict_def claim_covers_none [symmetric] active_verdict_None [symmetric]
  by (auto split: option.splits prod.splits if_splits dest: active_verdict_not_idle)

text \<open>
  C23. A running lease is never revoked on absence of evidence. The verdict is idle exactly when no
  caller reported a running benchmark, the lease has been reported on at least once, and the
  validator's stored heartbeat is at most two minutes old, was sent more than five minutes after
  the lease began and positively shows the slot free: under the slot protocol (version 10 on) a
  readable capacity report in which no active slot and no claim mentions the slot or the agent,
  before it a state other than \<open>running_benchmark\<close>.
\<close>

theorem lease_idle_iff:
  "lv_idle (lease_liveness t h s now running hbs) \<longleftrightarrow>
     \<not> running \<and> t_first_reported_at t \<noteq> None \<and>
     (\<exists>hb. get_row hb_validator_hotkey h hbs = Some hb \<and>
        now - hb_seen_at hb \<le> td_minutes 2 \<and> hb_seen_at hb > t_issued_at t + td_minutes 5 \<and>
        (if hb_protocol_version hb \<ge> 10
         then \<exists>blob c. hb_benchmark_capacity hb = Some blob \<and> capacity_model_validate blob = Some c \<and>
                (\<forall>x \<in> set (cp_active c). sl_slot_id x \<noteq> s \<and> sl_agent_id x \<noteq> t_agent_id t) \<and>
                unclaimed (hb_claimed_slots hb) s (t_agent_id t)
         else hb_state hb \<noteq> ''running_benchmark''))"
proof -
  have age: "IDLE_EVIDENCE_MAX_AGE = td_minutes 2" "LEASE_REPORTING_GRACE = td_minutes 5"
    by (simp_all add: IDLE_EVIDENCE_MAX_AGE_def LEASE_REPORTING_GRACE_def td_defs)
  show ?thesis
    unfolding lease_liveness_def age capacity_verdict_idle [symmetric]
    by (cases "get_row hb_validator_hotkey h hbs") (simp_all add: not_less not_le linorder_not_le conj_commute)
qed

subsection \<open>What a revocation does\<close>

lemma close_lease_ok: "ticket_ok t \<Longrightarrow> ticket_ok (close_lease c now t)"
  using grant_no_fault_retry_ok [of t None] by (simp add: close_lease_def ticket_ok_def)

lemma close_lease_key [simp]: "tkey (close_lease c now t) = tkey t"
  using tkey_grant_no_fault_retry [of None t] by (simp add: close_lease_def tkey_def)

lemma close_lease_status [simp]: "t_status (close_lease c now t) = EXPIRED"
  by (simp add: close_lease_def)

lemma force_expire_lease_idle:
  assumes "lv_idle lv"
  shows "\<exists>row. force_expire_lease aid t now lv ctx act c (ts, audits) =
      Inr ((set_row tkey (close_lease c now t) ts, audits @ [row]), row) \<and>
    la_reason row = lv_reason lv \<and> la_action row = act \<and> la_recorded_at row = now \<and>
    (la_agent_id row, la_bench_version row, la_validator_hotkey row) = tkey t \<and> la_slot_id row = t_slot_id t"
  using assms by (simp add: force_expire_lease_def record_lease_revocation_def Let_def tkey_def)

text \<open>
  The interface of lease revocation as its callers see it: it answers whether it revoked; a refusal
  changes nothing; a revocation keeps the table well formed, frees the slot, keeps every other row
  and leaves exactly one audit row.
\<close>

locale lease_revoker =
  fixes revoke :: "ticket \<Rightarrow> ticket list \<times> lease_audit list \<Rightarrow> (ticket list \<times> lease_audit list) \<times> bool"
  assumes refused: "revoke t db = (db', False) \<Longrightarrow> db' = db"
    and revoked_ok: "tickets_ok (fst db) \<Longrightarrow> t \<in> set (fst db) \<Longrightarrow> revoke t db = (db', True) \<Longrightarrow> tickets_ok (fst db')"
    and revoked_row: "revoke t db = (db', True) \<Longrightarrow> u \<in> set (fst db') \<Longrightarrow> tkey u = tkey t \<Longrightarrow> t_status u = EXPIRED"
    and revoked_other: "revoke t db = (db', True) \<Longrightarrow> tkey u \<noteq> tkey t \<Longrightarrow> u \<in> set (fst db') \<longleftrightarrow> u \<in> set (fst db)"
    and revoked_keys: "revoke t db = (db', True) \<Longrightarrow> map tkey (fst db') = map tkey (fst db)"
    and revoked_audit: "revoke t db = (db', True) \<Longrightarrow> \<exists>row. snd db' = snd db @ [row]"
begin

lemma keeps_ok: "tickets_ok (fst db) \<Longrightarrow> t \<in> set (fst db) \<Longrightarrow> tickets_ok (fst (fst (revoke t db)))"
  by (cases "snd (revoke t db)") (metis refused revoked_ok prod.collapse)+

lemma frees_slot:
  assumes "tickets_ok (fst db)" and "t \<in> set (fst db)" and "t_status t = ISSUED" and "revoke t db = (db', True)"
  shows "free_slot (t_validator_hotkey t) (t_slot_id t) (fst db')"
  unfolding free_slot_def
proof (intro ballI impI notI)
  fix u assume u: "u \<in> set (fst db')" "t_status u = ISSUED" "t_validator_hotkey u = t_validator_hotkey t \<and> t_slot_id u = t_slot_id t"
  show False
  proof (cases "tkey u = tkey t")
    case True
    with u revoked_row [OF assms(4)] show False by simp
  next
    case False
    then have "u \<in> set (fst db)" using u revoked_other [OF assms(4)] by simp
    then have "u = t" using assms u by (intro tickets_ok_unique) (simp_all add: same_slot_def)
    with False show False by simp
  qed
qed

end

lemma maybe_force_expire_lease_eq:
  "\<exists>row. maybe_force_expire_lease aid t h s now ctx running hbs (ts, audits) =
     (if lv_idle (lease_liveness t h s now running hbs)
      then ((set_row tkey (close_lease True now t) ts, audits @ [row]), True) else ((ts, audits), False))"
  using force_expire_lease_idle [of "lease_liveness t h s now running hbs" aid t now ctx ACTION_FORCE_EXPIRED True ts audits]
  by (auto simp: maybe_force_expire_lease_def Let_def)

interpretation auto_revoke: lease_revoker "\<lambda>t db. maybe_force_expire_lease aid t h s now ctx running hbs db"
proof
  fix t db db'
  show "db' = db" if "maybe_force_expire_lease aid t h s now ctx running hbs db = (db', False)"
    using that maybe_force_expire_lease_eq [of aid t h s now ctx running hbs "fst db" "snd db"] by (auto split: if_splits)
  assume r: "maybe_force_expire_lease aid t h s now ctx running hbs db = (db', True)"
  then obtain row where db': "db' = (set_row tkey (close_lease True now t) (fst db), snd db @ [row])"
    using maybe_force_expire_lease_eq [of aid t h s now ctx running hbs "fst db" "snd db"] by (auto split: if_splits)
  show "tickets_ok (fst db')" if "tickets_ok (fst db)" "t \<in> set (fst db)"
    using that unfolding db' by (auto intro!: tickets_ok_set_row close_lease_ok dest: tickets_ok_rowD)
  show "t_status u = EXPIRED" if "u \<in> set (fst db')" "tkey u = tkey t" for u
    using that unfolding db' by (auto dest: in_set_row)
  show "u \<in> set (fst db') \<longleftrightarrow> u \<in> set (fst db)" if "tkey u \<noteq> tkey t" for u
    using that unfolding db' by (auto simp: set_row_def set_update_where)
  show "map tkey (fst db') = map tkey (fst db)" unfolding db' by (simp add: row_simps)
  show "\<exists>row. snd db' = snd db @ [row]" unfolding db' by simp
qed


definition idle_lease :: ticket where
  "idle_lease = (new_confirmation_ticket 1 ''v'' 0 (td_hours 1) 7 None None ''slot-0'')
     \<lparr>t_purpose := CANONICAL_QUORUM, t_first_reported_at := Some (td_minutes 1)\<rparr>"

definition idle_heartbeat :: heartbeat where
  "idle_heartbeat = \<lparr>hb_validator_hotkey = ''v'', hb_seen_at = td_minutes 10, hb_protocol_version = 11,
     hb_state = ''polling'',
     hb_benchmark_capacity = Some (Blob \<lparr>cp_configured_slots = 1, cp_healthy_slots = [], cp_admission = ''accepting'', cp_active = []\<rparr>),
     hb_claimed_slots = None\<rparr>"

lemmas idle_example_defs = idle_lease_def idle_heartbeat_def new_confirmation_ticket_def

lemma idle_lease_is_idle:
  "lv_idle (lease_liveness idle_lease ''v'' ''slot-0'' (td_minutes 11) False [idle_heartbeat])"
  by (simp add: idle_example_defs lease_liveness_def get_row_def IDLE_EVIDENCE_MAX_AGE_def LEASE_REPORTING_GRACE_def td_defs
      capacity_verdict_def capacity_model_validate_def claim_covers_def)

theorem lease_idle_iff_witness:
  "lv_idle (lease_liveness idle_lease ''v'' ''slot-0'' (td_minutes 11) False [idle_heartbeat]) \<and>
   \<not> lv_idle (lease_liveness (idle_lease\<lparr>t_first_reported_at := None\<rparr>) ''v'' ''slot-0'' (td_minutes 11) False [idle_heartbeat])"
  unfolding lease_idle_iff
  by (simp add: idle_example_defs get_row_def td_defs capacity_model_validate_def unclaimed_def)


text \<open>
  An operator eviction is never turned into a new attempt. It needs no proof of idleness, it
  always closes the lease and is recorded under its own action with the occupancy the heartbeat
  showed, and it leaves the attempt count and the cap as they were, so a spent budget stays spent.
\<close>

theorem eviction_grants_nothing:
  "\<exists>row. force_expire_lease aid t now (operator_eviction_liveness t hbs) ctx ACTION_OPERATOR_EVICTED False (ts, audits) =
     Inr ((set_row tkey (t\<lparr>t_status := EXPIRED, t_deadline := now, t_retry_after := Some now\<rparr>) ts, audits @ [row]), row) \<and>
   la_action row = ACTION_OPERATOR_EVICTED \<and>
   la_reason row \<in> {REASON_EVICT_OCCUPIED_NOT_PROGRESSING, REASON_EVICT_OCCUPIED_PROGRESSING, REASON_EVICT_OCCUPANCY_UNOBSERVABLE} \<and>
   (retry_budget_spent (t\<lparr>t_status := EXPIRED, t_deadline := now, t_retry_after := Some now\<rparr>) \<longleftrightarrow> retry_budget_spent t)"
proof -
  have occ: "occupancy_loop ss s \<in> {REASON_EVICT_OCCUPIED_NOT_PROGRESSING, REASON_EVICT_OCCUPIED_PROGRESSING, REASON_EVICT_OCCUPANCY_UNOBSERVABLE}" for ss s
    by (induction ss) auto
  have "slot_occupancy hb t \<in> {REASON_EVICT_OCCUPIED_NOT_PROGRESSING, REASON_EVICT_OCCUPIED_PROGRESSING, REASON_EVICT_OCCUPANCY_UNOBSERVABLE}" for hb
    using occ unfolding slot_occupancy_def by (simp split: option.split)
  then show ?thesis
    using force_expire_lease_idle [of "operator_eviction_liveness t hbs" aid t now ctx ACTION_OPERATOR_EVICTED False ts audits]
    by (auto simp: operator_eviction_liveness_def close_lease_def retry_budget_spent_def)
qed

end
