(* ===== verification/Queue_Order.thy ===== *)
theory Queue_Order
  imports Lease_Liveness
begin

text \<open>
  The one definition of the validator queue's order and of its gates:
  \<open>ditto/db/queries/queue_order.py\<close>, \<open>ditto/db/queries/benchmark_admission.py\<close> and the admission
  predicates of \<open>queue_removal.py\<close> and \<open>retirement.py\<close>. The tables of one transaction are the
  record \<open>db\<close>. SQL predicates are bool-valued functions of a row; a comparison with a
  \<open>NULL\<close> is false. An \<open>ORDER BY\<close> list is a tuple under the lexicographic order.

  \<open>SCREENING_POLICY_VERSION\<close> comes from the package \<open>ditto_screening_protocol\<close> and the subnet
  number from the environment; both are fields of \<open>env\<close>.
\<close>

record db =
  d_agents :: "agent list"
  d_tickets :: "ticket list"
  d_scores :: "score list"
  d_payments :: "evaluation_payment list"
  d_attestations :: "owner_attestation list"
  d_datasets :: "benchmark_dataset list"
  d_rollouts :: "benchmark_rollout list"
  d_rollout_members :: "rollout_member list"
  d_rollout_carryover :: "rollout_carryover list"
  d_withdrawals :: "queue_withdrawal list"
  d_retirements :: "submission_retirement list"
  d_score_audit :: "audit_entry list"
  d_heartbeats :: "heartbeat list"
  d_lease_audit :: "lease_audit list"
  d_rollout_audit :: "rollout_audit list"

record env =
  e_screening_policy_version :: int
  e_netuid :: int

datatype artifact_mode = Legacy | Prefer_Screened | Screened_Only

subsection \<open>Admission\<close>

definition desc_nulls_first :: "time option \<Rightarrow> int \<times> int" where
  "desc_nulls_first t = (case t of None \<Rightarrow> (0, 0) | Some x \<Rightarrow> (1, - x))"

definition activated_rollout_for_version :: "int \<Rightarrow> db \<Rightarrow> benchmark_rollout option" where
  "activated_rollout_for_version bench_version d =
     first_by (\<lambda>r. desc_nulls_first (ro_activated_at r))
       (filter (\<lambda>r. ro_desired_version r = bench_version \<and> ro_status r = ''activated'') (d_rollouts d))"

definition resolve_fifo_start_at :: "int \<Rightarrow> benchmark_rollout option \<Rightarrow> db \<Rightarrow> time option" where
  "resolve_fifo_start_at bench_version rollout d =
     (case rollout of Some r \<Rightarrow> Some (ro_created_at r)
      | None \<Rightarrow> map_option ro_created_at
          (first_by (\<lambda>r. - ro_created_at r) (filter (\<lambda>r. ro_desired_version r = bench_version) (d_rollouts d))))"

definition complete_screened_image :: "agent \<Rightarrow> bool" where
  "complete_screened_image ag \<longleftrightarrow>
     ag_screened_image_sha256 ag \<noteq> None \<and> ag_screened_image_size_bytes ag \<noteq> None \<and>
     ag_screened_image_id ag \<noteq> None \<and> ag_screened_image_ref ag \<noteq> None \<and>
     ag_screened_image_upload_id ag \<noteq> None \<and> ag_screened_image_verified_at ag \<noteq> None"

definition eligible_screened_image :: "benchmark_contract \<Rightarrow> agent \<Rightarrow> bool" where
  "eligible_screened_image contract ag \<longleftrightarrow>
     complete_screened_image ag \<and>
     ag_screening_policy_version ag \<ge> bc_minimum_screening_policy_version contract"

definition benchmark_contract_refresh_event :: "int \<Rightarrow> pytext" where
  "benchmark_contract_refresh_event bench_version =
     ptext (''benchmark_contract_refresh'' @ '':v'' @ dec_int bench_version)"

definition benchmark_admission :: "benchmark_rollout \<Rightarrow> int \<Rightarrow> db \<Rightarrow> agent \<Rightarrow> bool" where
  "benchmark_admission rollout bench_version d ag \<longleftrightarrow>
     ag_created_at ag \<ge> ro_created_at rollout \<or>
     list_ex (\<lambda>m. rm_rollout_id m = ro_rollout_id rollout \<and> rm_agent_id m = ag_agent_id ag) (d_rollout_members d) \<or>
     list_ex (\<lambda>c. cv_rollout_id c = ro_rollout_id rollout \<and> cv_agent_id c = ag_agent_id ag) (d_rollout_carryover d) \<or>
     (list_ex (\<lambda>e. a_agent_id e = ag_agent_id ag \<and> a_event e = benchmark_contract_refresh_event bench_version)
        (d_score_audit d) \<and>
      list_ex (\<lambda>t. t_agent_id t = ag_agent_id ag \<and> t_bench_version t = bench_version \<and> t_manual_retry_grants t > 0)
        (d_tickets d))"

definition removal_in_force :: "queue_withdrawal \<Rightarrow> bool" where
  "removal_in_force w \<longleftrightarrow> qw_reinstated_at w = None"

definition validator_queue_admission :: "int \<Rightarrow> db \<Rightarrow> agent \<Rightarrow> bool" where
  "validator_queue_admission bench_version d ag \<longleftrightarrow>
     \<not> list_ex (\<lambda>w. qw_agent_id w = ag_agent_id ag \<and> qw_bench_version w = bench_version \<and> removal_in_force w)
         (d_withdrawals d)"

definition retirement_admission :: "int \<Rightarrow> db \<Rightarrow> agent \<Rightarrow> bool" where
  "retirement_admission bench_version d ag \<longleftrightarrow>
     \<not> list_ex (\<lambda>r. sr_agent_id r = ag_agent_id ag \<and> sr_bench_version r = bench_version) (d_retirements d)"

definition admitted_agent_ids :: "int \<Rightarrow> uuid list \<Rightarrow> db \<Rightarrow> uuid set" where
  "admitted_agent_ids bench_version agent_ids d =
     (let rollout = activated_rollout_for_version bench_version d
      in set (map ag_agent_id (filter (\<lambda>ag. ag_agent_id ag \<in> set agent_ids \<and>
           validator_queue_admission bench_version d ag \<and>
           (case rollout of None \<Rightarrow> True | Some r \<Rightarrow> benchmark_admission r bench_version d ag)) (d_agents d))))"

definition queue_candidate ::
  "env \<Rightarrow> benchmark_contract \<Rightarrow> int \<Rightarrow> artifact_mode \<Rightarrow> benchmark_rollout option \<Rightarrow> time option \<Rightarrow> db \<Rightarrow> agent \<Rightarrow> bool" where
  "queue_candidate env contract bench_version artifact_mode rollout submitted_at_or_after d ag \<longleftrightarrow>
     ag_status ag = EVALUATING \<and>
     ag_screening_policy_version ag \<ge> e_screening_policy_version env \<and>
     validator_queue_admission bench_version d ag \<and>
     retirement_admission bench_version d ag \<and>
     (bench_version \<noteq> 2 \<longrightarrow>
        list_ex (\<lambda>b. bd_agent_id b = ag_agent_id ag \<and> bd_bench_version b = bench_version) (d_datasets d)) \<and>
     (bc_requires_screened_image contract \<or> artifact_mode = Screened_Only \<longrightarrow> eligible_screened_image contract ag) \<and>
     (case rollout of None \<Rightarrow> True | Some r \<Rightarrow> benchmark_admission r bench_version d ag) \<and>
     (case submitted_at_or_after of None \<Rightarrow> True | Some t \<Rightarrow> ag_created_at ag \<ge> t)"

subsection \<open>Order\<close>

definition EMISSION_CONTENDER_COUNT :: nat where
  "EMISSION_CONTENDER_COUNT = 5"

definition PROVISIONAL_CONTENDER_LANE_SIZE :: nat where
  "PROVISIONAL_CONTENDER_LANE_SIZE = 10"

definition scores_of :: "uuid \<Rightarrow> int \<Rightarrow> db \<Rightarrow> score list" where
  "scores_of agent_id bench_version d =
     filter (\<lambda>s. s_agent_id s = agent_id \<and> s_bench_version s = bench_version) (d_scores d)"

definition max_composite :: "score list \<Rightarrow> rat" where
  "max_composite rows = (if rows = [] then 0 else Max (set (map s_composite rows)))"

definition avg_composite :: "score list \<Rightarrow> rat" where
  "avg_composite rows = (if rows = [] then 0 else sum_list (map s_composite rows) / of_nat (length rows))"

definition first_score :: "score list \<Rightarrow> rat option" where
  "first_score rows = map_option s_composite (first_by (\<lambda>s. (s_created_at s, s_validator_hotkey s)) rows)"

definition at_least :: "rat option \<Rightarrow> rat option \<Rightarrow> bool" where
  "at_least x bound =
     (case bound of None \<Rightarrow> True | Some b \<Rightarrow> (case x of None \<Rightarrow> False | Some y \<Rightarrow> y \<ge> b))"

text \<open>The payment outer-joined to an agent; \<open>UNIQUE (agent_id)\<close> leaves at most one.\<close>

definition payment_of :: "agent \<Rightarrow> db \<Rightarrow> evaluation_payment option" where
  "payment_of ag d = select_first (\<lambda>p. pm_agent_id p = Some (ag_agent_id ag)) (d_payments d)"

definition coldkey_of :: "agent \<Rightarrow> db \<Rightarrow> string option" where
  "coldkey_of ag d = map_option pm_miner_coldkey (payment_of ag d)"

definition emission_owner :: "hotkey \<Rightarrow> string option \<Rightarrow> string" where
  "emission_owner miner_hotkey miner_coldkey =
     (case miner_coldkey of Some c \<Rightarrow> ''coldkey:'' @ c | None \<Rightarrow> ''hotkey:'' @ miner_hotkey)"

definition emission_owner_key :: "agent \<Rightarrow> db \<Rightarrow> string" where
  "emission_owner_key ag d = emission_owner (ag_miner_hotkey ag) (coldkey_of ag d)"

definition accepted_score_count :: "uuid \<Rightarrow> int \<Rightarrow> db \<Rightarrow> nat" where
  "accepted_score_count agent_id bench_version d =
     length (filter (\<lambda>t. t_agent_id t = agent_id \<and> t_bench_version t = bench_version \<and> t_status t = SCORED) (d_tickets d))"

definition contender_eligible :: "env \<Rightarrow> int \<Rightarrow> rat option \<Rightarrow> db \<Rightarrow> agent \<Rightarrow> bool" where
  "contender_eligible env bench_version bound d ag \<longleftrightarrow>
     (let accepted = accepted_score_count (ag_agent_id ag) bench_version d;
          rows = scores_of (ag_agent_id ag) bench_version d
      in ag_status ag = EVALUATING \<and> ag_screening_policy_version ag \<ge> e_screening_policy_version env \<and>
         1 \<le> accepted \<and> accepted \<le> SCORING_QUORUM - 1 \<and> length rows \<ge> accepted \<and>
         at_least (first_score rows) bound)"

definition contender_rank :: "int \<Rightarrow> db \<Rightarrow> agent \<Rightarrow> rat \<times> time \<times> uuid" where
  "contender_rank bench_version d ag =
     (- avg_composite (scores_of (ag_agent_id ag) bench_version d), ag_created_at ag, ag_agent_id ag)"

text \<open>\<open>row_number() OVER (PARTITION BY owner ORDER BY rank) = 1\<close>, then the ten best.\<close>

definition top_provisional_contenders :: "env \<Rightarrow> int \<Rightarrow> rat option \<Rightarrow> db \<Rightarrow> uuid list" where
  "top_provisional_contenders env bench_version bound d =
     (let pool = filter (contender_eligible env bench_version bound d) (d_agents d);
          best = filter (\<lambda>ag. first_by (contender_rank bench_version d)
                    (filter (\<lambda>b. emission_owner_key b d = emission_owner_key ag d) pool) = Some ag) pool
      in map ag_agent_id (take PROVISIONAL_CONTENDER_LANE_SIZE (sort_key (contender_rank bench_version d) best)))"

definition fifo_age :: "time option \<Rightarrow> agent \<Rightarrow> time" where
  "fifo_age fifo_start_at ag =
     (case fifo_start_at of None \<Rightarrow> ag_created_at ag
      | Some t \<Rightarrow> if ag_created_at ag < t then t else ag_created_at ag)"

definition live_assignment_count :: "time \<Rightarrow> uuid \<Rightarrow> int \<Rightarrow> db \<Rightarrow> nat" where
  "live_assignment_count now agent_id bench_version d =
     length (filter (\<lambda>t. t_agent_id t = agent_id \<and> t_bench_version t = bench_version \<and>
                         t_status t = ISSUED \<and> t_deadline t > now) (d_tickets d))"

definition below_floor :: "rat option \<Rightarrow> score list \<Rightarrow> bool" where
  "below_floor bound rows \<longleftrightarrow>
     (case bound of None \<Rightarrow> False | Some f \<Rightarrow> length rows = SCORING_QUORUM - 1 \<and> max_composite rows < f)"

definition lane :: "bool \<Rightarrow> int" where
  "lane b = (if b then 1 else 0)"

type_synonym queue_key = "int \<times> int \<times> int \<times> rat \<times> int \<times> int \<times> int \<times> time \<times> uuid"

text \<open>
  A term the code leaves out of the list (every lane under \<open>completion_first\<close>, the prior-ticket
  tiebreak without a validator) is a constant here, which orders the same.
\<close>

definition queue_order_terms ::
  "env \<Rightarrow> int \<Rightarrow> time \<Rightarrow> artifact_mode \<Rightarrow> time option \<Rightarrow> rat option \<Rightarrow> rat option \<Rightarrow> bool \<Rightarrow> hotkey option \<Rightarrow>
   db \<Rightarrow> agent \<Rightarrow> queue_key" where
  "queue_order_terms env bench_version now artifact_mode fifo_start_at continuation_floor contender_floor
     completion_first validator_hotkey d ag =
     (let agent_id = ag_agent_id ag; rows = scores_of agent_id bench_version d;
          contender = agent_id \<in> set (top_provisional_contenders env bench_version contender_floor d)
      in if completion_first then (0, 0, 0, 0, 0, 0, 0, fifo_age fifo_start_at ag, agent_id)
         else (lane (below_floor continuation_floor rows),
               lane (\<not> complete_screened_image ag \<and> artifact_mode \<noteq> Legacy),
               lane (\<not> contender),
               - (if contender then avg_composite rows else 0),
               lane (length rows \<ge> SCORING_QUORUM - 1),
               int (live_assignment_count now agent_id bench_version d),
               (case validator_hotkey of None \<Rightarrow> 0
                | Some h \<Rightarrow> lane (list_ex (\<lambda>t. t_agent_id t = agent_id \<and> t_validator_hotkey t = h) (d_tickets d))),
               fifo_age fifo_start_at ag,
               agent_id))"

subsection \<open>Owners\<close>

record owner_linkage =
  ol_hotkey :: hotkey
  ol_coldkeys :: "string set"
  ol_hotkeys :: "hotkey set"

definition advisory_lock_keys :: "owner_linkage \<Rightarrow> string list" where
  "advisory_lock_keys l =
     (if ol_coldkeys l \<noteq> {} then map (\<lambda>c. ''coldkey:'' @ c) (sorted_list_of_set (ol_coldkeys l))
      else [''hotkey:'' @ ol_hotkey l])"

definition same_owner :: "owner_linkage \<Rightarrow> db \<Rightarrow> agent \<Rightarrow> bool" where
  "same_owner l d ag \<longleftrightarrow>
     (if ol_coldkeys l \<noteq> {}
      then (case coldkey_of ag d of Some c \<Rightarrow> c \<in> ol_coldkeys l | None \<Rightarrow> ag_miner_hotkey ag \<in> ol_hotkeys l)
      else coldkey_of ag d = None \<and> ag_miner_hotkey ag = ol_hotkey l)"

definition active_attestations :: "env \<Rightarrow> db \<Rightarrow> owner_attestation list" where
  "active_attestations env d =
     filter (\<lambda>a. oa_netuid a = e_netuid env \<and> oa_revoked_at a = None) (d_attestations d)"

text \<open>\<open>None\<close> is the error of \<open>.one()\<close> for an unknown agent.\<close>

definition resolve_owner_linkage :: "env \<Rightarrow> uuid \<Rightarrow> db \<Rightarrow> owner_linkage option" where
  "resolve_owner_linkage env agent_id d =
     (case get_row ag_agent_id agent_id (d_agents d) of None \<Rightarrow> None
      | Some ag \<Rightarrow>
        (let owner_hotkey = ag_miner_hotkey ag;
             owner_coldkey = coldkey_of ag d;
             directly_attested = set (map (\<lambda>a. if oa_hotkey_lo a = owner_hotkey then oa_hotkey_hi a else oa_hotkey_lo a)
                 (filter (\<lambda>a. oa_hotkey_lo a = owner_hotkey \<or> oa_hotkey_hi a = owner_hotkey) (active_attestations env d)));
             owner_hotkeys = insert owner_hotkey directly_attested;
             linked_coldkeys = set (map pm_miner_coldkey (filter (\<lambda>p. pm_miner_hotkey p \<in> owner_hotkeys) (d_payments d))) \<union>
                 set_option owner_coldkey;
             linked_hotkeys = owner_hotkeys \<union>
                 set (map pm_miner_hotkey (filter (\<lambda>p. pm_miner_coldkey p \<in> linked_coldkeys) (d_payments d)))
         in Some \<lparr>ol_hotkey = owner_hotkey, ol_coldkeys = linked_coldkeys, ol_hotkeys = linked_hotkeys\<rparr>))"

text \<open>A dict of sets filled by \<open>setdefault(k, set()).add(v)\<close>, read by \<open>get(k, ())\<close>.\<close>

definition multimap :: "('k \<times> 'v) list \<Rightarrow> 'k \<Rightarrow> 'v set" where
  "multimap pairs k = set (map snd (filter (\<lambda>p. fst p = k) pairs))"

definition resolve_owner_linkage_batch :: "env \<Rightarrow> uuid set \<Rightarrow> db \<Rightarrow> (uuid \<times> owner_linkage) list" where
  "resolve_owner_linkage_batch env requested d =
     (let agent_rows = map (\<lambda>ag. (ag_agent_id ag, ag_miner_hotkey ag, coldkey_of ag d))
                         (filter (\<lambda>ag. ag_agent_id ag \<in> requested) (d_agents d));
          owner_hotkeys = set (map (\<lambda>r. fst (snd r)) agent_rows);
          links = filter (\<lambda>a. oa_hotkey_lo a \<in> owner_hotkeys \<or> oa_hotkey_hi a \<in> owner_hotkeys) (active_attestations env d);
          direct_links = multimap (concat (map (\<lambda>a. [(oa_hotkey_lo a, oa_hotkey_hi a), (oa_hotkey_hi a, oa_hotkey_lo a)]) links));
          payment_scope_hotkeys = owner_hotkeys \<union> \<Union> (direct_links ` owner_hotkeys);
          scope_pairs = map (\<lambda>p. (pm_miner_hotkey p, pm_miner_coldkey p))
                          (filter (\<lambda>p. pm_miner_hotkey p \<in> payment_scope_hotkeys) (d_payments d));
          coldkeys_by_hotkey = multimap scope_pairs;
          reachable_coldkeys = set (map snd scope_pairs) \<union> \<Union> (set (map (\<lambda>r. set_option (snd (snd r))) agent_rows));
          hotkeys_by_coldkey = multimap (map (\<lambda>p. (pm_miner_coldkey p, pm_miner_hotkey p))
                          (filter (\<lambda>p. pm_miner_coldkey p \<in> reachable_coldkeys) (d_payments d)))
      in map (\<lambda>(agent_id, owner_hotkey, owner_coldkey).
           let directly_attested = direct_links owner_hotkey;
               linked_coldkeys = coldkeys_by_hotkey owner_hotkey \<union> \<Union> (coldkeys_by_hotkey ` directly_attested) \<union>
                   set_option owner_coldkey;
               linked_hotkeys = insert owner_hotkey directly_attested \<union> \<Union> (hotkeys_by_coldkey ` linked_coldkeys)
           in (agent_id, \<lparr>ol_hotkey = owner_hotkey, ol_coldkeys = linked_coldkeys, ol_hotkeys = linked_hotkeys\<rparr>))
         agent_rows)"

definition owner_live_lease_agent_ids :: "owner_linkage \<Rightarrow> time \<Rightarrow> db \<Rightarrow> uuid set" where
  "owner_live_lease_agent_ids l now d =
     set (map ag_agent_id (filter (\<lambda>ag. same_owner l d ag \<and>
       list_ex (\<lambda>t. t_agent_id t = ag_agent_id ag \<and> t_status t = ISSUED \<and> t_deadline t > now) (d_tickets d)) (d_agents d)))"

definition progress_tickets :: "time \<Rightarrow> uuid \<Rightarrow> int \<Rightarrow> db \<Rightarrow> ticket list" where
  "progress_tickets now agent_id bench_version d =
     filter (\<lambda>t. t_agent_id t = agent_id \<and> t_bench_version t = bench_version \<and>
               (t_status t = SCORED \<or> t_status t = ISSUED \<and> t_deadline t > now)) (d_tickets d)"

definition progress_started_at :: "time \<Rightarrow> uuid \<Rightarrow> int \<Rightarrow> db \<Rightarrow> time option" where
  "progress_started_at now agent_id bench_version d =
     map_option t_issued_at (first_by t_issued_at (progress_tickets now agent_id bench_version d))"

definition owner_quorum_reachable :: "uuid \<Rightarrow> int \<Rightarrow> hotkey set \<Rightarrow> db \<Rightarrow> bool" where
  "owner_quorum_reachable agent_id bench_version capable d \<longleftrightarrow>
     (let rows = filter (\<lambda>t. t_agent_id t = agent_id \<and> t_bench_version t = bench_version) (d_tickets d);
          scored_count = card (set (map t_validator_hotkey (filter (\<lambda>t. t_status t = SCORED) rows)));
          spent_capable = card (set (map t_validator_hotkey (filter (\<lambda>t. t_validator_hotkey t \<in> capable \<and>
              (t_status t = SCORED \<or> t_status t = EXPIRED \<and> retry_budget_spent t)) rows)))
      in card capable \<ge> SCORING_QUORUM \<longrightarrow>
         int scored_count + (int (card capable) - int spent_capable) \<ge> int SCORING_QUORUM)"

definition selected_owner_agent_id ::
  "owner_linkage \<Rightarrow> int \<Rightarrow> time \<Rightarrow> rat option \<Rightarrow> benchmark_rollout option \<Rightarrow> hotkey set \<Rightarrow> db \<Rightarrow> uuid option" where
  "selected_owner_agent_id l bench_version now contender_floor rollout capable d =
     map_option ag_agent_id
       (first_by (\<lambda>ag. (the (progress_started_at now (ag_agent_id ag) bench_version d), ag_created_at ag, ag_agent_id ag))
         (filter (\<lambda>ag. ag_status ag = EVALUATING \<and> same_owner l d ag \<and>
            progress_started_at now (ag_agent_id ag) bench_version d \<noteq> None \<and>
            owner_quorum_reachable (ag_agent_id ag) bench_version capable d \<and>
            at_least (first_score (scores_of (ag_agent_id ag) bench_version d)) contender_floor \<and>
            (case rollout of None \<Rightarrow> True | Some r \<Rightarrow> benchmark_admission r bench_version d ag) \<and>
            validator_queue_admission bench_version d ag \<and>
            retirement_admission bench_version d ag) (d_agents d)))"

subsection \<open>Capacity gates\<close>

datatype queue_gate = Previous_Generation | Owner_Serialized | Similarity_Serialized | Not_Leasable

definition GATE_RANK :: "queue_gate option \<Rightarrow> nat" where
  "GATE_RANK g = (case g of None \<Rightarrow> 0 | Some Owner_Serialized \<Rightarrow> 1 | Some Similarity_Serialized \<Rightarrow> 2
     | Some Not_Leasable \<Rightarrow> 3 | Some Previous_Generation \<Rightarrow> 4)"

definition OWNER_CONCURRENT_SUBMISSION_LIMIT_DEFAULT :: int where
  "OWNER_CONCURRENT_SUBMISSION_LIMIT_DEFAULT = 2"

definition MIN_OWNER_CONCURRENT_SUBMISSION_LIMIT :: int where
  "MIN_OWNER_CONCURRENT_SUBMISSION_LIMIT = 1"

definition owner_capacity_gate ::
  "uuid \<Rightarrow> uuid option \<Rightarrow> uuid set \<Rightarrow> int \<Rightarrow> bool \<Rightarrow> uuid set \<Rightarrow> int \<Rightarrow> queue_gate option" where
  "owner_capacity_gate agent_id selected leased concurrent_limit last_resort similar similarity_limit =
     (if selected = Some agent_id then None
      else let siblings_leased = leased - {agent_id};
               limit = (if last_resort then max 1 concurrent_limit else 1)
      in if int (card siblings_leased) + 1 > limit then Some Owner_Serialized
         else if \<not> last_resort \<and> selected \<noteq> None then Some Owner_Serialized
         else if int (card (similar - {agent_id})) + 1 > max 1 similarity_limit then Some Similarity_Serialized
         else None)"

subsection \<open>The preview\<close>

text \<open>
  A dict used as a cache: \<open>if k not in cache: cache[k] = v\<close>, then \<open>cache[k]\<close>. The key of the
  owner caches is the tuple of advisory lock keys.
\<close>

definition cached :: "'k \<Rightarrow> 'v \<Rightarrow> ('k \<times> 'v) list \<Rightarrow> 'v \<times> ('k \<times> 'v) list" where
  "cached k v cache = (case map_of cache k of Some w \<Rightarrow> (w, cache) | None \<Rightarrow> (v, (k, v) # cache))"

type_synonym owner_cache = "(string list \<times> uuid option \<times> uuid set) list"

text \<open>
  What a gate decision reads besides the tables. The capable fleet and the near-identical live
  submissions of a candidate (empty when the similarity rail is off) are computed by
  \<open>quorum_capable_validator_hotkeys\<close> and \<open>similar_submissions\<close>.
\<close>

record fleet =
  f_capable :: "hotkey set"
  f_twins :: "uuid \<Rightarrow> uuid set"
  f_similarity_limit :: int

definition owner_facts ::
  "owner_linkage \<Rightarrow> int \<Rightarrow> time \<Rightarrow> rat option \<Rightarrow> benchmark_rollout option \<Rightarrow> fleet \<Rightarrow> db \<Rightarrow> uuid option \<times> uuid set" where
  "owner_facts l bench_version now contender_floor rollout fl d =
     (selected_owner_agent_id l bench_version now contender_floor rollout (f_capable fl) d,
      owner_live_lease_agent_ids l now d)"

fun preview_gates ::
  "int \<Rightarrow> time \<Rightarrow> rat option \<Rightarrow> benchmark_rollout option \<Rightarrow> fleet \<Rightarrow> uuid set \<Rightarrow> uuid set \<Rightarrow>
   (uuid \<times> owner_linkage) list \<Rightarrow> db \<Rightarrow> owner_cache \<Rightarrow> uuid list \<Rightarrow> (uuid \<times> queue_gate option) list" where
  "preview_gates bench_version now contender_floor rollout fl previous leasable linkage d cache [] = []"
| "preview_gates bench_version now contender_floor rollout fl previous leasable linkage d cache (agent_id # rest) =
     (if agent_id \<in> previous then
        (agent_id, Some Previous_Generation) #
          preview_gates bench_version now contender_floor rollout fl previous leasable linkage d cache rest
      else if agent_id \<notin> leasable then
        (agent_id, Some Not_Leasable) #
          preview_gates bench_version now contender_floor rollout fl previous leasable linkage d cache rest
      else case map_of linkage agent_id of
        None \<Rightarrow>
          (agent_id, owner_capacity_gate agent_id None {} OWNER_CONCURRENT_SUBMISSION_LIMIT_DEFAULT False
             (f_twins fl agent_id) (f_similarity_limit fl)) #
            preview_gates bench_version now contender_floor rollout fl previous leasable linkage d cache rest
      | Some owner \<Rightarrow>
          (case cached (advisory_lock_keys owner) (owner_facts owner bench_version now contender_floor rollout fl d) cache of
             ((selected, leased), cache') \<Rightarrow>
               (agent_id, owner_capacity_gate agent_id selected leased OWNER_CONCURRENT_SUBMISSION_LIMIT_DEFAULT False
                  (f_twins fl agent_id) (f_similarity_limit fl)) #
                 preview_gates bench_version now contender_floor rollout fl previous leasable linkage d cache' rest))"

record queue_preview_entry =
  qp_agent_id :: uuid
  qp_rank :: nat
  qp_gate :: "queue_gate option"

definition preview_artifact_mode :: "benchmark_contract \<Rightarrow> artifact_mode" where
  "preview_artifact_mode contract = (if bc_requires_screened_image contract then Screened_Only else Legacy)"

definition occupied_quorum_slots :: "time \<Rightarrow> uuid \<Rightarrow> int \<Rightarrow> db \<Rightarrow> nat" where
  "occupied_quorum_slots now agent_id bench_version d = length (progress_tickets now agent_id bench_version d)"

text \<open>\<open>None\<close> is the \<open>ValueError\<close> of an unsupported version.\<close>

definition preview_queue_order ::
  "env \<Rightarrow> int \<Rightarrow> time \<Rightarrow> uuid list \<Rightarrow> rat option \<Rightarrow> rat option \<Rightarrow> benchmark_rollout option \<Rightarrow> uuid set \<Rightarrow> fleet \<Rightarrow> db \<Rightarrow>
   queue_preview_entry list option" where
  "preview_queue_order env bench_version now agent_ids continuation_floor contender_floor rollout previous fl d =
     (if agent_ids = [] then Some []
      else case get_contract bench_version of None \<Rightarrow> None
      | Some contract \<Rightarrow>
        (let requested = set agent_ids;
             mode = preview_artifact_mode contract;
             rows = filter (\<lambda>ag. ag_agent_id ag \<in> requested) (d_agents d);
             ordered = map ag_agent_id (sort_key (queue_order_terms env bench_version now mode
                 (resolve_fifo_start_at bench_version rollout d) continuation_floor contender_floor False None d) rows);
             leasable = set (map ag_agent_id (filter (\<lambda>ag.
                 occupied_quorum_slots now (ag_agent_id ag) bench_version d < SCORING_QUORUM \<and>
                 queue_candidate env contract bench_version mode rollout None d ag) rows));
             gates = preview_gates bench_version now contender_floor rollout fl previous leasable
                 (resolve_owner_linkage_batch env requested d) d [] ordered;
             ranked = sort_key (\<lambda>(i, a, g). (GATE_RANK g, i)) (enumerate 0 gates)
         in Some (map (\<lambda>(rank, i, a, g). \<lparr>qp_agent_id = a, qp_rank = rank, qp_gate = g\<rparr>) (enumerate 1 ranked))))"

subsection \<open>One owner, two resolvers\<close>

lemma multimap_iff: "v \<in> multimap pairs k \<longleftrightarrow> (k, v) \<in> set pairs"
  by (force simp: multimap_def)

definition attested_with :: "env \<Rightarrow> db \<Rightarrow> hotkey \<Rightarrow> hotkey set" where
  "attested_with env d h = {x. \<exists>a \<in> set (active_attestations env d).
     (oa_hotkey_lo a = h \<and> x = oa_hotkey_hi a) \<or> (oa_hotkey_hi a = h \<and> x = oa_hotkey_lo a)}"

definition paid :: "db \<Rightarrow> hotkey \<Rightarrow> string \<Rightarrow> bool" where
  "paid d h c \<longleftrightarrow> (\<exists>p \<in> set (d_payments d). pm_miner_hotkey p = h \<and> pm_miner_coldkey p = c)"

text \<open>The two-hop rule both resolvers implement.\<close>

definition linkage_spec :: "env \<Rightarrow> db \<Rightarrow> agent \<Rightarrow> owner_linkage" where
  "linkage_spec env d ag =
     (let own = insert (ag_miner_hotkey ag) (attested_with env d (ag_miner_hotkey ag));
          cold = {c. \<exists>h \<in> own. paid d h c} \<union> set_option (coldkey_of ag d)
      in \<lparr>ol_hotkey = ag_miner_hotkey ag, ol_coldkeys = cold, ol_hotkeys = own \<union> {h. \<exists>c \<in> cold. paid d h c}\<rparr>)"

lemma resolve_owner_linkage_spec:
  "resolve_owner_linkage env a d = map_option (linkage_spec env d) (get_row ag_agent_id a (d_agents d))"
proof (cases "get_row ag_agent_id a (d_agents d)")
  case (Some ag)
  have att: "set (map (\<lambda>x. if oa_hotkey_lo x = h then oa_hotkey_hi x else oa_hotkey_lo x)
      (filter (\<lambda>x. oa_hotkey_lo x = h \<or> oa_hotkey_hi x = h) (active_attestations env d))) = attested_with env d h" for h
    by (auto simp: attested_with_def image_iff)
  have cold: "set (map pm_miner_coldkey (filter (\<lambda>p. pm_miner_hotkey p \<in> H) (d_payments d))) = {c. \<exists>h \<in> H. paid d h c}" for H
    by (auto simp: paid_def)
  have hot: "set (map pm_miner_hotkey (filter (\<lambda>p. pm_miner_coldkey p \<in> C) (d_payments d))) = {h. \<exists>c \<in> C. paid d h c}" for C
    by (auto simp: paid_def)
  show ?thesis unfolding resolve_owner_linkage_def Some linkage_spec_def Let_def att cold hot by simp
qed (simp add: resolve_owner_linkage_def)

lemma batch_links:
  assumes "h \<in> H"
  shows "multimap (concat (map (\<lambda>a. [(oa_hotkey_lo a, oa_hotkey_hi a), (oa_hotkey_hi a, oa_hotkey_lo a)])
      (filter (\<lambda>a. oa_hotkey_lo a \<in> H \<or> oa_hotkey_hi a \<in> H) (active_attestations env d)))) h = attested_with env d h"
  using assms by (auto simp: set_eq_iff multimap_iff attested_with_def)

lemma batch_coldkeys:
  assumes "h \<in> H"
  shows "multimap (map (\<lambda>p. (pm_miner_hotkey p, pm_miner_coldkey p)) (filter (\<lambda>p. pm_miner_hotkey p \<in> H) (d_payments d))) h =
    {c. paid d h c}"
  using assms by (auto simp: multimap_def paid_def image_iff)

lemma batch_hotkeys:
  assumes "c \<in> C"
  shows "multimap (map (\<lambda>p. (pm_miner_coldkey p, pm_miner_hotkey p)) (filter (\<lambda>p. pm_miner_coldkey p \<in> C) (d_payments d))) c =
    {h. paid d h c}"
  using assms by (auto simp: multimap_def paid_def image_iff)

lemma resolve_owner_linkage_batch_spec:
  "resolve_owner_linkage_batch env requested d =
   map (\<lambda>ag. (ag_agent_id ag, linkage_spec env d ag)) (filter (\<lambda>ag. ag_agent_id ag \<in> requested) (d_agents d))"
proof -
  define rows where "rows = filter (\<lambda>ag. ag_agent_id ag \<in> requested) (d_agents d)"
  define H where "H = set (map ag_miner_hotkey rows)"
  define links where "links = multimap (concat (map (\<lambda>a. [(oa_hotkey_lo a, oa_hotkey_hi a), (oa_hotkey_hi a, oa_hotkey_lo a)])
      (filter (\<lambda>a. oa_hotkey_lo a \<in> H \<or> oa_hotkey_hi a \<in> H) (active_attestations env d))))"
  define S where "S = H \<union> \<Union> (links ` H)"
  define prs where "prs = map (\<lambda>p. (pm_miner_hotkey p, pm_miner_coldkey p)) (filter (\<lambda>p. pm_miner_hotkey p \<in> S) (d_payments d))"
  define C where "C = set (map snd prs) \<union> \<Union> (set (map (\<lambda>ag. set_option (coldkey_of ag d)) rows))"
  define bk where "bk = multimap (map (\<lambda>p. (pm_miner_coldkey p, pm_miner_hotkey p)) (filter (\<lambda>p. pm_miner_coldkey p \<in> C) (d_payments d)))"
  define one where "one ag = (let h = ag_miner_hotkey ag;
      cold = multimap prs h \<union> \<Union> (multimap prs ` links h) \<union> set_option (coldkey_of ag d)
    in (ag_agent_id ag, \<lparr>ol_hotkey = h, ol_coldkeys = cold, ol_hotkeys = insert h (links h) \<union> \<Union> (bk ` cold)\<rparr>))" for ag
  have batch: "resolve_owner_linkage_batch env requested d = map one rows"
    unfolding resolve_owner_linkage_batch_def Let_def one_def bk_def C_def prs_def S_def links_def H_def rows_def
    by (simp only: list.map_comp o_def fst_conv snd_conv prod.case)
  have "one ag = (ag_agent_id ag, linkage_spec env d ag)" if ag: "ag \<in> set rows" for ag
  proof -
    let ?h = "ag_miner_hotkey ag"
    have h: "?h \<in> H" using ag by (simp add: H_def)
    have l: "links ?h = attested_with env d ?h" unfolding links_def using h by (rule batch_links)
    have cs: "multimap prs x = {c. paid d x c}" if "x \<in> insert ?h (links ?h)" for x
      unfolding prs_def using that h by (intro batch_coldkeys) (auto simp: S_def)
    let ?cold = "multimap prs ?h \<union> \<Union> (multimap prs ` links ?h) \<union> set_option (coldkey_of ag d)"
    have c1: "?cold = {c. \<exists>x \<in> insert ?h (links ?h). paid d x c} \<union> set_option (coldkey_of ag d)"
      using cs by auto
    have "?cold \<subseteq> C"
    proof
      fix c assume "c \<in> ?cold"
      then consider x where "c \<in> multimap prs x" | "c \<in> set_option (coldkey_of ag d)" by blast
      then show "c \<in> C"
      proof cases
        case 1
        then show ?thesis by (force simp: C_def multimap_iff)
      next
        case 2
        then show ?thesis using ag by (auto simp: C_def)
      qed
    qed
    then have "bk c = {x. paid d x c}" if "c \<in> ?cold" for c
      unfolding bk_def using that by (intro batch_hotkeys) (rule subsetD)
    then have c2: "\<Union> (bk ` ?cold) = {x. \<exists>c \<in> ?cold. paid d x c}" by blast
    show ?thesis unfolding one_def linkage_spec_def Let_def c2 unfolding c1 unfolding l by simp
  qed
  then show ?thesis unfolding batch by (auto simp: rows_def)
qed

text \<open>
  The queue preview and the allocator resolve owners identically. For every requested
  submission that exists, the batched resolver's three page-wide reads give exactly the identity set
  that the allocator's per-candidate resolver gives: the coldkeys ever paid by the submission's
  hotkey and its attested partners, plus its own, and every hotkey those coldkeys paid for.
\<close>

theorem owner_linkage_batch_agrees:
  assumes "distinct (map ag_agent_id (d_agents d))"
  shows "map_of (resolve_owner_linkage_batch env requested d) a =
    (if a \<in> requested then resolve_owner_linkage env a d else None)"
proof -
  have "map_of (map (\<lambda>ag. (ag_agent_id ag, f ag)) (filter (\<lambda>ag. ag_agent_id ag \<in> requested) rows)) a =
      (if a \<in> requested then map_option f (get_row ag_agent_id a rows) else None)" for f :: "agent \<Rightarrow> owner_linkage" and rows
    by (induction rows) (auto simp: get_row_def)
  then show ?thesis by (simp add: resolve_owner_linkage_batch_spec resolve_owner_linkage_spec)
qed

lemma selected_owner_SomeD:
  assumes "selected_owner_agent_id l v now cf ro capable d = Some a"
  obtains ag where "ag \<in> set (d_agents d)" "ag_agent_id ag = a" "ag_status ag = EVALUATING" "same_owner l d ag"
    "progress_tickets now a v d \<noteq> []"
proof -
  from assms obtain ag where f: "first_by (\<lambda>ag. (the (progress_started_at now (ag_agent_id ag) v d), ag_created_at ag, ag_agent_id ag))
         (filter (\<lambda>ag. ag_status ag = EVALUATING \<and> same_owner l d ag \<and>
            progress_started_at now (ag_agent_id ag) v d \<noteq> None \<and>
            owner_quorum_reachable (ag_agent_id ag) v capable d \<and>
            at_least (first_score (scores_of (ag_agent_id ag) v d)) cf \<and>
            (case ro of None \<Rightarrow> True | Some r \<Rightarrow> benchmark_admission r v d ag) \<and>
            validator_queue_admission v d ag \<and> retirement_admission v d ag) (d_agents d)) = Some ag" and a: "ag_agent_id ag = a"
    unfolding selected_owner_agent_id_def map_option_eq_Some by blast
  from first_by_SomeD(1) [OF f] a show thesis by (intro that [of ag]) (auto simp: progress_started_at_def)
qed

subsection \<open>What the capacity gate lets through\<close>

lemma card_insert_minus: "finite S \<Longrightarrow> card (insert a S) = card (S - {a}) + 1"
  by (simp add: card.insert_remove)

text \<open>
  The capacity gate in closed form. A submission passes exactly when it is the owner's pinned
  generation, or when after leasing it the owner would hold at most the ceiling of distinct
  submissions (one on the ordinary pass, the operator's limit on the last resort), the owner is not
  mid-generation on the ordinary pass, and the submission and its near-identical twins together stay
  within the similarity budget on either pass.
\<close>

theorem owner_capacity_gate_passes:
  assumes "finite leased" and "finite similar"
  shows "owner_capacity_gate a selected leased limit last_resort similar sim_limit = None \<longleftrightarrow>
    selected = Some a \<or>
    (int (card (insert a leased)) \<le> (if last_resort then max 1 limit else 1) \<and>
     (last_resort \<or> selected = None) \<and>
     int (card (insert a similar)) \<le> max 1 sim_limit)"
  using assms by (auto simp: owner_capacity_gate_def Let_def card_insert_minus)

lemma owner_capacity_gate_relax:
  assumes "finite leased" and "finite similar"
    and "owner_capacity_gate a selected leased limit False similar sim_limit = None"
  shows "owner_capacity_gate a selected leased limit' True similar sim_limit = None"
  using assms(3) by (auto simp: owner_capacity_gate_def Let_def split: if_splits)

theorem owner_capacity_gate_passes_witness:
  "owner_capacity_gate 1 None {2} 2 True {} 1 = None \<and> owner_capacity_gate 1 None {2} 2 False {} 1 \<noteq> None"
  by (simp add: owner_capacity_gate_passes)

subsection \<open>Reachable quorums\<close>

definition era_tickets :: "uuid \<Rightarrow> int \<Rightarrow> db \<Rightarrow> ticket list" where
  "era_tickets a v d = filter (\<lambda>t. t_agent_id t = a \<and> t_bench_version t = v) (d_tickets d)"

definition scored_validators :: "uuid \<Rightarrow> int \<Rightarrow> db \<Rightarrow> hotkey set" where
  "scored_validators a v d = {t_validator_hotkey t | t. t \<in> set (era_tickets a v d) \<and> t_status t = SCORED}"

definition exhausted_validators :: "uuid \<Rightarrow> int \<Rightarrow> db \<Rightarrow> hotkey set" where
  "exhausted_validators a v d =
     {t_validator_hotkey t | t. t \<in> set (era_tickets a v d) \<and> t_status t = EXPIRED \<and> retry_budget_spent t}"

lemma era_ticket_unique:
  assumes "tickets_ok (d_tickets d)" and "t \<in> set (era_tickets a v d)" and "u \<in> set (era_tickets a v d)"
    and "t_validator_hotkey t = t_validator_hotkey u"
  shows "t = u"
  using assms by (intro distinct_key_eq [of tkey "d_tickets d"]) (auto simp: tickets_ok_def era_tickets_def tkey_def)

text \<open>
  The pin's reachability test counts nobody twice. With a visible capable fleet of at least
  quorum size, a generation is called reachable exactly when the validators that have scored it
  together with the capable validators that have not exhausted their attempts on it number at least
  three; with a smaller fleet it is never condemned.
\<close>

theorem owner_quorum_reachable_exact:
  assumes "tickets_ok (d_tickets d)" and "finite capable"
  shows "owner_quorum_reachable a v capable d \<longleftrightarrow>
    card capable < SCORING_QUORUM \<or>
    card (scored_validators a v d \<union> (capable - exhausted_validators a v d)) \<ge> SCORING_QUORUM"
proof -
  let ?S = "scored_validators a v d" and ?E = "exhausted_validators a v d"
  have fin: "finite ?S" "finite ?E"
    by (simp_all add: scored_validators_def exhausted_validators_def)
  have disj: "?S \<inter> ?E = {}"
  proof (rule ccontr)
    assume "?S \<inter> ?E \<noteq> {}"
    then obtain t u where "t \<in> set (era_tickets a v d)" "u \<in> set (era_tickets a v d)" "t_status t = SCORED" "t_status u = EXPIRED"
      "t_validator_hotkey t = t_validator_hotkey u"
      unfolding scored_validators_def exhausted_validators_def by force
    with era_ticket_unique [OF assms(1), of t a v u] show False by simp
  qed
  let ?rows = "filter (\<lambda>t. t_agent_id t = a \<and> t_bench_version t = v) (d_tickets d)"
  have sc: "set (map t_validator_hotkey (filter (\<lambda>t. t_status t = SCORED) ?rows)) = ?S"
    by (auto simp: scored_validators_def era_tickets_def)
  have sp: "set (map t_validator_hotkey (filter (\<lambda>t. t_validator_hotkey t \<in> capable \<and>
      (t_status t = SCORED \<or> t_status t = EXPIRED \<and> retry_budget_spent t)) ?rows)) = capable \<inter> (?S \<union> ?E)"
    by (auto simp: scored_validators_def exhausted_validators_def era_tickets_def)
  have "card (?S \<union> (capable - ?E)) = card (?S \<union> (capable - (?S \<union> ?E)))"
    using disj by (intro arg_cong [of _ _ card]) auto
  also have "\<dots> = card ?S + card (capable - (?S \<union> ?E))"
    using fin assms(2) by (intro card_Un_disjoint) auto
  also have "int \<dots> = int (card ?S) + (int (card capable) - int (card (capable \<inter> (?S \<union> ?E))))"
    using card_Diff_subset_Int [of capable "?S \<union> ?E"] card_mono [OF assms(2), of "capable \<inter> (?S \<union> ?E)"] fin assms(2)
    by (auto simp: of_nat_diff)
  finally show ?thesis
    unfolding owner_quorum_reachable_def Let_def sc sp by linarith
qed

subsection \<open>The contender lane\<close>

lemma take_sort_key_least:
  assumes "x \<in> set xs" and "x \<notin> set (take n (sort_key k xs))" and "y \<in> set (take n (sort_key k xs))"
  shows "k y \<le> k x"
proof -
  have "x \<in> set (take n (sort_key k xs) @ drop n (sort_key k xs))"
    unfolding append_take_drop_id using assms(1) by simp
  then have "x \<in> set (drop n (sort_key k xs))" unfolding set_append using assms(2) by blast
  moreover have "sorted (map k (take n (sort_key k xs)) @ map k (drop n (sort_key k xs)))"
    using sorted_sort_key [of k xs] by (metis append_take_drop_id map_append)
  ultimately show ?thesis using assms(3) by (auto simp: sorted_append)
qed

lemma take_sort_key_full:
  assumes "x \<in> set xs" and "x \<notin> set (take n (sort_key k xs))"
  shows "length (take n (sort_key k xs)) = n"
proof (rule ccontr)
  assume "length (take n (sort_key k xs)) \<noteq> n"
  then have "take n (sort_key k xs) = sort_key k xs" by simp
  with assms show False by simp
qed

definition contender_pool :: "env \<Rightarrow> int \<Rightarrow> rat option \<Rightarrow> db \<Rightarrow> agent list" where
  "contender_pool env v bound d = filter (contender_eligible env v bound d) (d_agents d)"

definition owner_bests :: "env \<Rightarrow> int \<Rightarrow> rat option \<Rightarrow> db \<Rightarrow> agent list" where
  "owner_bests env v bound d = filter (\<lambda>ag. first_by (contender_rank v d)
     (filter (\<lambda>b. emission_owner_key b d = emission_owner_key ag d) (contender_pool env v bound d)) = Some ag)
     (contender_pool env v bound d)"

lemma top_contenders_eq:
  "top_provisional_contenders env v bound d =
   map ag_agent_id (take 10 (sort_key (contender_rank v d) (owner_bests env v bound d)))"
  by (simp add: top_provisional_contenders_def owner_bests_def contender_pool_def Let_def PROVISIONAL_CONTENDER_LANE_SIZE_def)

lemma owner_bests_pool: "ag \<in> set (owner_bests env v bound d) \<Longrightarrow> ag \<in> set (contender_pool env v bound d)"
  by (simp add: owner_bests_def)

lemma owner_bests_unique:
  "ag \<in> set (owner_bests env v bound d) \<Longrightarrow> b \<in> set (owner_bests env v bound d) \<Longrightarrow>
   emission_owner_key ag d = emission_owner_key b d \<Longrightarrow> ag = b"
  by (auto simp: owner_bests_def)

lemma owner_best_exists:
  assumes "ag \<in> set (contender_pool env v bound d)"
  obtains b where "b \<in> set (owner_bests env v bound d)" "emission_owner_key b d = emission_owner_key ag d"
    "contender_rank v d b \<le> contender_rank v d ag"
proof -
  let ?g = "filter (\<lambda>b. emission_owner_key b d = emission_owner_key ag d) (contender_pool env v bound d)"
  obtain b where b: "first_by (contender_rank v d) ?g = Some b"
    using assms by (cases "first_by (contender_rank v d) ?g") (auto simp: filter_empty_conv)
  have "b \<in> set ?g" "contender_rank v d b \<le> contender_rank v d ag"
    using first_by_SomeD [OF b] assms by auto
  moreover from this have "b \<in> set (owner_bests env v bound d)" using b by (simp add: owner_bests_def)
  ultimately show ?thesis using that by simp
qed

text \<open>
  The contender lane is bounded, fair and best-first. It names at most ten submissions, each an
  evaluating one with one or two accepted scores whose first score reaches the finalized top ten, and
  never two submissions of one emission owner. A qualifying submission outside the lane is there
  for one of two reasons only: its owner's best submission, which ranks at least as high, is in
  the lane, or the lane is full of submissions that rank at least as high as that best one.
\<close>

theorem contender_lane_correct:
  assumes ids: "distinct (map ag_agent_id (d_agents d))"
    and L0: "L = top_provisional_contenders env v bound d"
  shows "length L \<le> 10 \<and>
    (\<forall>a \<in> set L. \<exists>ag \<in> set (d_agents d). ag_agent_id ag = a \<and> contender_eligible env v bound d ag) \<and>
    (\<forall>ag \<in> set (d_agents d). \<forall>b \<in> set (d_agents d). ag_agent_id ag \<in> set L \<longrightarrow> ag_agent_id b \<in> set L \<longrightarrow>
       emission_owner_key ag d = emission_owner_key b d \<longrightarrow> ag = b) \<and>
    (\<forall>ag \<in> set (d_agents d). contender_eligible env v bound d ag \<longrightarrow> ag_agent_id ag \<notin> set L \<longrightarrow>
       (\<exists>b \<in> set (d_agents d). emission_owner_key b d = emission_owner_key ag d \<and> contender_rank v d b \<le> contender_rank v d ag \<and>
          (ag_agent_id b \<in> set L \<or>
           length L = 10 \<and> (\<forall>c \<in> set (d_agents d). ag_agent_id c \<in> set L \<longrightarrow> contender_rank v d c \<le> contender_rank v d b))))"
proof -
  let ?T = "take 10 (sort_key (contender_rank v d) (owner_bests env v bound d))"
  have L: "L = map ag_agent_id ?T" unfolding L0 by (rule top_contenders_eq)
  have T: "x \<in> set ?T \<Longrightarrow> x \<in> set (owner_bests env v bound d)" for x
    using in_set_takeD [of x 10 "sort_key (contender_rank v d) (owner_bests env v bound d)"] by simp
  have pool: "x \<in> set (owner_bests env v bound d) \<Longrightarrow> x \<in> set (d_agents d) \<and> contender_eligible env v bound d x" for x
    using owner_bests_pool [of x env v bound d] by (simp add: contender_pool_def)
  have mem: "ag_agent_id x \<in> set L \<longleftrightarrow> x \<in> set ?T" if "x \<in> set (d_agents d)" for x
  proof
    assume "ag_agent_id x \<in> set L"
    then obtain y where y: "y \<in> set ?T" "ag_agent_id y = ag_agent_id x" unfolding L by auto
    then have "y = x" using that pool T ids by (intro distinct_key_eq [of ag_agent_id "d_agents d"]) blast+
    with y show "x \<in> set ?T" by simp
  qed (simp add: L)
  have 1: "\<exists>ag \<in> set (d_agents d). ag_agent_id ag = a \<and> contender_eligible env v bound d ag" if "a \<in> set L" for a
  proof -
    from that obtain y where "y \<in> set ?T" "ag_agent_id y = a" unfolding L by auto
    then show ?thesis using T pool by blast
  qed
  have 2: "ag = b" if "ag \<in> set (d_agents d)" "b \<in> set (d_agents d)" "ag_agent_id ag \<in> set L" "ag_agent_id b \<in> set L"
    "emission_owner_key ag d = emission_owner_key b d" for ag b
    using that mem T by (intro owner_bests_unique [of ag env v bound d]) blast+
  have 3: "\<exists>b \<in> set (d_agents d). emission_owner_key b d = emission_owner_key ag d \<and> contender_rank v d b \<le> contender_rank v d ag \<and>
      (ag_agent_id b \<in> set L \<or> length L = 10 \<and> (\<forall>c \<in> set (d_agents d). ag_agent_id c \<in> set L \<longrightarrow> contender_rank v d c \<le> contender_rank v d b))"
    if "ag \<in> set (d_agents d)" "contender_eligible env v bound d ag" for ag
  proof -
    have "ag \<in> set (contender_pool env v bound d)" using that by (simp add: contender_pool_def)
    then obtain b where b: "b \<in> set (owner_bests env v bound d)" "emission_owner_key b d = emission_owner_key ag d"
      "contender_rank v d b \<le> contender_rank v d ag" by (rule owner_best_exists)
    have bd: "b \<in> set (d_agents d)" using b pool by blast
    show ?thesis
    proof (cases "b \<in> set ?T")
      case True
      with mem [OF bd] have "ag_agent_id b \<in> set L" by simp
      with b bd show ?thesis by blast
    next
      case False
      have "length L = 10" unfolding L using take_sort_key_full [OF b(1) False] by simp
      moreover have "contender_rank v d c \<le> contender_rank v d b" if "c \<in> set (d_agents d)" "ag_agent_id c \<in> set L" for c
        using that mem take_sort_key_least [OF b(1) False] by blast
      ultimately show ?thesis using b bd by blast
    qed
  qed
  have 0: "length L \<le> 10" unfolding L by simp
  show ?thesis using 0 1 2 3 by blast
qed

subsection \<open>The continuation floor\<close>

text \<open>\<open>statistics.median\<close> of a non-empty list, as the ledger finalizes a quorum with it.\<close>

definition statistics_median :: "rat list \<Rightarrow> rat" where
  "statistics_median xs =
     (let ys = sort xs; n = length xs
      in if odd n then ys ! (n div 2) else (ys ! (n div 2 - 1) + ys ! (n div 2)) / 2)"

lemma insort_two: "x \<le> y \<Longrightarrow> insort (c :: rat) [x, y] ! Suc 0 \<le> y"
  by auto

lemma median_of_three_le: "statistics_median [c, x, y] \<le> max x y"
proof -
  have "sort [c, x, y] ! 1 \<le> max x y"
    using insort_two [of x y c] insort_two [of y x c] by (cases "x \<le> y") (auto simp: max_def)
  moreover have "length [c, x, y] div 2 = 1" "odd (length [c, x, y])" by simp_all
  ultimately show ?thesis unfolding statistics_median_def Let_def by (simp only: if_True not_False_eq_True)
qed

text \<open>
  Deferring a submission below the continuation floor is sound: once the allocator puts a
  two-score submission into the last lane, no third score, whatever its value, can finalize it at or
  above the floor.
\<close>

theorem below_floor_sound:
  assumes "below_floor (Some f) rows"
  shows "statistics_median (c # map s_composite rows) < f"
proof -
  from assms have n: "length rows = 2" and m: "max_composite rows < f"
    by (simp_all add: below_floor_def SCORING_QUORUM_def)
  from n obtain r s where rows: "rows = [r, s]" by (auto simp: length_Suc_conv numeral_2_eq_2)
  have "max (s_composite r) (s_composite s) < f" using m by (simp add: rows max_composite_def)
  with median_of_three_le [of c "s_composite r" "s_composite s"]
  have "statistics_median [c, s_composite r, s_composite s] < f" by (rule le_less_trans)
  then show ?thesis by (simp add: rows)
qed

definition demo_score :: "hotkey \<Rightarrow> rat \<Rightarrow> score" where
  "demo_score h c = \<lparr>s_agent_id = 1, s_validator_hotkey = h, s_bench_version = 7, s_composite = c, s_created_at = 0,
     s_n = 100, s_seed = 1, s_run_id = ''r'', s_tool_mean = c, s_memory_mean = c, s_median_ms = 1, s_generated_at = 0, s_signature = None,
     s_details = None, s_model_calls = None, s_model_prompt_tokens = None, s_model_completion_tokens = None\<rparr>"

theorem below_floor_sound_witness:
  "statistics_median (1 # map s_composite [demo_score ''v'' (1 / 2), demo_score ''w'' (1 / 3)]) < 3 / 4"
  by (rule below_floor_sound) (simp add: below_floor_def SCORING_QUORUM_def max_composite_def demo_score_def)

subsection \<open>The preview orders like the allocator\<close>

lemma map_fst_preview_gates:
  "map fst (preview_gates v now cf ro fl prev leas linkage d cache ids) = ids"
  by (induction ids arbitrary: cache) (auto split: option.splits prod.splits)

text \<open>The numbered entries of a list of gated submissions, as the preview builds them.\<close>

definition preview_entries :: "(uuid \<times> queue_gate option) list \<Rightarrow> queue_preview_entry list" where
  "preview_entries gates =
     map (\<lambda>(rank, i, a, g). \<lparr>qp_agent_id = a, qp_rank = rank, qp_gate = g\<rparr>)
       (enumerate 1 (sort_key (\<lambda>(i, a, g). (GATE_RANK g, i)) (enumerate 0 gates)))"

lemma preview_entries_nth:
  assumes "i < length gates"
  shows "\<exists>m a g. sort_key (\<lambda>(i, a, g). (GATE_RANK g, i)) (enumerate 0 gates) ! i = (m, a, g) \<and>
    m < length gates \<and> gates ! m = (a, g) \<and>
    preview_entries gates ! i = \<lparr>qp_agent_id = a, qp_rank = Suc i, qp_gate = g\<rparr>"
proof -
  let ?R = "sort_key (\<lambda>(i, a, g). (GATE_RANK g, i)) (enumerate 0 gates)"
  obtain m a g where R: "?R ! i = (m, a, g)" by (metis prod_cases3)
  have "?R ! i \<in> set ?R" using assms by (intro nth_mem) simp
  then have "(m, a, g) \<in> set (enumerate 0 gates)" unfolding R by simp
  then have "m < length gates \<and> gates ! m = (a, g)" by (auto simp: in_set_enumerate_eq)
  then show ?thesis using R assms by (simp add: preview_entries_def nth_enumerate_eq)
qed

lemma preview_entries_length: "length (preview_entries gates) = length gates"
  by (simp add: preview_entries_def)

lemma preview_entries_ranks: "map qp_rank (preview_entries gates) = [1 ..< Suc (length gates)]"
proof (rule nth_equalityI)
  show "length (map qp_rank (preview_entries gates)) = length [1 ..< Suc (length gates)]"
    by (simp add: preview_entries_length del: upt_Suc)
  fix i assume "i < length (map qp_rank (preview_entries gates))"
  then show "map qp_rank (preview_entries gates) ! i = [1 ..< Suc (length gates)] ! i"
    using preview_entries_nth [of i gates] by (auto simp: preview_entries_length simp del: upt_Suc)
qed

lemma preview_entries_ids: "set (map qp_agent_id (preview_entries gates)) = fst ` set gates"
proof -
  let ?R = "sort_key (\<lambda>(i, a, g). (GATE_RANK g, i)) (enumerate 0 gates)"
  have snd_en: "f ` set (enumerate n xs) = g ` set xs" if "\<And>x. f x = g (snd x)" for f :: "nat \<times> 'x \<Rightarrow> 'y" and g n xs
  proof -
    have "f ` set (enumerate n xs) = g ` set (map snd (enumerate n xs))"
      unfolding list.set_map image_image by (rule image_cong [OF refl that])
    then show ?thesis by (simp only: map_snd_enumerate)
  qed
  have "set (map qp_agent_id (preview_entries gates)) = (\<lambda>(rank, i, a, g). a) ` set (enumerate 1 ?R)"
    unfolding preview_entries_def by (force simp: image_iff)
  also have "\<dots> = (\<lambda>(i, a, g). a) ` set ?R" by (rule snd_en) auto
  also have "\<dots> = (\<lambda>(i, a, g). a) ` set (enumerate 0 gates)" by simp
  also have "\<dots> = fst ` set gates" by (rule snd_en) auto
  finally show ?thesis .
qed

lemma preview_entries_order:
  assumes "i < j" and "j < length gates"
  obtains m n where "m < length gates" "n < length gates"
    "gates ! m = (qp_agent_id (preview_entries gates ! i), qp_gate (preview_entries gates ! i))"
    "gates ! n = (qp_agent_id (preview_entries gates ! j), qp_gate (preview_entries gates ! j))"
    "GATE_RANK (qp_gate (preview_entries gates ! i)) \<le> GATE_RANK (qp_gate (preview_entries gates ! j))"
    "GATE_RANK (qp_gate (preview_entries gates ! i)) = GATE_RANK (qp_gate (preview_entries gates ! j)) \<Longrightarrow> m \<le> n"
proof -
  let ?k = "\<lambda>(i, a, g). (GATE_RANK g, i)" let ?R = "sort_key ?k (enumerate 0 gates)"
  from preview_entries_nth [of i gates] assms obtain m a g where
    i: "?R ! i = (m, a, g)" "m < length gates" "gates ! m = (a, g)" "preview_entries gates ! i = \<lparr>qp_agent_id = a, qp_rank = Suc i, qp_gate = g\<rparr>"
    by auto
  from preview_entries_nth [OF assms(2)] obtain n b h where
    j: "?R ! j = (n, b, h)" "n < length gates" "gates ! n = (b, h)" "preview_entries gates ! j = \<lparr>qp_agent_id = b, qp_rank = Suc j, qp_gate = h\<rparr>"
    by auto
  have "sorted (map ?k ?R)" by (rule sorted_sort_key)
  from sorted_nth_mono [OF this, of i j] have "(GATE_RANK g, m) \<le> (GATE_RANK h, n)" using assms i(1) j(1) by simp
  then show thesis using i j by (intro that [of m n]) (auto simp: less_eq_prod_def)
qed

lemma preview_queue_order_shape:
  assumes "preview_queue_order env v now ids cf pf ro prev fl d = Some es" and "ids \<noteq> []" and "get_contract v = Some contract"
  obtains gates where "es = preview_entries gates"
    "map fst gates = map ag_agent_id (sort_key (queue_order_terms env v now (preview_artifact_mode contract)
       (resolve_fifo_start_at v ro d) cf pf False None d) (filter (\<lambda>ag. ag_agent_id ag \<in> set ids) (d_agents d)))"
proof -
  define ord where "ord = sort_key (queue_order_terms env v now (preview_artifact_mode contract)
       (resolve_fifo_start_at v ro d) cf pf False None d) (filter (\<lambda>ag. ag_agent_id ag \<in> set ids) (d_agents d))"
  define leas where "leas = set (map ag_agent_id (filter (\<lambda>ag. occupied_quorum_slots now (ag_agent_id ag) v d < SCORING_QUORUM \<and>
      queue_candidate env contract v (preview_artifact_mode contract) ro None d ag) (filter (\<lambda>ag. ag_agent_id ag \<in> set ids) (d_agents d))))"
  have "Some (preview_entries (preview_gates v now pf ro fl prev leas (resolve_owner_linkage_batch env (set ids) d) d []
      (map ag_agent_id ord))) = Some es"
    using assms(1) by (simp only: preview_queue_order_def assms(2,3) if_False option.case Let_def preview_entries_def ord_def leas_def)
  then show thesis using map_fst_preview_gates unfolding ord_def option.inject by (intro that) (rule sym, assumption, simp only:)
qed

lemma if_Some_ex: "\<exists>z. (if b then Some x else Some y) = Some z"
  by simp

lemma preview_total:
  assumes "get_contract v = Some contract"
  shows "\<exists>es. preview_queue_order env v now ids cf pf ro prev fl d = Some es"
  unfolding preview_queue_order_def assms option.case Let_def
  by (rule if_Some_ex)

lemma sorted_rows_le:
  assumes "distinct (map kf rows)" and "set (sort_key key sel) \<subseteq> set rows" and "m \<le> n" and "n < length sel"
    and "kf a = kf (sort_key key sel ! m)" and "kf b = kf (sort_key key sel ! n)" and "a \<in> set rows" and "b \<in> set rows"
  shows "key a \<le> key b"
proof -
  have mem: "sort_key key sel ! k \<in> set rows" if "k < length sel" for k
    using assms(2) that by (metis length_sort nth_mem subsetD)
  have "a = sort_key key sel ! m" using assms mem [of m] by (intro distinct_key_eq [of kf rows]) simp_all
  moreover have "b = sort_key key sel ! n" using assms mem [of n] by (intro distinct_key_eq [of kf rows]) simp_all
  moreover have "key (sort_key key sel ! m) \<le> key (sort_key key sel ! n)"
    using sorted_nth_mono [OF sorted_sort_key [of key sel], of m n] assms(3,4) by simp
  ultimately show ?thesis by simp
qed

text \<open>
  The preview is the allocator's order with the gated rows behind. The entries are the requested
  submissions that exist, numbered from one without gaps; a row with a better gate never ranks behind
  a row with a worse one; and two rows under the same gate stand in the order of the same
  \<open>ORDER BY\<close> list the allocator selects by.
\<close>

theorem preview_queue_order_correct:
  assumes r: "preview_queue_order env v now ids cf pf ro prev fl d = Some es" and "ids \<noteq> []"
    and contract: "get_contract v = Some contract"
    and dist: "distinct (map ag_agent_id (d_agents d))"
    and key: "key = queue_order_terms env v now (preview_artifact_mode contract) (resolve_fifo_start_at v ro d) cf pf False None d"
  shows "map qp_rank es = [1 ..< Suc (length es)] \<and>
    set (map qp_agent_id es) = set ids \<inter> ag_agent_id ` set (d_agents d) \<and>
    (\<forall>i j. i < j \<longrightarrow> j < length es \<longrightarrow> GATE_RANK (qp_gate (es ! i)) \<le> GATE_RANK (qp_gate (es ! j))) \<and>
    (\<forall>i j ag b. i < j \<longrightarrow> j < length es \<longrightarrow> GATE_RANK (qp_gate (es ! i)) = GATE_RANK (qp_gate (es ! j)) \<longrightarrow>
       get_row ag_agent_id (qp_agent_id (es ! i)) (d_agents d) = Some ag \<longrightarrow>
       get_row ag_agent_id (qp_agent_id (es ! j)) (d_agents d) = Some b \<longrightarrow> key ag \<le> key b)"
proof -
  define sel where "sel = filter (\<lambda>ag. ag_agent_id ag \<in> set ids) (d_agents d)"
  obtain gates where es: "es = preview_entries gates" and ids: "map fst gates = map ag_agent_id (sort_key key sel)"
    using preview_queue_order_shape [OF r assms(2) contract] unfolding key sel_def by blast
  have len: "length gates = length sel" using arg_cong [OF ids, of length] by simp
  have sub: "set (sort_key key sel) \<subseteq> set (d_agents d)" by (auto simp: sel_def)
  have "fst ` set gates = set (map fst gates)" by simp
  also have "\<dots> = set ids \<inter> ag_agent_id ` set (d_agents d)" unfolding ids by (auto simp: sel_def)
  finally have "set (map qp_agent_id es) = set ids \<inter> ag_agent_id ` set (d_agents d)"
    unfolding es preview_entries_ids .
  moreover have "map qp_rank es = [1 ..< Suc (length es)]"
    unfolding es preview_entries_ranks preview_entries_length ..
  moreover have "GATE_RANK (qp_gate (es ! i)) \<le> GATE_RANK (qp_gate (es ! j))" if "i < j" "j < length es" for i j
    using that preview_entries_order [of i j gates] unfolding es preview_entries_length by metis
  moreover have "key ag \<le> key b" if ij: "i < j" "j < length es" "GATE_RANK (qp_gate (es ! i)) = GATE_RANK (qp_gate (es ! j))"
    and a: "get_row ag_agent_id (qp_agent_id (es ! i)) (d_agents d) = Some ag"
    and b: "get_row ag_agent_id (qp_agent_id (es ! j)) (d_agents d) = Some b" for i j ag b
  proof -
    have jl: "j < length gates" using ij unfolding es preview_entries_length by simp
    obtain m n where mn: "m < length gates" "n < length gates" "gates ! m = (qp_agent_id (es ! i), qp_gate (es ! i))"
      "gates ! n = (qp_agent_id (es ! j), qp_gate (es ! j))" "m \<le> n"
      using preview_entries_order [OF ij(1) jl] ij(3) unfolding es by metis
    have "qp_agent_id (es ! i) = ag_agent_id (sort_key key sel ! m)" "qp_agent_id (es ! j) = ag_agent_id (sort_key key sel ! n)"
      using arg_cong [OF ids, of "\<lambda>xs. xs ! m"] arg_cong [OF ids, of "\<lambda>xs. xs ! n"] mn len by simp_all
    then show ?thesis using get_row_SomeD [OF a] get_row_SomeD [OF b] mn len
      by (intro sorted_rows_le [OF dist sub mn(5)]) simp_all
  qed
  ultimately show ?thesis by blast
qed

subsection \<open>A small database\<close>

definition demo_agent :: "uuid \<Rightarrow> hotkey \<Rightarrow> agent" where
  "demo_agent n h = \<lparr>ag_agent_id = n, ag_miner_hotkey = h, ag_status = EVALUATING, ag_created_at = int n,
     ag_screening_policy_version = 9, ag_screened_image_sha256 = Some ''s'', ag_screened_image_size_bytes = Some 1,
     ag_screened_image_id = Some ''i'', ag_screened_image_ref = Some ''r'', ag_screened_image_upload_id = Some 0,
     ag_screened_image_verified_at = Some 0, ag_sha256 = ''a'', ag_screening_reason = None,
     ag_screening_reason_code = None, ag_duplicate_of = None, ag_dataset_seed = None, ag_dataset_sha256 = None,
     ag_dataset_run_size = None, ag_dataset_seed_block = None, ag_dataset_seed_block_hash = None\<rparr>"

definition demo_dataset :: "uuid \<Rightarrow> benchmark_dataset" where
  "demo_dataset n = \<lparr>bd_agent_id = n, bd_bench_version = 7, bd_seed = 1, bd_sha256 = ''d'', bd_run_size = ''full'',
     bd_seed_block = None, bd_seed_block_hash = None\<rparr>"

definition demo_payment :: "uuid \<Rightarrow> hotkey \<Rightarrow> string \<Rightarrow> evaluation_payment" where
  "demo_payment n h c = \<lparr>pm_block_hash = h, pm_extrinsic_index = 0, pm_agent_id = Some n, pm_miner_hotkey = h, pm_miner_coldkey = c\<rparr>"

definition demo_env :: env where
  "demo_env = \<lparr>e_screening_policy_version = 9, e_netuid = 118\<rparr>"

definition demo_fleet :: fleet where
  "demo_fleet = \<lparr>f_capable = {}, f_twins = (\<lambda>_. {}), f_similarity_limit = 1\<rparr>"

text \<open>
  Submissions 1 and 2 were paid by one coldkey from two hotkeys; hotkey \<open>h1\<close> is attested to be the
  same operator as \<open>h3\<close>, whose submission 3 has no payment record and holds a live lease.
\<close>

definition demo_db :: db where
  "demo_db = \<lparr>d_agents = [demo_agent 1 ''h1'', demo_agent 2 ''h2'', demo_agent 3 ''h3''],
     d_tickets = [(new_confirmation_ticket 3 ''v'' 0 100 7 None None ''slot-0'')\<lparr>t_purpose := CANONICAL_QUORUM\<rparr>],
     d_scores = [], d_payments = [demo_payment 1 ''h1'' ''c'', demo_payment 2 ''h2'' ''c''],
     d_attestations = [\<lparr>oa_netuid = 118, oa_hotkey_lo = ''h1'', oa_hotkey_hi = ''h3'', oa_revoked_at = None\<rparr>],
     d_datasets = map demo_dataset [1, 2, 3], d_rollouts = [], d_rollout_members = [], d_rollout_carryover = [],
     d_withdrawals = [], d_retirements = [], d_score_audit = [], d_heartbeats = [], d_lease_audit = [], d_rollout_audit = []\<rparr>"

lemma demo_ids: "distinct (map ag_agent_id (d_agents demo_db))"
  by (simp add: demo_db_def demo_agent_def)

lemma demo_tickets_ok: "tickets_ok (d_tickets demo_db)"
  by (simp add: demo_db_def tickets_ok_def one_issued_per_slot_def ticket_ok_def new_confirmation_ticket_def MAX_INFRA_RETRY_GRANTS_def)

definition linkage_1 :: owner_linkage where
  "linkage_1 = \<lparr>ol_hotkey = ''h1'', ol_coldkeys = {''c''}, ol_hotkeys = {''h1'', ''h2'', ''h3''}\<rparr>"

definition linkage_2 :: owner_linkage where
  "linkage_2 = \<lparr>ol_hotkey = ''h2'', ol_coldkeys = {''c''}, ol_hotkeys = {''h1'', ''h2''}\<rparr>"

lemmas demo_defs = demo_db_def demo_agent_def demo_dataset_def demo_payment_def demo_env_def

lemma demo_linkage:
  "resolve_owner_linkage demo_env 1 demo_db = Some linkage_1"
  "resolve_owner_linkage demo_env 2 demo_db = Some linkage_2"
  by (auto simp: resolve_owner_linkage_def demo_defs get_row_def coldkey_of_def payment_of_def select_first_def
      active_attestations_def linkage_1_def linkage_2_def Let_def)

theorem owner_linkage_batch_agrees_witness:
  "map_of (resolve_owner_linkage_batch demo_env {1, 2} demo_db) 1 = Some linkage_1"
  using owner_linkage_batch_agrees [OF demo_ids, of demo_env "{1, 2}" 1] demo_linkage(1) by simp

theorem owner_quorum_reachable_exact_witness:
  "owner_quorum_reachable 3 7 {''v'', ''w'', ''x''} demo_db"
proof -
  have "exhausted_validators 3 7 demo_db = {}" "scored_validators 3 7 demo_db = {}"
    by (simp_all add: exhausted_validators_def scored_validators_def era_tickets_def demo_defs new_confirmation_ticket_def)
  then show ?thesis
    using owner_quorum_reachable_exact [OF demo_tickets_ok, of "{''v'', ''w'', ''x''}" 3 7] by (simp add: SCORING_QUORUM_def)
qed

theorem contender_lane_correct_witness:
  "length (top_provisional_contenders demo_env 7 None demo_db) \<le> 10"
  using contender_lane_correct [OF demo_ids refl, of demo_env 7 None] by blast

theorem preview_queue_order_correct_witness:
  "\<exists>es. preview_queue_order demo_env 7 50 [1, 2] None None None {} demo_fleet demo_db = Some es \<and>
     map qp_rank es = [1 ..< Suc (length es)] \<and> set (map qp_agent_id es) = {1, 2}"
proof -
  let ?c = "\<lparr>bc_version = 7, bc_minimum_screening_policy_version = 9, bc_requires_screened_image = True\<rparr>"
  have c: "get_contract 7 = Some ?c" by (simp add: get_contract_def CONTRACTS_def)
  obtain es where r: "preview_queue_order demo_env 7 50 [1, 2] None None None {} demo_fleet demo_db = Some es"
    using preview_total [OF c] by blast
  have "set [1, 2] \<inter> ag_agent_id ` set (d_agents demo_db) = {1, 2}" by (auto simp: demo_defs)
  moreover have "[1, 2] \<noteq> []" by simp
  note p = preview_queue_order_correct [OF r this c demo_ids refl]
  have "map qp_rank es = [1 ..< Suc (length es)]" using p by (elim conjE)
  moreover have "set (map qp_agent_id es) = set [1, 2] \<inter> ag_agent_id ` set (d_agents demo_db)" using p by (elim conjE)
  ultimately show ?thesis using r by metis
qed

text \<open>
  The owner cache of the allocator and of the preview can mix up two owners. It is keyed by the
  advisory lock keys, that is by the coldkeys, but what is cached also depends on the attested
  hotkeys. Here submissions 1 and 2 share their lock keys; only submission 1 counts the unpaid
  submission 3, which holds a live lease, as its owner's. Asked afresh, submission 1 is serialized
  behind that lease; asked after submission 2, the cached answer lets it through.
\<close>

theorem owner_cache_key_conflates:
  "resolve_owner_linkage demo_env 1 demo_db = Some linkage_1 \<and>
   resolve_owner_linkage demo_env 2 demo_db = Some linkage_2 \<and>
   advisory_lock_keys linkage_1 = advisory_lock_keys linkage_2 \<and>
   owner_capacity_gate 1 (fst (owner_facts linkage_1 7 50 None None demo_fleet demo_db))
     (snd (owner_facts linkage_1 7 50 None None demo_fleet demo_db)) 2 False {} 1 = Some Owner_Serialized \<and>
   owner_capacity_gate 1 (fst (owner_facts linkage_2 7 50 None None demo_fleet demo_db))
     (snd (owner_facts linkage_2 7 50 None None demo_fleet demo_db)) 2 False {} 1 = None"
proof -
  have live: "owner_live_lease_agent_ids linkage_1 50 demo_db = {3}" "owner_live_lease_agent_ids linkage_2 50 demo_db = {}"
    by (auto simp: owner_live_lease_agent_ids_def same_owner_def demo_defs coldkey_of_def payment_of_def select_first_def
        linkage_1_def linkage_2_def new_confirmation_ticket_def)
  have sel: "selected_owner_agent_id linkage_2 7 50 None None (f_capable demo_fleet) demo_db = None"
    by (simp add: selected_owner_agent_id_def same_owner_def demo_defs coldkey_of_def payment_of_def select_first_def
        linkage_2_def progress_started_at_def progress_tickets_def new_confirmation_ticket_def)
  have keys: "advisory_lock_keys linkage_1 = advisory_lock_keys linkage_2"
    by (simp add: advisory_lock_keys_def linkage_1_def linkage_2_def)
  have "progress_tickets 50 1 7 demo_db = []" by (simp add: progress_tickets_def demo_defs new_confirmation_ticket_def)
  then have "selected_owner_agent_id linkage_1 7 50 None None (f_capable demo_fleet) demo_db \<noteq> Some 1"
    using selected_owner_SomeD by blast
  then show ?thesis using demo_linkage keys live sel by (simp add: owner_facts_def owner_capacity_gate_def)
qed

end
