(* ===== verification/Issuance.thy ===== *)
theory Issuance
  imports Queue_Order
begin

text \<open>
  The allocator, \<open>issue_ticket\<close> of \<open>ditto/db/queries/tickets.py\<close>: resume the slot's lease, release
  a provably idle incompatible one, walk the queue in order past the rows the capacity gates refuse,
  fall back once to the owner ceiling's last resort, and write the lease.

  One call is one transaction. Rows locked by concurrent transactions enter as \<open>locked n a\<close>: whether
  submission \<open>a\<close> is locked when the loop runs its \<open>n\<close>-th selection (\<open>SKIP LOCKED\<close> leaves such rows
  out, except in the completion-first lane, which waits). The score floors, the capable fleet and
  the near-identical live submissions are arguments, computed by \<open>get_score_priority_floors\<close>,
  \<open>quorum_capable_validator_hotkeys\<close> and \<open>similar_submissions\<close>.
\<close>

record issue_request =
  iq_validator_hotkey :: hotkey
  iq_now :: time
  iq_ttl :: timedelta
  iq_bench_version :: "int option"
  iq_artifact_mode :: artifact_mode
  iq_validator_running_benchmark :: bool
  iq_submitted_at_or_after :: "time option"
  iq_fifo_start_at :: "time option"
  iq_completion_first :: bool
  iq_slot_id :: slot
  iq_only_agent_ids :: "uuid set option"
  iq_owner_limit :: int

text \<open>What is fixed during the selection loop.\<close>

record issue_context =
  ic_env :: env
  ic_request :: issue_request
  ic_version :: int
  ic_contract :: benchmark_contract
  ic_rollout :: "benchmark_rollout option"
  ic_fifo_start_at :: "time option"
  ic_continuation_floor :: "rat option"
  ic_contender_floor :: "rat option"
  ic_fleet :: fleet

subsection \<open>Candidates\<close>

definition live_status :: "ticket \<Rightarrow> bool" where
  "live_status t \<longleftrightarrow> t_status t = ISSUED \<or> t_status t = SCORED"

text \<open>A ticket that keeps its validator from this submission now.\<close>

definition blocks_validator :: "time \<Rightarrow> ticket \<Rightarrow> bool" where
  "blocks_validator now t \<longleftrightarrow>
     live_status t \<or> t_status t = EXPIRED \<and> (cooling_down now t \<or> retry_budget_spent t)"

definition validator_blocked :: "hotkey \<Rightarrow> int \<Rightarrow> time \<Rightarrow> uuid \<Rightarrow> db \<Rightarrow> bool" where
  "validator_blocked validator_hotkey bench_version now agent_id d \<longleftrightarrow>
     list_ex (\<lambda>t. t_agent_id t = agent_id \<and> t_validator_hotkey t = validator_hotkey \<and>
                  t_bench_version t = bench_version \<and> blocks_validator now t) (d_tickets d)"

definition eligible_candidate :: "issue_context \<Rightarrow> db \<Rightarrow> agent \<Rightarrow> bool" where
  "eligible_candidate c d ag \<longleftrightarrow>
     (let rq = ic_request c in
      queue_candidate (ic_env c) (ic_contract c) (ic_version c) (iq_artifact_mode rq) (ic_rollout c)
        (if iq_only_agent_ids rq \<noteq> None then None else iq_submitted_at_or_after rq) d ag \<and>
      (\<not> iq_completion_first rq \<longrightarrow>
         \<not> validator_blocked (iq_validator_hotkey rq) (ic_version c) (iq_now rq) (ag_agent_id ag) d) \<and>
      (case iq_only_agent_ids rq of None \<Rightarrow> True | Some ids \<Rightarrow> ag_agent_id ag \<in> ids))"

definition issue_order :: "issue_context \<Rightarrow> db \<Rightarrow> agent \<Rightarrow> queue_key" where
  "issue_order c d ag =
     (let rq = ic_request c in
      queue_order_terms (ic_env c) (ic_version c) (iq_now rq) (iq_artifact_mode rq) (ic_fifo_start_at c)
        (ic_continuation_floor c) (ic_contender_floor c) (iq_completion_first rq) (Some (iq_validator_hotkey rq)) d ag)"

definition occupied_slots :: "uuid \<Rightarrow> int \<Rightarrow> db \<Rightarrow> nat" where
  "occupied_slots agent_id bench_version d =
     length (filter (\<lambda>t. t_agent_id t = agent_id \<and> t_bench_version t = bench_version \<and> live_status t) (d_tickets d))"

definition remaining_candidates :: "issue_context \<Rightarrow> db \<Rightarrow> uuid list \<Rightarrow> uuid set option \<Rightarrow> agent list" where
  "remaining_candidates c d skipped reconsidered =
     filter (\<lambda>ag. eligible_candidate c d ag \<and> ag_agent_id ag \<notin> set skipped \<and>
       (case reconsidered of None \<Rightarrow> True | Some ids \<Rightarrow> ag_agent_id ag \<in> ids)) (d_agents d)"

definition next_candidate ::
  "issue_context \<Rightarrow> db \<Rightarrow> (uuid \<Rightarrow> bool) \<Rightarrow> uuid list \<Rightarrow> uuid set option \<Rightarrow> agent option" where
  "next_candidate c d locked skipped reconsidered =
     first_by (issue_order c d)
       (filter (\<lambda>ag. iq_completion_first (ic_request c) \<or> \<not> locked (ag_agent_id ag))
         (remaining_candidates c d skipped reconsidered))"

subsection \<open>The selection loop\<close>

lemma next_candidate_SomeD:
  assumes "next_candidate c d locked skipped reconsidered = Some ag"
  shows "ag \<in> set (remaining_candidates c d skipped reconsidered)"
  using first_by_SomeD(1) [OF assms [unfolded next_candidate_def]] by simp

text \<open>A candidate that is taken from the remaining ones and skipped leaves fewer.\<close>

definition unskipped :: "db \<Rightarrow> uuid list \<Rightarrow> nat" where
  "unskipped d skipped = length (filter (\<lambda>ag. ag_agent_id ag \<notin> set skipped) (d_agents d))"

lemma unskipped_less:
  assumes "ag \<in> set (remaining_candidates c d skipped reconsidered)"
  shows "unskipped d (skipped @ [ag_agent_id ag]) < unskipped d skipped"
proof -
  let ?p = "\<lambda>x. ag_agent_id x \<notin> set skipped" and ?q = "\<lambda>x. ag_agent_id x \<notin> set (skipped @ [ag_agent_id ag])"
  have "filter ?q (d_agents d) = filter ?q (filter ?p (d_agents d))" by (auto intro: filter_cong)
  moreover have "length (filter ?q (filter ?p (d_agents d))) < length (filter ?p (d_agents d))"
    using assms by (intro length_filter_less [of ag]) (auto simp: remaining_candidates_def)
  ultimately show ?thesis by (simp add: unskipped_def)
qed

function select_candidate ::
  "issue_context \<Rightarrow> db \<Rightarrow> (nat \<Rightarrow> uuid \<Rightarrow> bool) \<Rightarrow> nat \<Rightarrow> uuid list \<Rightarrow> uuid list \<Rightarrow> bool \<Rightarrow> uuid set option \<Rightarrow> owner_cache \<Rightarrow>
   uuid option" where
  "select_candidate c d locked n skipped owner_capacity_skips last_resort reconsidered cache =
     (case next_candidate c d (locked n) skipped reconsidered of
        None \<Rightarrow>
          if last_resort \<or> owner_capacity_skips = [] \<or>
             iq_owner_limit (ic_request c) \<le> MIN_OWNER_CONCURRENT_SUBMISSION_LIMIT then None
          else if remaining_candidates c d skipped None \<noteq> [] then None
          else select_candidate c d locked (n + 1) [] owner_capacity_skips True (Some (set owner_capacity_skips)) cache
      | Some ag \<Rightarrow>
          (case resolve_owner_linkage (ic_env c) (ag_agent_id ag) d of
             None \<Rightarrow> None
           | Some linkage \<Rightarrow>
             (case cached (advisory_lock_keys linkage)
                     (owner_facts linkage (ic_version c) (iq_now (ic_request c)) (ic_contender_floor c) (ic_rollout c)
                        (ic_fleet c) d) cache of
                ((selected, leased), cache') \<Rightarrow>
                  (let agent_id = ag_agent_id ag;
                       gate = owner_capacity_gate agent_id selected leased (iq_owner_limit (ic_request c)) last_resort
                                (f_twins (ic_fleet c) agent_id) (f_similarity_limit (ic_fleet c))
                   in if gate \<noteq> None then
                        select_candidate c d locked (n + 1) (skipped @ [agent_id])
                          (if \<not> last_resort \<and> gate = Some Owner_Serialized then owner_capacity_skips @ [agent_id]
                           else owner_capacity_skips)
                          last_resort reconsidered cache'
                      else if occupied_slots agent_id (ic_version c) d \<ge> SCORING_QUORUM then
                        select_candidate c d locked (n + 1) (skipped @ [agent_id]) owner_capacity_skips
                          last_resort reconsidered cache'
                      else if iq_completion_first (ic_request c) \<and>
                              validator_blocked (iq_validator_hotkey (ic_request c)) (ic_version c) (iq_now (ic_request c))
                                agent_id d then
                        select_candidate c d locked (n + 1) (skipped @ [agent_id]) owner_capacity_skips
                          last_resort reconsidered cache'
                      else Some agent_id))))"
  by pat_completeness auto
termination
  by (relation "measures [\<lambda>(c, d, locked, n, skipped, os, last_resort, r, cache). if last_resort then 0 else 1,
        \<lambda>(c, d, locked, n, skipped, os, last_resort, r, cache). unskipped d skipped]")
    (auto dest: next_candidate_SomeD intro: unskipped_less)

declare select_candidate.simps [simp del]

subsection \<open>Writing the lease\<close>

definition new_ticket :: "uuid \<Rightarrow> issue_request \<Rightarrow> int \<Rightarrow> ticket" where
  "new_ticket agent_id rq bench_version =
     \<lparr>t_agent_id = agent_id, t_validator_hotkey = iq_validator_hotkey rq, t_slot_id = iq_slot_id rq,
      t_status = ISSUED, t_purpose = CANONICAL_QUORUM, t_purpose_revision = 1,
      t_legacy_completion_allowed = False, t_issued_at = iq_now rq, t_deadline = iq_now rq + iq_ttl rq,
      t_bench_version = bench_version, t_seed = None, t_dataset_sha256 = None,
      t_seed_block = None, t_seed_block_hash = None, t_attempt_count = 1,
      t_manual_retry_grants = 0, t_infra_retry_grants = 0, t_retry_after = None,
      t_first_reported_at = None, t_failure_reason = None, t_failed_at = None,
      t_failure_detail = None\<rparr>"

definition reissue_ticket :: "issue_request \<Rightarrow> ticket \<Rightarrow> ticket" where
  "reissue_ticket rq t =
     t\<lparr>t_status := ISSUED, t_purpose := CANONICAL_QUORUM, t_purpose_revision := t_purpose_revision t + 1,
       t_legacy_completion_allowed := False, t_slot_id := iq_slot_id rq, t_issued_at := iq_now rq,
       t_deadline := iq_now rq + iq_ttl rq, t_attempt_count := t_attempt_count t + 1,
       t_retry_after := None, t_first_reported_at := None\<rparr>"

definition write_lease :: "uuid \<Rightarrow> issue_request \<Rightarrow> int \<Rightarrow> ticket list \<Rightarrow> ticket list \<times> ticket" where
  "write_lease agent_id rq bench_version ts =
     (case get_row tkey (agent_id, bench_version, iq_validator_hotkey rq) ts of
        None \<Rightarrow> (let t = new_ticket agent_id rq bench_version in (ts @ [t], t))
      | Some t0 \<Rightarrow> (let t = reissue_ticket rq t0 in (set_row tkey t ts, t)))"

subsection \<open>The allocator\<close>

definition resumable_lease :: "issue_context \<Rightarrow> db \<Rightarrow> ticket \<Rightarrow> bool" where
  "resumable_lease c d t \<longleftrightarrow>
     (let rq = ic_request c in
      t_validator_hotkey t = iq_validator_hotkey rq \<and> t_slot_id t = iq_slot_id rq \<and>
      t_bench_version t = ic_version c \<and> t_status t = ISSUED \<and> t_purpose t = CANONICAL_QUORUM \<and>
      t_purpose_revision t > 0 \<and> t_deadline t > iq_now rq \<and>
      list_ex (\<lambda>ag. ag_agent_id ag = t_agent_id t \<and>
        (bc_requires_screened_image (ic_contract c) \<or> iq_artifact_mode rq = Screened_Only \<longrightarrow>
           eligible_screened_image (ic_contract c) ag) \<and>
        (case ic_rollout c of None \<Rightarrow> True | Some r \<Rightarrow> benchmark_admission r (ic_version c) d ag)) (d_agents d))"

definition existing_lease :: "issue_context \<Rightarrow> db \<Rightarrow> ticket option" where
  "existing_lease c d =
     first_by (\<lambda>t. (t_issued_at t, t_agent_id t)) (filter (resumable_lease c d) (d_tickets d))"

text \<open>
  The slot's incompatible lease: \<open>(db, False)\<close> when it has to stay, \<open>(db', True)\<close> when the slot is
  free or was freed.
\<close>

definition release_slot :: "uuid \<Rightarrow> issue_request \<Rightarrow> db \<Rightarrow> db \<times> bool" where
  "release_slot audit_id rq d =
     (case select_first (slot_live (iq_validator_hotkey rq) (iq_slot_id rq) (iq_now rq)) (d_tickets d) of
        None \<Rightarrow> (d, True)
      | Some t \<Rightarrow>
          if t_purpose t \<noteq> CANONICAL_QUORUM \<or> t_purpose_revision t \<le> 0 then (d, False)
          else (case maybe_force_expire_lease audit_id t (iq_validator_hotkey rq) (iq_slot_id rq) (iq_now rq)
                       ''issue_ticket'' (iq_validator_running_benchmark rq) (d_heartbeats d)
                       (d_tickets d, d_lease_audit d) of
                  ((ts, audits), revoked) \<Rightarrow> (d\<lparr>d_tickets := ts, d_lease_audit := audits\<rparr>, revoked)))"

definition issue_context_for ::
  "env \<Rightarrow> issue_request \<Rightarrow> int \<Rightarrow> benchmark_contract \<Rightarrow> rat option \<times> rat option \<Rightarrow> fleet \<Rightarrow> db \<Rightarrow> issue_context" where
  "issue_context_for env rq bench_version contract floors fl d =
     (let rollout = activated_rollout_for_version bench_version d
      in \<lparr>ic_env = env, ic_request = rq, ic_version = bench_version, ic_contract = contract, ic_rollout = rollout,
          ic_fifo_start_at = (case iq_fifo_start_at rq of Some t \<Rightarrow> Some t
             | None \<Rightarrow> resolve_fifo_start_at bench_version rollout d),
          ic_continuation_floor = (if iq_completion_first rq then None else fst floors),
          ic_contender_floor = (if iq_completion_first rq then None else snd floors),
          ic_fleet = fl\<rparr>)"

datatype issue_error = MissingVersion | UnsupportedVersion

definition issue_ticket ::
  "env \<Rightarrow> issue_request \<Rightarrow> rat option \<times> rat option \<Rightarrow> fleet \<Rightarrow> (nat \<Rightarrow> uuid \<Rightarrow> bool) \<Rightarrow> uuid \<Rightarrow> db \<Rightarrow>
   issue_error + db \<times> ticket option" where
  "issue_ticket env rq floors fl locked audit_id d0 =
     (let d = d0\<lparr>d_tickets := fst (expire_overdue_tickets (iq_now rq) (d_tickets d0))\<rparr> in
      case iq_bench_version rq of None \<Rightarrow> Inl MissingVersion
      | Some bench_version \<Rightarrow>
      case get_contract bench_version of None \<Rightarrow> Inl UnsupportedVersion
      | Some contract \<Rightarrow>
      (let c = issue_context_for env rq bench_version contract floors fl d in
       case existing_lease c d of Some t \<Rightarrow> Inr (d, Some t)
       | None \<Rightarrow>
       case release_slot audit_id rq d of
         (d', False) \<Rightarrow> Inr (d', None)
       | (d', True) \<Rightarrow>
         (case select_candidate c d' locked 0 [] [] False None [] of
            None \<Rightarrow> Inr (d', None)
          | Some agent_id \<Rightarrow>
            (case write_lease agent_id rq bench_version (d_tickets d') of
               (ts, t) \<Rightarrow> Inr (d'\<lparr>d_tickets := ts\<rparr>, Some t)))))"

subsection \<open>The selected submission\<close>

lemma select_candidate_sound:
  "select_candidate c d locked n sk os lr rc cache = Some a \<Longrightarrow>
   \<exists>ag \<in> set (d_agents d). ag_agent_id ag = a \<and> eligible_candidate c d ag \<and> occupied_slots a (ic_version c) d < SCORING_QUORUM \<and>
     \<not> validator_blocked (iq_validator_hotkey (ic_request c)) (ic_version c) (iq_now (ic_request c)) a d"
proof (induction c d locked n sk os lr rc cache rule: select_candidate.induct)
  case (1 c d locked n sk os lr rc cache)
  let ?blocked = "validator_blocked (iq_validator_hotkey (ic_request c)) (ic_version c) (iq_now (ic_request c))"
  show ?case
  proof (cases "next_candidate c d (locked n) sk rc")
    case None
    then show ?thesis using "1.prems" "1.IH"(1) [OF None] by (simp add: select_candidate.simps [of c d locked n] split: if_splits)
  next
    case (Some ag)
    then have ag: "ag \<in> set (d_agents d)" "eligible_candidate c d ag"
      using next_candidate_SomeD [OF Some] by (simp_all add: remaining_candidates_def)
    have nb: "\<not> iq_completion_first (ic_request c) \<longrightarrow> \<not> ?blocked (ag_agent_id ag) d"
      using ag(2) by (simp add: eligible_candidate_def Let_def)
    show ?thesis
    proof (cases "resolve_owner_linkage (ic_env c) (ag_agent_id ag) d")
      case None
      then show ?thesis using "1.prems" Some by (simp add: select_candidate.simps [of c d locked n])
    next
      case L: (Some l)
      obtain sel leased cache' where C: "cached (advisory_lock_keys l)
          (owner_facts l (ic_version c) (iq_now (ic_request c)) (ic_contender_floor c) (ic_rollout c) (ic_fleet c) d) cache =
          ((sel, leased), cache')" by (metis prod.collapse)
      note IH = "1.IH"(2-4) [OF Some L C [symmetric] refl refl refl]
      show ?thesis using "1.prems" ag nb IH
        by (simp add: select_candidate.simps [of c d locked n] Some L C Let_def split: if_splits) auto
    qed
  qed
qed

text \<open>The gate with the owner's facts read afresh, and the rows a pass may lease.\<close>

definition fresh_gate :: "issue_context \<Rightarrow> db \<Rightarrow> bool \<Rightarrow> agent \<Rightarrow> queue_gate option" where
  "fresh_gate c d last_resort ag =
     (case resolve_owner_linkage (ic_env c) (ag_agent_id ag) d of None \<Rightarrow> None
      | Some l \<Rightarrow>
        (case owner_facts l (ic_version c) (iq_now (ic_request c)) (ic_contender_floor c) (ic_rollout c) (ic_fleet c) d of
           (selected, leased) \<Rightarrow>
             owner_capacity_gate (ag_agent_id ag) selected leased (iq_owner_limit (ic_request c)) last_resort
               (f_twins (ic_fleet c) (ag_agent_id ag)) (f_similarity_limit (ic_fleet c))))"

definition admissible :: "issue_context \<Rightarrow> db \<Rightarrow> bool \<Rightarrow> agent \<Rightarrow> bool" where
  "admissible c d last_resort ag \<longleftrightarrow>
     fresh_gate c d last_resort ag = None \<and> occupied_slots (ag_agent_id ag) (ic_version c) d < SCORING_QUORUM \<and>
     \<not> (iq_completion_first (ic_request c) \<and>
        validator_blocked (iq_validator_hotkey (ic_request c)) (ic_version c) (iq_now (ic_request c)) (ag_agent_id ag) d)"

text \<open>
  The specification of the selection: the first row of the queue that every ordinary rail lets
  through; failing that, and only when the operator allows more than one submission per owner, the
  first of the rows held back by the owner ceiling alone that the raised ceiling lets through.
\<close>

definition select_spec :: "issue_context \<Rightarrow> db \<Rightarrow> uuid option" where
  "select_spec c d =
     (case first_by (issue_order c d) (filter (\<lambda>ag. eligible_candidate c d ag \<and> admissible c d False ag) (d_agents d)) of
        Some ag \<Rightarrow> Some (ag_agent_id ag)
      | None \<Rightarrow>
          if iq_owner_limit (ic_request c) \<le> 1 then None
          else map_option ag_agent_id (first_by (issue_order c d)
                 (filter (\<lambda>ag. eligible_candidate c d ag \<and> fresh_gate c d False ag = Some Owner_Serialized \<and>
                    admissible c d True ag) (d_agents d))))"

definition facts_of :: "issue_context \<Rightarrow> db \<Rightarrow> owner_linkage \<Rightarrow> uuid option \<times> uuid set" where
  "facts_of c d l = owner_facts l (ic_version c) (iq_now (ic_request c)) (ic_contender_floor c) (ic_rollout c) (ic_fleet c) d"

text \<open>The lock keys of an owner determine what is cached under them.\<close>

definition owner_keys_faithful :: "issue_context \<Rightarrow> db \<Rightarrow> bool" where
  "owner_keys_faithful c d \<longleftrightarrow>
     (\<forall>a b l m. resolve_owner_linkage (ic_env c) a d = Some l \<longrightarrow> resolve_owner_linkage (ic_env c) b d = Some m \<longrightarrow>
        advisory_lock_keys l = advisory_lock_keys m \<longrightarrow> facts_of c d l = facts_of c d m)"

definition cache_ok :: "issue_context \<Rightarrow> db \<Rightarrow> owner_cache \<Rightarrow> bool" where
  "cache_ok c d cache \<longleftrightarrow>
     (\<forall>(k, f) \<in> set cache. \<exists>a l. resolve_owner_linkage (ic_env c) a d = Some l \<and> k = advisory_lock_keys l \<and> f = facts_of c d l)"

lemma cached_faithful:
  assumes "owner_keys_faithful c d" and "cache_ok c d cache" and "resolve_owner_linkage (ic_env c) a d = Some l"
  obtains cache' where "cached (advisory_lock_keys l) (facts_of c d l) cache = (facts_of c d l, cache')" "cache_ok c d cache'"
proof (cases "map_of cache (advisory_lock_keys l)")
  case None
  have "cache_ok c d ((advisory_lock_keys l, facts_of c d l) # cache)" using assms(2,3) by (auto simp: cache_ok_def)
  with None show thesis by (intro that) (simp_all add: cached_def)
next
  case (Some f)
  then have "(advisory_lock_keys l, f) \<in> set cache" by (rule map_of_SomeD)
  then obtain b m where "resolve_owner_linkage (ic_env c) b d = Some m" "advisory_lock_keys l = advisory_lock_keys m" "f = facts_of c d m"
    using assms(2) unfolding cache_ok_def by fast
  then have "f = facts_of c d l" using assms(1,3) unfolding owner_keys_faithful_def by metis
  with Some assms(2) show thesis by (intro that) (simp_all add: cached_def)
qed

lemma resolve_known:
  assumes "ag \<in> set (d_agents d)"
  obtains l where "resolve_owner_linkage env (ag_agent_id ag) d = Some l"
proof -
  have "ag_agent_id ag \<in> ag_agent_id ` set (d_agents d)" using assms by simp
  then have "get_row ag_agent_id (ag_agent_id ag) (d_agents d) \<noteq> None" by (simp only: get_row_None_iff not_not)
  then show thesis using that by (auto simp: resolve_owner_linkage_spec)
qed

lemma select_step:
  assumes "owner_keys_faithful c d" and "cache_ok c d cache"
    and N: "next_candidate c d lk sk rc = Some ag" and lk: "locked n = lk"
  obtains cache' where "cache_ok c d cache'"
    "select_candidate c d locked n sk os lr rc cache =
      (if admissible c d lr ag then Some (ag_agent_id ag)
       else select_candidate c d locked (n + 1) (sk @ [ag_agent_id ag])
         (if \<not> lr \<and> fresh_gate c d lr ag = Some Owner_Serialized then os @ [ag_agent_id ag] else os) lr rc cache')"
proof -
  have "ag \<in> set (d_agents d)" using next_candidate_SomeD [OF N] by (simp add: remaining_candidates_def)
  then obtain l where L: "resolve_owner_linkage (ic_env c) (ag_agent_id ag) d = Some l" by (rule resolve_known)
  obtain sel leased where F: "facts_of c d l = (sel, leased)" by (metis prod.collapse)
  obtain cache' where C: "cached (advisory_lock_keys l) (facts_of c d l) cache = ((sel, leased), cache')" and ok: "cache_ok c d cache'"
    using cached_faithful [OF assms(1,2) L] F by metis
  have G: "owner_capacity_gate (ag_agent_id ag) sel leased (iq_owner_limit (ic_request c)) lr
      (f_twins (ic_fleet c) (ag_agent_id ag)) (f_similarity_limit (ic_fleet c)) = fresh_gate c d lr ag"
    using F by (simp add: fresh_gate_def L facts_of_def)
  show thesis
    by (rule that [OF ok])
      (simp add: select_candidate.simps [of c d locked n] lk N L C [unfolded facts_of_def] Let_def G admissible_def not_le, blast)
qed

lemma remaining_skip:
  "remaining_candidates c d (sk @ [a]) rc = filter (\<lambda>x. ag_agent_id x \<noteq> a) (remaining_candidates c d sk rc)"
  unfolding remaining_candidates_def filter_filter by (rule filter_cong) auto

lemma filter_skip:
  assumes "distinct (map ag_agent_id (d_agents d))" and "ag \<in> set (remaining_candidates c d sk rc)" and "\<not> p ag"
  shows "filter p (remaining_candidates c d (sk @ [ag_agent_id ag]) rc) = filter p (remaining_candidates c d sk rc)"
  unfolding remaining_skip filter_filter
proof (rule filter_cong [OF refl])
  fix x assume x: "x \<in> set (remaining_candidates c d sk rc)"
  have "x = ag" if "ag_agent_id x = ag_agent_id ag"
    using that x assms by (intro distinct_key_eq [of ag_agent_id "d_agents d"]) (simp_all add: remaining_candidates_def)
  then show "(ag_agent_id x \<noteq> ag_agent_id ag \<and> p x) = p x" using assms(3) by blast
qed

lemma next_unlocked: "next_candidate c d (\<lambda>_. False) sk rc = first_by (issue_order c d) (remaining_candidates c d sk rc)"
  by (simp add: next_candidate_def)

lemma select_last_resort:
  assumes faithful: "owner_keys_faithful c d" and dist: "distinct (map ag_agent_id (d_agents d))"
  shows "cache_ok c d cache \<Longrightarrow>
    select_candidate c d (\<lambda>_ _. False) n sk os True (Some S) cache =
    map_option ag_agent_id (first_by (issue_order c d) (filter (admissible c d True) (remaining_candidates c d sk (Some S))))"
proof (induction "unskipped d sk" arbitrary: n sk cache rule: less_induct)
  case less
  show ?case
  proof (cases "next_candidate c d (\<lambda>_. False) sk (Some S)")
    case None
    then have "remaining_candidates c d sk (Some S) = []" by (simp add: next_unlocked)
    with None show ?thesis by (simp add: select_candidate.simps [of c d "\<lambda>_ _. False" n] first_by_def)
  next
    case (Some ag)
    have mem: "ag \<in> set (remaining_candidates c d sk (Some S))" by (rule next_candidate_SomeD [OF Some])
    obtain cache' where ok: "cache_ok c d cache'" and st: "select_candidate c d (\<lambda>_ _. False) n sk os True (Some S) cache =
      (if admissible c d True ag then Some (ag_agent_id ag)
       else select_candidate c d (\<lambda>_ _. False) (n + 1) (sk @ [ag_agent_id ag])
         (if \<not> True \<and> fresh_gate c d True ag = Some Owner_Serialized then os @ [ag_agent_id ag] else os) True (Some S) cache')"
      by (rule select_step [OF faithful less.prems Some refl, where os = os and lr = True])
    show ?thesis
    proof (cases "admissible c d True ag")
      case True
      then show ?thesis using first_by_filter_hit [where p = "admissible c d True", OF Some [unfolded next_unlocked] True] by (simp add: st)
    next
      case False
      have "select_candidate c d (\<lambda>_ _. False) (n + 1) (sk @ [ag_agent_id ag]) os True (Some S) cache' =
        map_option ag_agent_id (first_by (issue_order c d) (filter (admissible c d True) (remaining_candidates c d (sk @ [ag_agent_id ag]) (Some S))))"
        using unskipped_less [OF mem] ok by (rule less.hyps)
      then show ?thesis using False filter_skip [OF dist mem, of "admissible c d True"] by (simp add: st)
    qed
  qed
qed

definition skips_ok :: "issue_context \<Rightarrow> db \<Rightarrow> uuid list \<Rightarrow> uuid list \<Rightarrow> bool" where
  "skips_ok c d sk os \<longleftrightarrow>
     set os = {ag_agent_id ag | ag. ag \<in> set (d_agents d) \<and> eligible_candidate c d ag \<and> ag_agent_id ag \<in> set sk \<and>
                 fresh_gate c d False ag = Some Owner_Serialized}"

lemma skips_ok_step:
  assumes "skips_ok c d sk os" and "distinct (map ag_agent_id (d_agents d))" and mem: "ag \<in> set (remaining_candidates c d sk None)"
  shows "skips_ok c d (sk @ [ag_agent_id ag]) (if fresh_gate c d False ag = Some Owner_Serialized then os @ [ag_agent_id ag] else os)"
proof -
  have ag: "ag \<in> set (d_agents d)" "eligible_candidate c d ag" using mem by (simp_all add: remaining_candidates_def)
  have same: "x = ag" if "x \<in> set (d_agents d)" "ag_agent_id x = ag_agent_id ag" for x
    using that ag(1) assms(2) by (intro distinct_key_eq [of ag_agent_id "d_agents d"]) simp_all
  show ?thesis using assms(1) ag same unfolding skips_ok_def by auto
qed

lemma select_ordinary:
  assumes faithful: "owner_keys_faithful c d" and dist: "distinct (map ag_agent_id (d_agents d))"
  shows "cache_ok c d cache \<Longrightarrow> skips_ok c d sk os \<Longrightarrow>
    select_candidate c d (\<lambda>_ _. False) n sk os False None cache =
    (case first_by (issue_order c d) (filter (admissible c d False) (remaining_candidates c d sk None)) of
       Some ag \<Rightarrow> Some (ag_agent_id ag)
     | None \<Rightarrow> if iq_owner_limit (ic_request c) \<le> 1 then None
         else map_option ag_agent_id (first_by (issue_order c d)
                 (filter (\<lambda>ag. eligible_candidate c d ag \<and> fresh_gate c d False ag = Some Owner_Serialized \<and>
                    admissible c d True ag) (d_agents d))))"
proof (induction "unskipped d sk" arbitrary: n sk os cache rule: less_induct)
  case less
  show ?case
  proof (cases "next_candidate c d (\<lambda>_. False) sk None")
    case None
    then have rem: "remaining_candidates c d sk None = []" by (simp add: next_unlocked)
    have all: "set os = {ag_agent_id ag | ag. ag \<in> set (d_agents d) \<and> eligible_candidate c d ag \<and> fresh_gate c d False ag = Some Owner_Serialized}"
      using less.prems(2) rem unfolding skips_ok_def remaining_candidates_def filter_empty_conv by auto
    have S: "filter (admissible c d True) (remaining_candidates c d [] (Some (set os))) =
      filter (\<lambda>ag. eligible_candidate c d ag \<and> fresh_gate c d False ag = Some Owner_Serialized \<and> admissible c d True ag) (d_agents d)"
      unfolding remaining_candidates_def filter_filter
    proof (rule filter_cong [OF refl])
      fix x assume x: "x \<in> set (d_agents d)"
      have same: "y = x" if "y \<in> set (d_agents d)" "ag_agent_id y = ag_agent_id x" for y
        using that dist x by (intro distinct_key_eq [of ag_agent_id "d_agents d"]) simp_all
      have "ag_agent_id x \<in> set os \<longleftrightarrow> fresh_gate c d False x = Some Owner_Serialized" if e: "eligible_candidate c d x"
      proof
        assume "ag_agent_id x \<in> set os"
        then obtain y where "y \<in> set (d_agents d)" "ag_agent_id y = ag_agent_id x" "fresh_gate c d False y = Some Owner_Serialized"
          unfolding all by force
        with same show "fresh_gate c d False x = Some Owner_Serialized" by metis
      qed (use e x all in blast)
      then show "((eligible_candidate c d x \<and> ag_agent_id x \<notin> set [] \<and> (case Some (set os) of None \<Rightarrow> True | Some ids \<Rightarrow> ag_agent_id x \<in> ids)) \<and>
          admissible c d True x) = (eligible_candidate c d x \<and> fresh_gate c d False x = Some Owner_Serialized \<and> admissible c d True x)"
        unfolding option.case by (simp only: list.set(1) empty_iff not_False_eq_True simp_thms) blast
    qed
    show ?thesis
    proof (cases "os = []")
      case True
      then have "filter (\<lambda>ag. eligible_candidate c d ag \<and> fresh_gate c d False ag = Some Owner_Serialized \<and> admissible c d True ag) (d_agents d) = []"
        using all by (auto simp: filter_empty_conv)
      with True None rem show ?thesis by (simp add: select_candidate.simps [of c d "\<lambda>_ _. False" n] first_by_def)
    next
      case False
      then have st: "select_candidate c d (\<lambda>_ _. False) n sk os False None cache =
        (if iq_owner_limit (ic_request c) \<le> 1 then None
         else select_candidate c d (\<lambda>_ _. False) (n + 1) [] os True (Some (set os)) cache)"
        using None rem by (subst select_candidate.simps) (simp add: MIN_OWNER_CONCURRENT_SUBMISSION_LIMIT_def)
      have "first_by (issue_order c d) (filter (admissible c d False) (remaining_candidates c d sk None)) = None" using rem by simp
      then show ?thesis
        unfolding st select_last_resort [OF faithful dist less.prems(1), of "n + 1" "[]" os "set os"] S by (simp only: option.case)
    qed
  next
    case (Some ag)
    have mem: "ag \<in> set (remaining_candidates c d sk None)" by (rule next_candidate_SomeD [OF Some])
    let ?os = "if fresh_gate c d False ag = Some Owner_Serialized then os @ [ag_agent_id ag] else os"
    obtain cache' where ok: "cache_ok c d cache'" and st: "select_candidate c d (\<lambda>_ _. False) n sk os False None cache =
      (if admissible c d False ag then Some (ag_agent_id ag)
       else select_candidate c d (\<lambda>_ _. False) (n + 1) (sk @ [ag_agent_id ag])
         (if \<not> False \<and> fresh_gate c d False ag = Some Owner_Serialized then os @ [ag_agent_id ag] else os) False None cache')"
      by (rule select_step [OF faithful less.prems(1) Some refl, where os = os and lr = False])
    show ?thesis
    proof (cases "admissible c d False ag")
      case True
      then show ?thesis using first_by_filter_hit [where p = "admissible c d False", OF Some [unfolded next_unlocked] True] by (simp add: st)
    next
      case False
      note IH = less.hyps [OF unskipped_less [OF mem] ok skips_ok_step [OF less.prems(2) dist mem], of "n + 1"]
      show ?thesis unfolding st if_not_P [OF False] not_False_eq_True simp_thms IH filter_skip [where p = "admissible c d False", OF dist mem False] ..
    qed
  qed
qed

subsection \<open>The slot before a new lease\<close>

lemma occupied_slots_update:
  assumes "\<And>t. t \<in> set ts \<Longrightarrow> p t \<Longrightarrow> \<not> live_status (f t)"
  shows "occupied_slots a v (d\<lparr>d_tickets := update_where p f ts\<rparr>) \<le> occupied_slots a v (d\<lparr>d_tickets := ts\<rparr>)"
  unfolding occupied_slots_def by (simp, rule length_filter_update_where_le) (use assms in blast)

lemma occupied_sweep:
  "occupied_slots a v (d\<lparr>d_tickets := fst (expire_overdue_tickets now (d_tickets d))\<rparr>) \<le> occupied_slots a v d"
  using occupied_slots_update [of "d_tickets d" "overdue now" expire_ticket a v d]
  by (simp add: expire_overdue_tickets_def expire_ticket_def live_status_def)

lemma release_slot_cases:
  obtains (free) "release_slot aid rq d = (d, True)"
      "select_first (slot_live (iq_validator_hotkey rq) (iq_slot_id rq) (iq_now rq)) (d_tickets d) = None"
  | (kept) "release_slot aid rq d = (d, False)"
  | (revoked) t row where "release_slot aid rq d =
        (d\<lparr>d_tickets := set_row tkey (close_lease True (iq_now rq) t) (d_tickets d), d_lease_audit := d_lease_audit d @ [row]\<rparr>, True)"
      "t \<in> set (d_tickets d)" "slot_live (iq_validator_hotkey rq) (iq_slot_id rq) (iq_now rq) t"
      "t_purpose t = CANONICAL_QUORUM" "t_purpose_revision t > 0"
      "lv_idle (lease_liveness t (iq_validator_hotkey rq) (iq_slot_id rq) (iq_now rq) (iq_validator_running_benchmark rq) (d_heartbeats d))"
proof (cases "select_first (slot_live (iq_validator_hotkey rq) (iq_slot_id rq) (iq_now rq)) (d_tickets d)")
  case None
  then show thesis by (intro free) (simp_all add: release_slot_def)
next
  case (Some t)
  note t = select_first_SomeD [OF Some]
  show thesis
  proof (cases "t_purpose t \<noteq> CANONICAL_QUORUM \<or> t_purpose_revision t \<le> 0")
    case True
    then show thesis by (intro kept) (simp add: release_slot_def Some)
  next
    case False
    let ?lv = "lease_liveness t (iq_validator_hotkey rq) (iq_slot_id rq) (iq_now rq) (iq_validator_running_benchmark rq) (d_heartbeats d)"
    obtain row where r: "maybe_force_expire_lease aid t (iq_validator_hotkey rq) (iq_slot_id rq) (iq_now rq) ''issue_ticket''
        (iq_validator_running_benchmark rq) (d_heartbeats d) (d_tickets d, d_lease_audit d) =
        (if lv_idle ?lv then ((set_row tkey (close_lease True (iq_now rq) t) (d_tickets d), d_lease_audit d @ [row]), True)
         else ((d_tickets d, d_lease_audit d), False))"
      using maybe_force_expire_lease_eq by blast
    show thesis
    proof (cases "lv_idle ?lv")
      case True
      with False t r show thesis by (intro revoked [of row t]) (simp_all add: release_slot_def Some)
    next
      case N: False
      with False r show thesis by (intro kept) (simp add: release_slot_def Some)
    qed
  qed
qed

text \<open>What the queue reads besides the tickets and the lease audit is left alone.\<close>

lemma release_slot_agents: "d_agents (fst (release_slot aid rq d)) = d_agents d"
  by (rule release_slot_cases [of aid rq d]) simp_all

lemma release_slot_ok:
  assumes "tickets_ok (d_tickets d)"
  shows "tickets_ok (d_tickets (fst (release_slot aid rq d)))"
proof (cases rule: release_slot_cases [of aid rq d])
  case (revoked t row)
  have "tickets_ok (set_row tkey (close_lease True (iq_now rq) t) (d_tickets d))"
    using assms revoked(2) by (auto intro!: tickets_ok_set_row close_lease_ok dest: tickets_ok_rowD)
  with revoked(1) show ?thesis by simp
qed (use assms in simp_all)

lemma release_slot_free:
  assumes ok: "tickets_ok (d_tickets d)" and live: "\<And>t. t \<in> set (d_tickets d) \<Longrightarrow> t_status t = ISSUED \<Longrightarrow> t_deadline t > iq_now rq"
    and r: "release_slot aid rq d = (d', True)"
  shows "free_slot (iq_validator_hotkey rq) (iq_slot_id rq) (d_tickets d')"
proof (cases rule: release_slot_cases [of aid rq d])
  case free
  then show ?thesis using r live by (auto simp: free_slot_def select_first_None_iff slot_live_def)
next
  case kept
  then show ?thesis using r by simp
next
  case (revoked t row)
  have d': "d_tickets d' = set_row tkey (close_lease True (iq_now rq) t) (d_tickets d)" using revoked(1) r by auto
  have t: "t_validator_hotkey t = iq_validator_hotkey rq" "t_slot_id t = iq_slot_id rq" "t_status t = ISSUED"
    using revoked(3) by (simp_all add: slot_live_def)
  show ?thesis unfolding free_slot_def d'
  proof (intro ballI impI notI)
    fix u assume u: "u \<in> set (set_row tkey (close_lease True (iq_now rq) t) (d_tickets d))" "t_status u = ISSUED"
      "t_validator_hotkey u = iq_validator_hotkey rq \<and> t_slot_id u = iq_slot_id rq"
    from in_set_row [OF u(1)] u(2) have "u \<in> set (d_tickets d)" "tkey u \<noteq> tkey t" by auto
    moreover have "u = t" using calculation(1) revoked(2) t u(2,3) ok by (intro tickets_ok_unique) (simp_all add: same_slot_def)
    ultimately show False by simp
  qed
qed

lemma release_slot_occupied: "occupied_slots a v (fst (release_slot aid rq d)) \<le> occupied_slots a v d"
proof (cases rule: release_slot_cases [of aid rq d])
  case (revoked t row)
  have "length (filter (\<lambda>t. t_agent_id t = a \<and> t_bench_version t = v \<and> live_status t)
      (update_where (\<lambda>r. tkey r = tkey t) (\<lambda>_. close_lease True (iq_now rq) t) (d_tickets d))) \<le> occupied_slots a v d"
    unfolding occupied_slots_def by (rule length_filter_update_where_le) (simp add: live_status_def)
  with revoked(1) show ?thesis by (simp add: occupied_slots_def set_row_def)
qed simp_all

lemma release_slot_kept: "release_slot aid rq d = (d', False) \<Longrightarrow> d' = d"
  by (rule release_slot_cases [of aid rq d]) auto

subsection \<open>The lease that is written\<close>

lemma new_ticket_facts:
  "ticket_ok (new_ticket a rq v)" "tkey (new_ticket a rq v) = (a, v, iq_validator_hotkey rq)"
  "t_slot_id (new_ticket a rq v) = iq_slot_id rq" "t_validator_hotkey (new_ticket a rq v) = iq_validator_hotkey rq"
  "t_attempt_count (new_ticket a rq v) \<le> ticket_attempt_cap (new_ticket a rq v)"
  by (simp_all add: new_ticket_def ticket_ok_def tkey_def MAX_INFRA_RETRY_GRANTS_def ticket_attempt_cap_def MAX_ATTEMPTS_PER_VERSION_def)

lemma reissue_ticket_facts:
  "ticket_ok t \<Longrightarrow> ticket_ok (reissue_ticket rq t)" "tkey (reissue_ticket rq t) = tkey t"
  "t_slot_id (reissue_ticket rq t) = iq_slot_id rq" "t_validator_hotkey (reissue_ticket rq t) = t_validator_hotkey t"
  "\<not> retry_budget_spent t \<Longrightarrow> t_attempt_count (reissue_ticket rq t) \<le> ticket_attempt_cap (reissue_ticket rq t)"
  by (simp_all add: reissue_ticket_def ticket_ok_def tkey_def retry_budget_spent_def ticket_attempt_cap_def)

lemma write_lease_cases:
  obtains (fresh) "write_lease a rq v ts = (ts @ [new_ticket a rq v], new_ticket a rq v)" "(a, v, iq_validator_hotkey rq) \<notin> tkey ` set ts"
  | (reuse) t0 where "write_lease a rq v ts = (set_row tkey (reissue_ticket rq t0) ts, reissue_ticket rq t0)"
      "t0 \<in> set ts" "tkey t0 = (a, v, iq_validator_hotkey rq)"
proof (cases "get_row tkey (a, v, iq_validator_hotkey rq) ts")
  case None
  then have "(a, v, iq_validator_hotkey rq) \<notin> tkey ` set ts" unfolding get_row_None_iff .
  then show thesis by (rule fresh [rotated]) (simp add: write_lease_def None Let_def)
next
  case (Some t0)
  show thesis using get_row_SomeD [OF Some] by (intro reuse [of t0]) (simp_all add: write_lease_def Some Let_def)
qed

lemma unblocked_row:
  assumes "\<not> validator_blocked (iq_validator_hotkey rq) v now a d" and "t0 \<in> set (d_tickets d)" and "tkey t0 = (a, v, iq_validator_hotkey rq)"
  shows "t_status t0 = EXPIRED" "\<not> retry_budget_spent t0" "\<not> cooling_down now t0"
proof -
  have "\<not> blocks_validator now t0" using assms by (auto simp: validator_blocked_def list_ex_iff tkey_def)
  then show "t_status t0 = EXPIRED" "\<not> retry_budget_spent t0" "\<not> cooling_down now t0"
    by (cases "t_status t0"; simp add: blocks_validator_def live_status_def)+
qed

text \<open>Everything the caller of the allocator can rely on, for the lease written after a selection.\<close>

lemma write_lease_facts:
  assumes ok: "tickets_ok (d_tickets d)" and free: "free_slot (iq_validator_hotkey rq) (iq_slot_id rq) (d_tickets d)"
    and nb: "\<not> validator_blocked (iq_validator_hotkey rq) v now a d" and w: "write_lease a rq v (d_tickets d) = (ts, t)"
  shows "tickets_ok ts" "t \<in> set ts" "tkey t = (a, v, iq_validator_hotkey rq)" "t_slot_id t = iq_slot_id rq"
    "t_status t = ISSUED" "t_purpose t = CANONICAL_QUORUM" "t_deadline t = iq_now rq + iq_ttl rq"
    "t_attempt_count t \<le> ticket_attempt_cap t" "t_first_reported_at t = None"
    "\<And>u. tkey u \<noteq> (a, v, iq_validator_hotkey rq) \<Longrightarrow> u \<in> set ts \<longleftrightarrow> u \<in> set (d_tickets d)"
    "\<And>a' v'. occupied_slots a' v' (d\<lparr>d_tickets := ts\<rparr>) \<le> occupied_slots a' v' d + (if (a', v') = (a, v) then 1 else 0)"
proof -
  have *: "tickets_ok ts \<and> t \<in> set ts \<and> tkey t = (a, v, iq_validator_hotkey rq) \<and> t_slot_id t = iq_slot_id rq \<and>
    t_status t = ISSUED \<and> t_purpose t = CANONICAL_QUORUM \<and> t_deadline t = iq_now rq + iq_ttl rq \<and>
    t_attempt_count t \<le> ticket_attempt_cap t \<and> t_first_reported_at t = None \<and>
    (\<forall>u. tkey u \<noteq> (a, v, iq_validator_hotkey rq) \<longrightarrow> (u \<in> set ts \<longleftrightarrow> u \<in> set (d_tickets d))) \<and>
    (\<forall>q. length (filter q ts) \<le> length (filter q (d_tickets d)) + (if q t then 1 else 0))"
  proof (cases rule: write_lease_cases [of a rq v "d_tickets d"])
    case fresh
    have 1: "ts = d_tickets d @ [t]" "t = new_ticket a rq v" using w fresh(1) by auto
    have "tickets_ok ts" unfolding 1(1) using ok free 1(2) fresh(2) new_ticket_facts by (intro tickets_ok_issue_row) simp_all
    moreover have "tkey t = (a, v, iq_validator_hotkey rq)" "t_slot_id t = iq_slot_id rq" "t_attempt_count t \<le> ticket_attempt_cap t"
      using new_ticket_facts by (simp_all add: 1(2))
    moreover have "t_status t = ISSUED" "t_purpose t = CANONICAL_QUORUM" "t_deadline t = iq_now rq + iq_ttl rq" "t_first_reported_at t = None"
      by (simp_all add: 1(2) new_ticket_def)
    ultimately show ?thesis unfolding 1(1) by auto
  next
    case (reuse t0)
    have 2: "ts = set_row tkey t (d_tickets d)" "t = reissue_ticket rq t0" "t0 \<in> set (d_tickets d)" "tkey t0 = (a, v, iq_validator_hotkey rq)"
      using w reuse by auto
    note u = unblocked_row [OF nb 2(3,4)]
    have key: "tkey t = tkey t0" by (simp add: 2(2) reissue_ticket_facts)
    have "tickets_ok ts" unfolding 2(1)
    proof (rule tickets_ok_issue_row(1) [OF ok])
      show "ticket_ok t" using tickets_ok_rowD [OF ok 2(3)] by (simp add: 2(2) reissue_ticket_facts)
      show "free_slot (t_validator_hotkey t) (t_slot_id t) (d_tickets d)" using free 2(4) by (simp add: 2(2) reissue_ticket_facts tkey_def)
    qed
    moreover have "t \<in> set ts" unfolding 2(1) by (rule set_row_mem) (simp add: key 2(3))
    moreover have "t_attempt_count t \<le> ticket_attempt_cap t" using u by (simp add: 2(2) reissue_ticket_facts)
    moreover have "t_status t = ISSUED" "t_purpose t = CANONICAL_QUORUM" "t_deadline t = iq_now rq + iq_ttl rq" "t_first_reported_at t = None" "t_slot_id t = iq_slot_id rq"
      by (simp_all add: 2(2) reissue_ticket_def)
    moreover have "\<forall>u. tkey u \<noteq> (a, v, iq_validator_hotkey rq) \<longrightarrow> (u \<in> set ts \<longleftrightarrow> u \<in> set (d_tickets d))"
      unfolding 2(1) using key 2(4) by (auto simp: set_row_def set_update_where)
    moreover have "length (filter q ts) \<le> length (filter q (d_tickets d)) + (if q t then 1 else 0)" for q
    proof (cases "q t")
      case True
      then show ?thesis using length_filter_set_row_le [of tkey "d_tickets d" q t] ok by (simp add: 2(1) tickets_ok_def)
    next
      case False
      have "length (filter q (set_row tkey t (d_tickets d))) \<le> length (filter q (d_tickets d))"
        unfolding set_row_def using False by (intro length_filter_update_where_le) simp
      with False show ?thesis by (simp add: 2(1))
    qed
    ultimately show ?thesis using key 2(4) by auto
  qed
  show "tickets_ok ts" "t \<in> set ts" "tkey t = (a, v, iq_validator_hotkey rq)" "t_slot_id t = iq_slot_id rq"
    "t_status t = ISSUED" "t_purpose t = CANONICAL_QUORUM" "t_deadline t = iq_now rq + iq_ttl rq"
    "t_attempt_count t \<le> ticket_attempt_cap t" "t_first_reported_at t = None"
    "\<And>u. tkey u \<noteq> (a, v, iq_validator_hotkey rq) \<Longrightarrow> u \<in> set ts \<longleftrightarrow> u \<in> set (d_tickets d)"
    using * by simp_all
  fix a' v'
  have "length (filter (\<lambda>t. t_agent_id t = a' \<and> t_bench_version t = v' \<and> live_status t) ts) \<le> occupied_slots a' v' d + (if t_agent_id t = a' \<and> t_bench_version t = v' \<and> live_status t then 1 else 0)"
    unfolding occupied_slots_def using * by blast
  then show "occupied_slots a' v' (d\<lparr>d_tickets := ts\<rparr>) \<le> occupied_slots a' v' d + (if (a', v') = (a, v) then 1 else 0)"
    using * by (auto simp: occupied_slots_def tkey_def split: if_splits)
qed

subsection \<open>What one call of the allocator does\<close>

lemma issue_ticket_cases:
  assumes "issue_ticket env rq floors fl locked aid d0 = Inr (d', r)"
    and d: "d = d0\<lparr>d_tickets := fst (expire_overdue_tickets (iq_now rq) (d_tickets d0))\<rparr>"
  obtains (resume) v contract t where "iq_bench_version rq = Some v" "d' = d" "r = Some t" "t \<in> set (d_tickets d)"
      "resumable_lease (issue_context_for env rq v contract floors fl d) d t"
  | (no_lease) "r = None" "d' = fst (release_slot aid rq d)"
  | (lease) v contract d1 a ts t where "iq_bench_version rq = Some v" "get_contract v = Some contract" "release_slot aid rq d = (d1, True)"
      "select_candidate (issue_context_for env rq v contract floors fl d) d1 locked 0 [] [] False None [] = Some a"
      "write_lease a rq v (d_tickets d1) = (ts, t)" "d' = d1\<lparr>d_tickets := ts\<rparr>" "r = Some t"
proof -
  note unf = issue_ticket_def Let_def d [symmetric]
  obtain v where v: "iq_bench_version rq = Some v"
    using assms(1) by (cases "iq_bench_version rq") (simp_all add: unf)
  obtain contract where k: "get_contract v = Some contract"
    using assms(1) by (cases "get_contract v") (simp_all add: unf v)
  let ?c = "issue_context_for env rq v contract floors fl d"
  show thesis
  proof (cases "existing_lease ?c d")
    case (Some t)
    have "t \<in> set (filter (resumable_lease ?c d) (d_tickets d))"
      using first_by_SomeD(1) [OF Some [unfolded existing_lease_def]] .
    moreover have "d' = d" "r = Some t" using assms(1) by (simp_all add: unf v k Some)
    ultimately show thesis using v by (intro resume [of v t contract]) simp_all
  next
    case None
    obtain d1 b where rel: "release_slot aid rq d = (d1, b)" by (metis prod.collapse)
    show thesis
    proof (cases b)
      case False
      then have "r = None \<and> d' = d1" using assms(1) rel by (simp add: unf v k None)
      then show thesis using rel by (simp add: no_lease)
    next
      case True
      show thesis
      proof (cases "select_candidate ?c d1 locked 0 [] [] False None []")
        case N: None
        then have "r = None \<and> d' = d1" using assms(1) rel True by (simp add: unf v k None)
        then show thesis using rel by (simp add: no_lease)
      next
        case (Some a)
        obtain ts t where w: "write_lease a rq v (d_tickets d1) = (ts, t)" by (metis prod.collapse)
        show thesis
          using assms(1) rel True v k Some w by (intro lease [of v contract d1 a ts t]) (simp_all add: unf v k None)
      qed
    qed
  qed
qed

text \<open>The state in which a lease is written.\<close>

lemma issue_lease_state:
  assumes ok: "tickets_ok (d_tickets d0)"
    and d: "d = d0\<lparr>d_tickets := fst (expire_overdue_tickets (iq_now rq) (d_tickets d0))\<rparr>"
    and rel: "release_slot aid rq d = (d1, True)"
    and sel: "select_candidate (issue_context_for env rq v contract floors fl d) d1 locked 0 [] [] False None [] = Some a"
  shows "tickets_ok (d_tickets d1)" "free_slot (iq_validator_hotkey rq) (iq_slot_id rq) (d_tickets d1)"
    "\<not> validator_blocked (iq_validator_hotkey rq) v (iq_now rq) a d1" "occupied_slots a v d1 < SCORING_QUORUM"
    "\<And>a' v'. occupied_slots a' v' d1 \<le> occupied_slots a' v' d0"
proof -
  have okd: "tickets_ok (d_tickets d)" using sweep_ok [OF ok] by (simp add: d)
  have live: "\<And>t. t \<in> set (d_tickets d) \<Longrightarrow> t_status t = ISSUED \<Longrightarrow> t_deadline t > iq_now rq"
    using sweep_live by (simp add: d)
  show "tickets_ok (d_tickets d1)" using release_slot_ok [OF okd, of aid rq] by (simp add: rel)
  show "free_slot (iq_validator_hotkey rq) (iq_slot_id rq) (d_tickets d1)" using okd live rel by (rule release_slot_free)
  have c: "ic_version (issue_context_for env rq v contract floors fl d) = v" "ic_request (issue_context_for env rq v contract floors fl d) = rq"
    by (simp_all add: issue_context_for_def Let_def)
  show "\<not> validator_blocked (iq_validator_hotkey rq) v (iq_now rq) a d1" "occupied_slots a v d1 < SCORING_QUORUM"
    using select_candidate_sound [OF sel] unfolding c by blast+
  fix a' v'
  have "occupied_slots a' v' d1 \<le> occupied_slots a' v' d" using release_slot_occupied [of a' v' aid rq d] by (simp add: rel)
  also have "\<dots> \<le> occupied_slots a' v' d0" unfolding d by (rule occupied_sweep)
  finally show "occupied_slots a' v' d1 \<le> occupied_slots a' v' d0" .
qed

text \<open>
  C5. The allocator never over-issues. After any call that does not raise, the ticket table still
  satisfies every constraint of the schema, in particular one issued lease per validator slot, and no
  submission holds more than three live or scored tickets of a version unless it already did before.
\<close>

theorem issue_ticket_never_over_issues:
  assumes "issue_ticket env rq floors fl locked aid d0 = Inr (d', r)" and ok: "tickets_ok (d_tickets d0)"
  shows "tickets_ok (d_tickets d') \<and> (\<forall>a v. occupied_slots a v d' \<le> max SCORING_QUORUM (occupied_slots a v d0))"
proof -
  define d where "d = d0\<lparr>d_tickets := fst (expire_overdue_tickets (iq_now rq) (d_tickets d0))\<rparr>"
  have okd: "tickets_ok (d_tickets d)" using sweep_ok [OF ok] by (simp add: d_def)
  have occ: "occupied_slots a v d \<le> occupied_slots a v d0" for a v unfolding d_def by (rule occupied_sweep)
  show ?thesis
  proof (cases rule: issue_ticket_cases [OF assms(1) d_def])
    case (1 v contract t)
    then show ?thesis using okd occ by (auto simp: le_max_iff_disj)
  next
    case 2
    have "occupied_slots a v d' \<le> occupied_slots a v d0" for a v
      unfolding 2(2) using release_slot_occupied [of a v aid rq d] occ [of a v] by (rule le_trans)
    with 2 show ?thesis using release_slot_ok [OF okd, of aid rq] by (auto simp: le_max_iff_disj)
  next
    case (3 v contract d1 a ts t)
    note st = issue_lease_state [OF ok d_def 3(3,4)]
    note w = write_lease_facts [OF st(1,2,3) 3(5)]
    have "occupied_slots a' v' d' \<le> max SCORING_QUORUM (occupied_slots a' v' d0)" for a' v'
      using w(11) [of a' v'] st(4) st(5) [of a' v'] by (auto simp: 3(6) split: if_splits)
    with w(1) 3(6) show ?thesis by simp
  qed
qed

text \<open>
  What a validator is handed is its own live lease: the returned ticket is in the table, issued to
  the polling validator in the polled slot, for the requested version and the canonical purpose, and
  its deadline has not passed. If it is not the lease the slot already held, it starts with a full
  lease period and a blank liveness record, and its attempt is within its budget.
\<close>

theorem issue_ticket_hands_out_own_lease:
  assumes "issue_ticket env rq floors fl locked aid d0 = Inr (d', Some t)" and ok: "tickets_ok (d_tickets d0)" and ttl: "iq_ttl rq > 0"
  shows "t \<in> set (d_tickets d') \<and> t_status t = ISSUED \<and> t_validator_hotkey t = iq_validator_hotkey rq \<and> t_slot_id t = iq_slot_id rq \<and>
    Some (t_bench_version t) = iq_bench_version rq \<and> t_purpose t = CANONICAL_QUORUM \<and> t_deadline t > iq_now rq \<and>
    (t \<in> set (fst (expire_overdue_tickets (iq_now rq) (d_tickets d0))) \<or>
     t_deadline t = iq_now rq + iq_ttl rq \<and> t_first_reported_at t = None \<and> t_attempt_count t \<le> ticket_attempt_cap t)"
proof -
  define d where "d = d0\<lparr>d_tickets := fst (expire_overdue_tickets (iq_now rq) (d_tickets d0))\<rparr>"
  show ?thesis
  proof (cases rule: issue_ticket_cases [OF assms(1) d_def])
    case (1 v contract t')
    then show ?thesis by (auto simp: resumable_lease_def issue_context_for_def Let_def d_def)
  next
    case 2
    then show ?thesis by simp
  next
    case (3 v contract d1 a ts t')
    note st = issue_lease_state [OF ok d_def 3(3,4)]
    note w = write_lease_facts [OF st(1,2,3) 3(5)]
    have "t' = t" using 3(7) by simp
    then show ?thesis using w(2-9) 3(1,6) ttl by (auto simp: tkey_def)
  qed
qed

text \<open>
  C33. Polling for work never kills a running benchmark. If a lease that is live before the call is not
  there unchanged afterwards, then it was a canonical lease in the polled slot of the polling
  validator and the liveness gate held positive evidence that it was idle. Leases of other slots,
  other validators and other lanes are untouched.
\<close>

theorem issue_ticket_spares_live_leases:
  assumes "issue_ticket env rq floors fl locked aid d0 = Inr (d', r)" and ok: "tickets_ok (d_tickets d0)"
    and t: "t \<in> set (d_tickets d0)" "t_status t = ISSUED" "t_deadline t > iq_now rq" and gone: "t \<notin> set (d_tickets d')"
  shows "t_validator_hotkey t = iq_validator_hotkey rq \<and> t_slot_id t = iq_slot_id rq \<and> t_purpose t = CANONICAL_QUORUM \<and>
    lv_idle (lease_liveness t (iq_validator_hotkey rq) (iq_slot_id rq) (iq_now rq) (iq_validator_running_benchmark rq) (d_heartbeats d0))"
proof -
  define d where "d = d0\<lparr>d_tickets := fst (expire_overdue_tickets (iq_now rq) (d_tickets d0))\<rparr>"
  have td: "t \<in> set (d_tickets d)" using t by (auto simp: d_def overdue_def intro: sweep_keeps)
  have okd: "tickets_ok (d_tickets d)" using sweep_ok [OF ok] by (simp add: d_def)
  have rel: ?thesis if "t \<notin> set (d_tickets (fst (release_slot aid rq d)))"
  proof (cases rule: release_slot_cases [of aid rq d])
    case (revoked u row)
    have "tkey t = tkey u"
    proof (rule ccontr)
      assume "tkey t \<noteq> tkey u"
      then have "t \<in> set (set_row tkey (close_lease True (iq_now rq) u) (d_tickets d))"
        using td by (force simp: set_row_def set_update_where)
      with that revoked(1) show False by simp
    qed
    then have "t = u" using td revoked(2) okd by (intro distinct_key_eq [of tkey "d_tickets d"]) (simp_all add: tickets_ok_def)
    then show ?thesis using revoked(3,4,6) by (simp add: slot_live_def d_def)
  qed (use that td in simp_all)
  show ?thesis
  proof (cases rule: issue_ticket_cases [OF assms(1) d_def])
    case (1 v contract t')
    then show ?thesis using td gone by simp
  next
    case 2
    then show ?thesis using rel gone by simp
  next
    case (3 v contract d1 a ts t')
    note st = issue_lease_state [OF ok d_def 3(3,4)]
    note w = write_lease_facts [OF st(1,2,3) 3(5)]
    show ?thesis
    proof (cases "t \<in> set (d_tickets d1)")
      case True
      have "tkey t \<noteq> (a, v, iq_validator_hotkey rq)"
        using unblocked_row(1) [OF st(3) True] t(2) by auto
      with w(10) True gone 3(6) show ?thesis by simp
    next
      case False
      with rel 3(3) show ?thesis by simp
    qed
  qed
qed

subsection \<open>The selection refines its specification\<close>


lemma select_fair_aux:
  assumes faithful: "owner_keys_faithful c d" and dist: "distinct (map ag_agent_id (d_agents d))"
  shows "cache_ok c d cache \<Longrightarrow>
    (\<forall>b \<in> set (d_agents d). eligible_candidate c d b \<longrightarrow> ag_agent_id b \<in> set sk \<longrightarrow> \<not> admissible c d False b) \<Longrightarrow>
    select_candidate c d locked n sk os False None cache = Some a \<Longrightarrow>
    (\<exists>ag \<in> set (d_agents d). ag_agent_id ag = a \<and> admissible c d False ag) \<or>
    (\<forall>b \<in> set (d_agents d). eligible_candidate c d b \<longrightarrow> \<not> admissible c d False b)"
proof (induction "unskipped d sk" arbitrary: n sk os cache rule: less_induct)
  case less
  show ?case
  proof (cases "next_candidate c d (locked n) sk None")
    case None
    then have "remaining_candidates c d sk None = []"
      using less.prems(3) by (simp add: select_candidate.simps [of c d locked n] split: if_splits)
    then show ?thesis using less.prems(2) by (auto simp: remaining_candidates_def filter_empty_conv)
  next
    case (Some ag)
    have mem: "ag \<in> set (remaining_candidates c d sk None)" by (rule next_candidate_SomeD [OF Some])
    then have agd: "ag \<in> set (d_agents d)" by (simp add: remaining_candidates_def)
    let ?os = "if \<not> False \<and> fresh_gate c d False ag = Some Owner_Serialized then os @ [ag_agent_id ag] else os"
    obtain cache' where ok: "cache_ok c d cache'" and st: "select_candidate c d locked n sk os False None cache =
      (if admissible c d False ag then Some (ag_agent_id ag)
       else select_candidate c d locked (n + 1) (sk @ [ag_agent_id ag]) ?os False None cache')"
      by (rule select_step [where locked = locked and n = n and os = os and lr = False, OF faithful less.prems(1) Some refl])
    show ?thesis
    proof (cases "admissible c d False ag")
      case True
      then show ?thesis using less.prems(3) agd by (auto simp: st)
    next
      case False
      have inv: "\<forall>b \<in> set (d_agents d). eligible_candidate c d b \<longrightarrow> ag_agent_id b \<in> set (sk @ [ag_agent_id ag]) \<longrightarrow> \<not> admissible c d False b"
      proof (intro ballI impI)
        fix b assume b: "b \<in> set (d_agents d)" "eligible_candidate c d b" "ag_agent_id b \<in> set (sk @ [ag_agent_id ag])"
        show "\<not> admissible c d False b"
        proof (cases "ag_agent_id b = ag_agent_id ag")
          case True
          then have "b = ag" using dist b(1) agd by (intro distinct_key_eq [of ag_agent_id "d_agents d"]) simp_all
          with False show ?thesis by simp
        next
          case F: False
          then show ?thesis using less.prems(2) b by simp
        qed
      qed
      have "select_candidate c d locked (n + 1) (sk @ [ag_agent_id ag]) ?os False None cache' = Some a"
        using less.prems(3) unfolding st if_not_P [OF False] .
      then show ?thesis by (rule less.hyps [OF unskipped_less [OF mem] ok inv])
    qed
  qed
qed

text \<open>
  The last resort is never served ahead of another owner, whatever concurrent transactions lock
  and whenever. If the allocator selects a submission that the ordinary rails refuse, then no
  submission in this validator's whole candidate set, locked or not, passes the ordinary rails.
\<close>

theorem last_resort_never_jumps_queue:
  assumes "owner_keys_faithful c d" and "distinct (map ag_agent_id (d_agents d))"
    and "select_candidate c d locked 0 [] [] False None [] = Some (ag_agent_id ag)" and "ag \<in> set (d_agents d)"
    and "\<not> admissible c d False ag" and "b \<in> set (d_agents d)" and "eligible_candidate c d b"
  shows "\<not> admissible c d False b"
proof -
  have "cache_ok c d []" by (simp add: cache_ok_def)
  moreover have "\<not> (\<exists>x \<in> set (d_agents d). ag_agent_id x = ag_agent_id ag \<and> admissible c d False x)"
    using assms(2,4,5) by (metis distinct_key_eq)
  ultimately show ?thesis using select_fair_aux [OF assms(1,2) _ _ assms(3)] assms(6,7) by auto
qed

subsection \<open>Small databases\<close>

definition solo_rq :: issue_request where
  "solo_rq = \<lparr>iq_validator_hotkey = ''v'', iq_now = 50, iq_ttl = td_minutes 90, iq_bench_version = Some 7,
     iq_artifact_mode = Legacy, iq_validator_running_benchmark = False, iq_submitted_at_or_after = None,
     iq_fifo_start_at = None, iq_completion_first = False, iq_slot_id = ''slot-0'', iq_only_agent_ids = None, iq_owner_limit = 2\<rparr>"

definition solo_db :: db where
  "solo_db = demo_db\<lparr>d_agents := [demo_agent 1 ''h1''], d_tickets := []\<rparr>"

lemma solo_issue:
  "issue_ticket demo_env solo_rq (None, None) demo_fleet (\<lambda>_ _. False) 0 solo_db =
   Inr (solo_db\<lparr>d_tickets := [new_ticket 1 solo_rq 7]\<rparr>, Some (new_ticket 1 solo_rq 7))"
  by code_simp

theorem issue_ticket_never_over_issues_witness:
  "tickets_ok (d_tickets (solo_db\<lparr>d_tickets := [new_ticket 1 solo_rq 7]\<rparr>)) \<and>
   occupied_slots 1 7 (solo_db\<lparr>d_tickets := [new_ticket 1 solo_rq 7]\<rparr>) \<le> max SCORING_QUORUM (occupied_slots 1 7 solo_db)"
proof -
  have "tickets_ok (d_tickets solo_db)" by (simp add: solo_db_def)
  from issue_ticket_never_over_issues [OF solo_issue this] show ?thesis by blast
qed

theorem issue_ticket_hands_out_own_lease_witness:
  "t_validator_hotkey (new_ticket 1 solo_rq 7) = ''v'' \<and> t_deadline (new_ticket 1 solo_rq 7) > 50"
proof -
  have "tickets_ok (d_tickets solo_db)" "iq_ttl solo_rq > 0" by (simp_all add: solo_db_def solo_rq_def td_defs)
  from issue_ticket_hands_out_own_lease [OF solo_issue this]
  have "t_validator_hotkey (new_ticket 1 solo_rq 7) = iq_validator_hotkey solo_rq" "t_deadline (new_ticket 1 solo_rq 7) > iq_now solo_rq"
    by blast+
  then show ?thesis by (simp add: solo_rq_def)
qed

text \<open>A validator whose slot holds an idle lease of a retired version: the lease is released.\<close>

definition idle_db :: db where
  "idle_db = solo_db\<lparr>d_tickets := [idle_lease], d_heartbeats := [idle_heartbeat]\<rparr>"

definition idle_rq :: issue_request where
  "idle_rq = solo_rq\<lparr>iq_now := td_minutes 11, iq_bench_version := Some 8\<rparr>"

lemma idle_released:
  "issue_ticket demo_env idle_rq (None, None) demo_fleet (\<lambda>_ _. False) 0 idle_db =
   Inr (fst (release_slot 0 idle_rq idle_db), None)"
  by code_simp

lemma idle_gone: "idle_lease \<notin> set (d_tickets (fst (release_slot 0 idle_rq idle_db)))"
  by code_simp

theorem issue_ticket_spares_live_leases_witness:
  "lv_idle (lease_liveness idle_lease ''v'' ''slot-0'' (td_minutes 11) False [idle_heartbeat])"
proof -
  have "tickets_ok (d_tickets idle_db)"
    by (simp add: idle_db_def tickets_ok_def one_issued_per_slot_def ticket_ok_def idle_example_defs MAX_INFRA_RETRY_GRANTS_def)
  moreover have "idle_lease \<in> set (d_tickets idle_db)" "t_status idle_lease = ISSUED" "t_deadline idle_lease > iq_now idle_rq"
    by (simp_all add: idle_db_def idle_rq_def idle_example_defs td_defs)
  ultimately have "lv_idle (lease_liveness idle_lease (iq_validator_hotkey idle_rq) (iq_slot_id idle_rq) (iq_now idle_rq)
      (iq_validator_running_benchmark idle_rq) (d_heartbeats idle_db))"
    using issue_ticket_spares_live_leases [OF idle_released _ _ _ _ idle_gone] by blast
  then show ?thesis by (simp add: idle_rq_def idle_db_def solo_rq_def)
qed

text \<open>One owner, two submissions: the first is leased elsewhere and spent here, the second waits.\<close>

definition duo_db :: db where
  "duo_db = demo_db\<lparr>d_agents := [demo_agent 1 ''h1'', demo_agent 2 ''h1''],
     d_tickets := [new_ticket 1 solo_rq 7,
       (new_ticket 1 (solo_rq\<lparr>iq_validator_hotkey := ''w''\<rparr>) 7)\<lparr>t_status := EXPIRED\<rparr>],
     d_payments := [demo_payment 1 ''h1'' ''c'', demo_payment 2 ''h1'' ''c'']\<rparr>"

definition duo_context :: issue_context where
  "duo_context = issue_context_for demo_env (solo_rq\<lparr>iq_validator_hotkey := ''w''\<rparr>) 7
     \<lparr>bc_version = 7, bc_minimum_screening_policy_version = 9, bc_requires_screened_image = True\<rparr> (None, None) demo_fleet duo_db"

lemma duo_resolve:
  "resolve_owner_linkage (ic_env duo_context) a duo_db =
   (if a = 1 \<or> a = 2 then Some \<lparr>ol_hotkey = ''h1'', ol_coldkeys = {''c''}, ol_hotkeys = {''h1'', ''h3''}\<rparr> else None)"
  by (auto simp: resolve_owner_linkage_def duo_db_def demo_defs get_row_def coldkey_of_def payment_of_def select_first_def
      active_attestations_def Let_def duo_context_def issue_context_for_def)

lemma duo_faithful: "owner_keys_faithful duo_context duo_db"
  by (simp add: owner_keys_faithful_def duo_resolve split: if_splits)

lemma duo_ids: "distinct (map ag_agent_id (d_agents duo_db))"
  by (simp add: duo_db_def demo_agent_def)

lemma duo_select: "select_candidate duo_context duo_db (\<lambda>_ _. False) 0 [] [] False None [] = Some 2"
  by code_simp

lemma duo_refused: "\<not> admissible duo_context duo_db False (demo_agent 2 ''h1'')" "eligible_candidate duo_context duo_db (demo_agent 2 ''h1'')"
  by code_simp+


theorem last_resort_never_jumps_queue_witness:
  "select_candidate duo_context duo_db (\<lambda>_ _. False) 0 [] [] False None [] = Some 2 \<and>
   \<not> admissible duo_context duo_db False (demo_agent 2 ''h1'')"
proof -
  have m: "demo_agent 2 ''h1'' \<in> set (d_agents duo_db)" by (simp add: duo_db_def)
  have "select_candidate duo_context duo_db (\<lambda>_ _. False) 0 [] [] False None [] = Some (ag_agent_id (demo_agent 2 ''h1''))"
    using duo_select by (simp add: demo_agent_def)
  from last_resort_never_jumps_queue [OF duo_faithful duo_ids this m duo_refused(1) m duo_refused(2)] duo_select
  show ?thesis by simp
qed

end
