(* ===== verification/Fingerprint.thy ===== *)
theory Fingerprint
  imports Canonical_Json "HOL-Library.Multiset"
begin

text \<open>
  The content fingerprint of an upload (\<open>ditto/api_server/fingerprint.py\<close>): the text
  normalisation, the comment scanner, the k-line shingles, the subtraction of the
  starter-kit history, the bottom-k sketch, and the similarity estimate of two sketches. Text is a
  list of code points, bytes are numbers below 256. An archive is what iterating the tarball yields: its
  members in order and whether the walk ends without a read error. SHA-256, the reference bundle and the
  corpus id are arguments. A hash is the hexadecimal text the code stores, ordered as text; a ratio is the exact
  rational. The theory shows that the fingerprints do not depend on the names or the order of the files,
  that the binary search of the bundle is set subtraction, and when the estimates are exact.
\<close>

subsection \<open>Text\<close>

text \<open>\<open>str.isspace\<close> of a code point, and the line boundaries of \<open>str.splitlines\<close>.\<close>

definition is_space :: "nat \<Rightarrow> bool" where
  "is_space c \<longleftrightarrow> (9 \<le> c \<and> c \<le> 13) \<or> (28 \<le> c \<and> c \<le> 32) \<or> c = 133 \<or> c = 160 \<or> c = 5760 \<or>
     (8192 \<le> c \<and> c \<le> 8202) \<or> c = 8232 \<or> c = 8233 \<or> c = 8239 \<or> c = 8287 \<or> c = 12288"

definition is_line_break :: "nat \<Rightarrow> bool" where
  "is_line_break c \<longleftrightarrow> (10 \<le> c \<and> c \<le> 13) \<or> (28 \<le> c \<and> c \<le> 30) \<or> c = 133 \<or> c = 8232 \<or> c = 8233"

fun splitlines_from :: "pytext \<Rightarrow> pytext \<Rightarrow> pytext list" where
  "splitlines_from acc [] = (if acc = [] then [] else [rev acc])"
| "splitlines_from acc (c # rest) =
     (if c = 13 \<and> rest \<noteq> [] \<and> hd rest = 10 then rev acc # splitlines_from [] (tl rest)
      else if is_line_break c then rev acc # splitlines_from [] rest
      else splitlines_from (c # acc) rest)"

definition splitlines :: "pytext \<Rightarrow> pytext list" where
  "splitlines t = splitlines_from [] t"

text \<open>\<open>"".join(line.split())\<close> removes exactly the white space.\<close>

definition squeeze :: "pytext \<Rightarrow> pytext" where
  "squeeze line = filter (\<lambda>c. \<not> is_space c) line"

text \<open>
  \<open>bytes.decode("utf-8", errors="replace")\<close>: a maximal prefix of a sequence that breaks off becomes one
  U+FFFD. The first argument of \<open>utf8_tail\<close> is the number of continuation bytes still wanted, with the bounds of the
  next one.
\<close>

definition utf8_lead :: "nat \<Rightarrow> (nat \<times> nat \<times> nat \<times> nat) option" where
  "utf8_lead b =
     (if 0xC2 \<le> b \<and> b \<le> 0xDF then Some (1, 0x80, 0xBF, b - 0xC0)
      else if b = 0xE0 then Some (2, 0xA0, 0xBF, 0)
      else if b = 0xED then Some (2, 0x80, 0x9F, 13)
      else if 0xE1 \<le> b \<and> b \<le> 0xEF then Some (2, 0x80, 0xBF, b - 0xE0)
      else if b = 0xF0 then Some (3, 0x90, 0xBF, 0)
      else if 0xF1 \<le> b \<and> b \<le> 0xF3 then Some (3, 0x80, 0xBF, b - 0xF0)
      else if b = 0xF4 then Some (3, 0x80, 0x8F, 4)
      else None)"

fun utf8_tail :: "nat \<Rightarrow> nat \<Rightarrow> nat \<Rightarrow> nat \<Rightarrow> nat list \<Rightarrow> nat \<times> nat list" where
  "utf8_tail 0 lo hi acc bs = (acc, bs)"
| "utf8_tail (Suc n) lo hi acc [] = (0xFFFD, [])"
| "utf8_tail (Suc n) lo hi acc (b # bs) =
     (if lo \<le> b \<and> b \<le> hi then utf8_tail n 0x80 0xBF (acc * 64 + (b - 0x80)) bs else (0xFFFD, b # bs))"

lemma utf8_tail_shrinks: "length (snd (utf8_tail n lo hi acc bs)) \<le> length bs"
  by (induction n lo hi acc bs rule: utf8_tail.induct) auto

function decode_replace :: "nat list \<Rightarrow> pytext" where
  "decode_replace [] = []"
| "decode_replace (b # bs) =
     (if b < 0x80 then b # decode_replace bs
      else case utf8_lead b of
        None \<Rightarrow> 0xFFFD # decode_replace bs
      | Some (n, lo, hi, acc) \<Rightarrow>
          fst (utf8_tail n lo hi acc bs) # decode_replace (snd (utf8_tail n lo hi acc bs)))"
  by pat_completeness auto

termination
  by (relation "measure length") (auto simp: le_imp_less_Suc utf8_tail_shrinks)

definition encode_cp :: "nat \<Rightarrow> nat list" where
  "encode_cp c =
     (if c < 0x80 then [c]
      else if c < 0x800 then [0xC0 + c div 64, 0x80 + c mod 64]
      else if c < 0x10000 then [0xE0 + c div 4096, 0x80 + c div 64 mod 64, 0x80 + c mod 64]
      else [0xF0 + c div 262144, 0x80 + c div 4096 mod 64, 0x80 + c div 64 mod 64, 0x80 + c mod 64])"

definition encode_utf8 :: "pytext \<Rightarrow> nat list" where
  "encode_utf8 t = concat (map encode_cp t)"

subsection \<open>The comment scanner\<close>

text \<open>\<open>text.find("*/", i + 2)\<close> and what follows it; without a closing mark the scan is at the end.\<close>

fun after_block :: "pytext \<Rightarrow> pytext" where
  "after_block [] = []"
| "after_block (c # rest) = (if c = 42 \<and> rest \<noteq> [] \<and> hd rest = 47 then tl rest else after_block rest)"

lemma after_block_shrinks: "length (after_block t) \<le> length t"
  by (induction t) auto

text \<open>The scanner with its \<open>in_string\<close> flag; a line comment leaves its newline in place.\<close>

function strip_from :: "bool \<Rightarrow> pytext \<Rightarrow> pytext" where
  "strip_from in_string [] = []"
| "strip_from True (c # rest) =
     (if c = 92 \<and> rest \<noteq> [] then c # hd rest # strip_from True (tl rest)
      else c # strip_from (c \<noteq> 34) rest)"
| "strip_from False (c # rest) =
     (if c = 34 then c # strip_from True rest
      else if c = 47 \<and> rest \<noteq> [] \<and> hd rest = 47 then strip_from False (dropWhile (\<lambda>x. x \<noteq> 10) rest)
      else if c = 47 \<and> rest \<noteq> [] \<and> hd rest = 42 then strip_from False (after_block (tl rest))
      else c # strip_from False rest)"
  by pat_completeness auto

termination
proof (relation "measure (\<lambda>(f, t). length t)")
  fix c :: nat and rest :: pytext
  show "((False, dropWhile (\<lambda>x. x \<noteq> 10) rest), False, c # rest) \<in> measure (\<lambda>(f, t). length t)"
    by (simp add: le_imp_less_Suc length_dropWhile_le)
  show "((False, after_block (tl rest)), False, c # rest) \<in> measure (\<lambda>(f, t). length t)"
    using after_block_shrinks [of "tl rest"] by simp
qed simp_all

definition strip_comments :: "pytext \<Rightarrow> pytext" where
  "strip_comments t = strip_from False t"

subsection \<open>Shingles\<close>

definition SHINGLE_LINES :: nat where "SHINGLE_LINES = 4"
definition MINHASH_K :: nat where "MINHASH_K = 256"
definition HASH_HEX :: nat where "HASH_HEX = 16"

definition hash_shingle :: "(nat list \<Rightarrow> string) \<Rightarrow> pytext \<Rightarrow> string" where
  "hash_shingle sha shingle = take HASH_HEX (sha (encode_utf8 shingle))"

definition normalized_lines :: "pytext \<Rightarrow> pytext list" where
  "normalized_lines t = filter (\<lambda>l. l \<noteq> []) (map squeeze (splitlines t))"

definition line_shingles :: "(nat list \<Rightarrow> string) \<Rightarrow> pytext list \<Rightarrow> string list" where
  "line_shingles sha ls =
     (if length ls \<le> SHINGLE_LINES then [hash_shingle sha (join_with [10] ls)]
      else map (\<lambda>i. hash_shingle sha (join_with [10] (take SHINGLE_LINES (drop i ls))))
             [0 ..< length ls - SHINGLE_LINES + 1])"

definition file_shingles :: "(nat list \<Rightarrow> string) \<Rightarrow> nat list \<Rightarrow> string list" where
  "file_shingles sha raw =
     (let ls = normalized_lines (decode_replace raw) in if ls = [] then [] else line_shingles sha ls)"

definition normalized_source :: "nat list \<Rightarrow> pytext" where
  "normalized_source raw = join_with [10] (normalized_lines (strip_comments (decode_replace raw)))"

definition normalized_source_shingles :: "(nat list \<Rightarrow> string) \<Rightarrow> nat list \<Rightarrow> string list" where
  "normalized_source_shingles sha raw =
     (let normalized = normalized_source raw in
      if normalized = [] then [] else line_shingles sha (splitlines normalized))"

definition embedding_source :: "nat list \<Rightarrow> pytext" where
  "embedding_source raw =
     join_with [10] (filter (\<lambda>l. squeeze l \<noteq> []) (splitlines (strip_comments (decode_replace raw))))"

subsection \<open>Prompt literals\<close>

definition PROMPT_MIN_WORDS :: nat where "PROMPT_MIN_WORDS = 8"
definition PROMPT_SHINGLE_WORDS :: nat where "PROMPT_SHINGLE_WORDS = 5"

text \<open>\<open>text.find(close)\<close>: the offset of the first occurrence.\<close>

fun find_sub :: "pytext \<Rightarrow> pytext \<Rightarrow> nat option" where
  "find_sub pat [] = (if pat = [] then Some 0 else None)"
| "find_sub pat (c # rest) =
     (if take (length pat) (c # rest) = pat then Some 0 else map_option Suc (find_sub pat rest))"

text \<open>The body of an ordinary literal, unescaped, and the text after its closing quote.\<close>

fun read_literal :: "pytext \<Rightarrow> pytext \<times> pytext" where
  "read_literal [] = ([], [])"
| "read_literal (c # rest) =
     (if c = 92 \<and> rest \<noteq> [] then (case read_literal (tl rest) of (buf, more) \<Rightarrow> (hd rest # buf, more))
      else if c = 34 then ([], rest)
      else (case read_literal rest of (buf, more) \<Rightarrow> (c # buf, more)))"

lemma read_literal_shrinks: "length (snd (read_literal t)) \<le> length t"
proof (induction t rule: read_literal.induct)
  case (2 c rest)
  show ?case
  proof (cases "c = 92 \<and> rest \<noteq> []")
    case True
    with "2.IH"(1) [OF True] show ?thesis by (auto simp: case_prod_beta)
  next
    case False
    with "2.IH"(2) [OF False] show ?thesis by (cases "c = 34") (auto simp: case_prod_beta)
  qed
qed simp

text \<open>A raw string \<open>r#"\<dots>"#\<close> at this point: its body and the text after it.\<close>

definition raw_literal :: "pytext \<Rightarrow> (pytext \<times> pytext) option" where
  "raw_literal rest =
     (let hashes = length (takeWhile (\<lambda>x. x = 35) rest); opened = dropWhile (\<lambda>x. x = 35) rest;
          body = tl opened; close = 34 # replicate hashes 35 in
      if opened \<noteq> [] \<and> hd opened = 34 then
        (case find_sub close body of
           None \<Rightarrow> Some (body, [])
         | Some n \<Rightarrow> Some (take n body, drop (n + length close) body))
      else None)"

lemma raw_literal_shrinks: "raw_literal rest = Some (buf, more) \<Longrightarrow> length more \<le> length rest"
  using length_dropWhile_le [of "\<lambda>x. x = 35" rest]
  by (auto simp: raw_literal_def Let_def split: if_splits option.splits)

function extract_string_literals :: "pytext \<Rightarrow> pytext list" where
  "extract_string_literals [] = []"
| "extract_string_literals (c # rest) =
     (if c = 47 \<and> rest \<noteq> [] \<and> hd rest = 47 then
        extract_string_literals (tl (dropWhile (\<lambda>x. x \<noteq> 10) rest))
      else if c = 47 \<and> rest \<noteq> [] \<and> hd rest = 42 then extract_string_literals (after_block (tl rest))
      else if c = 114 \<and> rest \<noteq> [] \<and> hd rest \<in> {34, 35} then
        (case raw_literal rest of
           Some (buf, more) \<Rightarrow> buf # extract_string_literals more
         | None \<Rightarrow> extract_string_literals rest)
      else if c = 34 then fst (read_literal rest) # extract_string_literals (snd (read_literal rest))
      else extract_string_literals rest)"
  by pat_completeness auto

termination
proof (relation "measure length")
  fix c :: nat and rest :: pytext
  show "(tl (dropWhile (\<lambda>x. x \<noteq> 10) rest), c # rest) \<in> measure length"
    using length_dropWhile_le [of "\<lambda>x. x \<noteq> 10" rest] by simp
  show "(after_block (tl rest), c # rest) \<in> measure length"
    using after_block_shrinks [of "tl rest"] by simp
  show "(snd (read_literal rest), c # rest) \<in> measure length"
    using read_literal_shrinks [of rest] by simp
qed (auto dest: raw_literal_shrinks)

fun words_from :: "pytext \<Rightarrow> pytext \<Rightarrow> pytext list" where
  "words_from acc [] = (if acc = [] then [] else [rev acc])"
| "words_from acc (c # rest) =
     (if is_space c then (if acc = [] then words_from [] rest else rev acc # words_from [] rest)
      else words_from (c # acc) rest)"

definition split_words :: "pytext \<Rightarrow> pytext list" where
  "split_words t = words_from [] t"

definition literal_shingles :: "(nat list \<Rightarrow> string) \<Rightarrow> pytext list \<Rightarrow> string list" where
  "literal_shingles sha ws =
     (if length ws < PROMPT_MIN_WORDS then []
      else map (\<lambda>i. hash_shingle sha (ptext ''p:'' @ join_with [32] (take PROMPT_SHINGLE_WORDS (drop i ws))))
             [0 ..< length ws - PROMPT_SHINGLE_WORDS + 1])"

text \<open>\<open>lower\<close> is \<open>str.lower\<close>, a table of the Unicode database.\<close>

definition prompt_shingles :: "(nat list \<Rightarrow> string) \<Rightarrow> (pytext \<Rightarrow> pytext) \<Rightarrow> nat list \<Rightarrow> string list" where
  "prompt_shingles sha lower raw =
     concat (map (\<lambda>literal. literal_shingles sha (split_words (lower literal)))
       (extract_string_literals (decode_replace raw)))"

subsection \<open>The walk over an archive\<close>

definition MAX_TOTAL_BYTES :: nat where "MAX_TOTAL_BYTES = 64 * 1024 * 1024"
definition MAX_FILE_BYTES :: nat where "MAX_FILE_BYTES = 8 * 1024 * 1024"
definition MAX_MEMBERS :: nat where "MAX_MEMBERS = 20000"
definition MAX_SHINGLES :: nat where "MAX_SHINGLES = 500000"

record tar_member =
  tm_name :: pytext
  tm_isfile :: bool
  tm_data :: "nat list option"

record archive =
  ar_members :: "tar_member list"
  ar_readable :: bool

text \<open>The bounded read: one byte more than the cap, so that a file over the cap is noticed.\<close>

definition bounded_read :: "nat list \<Rightarrow> nat list" where
  "bounded_read content = take (MAX_FILE_BYTES + 1) content"

text \<open>
  The loop the four extractors share, over what each does with one file: \<open>None\<close> is the result of
  a tripped guard or of a read error.
\<close>

fun tar_walk ::
  "('a \<Rightarrow> nat list \<Rightarrow> 'a option) \<Rightarrow> 'a \<Rightarrow> nat \<Rightarrow> nat \<Rightarrow> tar_member list \<Rightarrow> bool \<Rightarrow> 'a option" where
  "tar_walk per_file acc seen members [] readable = (if readable then Some acc else None)"
| "tar_walk per_file acc seen members (m # ms) readable =
     (if members + 1 > MAX_MEMBERS then None
      else if \<not> tm_isfile m then tar_walk per_file acc seen (members + 1) ms readable
      else case tm_data m of
        None \<Rightarrow> tar_walk per_file acc seen (members + 1) ms readable
      | Some content \<Rightarrow>
          (let raw = bounded_read content in
           if length raw > MAX_FILE_BYTES then None
           else if seen + length raw > MAX_TOTAL_BYTES then None
           else case per_file acc raw of
             None \<Rightarrow> None
           | Some acc' \<Rightarrow> tar_walk per_file acc' (seen + length raw) (members + 1) ms readable))"

definition walk_archive :: "('a \<Rightarrow> nat list \<Rightarrow> 'a option) \<Rightarrow> 'a \<Rightarrow> archive \<Rightarrow> 'a option" where
  "walk_archive per_file acc ar = tar_walk per_file acc 0 0 (ar_members ar) (ar_readable ar)"

fun add_shingles :: "string set \<Rightarrow> string list \<Rightarrow> string set option" where
  "add_shingles shingles [] = Some shingles"
| "add_shingles shingles (s # rest) =
     (if card (insert s shingles) > MAX_SHINGLES then None else add_shingles (insert s shingles) rest)"

subsection \<open>Subtracting the starter-kit history\<close>

fun be_value :: "nat list \<Rightarrow> nat" where
  "be_value [] = 0"
| "be_value (b # bs) = b * 256 ^ length bs + be_value bs"

function words64 :: "nat list \<Rightarrow> nat list" where
  "words64 bs = (if bs = [] then [] else be_value (take 8 bs) # words64 (drop 8 bs))"
  by pat_completeness auto

termination
  by (relation "measure length") auto

declare words64.simps [simp del]

text \<open>\<open>None\<close> is the \<open>RuntimeError\<close> of a truncated bundle.\<close>

definition reference_shingles :: "nat list \<Rightarrow> nat list option" where
  "reference_shingles raw = (if length raw mod 8 \<noteq> 0 then None else Some (words64 raw))"

text \<open>\<open>bisect.bisect_left\<close> on the slice from \<open>lo\<close> to \<open>hi\<close>.\<close>

function bisect_left :: "nat list \<Rightarrow> nat \<Rightarrow> nat \<Rightarrow> nat \<Rightarrow> nat" where
  "bisect_left a x lo hi =
     (if lo < hi then
        (let mid = (lo + hi) div 2 in
         if a ! mid < x then bisect_left a x (mid + 1) hi else bisect_left a x lo mid)
      else lo)"
  by pat_completeness auto

termination
  by (relation "measure (\<lambda>(a, x, lo, hi). hi - lo)") auto

declare bisect_left.simps [simp del]

definition hex_value :: "char \<Rightarrow> nat" where
  "hex_value ch =
     (let c = (of_char ch :: nat) in
      if 48 \<le> c \<and> c \<le> 57 then c - 48 else if 97 \<le> c \<and> c \<le> 102 then c - 87 else c - 55)"

definition hex_int :: "string \<Rightarrow> nat" where
  "hex_int s = foldl (\<lambda>n ch. n * 16 + hex_value ch) 0 s"

definition without_reference :: "nat list \<Rightarrow> string set \<Rightarrow> string set" where
  "without_reference reference shingles =
     Set.filter (\<lambda>s. let v = hex_int s; i = bisect_left reference v 0 (length reference) in
                      i = length reference \<or> reference ! i \<noteq> v) shingles"

subsection \<open>Sketches\<close>

definition FP_VERSION :: int where "FP_VERSION = 2"
definition NSH_VERSION :: int where "NSH_VERSION = 2"
definition MIN_CONTENT_SHINGLES :: nat where "MIN_CONTENT_SHINGLES = 8"
definition MIN_PROMPT_SHINGLES :: nat where "MIN_PROMPT_SHINGLES = 8"
definition MIN_NSH_SHINGLES :: nat where "MIN_NSH_SHINGLES = 4"
definition EMBED_INPUT_MAX_CHARS :: nat where "EMBED_INPUT_MAX_CHARS = 24000"

text \<open>
  The sketch as the JSON column holds it: a key that is absent is \<open>None\<close>, except that an absent \<open>m\<close> is read like an
  empty one. The version of a prompt sketch is a text, that of a lexical sketch a number.
\<close>

datatype sketch_version = Version_Int int | Version_Str string

record fingerprint =
  fp_v :: "sketch_version option"
  fp_corpus :: "string option"
  fp_k :: "int option"
  fp_card :: "int option"
  fp_m :: "string list"

definition PROMPT_VERSION :: sketch_version where "PROMPT_VERSION = Version_Str ''p2''"

definition make_sketch :: "sketch_version \<Rightarrow> string \<Rightarrow> nat \<Rightarrow> string set \<Rightarrow> fingerprint" where
  "make_sketch v corpus least shingles =
     \<lparr>fp_v = Some v, fp_corpus = Some corpus, fp_k = Some (int MINHASH_K), fp_card = Some (int (card shingles)),
      fp_m = (if card shingles < least then [] else take MINHASH_K (sorted_list_of_set shingles))\<rparr>"

definition compute_content_fingerprint ::
  "(nat list \<Rightarrow> string) \<Rightarrow> nat list \<Rightarrow> string \<Rightarrow> archive \<Rightarrow> fingerprint option" where
  "compute_content_fingerprint sha reference corpus ar =
     (case walk_archive (\<lambda>shingles raw. add_shingles shingles (file_shingles sha raw)) {} ar of
        None \<Rightarrow> None
      | Some shingles \<Rightarrow>
          if shingles = {} then None
          else Some (make_sketch (Version_Int FP_VERSION) corpus MIN_CONTENT_SHINGLES (without_reference reference shingles)))"

definition compute_prompt_fingerprint ::
  "(nat list \<Rightarrow> string) \<Rightarrow> (pytext \<Rightarrow> pytext) \<Rightarrow> nat list \<Rightarrow> string \<Rightarrow> archive \<Rightarrow> fingerprint option" where
  "compute_prompt_fingerprint sha lower reference corpus ar =
     (case walk_archive (\<lambda>shingles raw. add_shingles shingles (prompt_shingles sha lower raw)) {} ar of
        None \<Rightarrow> None
      | Some shingles \<Rightarrow>
          if shingles = {} then None
          else Some (make_sketch PROMPT_VERSION corpus MIN_PROMPT_SHINGLES (without_reference reference shingles)))"

fun fromhex :: "string \<Rightarrow> nat list" where
  "fromhex (a # b # rest) = (hex_value a * 16 + hex_value b) # fromhex rest"
| "fromhex _ = []"

definition nsh_header :: "string \<Rightarrow> string" where
  "nsh_header corpus = ''nsh'' @ dec_int NSH_VERSION @ '':'' @ corpus"

definition compute_normalized_source_hash ::
  "(nat list \<Rightarrow> string) \<Rightarrow> nat list \<Rightarrow> string \<Rightarrow> archive \<Rightarrow> string option" where
  "compute_normalized_source_hash sha reference corpus ar =
     (case walk_archive (\<lambda>shingles raw. Some (shingles \<union> set (normalized_source_shingles sha raw))) {} ar of
        None \<Rightarrow> None
      | Some shingles \<Rightarrow>
          (let residual = without_reference reference shingles in
           if card residual < MIN_NSH_SHINGLES then None
           else Some (nsh_header corpus @ '':'' @
             sha (ptext (nsh_header corpus) @ [0] @ concat (map fromhex (sorted_list_of_set residual))))))"

definition compute_embedding_input :: "archive \<Rightarrow> pytext option" where
  "compute_embedding_input ar =
     (case walk_archive (\<lambda>files raw. let cleaned = embedding_source raw in
                                      Some (if cleaned = [] then files else files @ [cleaned])) [] ar of
        None \<Rightarrow> None
      | Some files \<Rightarrow>
          if files = [] then None else Some (take EMBED_INPUT_MAX_CHARS (join_with [10, 10] (sort files))))"

subsection \<open>The similarity of two sketches\<close>

text \<open>A Python slice \<open>xs[:n]\<close>, where a negative bound counts from the end.\<close>

definition prefix_slice :: "int \<Rightarrow> 'a list \<Rightarrow> 'a list" where
  "prefix_slice n xs = (if 0 \<le> n then take (nat n) xs else take (length xs - nat (- n)) xs)"

definition ratio :: "nat \<Rightarrow> nat \<Rightarrow> rat" where
  "ratio a b = of_nat a / of_nat b"

definition k_of :: "fingerprint \<Rightarrow> int" where
  "k_of fp = (case fp_k fp of Some k \<Rightarrow> k | None \<Rightarrow> int MINHASH_K)"

definition card_of :: "fingerprint \<Rightarrow> int" where
  "card_of fp = (case fp_card fp of Some c \<Rightarrow> c | None \<Rightarrow> 0)"

definition jaccard_sample :: "fingerprint \<Rightarrow> fingerprint \<Rightarrow> string list" where
  "jaccard_sample a b = prefix_slice (min (k_of a) (k_of b)) (sorted_list_of_set (set (fp_m a) \<union> set (fp_m b)))"

definition observable :: "fingerprint \<Rightarrow> fingerprint \<Rightarrow> string set" where
  "observable small large =
     (if card_of large \<le> k_of large then set (fp_m small)
      else Set.filter (\<lambda>x. x \<le> Max (set (fp_m large))) (set (fp_m small)))"

definition containment_estimate :: "fingerprint \<Rightarrow> fingerprint \<Rightarrow> rat" where
  "containment_estimate a b =
     (let (small, large) = (if card_of a \<le> card_of b then (a, b) else (b, a)) in
      if observable small large = {} then 0
      else ratio (card (observable small large \<inter> set (fp_m large))) (card (observable small large)))"

definition content_similarity :: "fingerprint option \<Rightarrow> fingerprint option \<Rightarrow> rat \<times> rat" where
  "content_similarity fa fb =
     (case (fa, fb) of
        (Some a, Some b) \<Rightarrow>
          if fp_v a = None \<or> fp_v a \<noteq> fp_v b then (0, 0)
          else if fp_corpus a \<noteq> fp_corpus b then (0, 0)
          else if fp_m a = [] \<or> fp_m b = [] then (0, 0)
          else if jaccard_sample a b = [] then (0, 0)
          else (ratio (length (filter (\<lambda>v. v \<in> set (fp_m a) \<and> v \<in> set (fp_m b)) (jaccard_sample a b)))
                  (length (jaccard_sample a b)),
                containment_estimate a b)
      | _ \<Rightarrow> (0, 0))"

subsection \<open>The comment scanner leaves nothing to strip\<close>

lemma strip_from_head:
  assumes "c \<noteq> 47"
  shows "\<exists>r. strip_from f (c # rest) = c # r"
  using assms by (cases f) auto

lemma strip_from_keeps:
  assumes "\<not> (c = 47 \<and> rest \<noteq> [] \<and> hd rest \<in> {42, 47})" and "c \<noteq> 34"
  shows "strip_from False (c # strip_from False rest) = c # strip_from False (strip_from False rest)"
proof (cases rest)
  case (Cons d r)
  show ?thesis
  proof (cases "c = 47")
    case True
    with assms Cons have "d \<noteq> 42" "d \<noteq> 47" by auto
    with strip_from_head [of d False r] obtain r' where "strip_from False rest = d # r'"
      unfolding Cons by blast
    with \<open>d \<noteq> 42\<close> \<open>d \<noteq> 47\<close> assms show ?thesis by simp
  qed (use assms in simp)
qed (use assms in simp)

lemma strip_from_idem: "strip_from f (strip_from f t) = strip_from f t"
proof (induction f t rule: strip_from.induct)
  case (2 c rest)
  show ?case
  proof (cases "c = 92 \<and> rest \<noteq> []")
    case True
    with 2 show ?thesis by simp
  next
    case False
    with 2 show ?thesis by (cases "c = 92") auto
  qed
next
  case (3 c rest)
  show ?case
  proof (cases "c = 34 \<or> c = 47 \<and> rest \<noteq> [] \<and> hd rest \<in> {42, 47}")
    case True
    with 3 show ?thesis by auto
  next
    case False
    with 3 strip_from_keeps [of c rest] show ?thesis by simp
  qed
qed simp

subsection \<open>Permutations of an archive\<close>

definition payloads :: "tar_member list \<Rightarrow> nat list list" where
  "payloads ms = map (\<lambda>m. bounded_read (the (tm_data m))) (filter (\<lambda>m. tm_isfile m \<and> tm_data m \<noteq> None) ms)"

definition bind_file :: "('b \<Rightarrow> nat list \<Rightarrow> 'b option) \<Rightarrow> nat list \<Rightarrow> 'b option \<Rightarrow> 'b option" where
  "bind_file g raw acc = (case acc of None \<Rightarrow> None | Some a \<Rightarrow> g a raw)"

definition walk_guards :: "nat \<Rightarrow> nat \<Rightarrow> tar_member list \<Rightarrow> bool \<Rightarrow> bool" where
  "walk_guards seen members ms readable \<longleftrightarrow>
     readable \<and> members + length ms \<le> MAX_MEMBERS \<and> (\<forall>raw \<in> set (payloads ms). length raw \<le> MAX_FILE_BYTES) \<and>
     seen + sum_list (map length (payloads ms)) \<le> MAX_TOTAL_BYTES"

lemma bind_file_simps [simp]: "bind_file g x None = None" "bind_file g x (Some a) = g a x"
  by (simp_all add: bind_file_def)

lemma fold_bind_None [simp]: "fold (bind_file g) xs None = None"
  by (induction xs) auto

lemma payloads_simps [simp]:
  "payloads [] = []"
  "\<not> tm_isfile m \<Longrightarrow> payloads (m # ms) = payloads ms"
  "tm_data m = None \<Longrightarrow> payloads (m # ms) = payloads ms"
  "tm_isfile m \<Longrightarrow> tm_data m = Some content \<Longrightarrow>
     payloads (m # ms) = bounded_read content # payloads ms"
  by (simp_all add: payloads_def)

lemma payloads_alt:
  "payloads ms = map (\<lambda>(f, d). bounded_read (the d)) (filter (\<lambda>(f, d). f \<and> d \<noteq> None) (map (\<lambda>m. (tm_isfile m, tm_data m)) ms))"
  by (induction ms) (auto simp: payloads_def)

lemma mset_payloads:
  assumes "mset (map (\<lambda>m. (tm_isfile m, tm_data m)) ms) = mset (map (\<lambda>m. (tm_isfile m, tm_data m)) ms')"
  shows "mset (payloads ms) = mset (payloads ms')"
  unfolding payloads_alt mset_map mset_filter using assms by (simp only: mset_map)

text \<open>
  An extractor is a step per file over some accumulator; what counts of the accumulator is its view, and
  on views the steps of two files commute. The walk then depends on the files only up to order.
\<close>

locale file_extractor =
  fixes per_file :: "'a \<Rightarrow> nat list \<Rightarrow> 'a option"
    and view :: "'a \<Rightarrow> 'b"
    and abs_file :: "'b \<Rightarrow> nat list \<Rightarrow> 'b option"
  assumes per_file_view: "map_option view (per_file a raw) = abs_file (view a) raw"
    and abs_commute: "bind_file abs_file x (abs_file b y) = bind_file abs_file y (abs_file b x)"
begin

lemma bind_file_commute: "bind_file abs_file x (bind_file abs_file y acc) = bind_file abs_file y (bind_file abs_file x acc)"
proof (cases acc)
  case (Some b)
  then show ?thesis using abs_commute [of x b y] by simp
qed simp

lemma tar_walk_view:
  assumes "members \<le> MAX_MEMBERS" and "seen \<le> MAX_TOTAL_BYTES"
  shows "map_option view (tar_walk per_file acc seen members ms readable) =
    (if walk_guards seen members ms readable then fold (bind_file abs_file) (payloads ms) (Some (view acc)) else None)"
  using assms
proof (induction ms arbitrary: acc seen members)
  case (Cons m ms)
  consider (full) "members + 1 > MAX_MEMBERS" | (other) "members + 1 \<le> MAX_MEMBERS" "\<not> tm_isfile m \<or> tm_data m = None"
    | (payload) content where "members + 1 \<le> MAX_MEMBERS" "tm_isfile m" "tm_data m = Some content"
    by fastforce
  then show ?case
  proof cases
    case full
    then show ?thesis by (simp add: walk_guards_def)
  next
    case other
    then have "tar_walk per_file acc seen members (m # ms) readable = tar_walk per_file acc seen (members + 1) ms readable"
      by auto
    moreover have "payloads (m # ms) = payloads ms" using other by auto
    ultimately show ?thesis using Cons.IH [of "members + 1" seen acc] other Cons.prems by (simp add: walk_guards_def)
  next
    case payload
    let ?raw = "bounded_read content"
    show ?thesis
    proof (cases "length ?raw > MAX_FILE_BYTES \<or> seen + length ?raw > MAX_TOTAL_BYTES")
      case True
      then show ?thesis using payload by (auto simp: walk_guards_def Let_def)
    next
      case False
      then have step: "tar_walk per_file acc seen members (m # ms) readable =
        (case per_file acc ?raw of None \<Rightarrow> None
         | Some acc' \<Rightarrow> tar_walk per_file acc' (seen + length ?raw) (members + 1) ms readable)"
        using payload by (simp add: Let_def)
      have guards: "walk_guards seen members (m # ms) readable = walk_guards (seen + length ?raw) (members + 1) ms readable"
        using payload False by (auto simp: walk_guards_def)
      show ?thesis
      proof (cases "per_file acc ?raw")
        case None
        then have "abs_file (view acc) ?raw = None" using per_file_view [of acc ?raw] by simp
        with None payload show ?thesis unfolding step guards by simp
      next
        case (Some acc')
        then have "abs_file (view acc) ?raw = Some (view acc')" using per_file_view [of acc ?raw] by simp
        with Some payload False Cons.IH [of "members + 1" "seen + length ?raw" acc'] show ?thesis
          unfolding step guards by simp
      qed
    qed
  qed
qed (simp add: walk_guards_def)

lemma walk_permutation:
  assumes "mset (map (\<lambda>m. (tm_isfile m, tm_data m)) ms) = mset (map (\<lambda>m. (tm_isfile m, tm_data m)) ms')"
  shows "map_option view (tar_walk per_file acc 0 0 ms readable) = map_option view (tar_walk per_file acc 0 0 ms' readable)"
proof -
  have "mset (payloads ms) = mset (payloads ms')" using assms by (rule mset_payloads)
  then have "fold (bind_file abs_file) (payloads ms) = fold (bind_file abs_file) (payloads ms')"
    by (intro fold_multiset_equiv) (auto simp: fun_eq_iff bind_file_commute)
  moreover have "walk_guards 0 0 ms readable = walk_guards 0 0 ms' readable"
  proof -
    have "length ms = length ms'" using mset_eq_length [OF assms] by simp
    moreover have "set (payloads ms) = set (payloads ms')"
      using \<open>mset (payloads ms) = _\<close> by (rule mset_eq_setD)
    moreover have "sum_list (map length (payloads ms)) = sum_list (map length (payloads ms'))"
      using \<open>mset (payloads ms) = _\<close> by (metis mset_map sum_mset_sum_list)
    ultimately show ?thesis by (simp add: walk_guards_def)
  qed
  ultimately show ?thesis by (simp add: tar_walk_view)
qed

end

lemma add_shingles_closed:
  "add_shingles S xs =
     (if xs = [] then Some S else if card (S \<union> set xs) \<le> MAX_SHINGLES then Some (S \<union> set xs) else None)"
proof (induction xs arbitrary: S)
  case (Cons x xs)
  show ?case
  proof (cases "finite S")
    case True
    then have "card (insert x S) \<le> card (S \<union> set (x # xs))" by (intro card_mono) auto
    then show ?thesis using Cons.IH [of "insert x S"] by auto
  next
    case False
    then show ?thesis using Cons.IH [of "insert x S"] by simp
  qed
qed simp

lemma add_shingles_commute:
  "bind_file (\<lambda>S raw. add_shingles S (f raw)) x (add_shingles S (f y)) =
   bind_file (\<lambda>S raw. add_shingles S (f raw)) y (add_shingles S (f x))"
proof -
  have le: "card (S \<union> set (f y)) \<le> card (S \<union> set (f x) \<union> set (f y))"
    "card (S \<union> set (f x)) \<le> card (S \<union> set (f x) \<union> set (f y))" if "finite S"
    using that by (auto intro!: card_mono)
  have inf: "card (S \<union> A) = 0" if "infinite S" for A using that by simp
  show ?thesis
  proof (cases "finite S")
    case True
    from le [OF this] show ?thesis by (auto simp: add_shingles_closed Un_ac)
  next
    case False
    then show ?thesis by (simp add: add_shingles_closed Un_ac)
  qed
qed

interpretation capped: file_extractor "\<lambda>S raw. add_shingles S (f raw)" "\<lambda>S. S" "\<lambda>S raw. add_shingles S (f raw)" for f
  by unfold_locales (simp_all add: option.map_ident add_shingles_commute)

interpretation uncapped: file_extractor "\<lambda>S raw. Some (S \<union> set (f raw))" "\<lambda>S. S" "\<lambda>S raw. Some (S \<union> set (f raw))" for f
  by unfold_locales (simp_all add: Un_ac)

interpretation cleaned: file_extractor
  "\<lambda>files raw. let cleaned = embedding_source raw in Some (if cleaned = [] then files else files @ [cleaned])"
  mset "\<lambda>M raw. Some (if embedding_source raw = [] then M else M + {#embedding_source raw#})"
  by unfold_locales (simp_all add: Let_def)

definition file_contents :: "archive \<Rightarrow> (bool \<times> nat list option) multiset" where
  "file_contents ar = mset (map (\<lambda>m. (tm_isfile m, tm_data m)) (ar_members ar))"

lemma sort_mset_cong: "mset xs = mset ys \<Longrightarrow> sort xs = sort (ys :: 'a :: linorder list)"
  by (metis mset_sort properties_for_sort sorted_sort)

lemma embedding_input_view:
  "compute_embedding_input ar =
     (case map_option mset (walk_archive (\<lambda>files raw. let cleaned = embedding_source raw in
             Some (if cleaned = [] then files else files @ [cleaned])) [] ar) of
        None \<Rightarrow> None
      | Some M \<Rightarrow> if M = {#} then None
                   else Some (take EMBED_INPUT_MAX_CHARS (join_with [10, 10] (sorted_list_of_multiset M))))"
  by (auto simp: compute_embedding_input_def split: option.splits)

subsection \<open>The binary search of the bundle\<close>

lemma bisect_left_correct:
  assumes "sorted a" and "lo \<le> hi" and "hi \<le> length a"
    and "\<forall>i < lo. a ! i < x" and "\<forall>i. hi \<le> i \<and> i < length a \<longrightarrow> x \<le> a ! i"
  shows "bisect_left a x lo hi \<le> length a \<and> (\<forall>i < bisect_left a x lo hi. a ! i < x) \<and>
    (\<forall>i. bisect_left a x lo hi \<le> i \<and> i < length a \<longrightarrow> x \<le> a ! i)"
  using assms
proof (induction a x lo hi rule: bisect_left.induct)
  case (1 a x lo hi)
  show ?case
  proof (cases "lo < hi")
    case True
    define mid where "mid = (lo + hi) div 2"
    have mid: "lo \<le> mid" "mid < hi" "mid < length a" using True "1.prems" by (auto simp: mid_def)
    show ?thesis
    proof (cases "a ! mid < x")
      case below: True
      have "\<forall>i < mid + 1. a ! i < x"
        using below mid "1.prems"(1) by (auto intro: le_less_trans sorted_nth_mono simp: less_Suc_eq_le)
      with "1.IH"(1) [OF True mid_def below] "1.prems" mid have
        "bisect_left a x (mid + 1) hi \<le> length a \<and> (\<forall>i < bisect_left a x (mid + 1) hi. a ! i < x) \<and>
         (\<forall>i. bisect_left a x (mid + 1) hi \<le> i \<and> i < length a \<longrightarrow> x \<le> a ! i)" by simp
      then show ?thesis using True below by (simp add: bisect_left.simps [of a x lo hi] mid_def)
    next
      case above: False
      have "\<forall>i. mid \<le> i \<and> i < length a \<longrightarrow> x \<le> a ! i"
        using above mid "1.prems"(1) by (meson not_le order_trans sorted_nth_mono linorder_not_less)
      with "1.IH"(2) [OF True mid_def above] "1.prems" mid have
        "bisect_left a x lo mid \<le> length a \<and> (\<forall>i < bisect_left a x lo mid. a ! i < x) \<and>
         (\<forall>i. bisect_left a x lo mid \<le> i \<and> i < length a \<longrightarrow> x \<le> a ! i)" by simp
      then show ?thesis using True above by (simp add: bisect_left.simps [of a x lo hi] mid_def)
    qed
  next
    case False
    then have "bisect_left a x lo hi = lo" by (simp add: bisect_left.simps)
    with False show ?thesis using "1.prems" by simp
  qed
qed

lemma bisect_left_member:
  assumes "sorted a"
  shows "(let i = bisect_left a x 0 (length a) in i = length a \<or> a ! i \<noteq> x) \<longleftrightarrow> x \<notin> set a"
proof -
  let ?i = "bisect_left a x 0 (length a)"
  have i: "?i \<le> length a" "\<And>j. j < ?i \<Longrightarrow> a ! j < x" "\<And>j. ?i \<le> j \<Longrightarrow> j < length a \<Longrightarrow> x \<le> a ! j"
    using bisect_left_correct [OF assms, of 0 "length a" x] by auto
  have "x \<in> set a \<longleftrightarrow> ?i < length a \<and> a ! ?i = x"
  proof
    assume "x \<in> set a"
    then obtain j where j: "j < length a" "a ! j = x" by (auto simp: in_set_conv_nth)
    then have "?i \<le> j" using i(2) [of j] by (meson linorder_not_le order_less_irrefl)
    then have "a ! ?i \<le> x" using sorted_nth_mono [OF assms, of ?i j] j by simp
    with i(3) [of ?i] \<open>?i \<le> j\<close> j show "?i < length a \<and> a ! ?i = x" by auto
  qed (metis nth_mem)
  with i(1) show ?thesis by (auto simp: Let_def)
qed

subsection \<open>What a sketch holds and when the estimates are exact\<close>

lemma set_sketch:
  assumes "finite S" and "least \<le> card S" and "card S \<le> MINHASH_K"
  shows "set (fp_m (make_sketch v corpus least S)) = S"
  using assms by (simp add: make_sketch_def)

lemma make_sketch_fields [simp]:
  "fp_v (make_sketch v corpus least S) = Some v"
  "fp_corpus (make_sketch v corpus least S) = Some corpus"
  "k_of (make_sketch v corpus least S) = int MINHASH_K"
  "card_of (make_sketch v corpus least S) = int (card S)"
  by (simp_all add: make_sketch_def k_of_def card_of_def)

lemma containment_exact:
  assumes "set (fp_m a) = A" and "set (fp_m b) = B" and "card_of a = int (card A)" and "card_of b = int (card B)"
    and "card_of a \<le> k_of a" and "card_of b \<le> k_of b" and "A \<noteq> {}" and "B \<noteq> {}"
  shows "containment_estimate a b = ratio (card (A \<inter> B)) (min (card A) (card B))"
proof -
  have obs: "observable a b = A" "observable b a = B" using assms by (simp_all add: observable_def)
  show ?thesis
  proof (cases "card A \<le> card B")
    case True
    then show ?thesis using assms(3,4,7) obs by (simp add: containment_estimate_def assms(2))
  next
    case False
    have "B \<inter> A = A \<inter> B" by blast
    with False show ?thesis using assms(3,4,8) obs by (simp add: containment_estimate_def assms(1))
  qed
qed

lemma filter_sorted_list_card:
  "finite S \<Longrightarrow> length (filter P (sorted_list_of_set S)) = card {x \<in> S. P x}"
  using distinct_card [of "filter P (sorted_list_of_set S)"] by simp

lemma jaccard_exact:
  assumes "set (fp_m a) = A" and "set (fp_m b) = B"
    and "int (card (A \<union> B)) \<le> k_of a" and "int (card (A \<union> B)) \<le> k_of b"
  shows "jaccard_sample a b = sorted_list_of_set (A \<union> B)"
    and "length (filter (\<lambda>v. v \<in> A \<and> v \<in> B) (jaccard_sample a b)) = card (A \<inter> B)"
proof -
  have fin: "finite (A \<union> B)" using assms(1,2) by auto
  show s: "jaccard_sample a b = sorted_list_of_set (A \<union> B)"
    using assms by (auto simp: jaccard_sample_def prefix_slice_def)
  have "{x \<in> A \<union> B. x \<in> A \<and> x \<in> B} = A \<inter> B" by auto
  then show "length (filter (\<lambda>v. v \<in> A \<and> v \<in> B) (jaccard_sample a b)) = card (A \<inter> B)"
    unfolding s filter_sorted_list_card [OF fin] by simp
qed

lemma ratio_bounds: "a \<le> b \<Longrightarrow> 0 \<le> ratio a b \<and> ratio a b \<le> 1"
  by (cases b) (simp_all add: ratio_def divide_le_eq_1)

lemma content_similarity_bounds:
  "0 \<le> fst (content_similarity a b) \<and> fst (content_similarity a b) \<le> 1 \<and>
   0 \<le> snd (content_similarity a b) \<and> snd (content_similarity a b) \<le> 1"
proof -
  have c: "0 \<le> containment_estimate x y \<and> containment_estimate x y \<le> 1" for x y
  proof -
    have "finite (observable p q)" for p q by (auto simp: observable_def)
    then have "0 \<le> ratio (card (observable p q \<inter> set (fp_m q))) (card (observable p q)) \<and>
      ratio (card (observable p q \<inter> set (fp_m q))) (card (observable p q)) \<le> 1" for p q
      by (intro ratio_bounds card_mono) auto
    then show ?thesis by (auto simp: containment_estimate_def)
  qed
  show ?thesis using c by (auto simp: content_similarity_def ratio_bounds split: option.splits)
qed

definition demo_sketch :: "int \<Rightarrow> int \<Rightarrow> string list \<Rightarrow> fingerprint" where
  "demo_sketch k c m = \<lparr>fp_v = Some (Version_Int 2), fp_corpus = Some ''kit'', fp_k = Some k, fp_card = Some c, fp_m = m\<rparr>"

lemma tar_walk_keeps:
  assumes "\<And>a raw b. P a \<Longrightarrow> per_file a raw = Some b \<Longrightarrow> P b"
  shows "P acc \<Longrightarrow> tar_walk per_file acc seen members ms readable = Some r \<Longrightarrow> P r"
proof (induction ms arbitrary: acc seen members)
  case (Cons m ms)
  from Cons.prems(2) consider
      (other) "tar_walk per_file acc seen (members + 1) ms readable = Some r"
    | (payload) raw b n where "per_file acc raw = Some b" "tar_walk per_file b n (members + 1) ms readable = Some r"
    by (auto simp: Let_def split: if_splits option.splits)
  then show ?case
  proof cases
    case other
    with Cons.prems(1) show ?thesis by (rule Cons.IH)
  next
    case payload
    then show ?thesis using Cons.prems(1) by (auto intro: Cons.IH assms)
  qed
qed (simp split: if_splits)

definition shingle_set_ok :: "string set \<Rightarrow> bool" where
  "shingle_set_ok S \<longleftrightarrow> finite S \<and> (\<forall>s \<in> S. length s \<le> HASH_HEX)"

lemma file_shingles_width: "s \<in> set (file_shingles sha raw) \<Longrightarrow> length s \<le> HASH_HEX"
  by (auto simp: file_shingles_def line_shingles_def hash_shingle_def Let_def split: if_splits)

lemma walk_shingles_ok:
  assumes "walk_archive (\<lambda>S raw. add_shingles S (file_shingles sha raw)) {} ar = Some S"
  shows "shingle_set_ok S"
proof (rule tar_walk_keeps [where P = shingle_set_ok, OF _ _ assms [unfolded walk_archive_def]])
  show "shingle_set_ok {}" by (simp add: shingle_set_ok_def)
next
  fix A raw B
  assume "shingle_set_ok A" and "add_shingles A (file_shingles sha raw) = Some B"
  then show "shingle_set_ok B"
    by (auto simp: shingle_set_ok_def add_shingles_closed file_shingles_width split: if_splits)
qed

text \<open>
  A well-formed sketch: its fields are present, its hashes ascend, are as many as the bound and the residual set
  allow, have at most the stored width, and none is of the reference bundle.
\<close>

definition sketch_ok :: "nat \<Rightarrow> nat list \<Rightarrow> fingerprint \<Rightarrow> bool" where
  "sketch_ok least reference fp \<longleftrightarrow>
     fp_v fp \<noteq> None \<and> fp_corpus fp \<noteq> None \<and> k_of fp = int MINHASH_K \<and> 0 \<le> card_of fp \<and>
     sorted (fp_m fp) \<and> distinct (fp_m fp) \<and>
     int (length (fp_m fp)) = (if card_of fp < int least then 0 else min (card_of fp) (k_of fp)) \<and>
     (\<forall>h \<in> set (fp_m fp). length h \<le> HASH_HEX \<and> hex_int h \<notin> set reference)"

lemma make_sketch_ok:
  assumes "shingle_set_ok S" and "\<forall>s \<in> S. hex_int s \<notin> set reference"
  shows "sketch_ok least reference (make_sketch v corpus least S)"
proof -
  have fin: "finite S" using assms(1) by (simp add: shingle_set_ok_def)
  have "\<forall>h \<in> set (fp_m (make_sketch v corpus least S)). h \<in> S"
    using fin by (auto simp: make_sketch_def dest: in_set_takeD)
  then show ?thesis using assms fin
    by (auto simp: sketch_ok_def shingle_set_ok_def make_sketch_def k_of_def card_of_def intro: sorted_wrt_take)
qed

subsection \<open>Properties\<close>

definition demo_file :: "string \<Rightarrow> nat list \<Rightarrow> tar_member" where
  "demo_file name content = \<lparr>tm_name = ptext name, tm_isfile = True, tm_data = Some content\<rparr>"

definition demo_archive :: "tar_member list \<Rightarrow> archive" where
  "demo_archive ms = \<lparr>ar_members = ms, ar_readable = True\<rparr>"

text \<open>
  The four signals of an upload depend only on the contents of its files: two readable archives with the
  same files under any names and in any order get the same lexical sketch, prompt sketch, normalised-source hash
  and embedding input, whichever guard trips first in either walk.
\<close>

theorem names_and_order_invisible:
  assumes "file_contents ar = file_contents ar'" and "ar_readable ar = ar_readable ar'"
  shows "compute_content_fingerprint sha reference corpus ar = compute_content_fingerprint sha reference corpus ar' \<and>
    compute_prompt_fingerprint sha lower reference corpus ar = compute_prompt_fingerprint sha lower reference corpus ar' \<and>
    compute_normalized_source_hash sha reference corpus ar = compute_normalized_source_hash sha reference corpus ar' \<and>
    compute_embedding_input ar = compute_embedding_input ar'"
proof (intro conjI)
  note same = assms(1) [unfolded file_contents_def]
  show "compute_content_fingerprint sha reference corpus ar = compute_content_fingerprint sha reference corpus ar'"
    using capped.walk_permutation [OF same]
    by (simp add: compute_content_fingerprint_def walk_archive_def option.map_ident assms(2))
  show "compute_prompt_fingerprint sha lower reference corpus ar = compute_prompt_fingerprint sha lower reference corpus ar'"
    using capped.walk_permutation [OF same]
    by (simp add: compute_prompt_fingerprint_def walk_archive_def option.map_ident assms(2))
  show "compute_normalized_source_hash sha reference corpus ar = compute_normalized_source_hash sha reference corpus ar'"
    using uncapped.walk_permutation [OF same, where f = "normalized_source_shingles sha"]
    by (simp add: compute_normalized_source_hash_def walk_archive_def option.map_ident assms(2))
  show "compute_embedding_input ar = compute_embedding_input ar'"
    unfolding embedding_input_view using cleaned.walk_permutation [OF same] assms(2) by (simp add: walk_archive_def)
qed

theorem names_and_order_invisible_witness:
  "file_contents (demo_archive [demo_file ''a.rs'' [120], demo_file ''b.rs'' [121]]) =
     file_contents (demo_archive [demo_file ''c.rs'' [121], demo_file ''d.rs'' [120]]) \<and>
   compute_embedding_input (demo_archive [demo_file ''a.rs'' [120], demo_file ''b.rs'' [121]]) =
     compute_embedding_input (demo_archive [demo_file ''c.rs'' [121], demo_file ''d.rs'' [120]])"
proof -
  have same: "file_contents (demo_archive [demo_file ''a.rs'' [120], demo_file ''b.rs'' [121]]) =
     file_contents (demo_archive [demo_file ''c.rs'' [121], demo_file ''d.rs'' [120]])"
    by (simp add: file_contents_def demo_archive_def demo_file_def)
  have "ar_readable (demo_archive [demo_file ''a.rs'' [120], demo_file ''b.rs'' [121]]) =
     ar_readable (demo_archive [demo_file ''c.rs'' [121], demo_file ''d.rs'' [120]])"
    by (simp add: demo_archive_def)
  from names_and_order_invisible [OF same this] same show ?thesis by blast
qed



text \<open>
  The binary search over the packed reference bundle removes exactly the shingles whose hash the bundle holds.
\<close>

theorem without_reference_exact:
  assumes "sorted reference"
  shows "without_reference reference shingles = {s \<in> shingles. hex_int s \<notin> set reference}"
  using bisect_left_member [OF assms] by (auto simp: without_reference_def Let_def)

theorem without_reference_exact_witness:
  "without_reference [3, 9, 200] {''0009'', ''00ff''} = {s \<in> {''0009'', ''00ff''}. hex_int s \<notin> set [3, 9, 200]} \<and>
   hex_int ''0009'' = 9"
  using without_reference_exact [of "[3, 9, 200]" "{''0009'', ''00ff''}"] by (simp add: hex_int_def hex_value_def)

text \<open>
  C30. For two sketches of one channel whose residuals together fit the sketch bound, the estimates are exact: the
  Jaccard index and the overlap coefficient of the two residual sets.
\<close>

theorem content_similarity_exact:
  assumes "finite A" and "finite B" and "0 < least" and "least \<le> card A" and "least \<le> card B"
    and "card (A \<union> B) \<le> MINHASH_K"
  shows "content_similarity (Some (make_sketch v corpus least A)) (Some (make_sketch v corpus least B)) =
    (ratio (card (A \<inter> B)) (card (A \<union> B)), ratio (card (A \<inter> B)) (min (card A) (card B)))"
proof -
  let ?a = "make_sketch v corpus least A" and ?b = "make_sketch v corpus least B"
  have le: "card A \<le> card (A \<union> B)" "card B \<le> card (A \<union> B)" using assms by (auto intro: card_mono)
  have sets: "set (fp_m ?a) = A" "set (fp_m ?b) = B" using set_sketch [of A least v corpus] set_sketch [of B least v corpus] assms le by simp_all
  have ne: "A \<noteq> {}" "B \<noteq> {}" using assms by auto
  have m: "fp_m ?a \<noteq> []" "fp_m ?b \<noteq> []" using sets ne by auto
  have s: "jaccard_sample ?a ?b = sorted_list_of_set (A \<union> B)"
    "length (filter (\<lambda>v. v \<in> A \<and> v \<in> B) (jaccard_sample ?a ?b)) = card (A \<inter> B)"
    using jaccard_exact [OF sets] assms(6) by simp_all
  have "jaccard_sample ?a ?b \<noteq> []" unfolding s(1) using assms ne by (metis Un_empty finite_UnI set_empty2 set_sorted_list_of_set)
  moreover have "length (jaccard_sample ?a ?b) = card (A \<union> B)" unfolding s(1) by simp
  moreover have "containment_estimate ?a ?b = ratio (card (A \<inter> B)) (min (card A) (card B))"
    by (rule containment_exact [OF sets]) (use le assms(6) ne in simp_all)
  ultimately show ?thesis using m s(2) by (simp add: content_similarity_def sets)
qed

theorem content_similarity_exact_witness:
  "content_similarity (Some (make_sketch PROMPT_VERSION ''kit'' 1 {''a'', ''b''})) (Some (make_sketch PROMPT_VERSION ''kit'' 1 {''b''})) =
     (ratio (card ({''a'', ''b''} \<inter> {''b''})) (card ({''a'', ''b''} \<union> {''b''})),
      ratio (card ({''a'', ''b''} \<inter> {''b''})) (min (card {''a'', ''b''}) (card {''b''})))"
  by (rule content_similarity_exact) (simp_all add: MINHASH_K_def card_insert_if)

text \<open>
  Stripping comments is idempotent: what the scanner keeps contains no comment, since it never joins two kept
  characters into a new comment mark and keeps string literals whole.
\<close>

theorem strip_comments_idempotent: "strip_comments (strip_comments t) = strip_comments t"
  by (simp add: strip_comments_def strip_from_idem)

text \<open>
  Two sketches that retain their whole sets (\<open>card = k\<close>) can still get a Jaccard estimate that differs
  from the index of the sets: the sample is cut to the bound on the union.
\<close>

theorem retained_sketches_not_exact:
  "content_similarity (Some (demo_sketch 2 2 [''a'', ''b''])) (Some (demo_sketch 2 2 [''a'', ''c''])) = (1 / 2, 1 / 2)
   \<and> ratio (card ({''a'', ''b''} \<inter> {''a'', ''c''})) (card ({''a'', ''b''} \<union> {''a'', ''c''})) = 1 / 3"
  by code_simp

text \<open>
  The containment estimate is not symmetric: for sketches of equal cardinality beyond the bound the order of the
  arguments decides which side is conditioned on.
\<close>

theorem equal_cards_not_symmetric:
  "snd (content_similarity (Some (demo_sketch 2 3 [''a'', ''b''])) (Some (demo_sketch 2 3 [''b'', ''c'']))) = 1 / 2
   \<and> snd (content_similarity (Some (demo_sketch 2 3 [''b'', ''c''])) (Some (demo_sketch 2 3 [''a'', ''b'']))) = 1"
  by code_simp

end
