(* ===== verification/Union_Find.thy ===== *)
theory Union_Find
  imports Main
begin

text \<open>
  Union-find over a dict of parents with path halving, as two modules of the repository write it inline: the grouping of
  near-identical submissions (\<open>db/queries/similarity_grouping.py\<close>) and the emission owners (\<open>db/queries/scores.py\<close>). The
  dict is a function; an absent key stands for itself (\<open>setdefault\<close>, or the initial \<open>{i: i}\<close>). The loop of \<open>find\<close> is a
  partial function; on every forest the two operations build it returns, and the classes of the forest are the connected
  components of the links made.
\<close>

subsection \<open>Operations\<close>

text \<open>\<open>find\<close> with path halving: the parents as they are left, and the root.\<close>

definition halve :: "('a \<Rightarrow> 'a) \<Rightarrow> 'a \<Rightarrow> 'a \<Rightarrow> 'a" where
  "halve parent node = parent(node := parent (parent node))"

partial_function (option) uf_find :: "('a \<Rightarrow> 'a) \<Rightarrow> 'a \<Rightarrow> (('a \<Rightarrow> 'a) \<times> 'a) option" where
  "uf_find parent node =
     (if parent node \<noteq> node then
        (let parent' = halve parent node in uf_find parent' (parent' node))
      else Some (parent, node))"

declare uf_find.simps [code]

definition graft :: "('a \<Rightarrow> 'a) \<Rightarrow> 'a \<Rightarrow> 'a \<Rightarrow> 'a \<Rightarrow> 'a" where
  "graft parent l r = parent(l := r)"

definition uf_link :: "('a \<Rightarrow> 'a) \<Rightarrow> 'a \<Rightarrow> 'a \<Rightarrow> ('a \<Rightarrow> 'a) option" where
  "uf_link parent l r =
     (case uf_find parent l of None \<Rightarrow> None
      | Some (parent1, left_root) \<Rightarrow>
        (case uf_find parent1 r of None \<Rightarrow> None
         | Some (parent2, right_root) \<Rightarrow>
             Some (if left_root \<noteq> right_root then graft parent2 left_root right_root else parent2)))"

subsection \<open>Forests\<close>

inductive root_of :: "('a \<Rightarrow> 'a) \<Rightarrow> 'a \<Rightarrow> 'a \<Rightarrow> bool" where
  root_here: "p x = x \<Longrightarrow> root_of p x x"
| root_up: "p x \<noteq> x \<Longrightarrow> root_of p (p x) r \<Longrightarrow> root_of p x r"

inductive_cases root_ofE: "root_of p x r"

definition uf_ok :: "('a \<Rightarrow> 'a) \<Rightarrow> bool" where
  "uf_ok p \<longleftrightarrow> (\<exists>d :: 'a \<Rightarrow> nat. \<forall>x. p x \<noteq> x \<longrightarrow> d (p x) < d x)"

lemma uf_okI: "(\<And>x. p x \<noteq> x \<Longrightarrow> d (p x) < (d x :: nat)) \<Longrightarrow> uf_ok p"
  by (auto simp: uf_ok_def)

lemma root_of_fixed: "root_of p x r \<Longrightarrow> p r = r"
  by (induction rule: root_of.induct) auto

lemma root_of_unique: "root_of p x r \<Longrightarrow> root_of p x s \<Longrightarrow> s = r"
  by (induction rule: root_of.induct) (auto elim: root_ofE)

lemma root_of_eq: "root_of p x r \<Longrightarrow> root_of p x s \<longleftrightarrow> s = r"
  by (auto dest: root_of_unique)

lemma root_of_total:
  assumes "uf_ok p"
  shows "\<exists>r. root_of p x r"
proof -
  obtain d :: "'a \<Rightarrow> nat" where d: "\<And>x. p x \<noteq> x \<Longrightarrow> d (p x) < d x" using assms by (auto simp: uf_ok_def)
  show ?thesis
  proof (induction x rule: measure_induct_rule [where f = d])
    case (less x)
    show ?case
    proof (cases "p x = x")
      case True
      then show ?thesis by (intro exI [of _ x] root_here)
    next
      case False
      from less.IH [OF d [OF False]] obtain r where "root_of p (p x) r" ..
      then have "root_of p x r" using root_up [of p x r] False by simp
      then show ?thesis ..
    qed
  qed
qed

lemma halve_simps [simp]: "halve p x x = p (p x)" "y \<noteq> x \<Longrightarrow> halve p x y = p y"
  by (simp_all add: halve_def)

text \<open>Halving a path keeps the order and every root.\<close>

lemma halve_ok:
  assumes "uf_ok p"
  shows "uf_ok (halve p x)"
proof -
  obtain d :: "'a \<Rightarrow> nat" where d: "\<And>x. p x \<noteq> x \<Longrightarrow> d (p x) < d x" using assms by (auto simp: uf_ok_def)
  show ?thesis
  proof (rule uf_okI [where d = d])
    fix y assume y: "halve p x y \<noteq> y"
    show "d (halve p x y) < d y"
    proof (cases "y = x")
      case True
      with y have "p (p x) \<noteq> x" by simp
      then have "p x \<noteq> x" by metis
      then have "d (p x) < d x" by (rule d)
      moreover have "d (p (p x)) \<le> d (p x)" using d [of "p x"] by (cases "p (p x) = p x") auto
      ultimately show ?thesis using True by simp
    qed (use y d in auto)
  qed
qed

lemma halve_root:
  assumes "uf_ok p" and "root_of p y r"
  shows "root_of (halve p x) y r"
proof -
  obtain d :: "'a \<Rightarrow> nat" where d: "\<And>x. p x \<noteq> x \<Longrightarrow> d (p x) < d x" using assms(1) by (auto simp: uf_ok_def)
  let ?q = "halve p x"
  have "root_of p y r \<Longrightarrow> root_of ?q y r" for y
  proof (induction y rule: measure_induct_rule [where f = d])
    case (less y)
    show ?case
    proof (cases "p y = y")
      case True
      with less.prems have "r = y" using root_here root_of_unique by metis
      moreover have "halve p x y = y" using True by (cases "y = x") simp_all
      ultimately show ?thesis using root_here by metis
    next
      case False
      then have up: "root_of p (p y) r" using less.prems by (auto elim: root_ofE)
      show ?thesis
      proof (cases "y = x")
        case True
        have "p (p y) \<noteq> y" using d [OF False] d [of "p y"] by (metis less_asym)
        have "root_of p (p (p y)) r" using up by (cases "p (p y) = p y") (auto elim: root_ofE)
        moreover have "d (p (p y)) < d y" using d [OF False] d [of "p y"] by (cases "p (p y) = p y") auto
        ultimately have "root_of ?q (p (p y)) r" by (intro less.IH)
        then show ?thesis using True \<open>p (p y) \<noteq> y\<close> root_up [of ?q y r] by simp
      next
        case other: False
        have "root_of ?q (p y) r" using up d [OF False] by (intro less.IH)
        with other False show ?thesis using root_up [of ?q y r] by simp
      qed
    qed
  qed
  with assms(2) show ?thesis by blast
qed

lemma halve_root_iff:
  assumes "uf_ok p"
  shows "root_of (halve p x) y r \<longleftrightarrow> root_of p y r"
  using halve_root [OF assms] root_of_total [OF assms, of y] root_of_unique by metis

lemma uf_find_correct:
  assumes "uf_ok p"
  shows "\<exists>p' r. uf_find p x = Some (p', r) \<and> root_of p x r \<and> uf_ok p' \<and> root_of p' = root_of p"
proof -
  obtain d :: "'a \<Rightarrow> nat" where d: "\<And>x. p x \<noteq> x \<Longrightarrow> d (p x) < d x" using assms by (auto simp: uf_ok_def)
  have "uf_ok p \<Longrightarrow> (\<And>x. p x \<noteq> x \<Longrightarrow> d (p x) < d x) \<Longrightarrow>
    \<exists>p' r. uf_find p x = Some (p', r) \<and> root_of p x r \<and> uf_ok p' \<and> root_of p' = root_of p" for p
  proof (induction x arbitrary: p rule: measure_induct_rule [where f = d])
    case (less x)
    show ?case
    proof (cases "p x = x")
      case True
      then show ?thesis using less.prems by (auto simp: uf_find.simps intro: root_here)
    next
      case False
      let ?q = "halve p x"
      have "d (p (p x)) < d x" using less.prems(2) [OF False] less.prems(2) [of "p x"] by (cases "p (p x) = p x") auto
      moreover have "d (?q y) < d y" if "?q y \<noteq> y" for y
        using that less.prems(2) [of y] calculation by (cases "y = x") auto
      moreover have eq: "root_of ?q = root_of p" using halve_root_iff [OF less.prems(1)] by (simp add: fun_eq_iff)
      ultimately obtain p' r where "uf_find ?q (p (p x)) = Some (p', r)" "root_of p (p (p x)) r" "uf_ok p'" "root_of p' = root_of p"
        using less.IH [of "p (p x)" ?q] halve_ok [OF less.prems(1)] by (metis (no_types, lifting))
      moreover have "root_of p x r" using \<open>root_of p (p (p x)) r\<close> False
        by (cases "p (p x) = p x") (auto intro: root_up)
      ultimately show ?thesis using False by (subst uf_find.simps) (simp add: Let_def)
    qed
  qed
  with assms d show ?thesis by blast
qed

text \<open>Linking two roots merges their classes.\<close>

lemma graft_simps [simp]: "graft p l r l = r" "y \<noteq> l \<Longrightarrow> graft p l r y = p y"
  by (simp_all add: graft_def)

lemma link_root:
  "root_of p x s \<Longrightarrow> p l = l \<Longrightarrow> p r = r \<Longrightarrow> l \<noteq> r \<Longrightarrow> root_of (graft p l r) x (if s = l then r else s)"
proof (induction rule: root_of.induct)
  case (root_here p x)
  have "root_of (graft p l r) r r" using root_here.prems by (intro root_of.root_here) simp
  then show ?case using root_here root_of.root_up [of "graft p l r" l r] root_of.root_here [of "graft p l r" x] by auto
next
  case (root_up p x s)
  then have "x \<noteq> l" by auto
  then show ?case using root_up root_of.root_up [of "graft p l r" x] by auto
qed

lemma link_ok:
  assumes "uf_ok p" and "p l = l" and "p r = r" and "l \<noteq> r"
  shows "uf_ok (graft p l r)" and "root_of (graft p l r) x s \<longleftrightarrow> (if root_of p x l then s = r else root_of p x s)"
proof -
  obtain d :: "'a \<Rightarrow> nat" where d: "\<And>x. p x \<noteq> x \<Longrightarrow> d (p x) < d x" using assms(1) by (auto simp: uf_ok_def)
  let ?q = "graft p l r"
  have up: "root_of p (p y) l \<longleftrightarrow> root_of p y l" for y
  proof (cases "p y = y")
    case False
    then show ?thesis by (auto intro: root_up elim: root_ofE)
  qed simp
  have not_r: "\<not> root_of p r l" using root_of_unique [OF root_here [of p r]] assms by metis
  have ll: "root_of p l l" using assms(2) by (rule root_here)
  show "uf_ok ?q"
  proof (rule uf_okI [where d = "\<lambda>y. if root_of p y l then Suc (d r + d y) else d y"])
    fix y assume "?q y \<noteq> y"
    then show "(if root_of p (?q y) l then Suc (d r + d (?q y)) else d (?q y)) < (if root_of p y l then Suc (d r + d y) else d y)"
      using d [of y] up [of y] not_r ll by (cases "y = l") auto
  qed
  show "root_of ?q x s \<longleftrightarrow> (if root_of p x l then s = r else root_of p x s)"
  proof -
    obtain s' where s': "root_of p x s'" using root_of_total [OF assms(1)] by blast
    have q: "root_of ?q x (if s' = l then r else s')" using s' assms(2-4) by (rule link_root)
    have "root_of p x l \<longleftrightarrow> s' = l" using root_of_eq [OF s'] by auto
    moreover have "root_of ?q x s \<longleftrightarrow> s = (if s' = l then r else s')" using root_of_eq [OF q] by simp
    moreover have "root_of p x s \<longleftrightarrow> s = s'" using root_of_eq [OF s'] by simp
    ultimately show ?thesis by simp
  qed
qed

subsection \<open>Classes are connected components\<close>

definition uf_rel :: "('a \<Rightarrow> 'a) \<Rightarrow> ('a \<times> 'a) set" where
  "uf_rel p = {(x, y). \<exists>r. root_of p x r \<and> root_of p y r}"

definition linked :: "('a \<times> 'a) set \<Rightarrow> ('a \<times> 'a) set" where
  "linked E = rtrancl (E \<union> converse E)"

lemma linked_refl [simp]: "(x, x) \<in> linked E"
  by (simp add: linked_def)

lemma linked_trans: "(x, y) \<in> linked E \<Longrightarrow> (y, z) \<in> linked E \<Longrightarrow> (x, z) \<in> linked E"
  by (auto simp: linked_def)

lemma linked_sym: "(x, y) \<in> linked E \<Longrightarrow> (y, x) \<in> linked E"
  unfolding linked_def by (rule symD [OF sym_rtrancl]) (auto simp: sym_def)

lemma linked_mono: "E \<subseteq> F \<Longrightarrow> linked E \<subseteq> linked F"
  unfolding linked_def by (rule rtrancl_mono) auto

lemma linked_edge: "(x, y) \<in> E \<Longrightarrow> (x, y) \<in> linked E"
  by (auto simp: linked_def)

lemma linked_insert:
  "(x, y) \<in> linked (insert (l, r) E) \<longleftrightarrow>
     (x, y) \<in> linked E \<or> (x, l) \<in> linked E \<and> (r, y) \<in> linked E \<or> (x, r) \<in> linked E \<and> (l, y) \<in> linked E"
    (is "?lhs \<longleftrightarrow> ?rhs")
proof
  assume ?lhs
  then have "(x, y) \<in> rtrancl (insert (l, r) E \<union> converse (insert (l, r) E))" by (simp add: linked_def)
  then show ?rhs
  proof (induction rule: rtrancl_induct)
    case (step y z)
    consider "(y, z) \<in> linked E" | "y = l" "z = r" | "y = r" "z = l"
      using step.hyps(2) linked_edge linked_sym by fastforce
    then show ?case
    proof cases
      case 1
      with step.IH linked_trans [OF _ 1] show ?thesis by blast
    qed (use step.IH in auto)+
  qed simp
next
  assume ?rhs
  moreover have "(l, r) \<in> linked (insert (l, r) E)" "(r, l) \<in> linked (insert (l, r) E)"
    using linked_edge [of l r "insert (l, r) E"] linked_sym by auto
  moreover have "linked E \<subseteq> linked (insert (l, r) E)" by (rule linked_mono) auto
  ultimately show ?lhs using linked_trans by (meson subsetD)
qed

lemma linked_insert_same: "(l, r) \<in> linked E \<Longrightarrow> linked (insert (l, r) E) = linked E"
proof (rule set_eqI, clarify)
  fix x y assume "(l, r) \<in> linked E"
  then show "(x, y) \<in> linked (insert (l, r) E) \<longleftrightarrow> (x, y) \<in> linked E"
    unfolding linked_insert using linked_trans [of x l E] linked_trans [of x r E] linked_trans [of l r E y] linked_trans [of r l E y]
      linked_sym [of l r E] by blast
qed

lemma linked_insert_flip: "linked (insert (r, l) E) = linked (insert (l, r) E)"
proof -
  have "insert (r, l) E \<union> converse (insert (r, l) E) = insert (l, r) E \<union> converse (insert (l, r) E)" by auto
  then show ?thesis by (simp only: linked_def)
qed

text \<open>Grafting the root of one node onto the root of another merges exactly the two classes.\<close>

lemma graft_rel:
  assumes ok: "uf_ok p" and rel: "uf_rel p = linked E" and l: "root_of p l lr" and r: "root_of p r rr" and ne: "lr \<noteq> rr"
  shows "uf_ok (graft p lr rr)" and "uf_rel (graft p lr rr) = linked (insert (l, r) E)"
proof -
  have fixed: "p lr = lr" "p rr = rr" using root_of_fixed l r by metis+
  show "uf_ok (graft p lr rr)" using link_ok(1) [OF ok fixed ne] .
  obtain rt where rt: "\<And>x. root_of p x (rt x)" using root_of_total [OF ok] by metis
  have rt_iff: "root_of p x s \<longleftrightarrow> s = rt x" for x s using rt root_of_eq by metis
  have lin: "(x, y) \<in> linked E \<longleftrightarrow> rt x = rt y" for x y
    unfolding rel [symmetric] uf_rel_def rt_iff by auto
  have rts: "lr = rt l" "rr = rt r" using l r rt_iff by simp_all
  have "root_of (graft p lr rr) x s \<longleftrightarrow> s = (if rt x = rt l then rt r else rt x)" for x s
    using link_ok(2) [OF ok fixed ne, of x s] unfolding rt_iff by (auto simp: rts)
  then have "(x, y) \<in> uf_rel (graft p lr rr) \<longleftrightarrow>
      (if rt x = rt l then rt r else rt x) = (if rt y = rt l then rt r else rt y)" for x y
    by (simp add: uf_rel_def)
  then have "(x, y) \<in> uf_rel (graft p lr rr) \<longleftrightarrow> (x, y) \<in> linked (insert (l, r) E)" for x y
    unfolding linked_insert lin by metis
  then show "uf_rel (graft p lr rr) = linked (insert (l, r) E)" by auto
qed

text \<open>The two finds of a union: neither changes the classes.\<close>

lemma two_finds:
  assumes "uf_ok p"
  obtains p1 p2 lr rr where "uf_find p l = Some (p1, lr)" "uf_find p1 r = Some (p2, rr)"
    "root_of p l lr" "root_of p r rr" "uf_ok p2" "root_of p2 = root_of p"
proof -
  obtain p1 lr where p1: "uf_find p l = Some (p1, lr)" "root_of p l lr" "uf_ok p1" "root_of p1 = root_of p"
    using uf_find_correct [OF assms] by blast
  obtain p2 rr where p2: "uf_find p1 r = Some (p2, rr)" "root_of p r rr" "uf_ok p2" "root_of p2 = root_of p"
    using uf_find_correct [OF p1(3), of r] p1(4) by auto
  show ?thesis using p1(1) p2(1) p1(2) p2(2-4) by (rule that)
qed

lemma same_root_linked: "uf_rel p = linked E \<Longrightarrow> root_of p l s \<Longrightarrow> root_of p r s \<Longrightarrow> (l, r) \<in> linked E"
  by (auto simp: uf_rel_def set_eq_iff)

lemma uf_link_correct:
  assumes "uf_ok p" and "uf_rel p = linked E"
  shows "\<exists>p'. uf_link p l r = Some p' \<and> uf_ok p' \<and> uf_rel p' = linked (insert (l, r) E)"
proof -
  obtain p1 p2 lr rr where f: "uf_find p l = Some (p1, lr)" "uf_find p1 r = Some (p2, rr)"
    "root_of p l lr" "root_of p r rr" "uf_ok p2" "root_of p2 = root_of p" using two_finds [OF assms(1)] .
  have rel2: "uf_rel p2 = linked E" using assms(2) f(6) by (simp add: uf_rel_def)
  show ?thesis
  proof (cases "lr = rr")
    case True
    with linked_insert_same [OF same_root_linked [OF assms(2) f(3)]] f rel2 show ?thesis by (simp add: uf_link_def)
  next
    case False
    with graft_rel [OF f(5) rel2 _ _ False, of l r] f show ?thesis by (simp add: uf_link_def)
  qed
qed

subsection \<open>The least node as the root\<close>

text \<open>
  The union of the emission owners hangs the larger root below the smaller one, so that every root is the least node of
  its class, whatever the order of the unions.
\<close>

definition uf_union :: "('a :: linorder \<Rightarrow> 'a) \<Rightarrow> 'a \<Rightarrow> 'a \<Rightarrow> ('a \<Rightarrow> 'a) option" where
  "uf_union parent l r =
     (case uf_find parent l of None \<Rightarrow> None
      | Some (parent1, left_root) \<Rightarrow>
        (case uf_find parent1 r of None \<Rightarrow> None
         | Some (parent2, right_root) \<Rightarrow>
             Some (if left_root = right_root then parent2
                   else graft parent2 (max left_root right_root) (min left_root right_root))))"

definition least_roots :: "('a :: linorder \<Rightarrow> 'a) \<Rightarrow> bool" where
  "least_roots p \<longleftrightarrow> (\<forall>x r. root_of p x r \<longrightarrow> r \<le> x)"

lemma uf_union_correct:
  assumes "uf_ok p" and "uf_rel p = linked E" and "least_roots p"
  shows "\<exists>p'. uf_union p l r = Some p' \<and> uf_ok p' \<and> uf_rel p' = linked (insert (l, r) E) \<and> least_roots p'"
proof -
  obtain p1 p2 lr rr where f: "uf_find p l = Some (p1, lr)" "uf_find p1 r = Some (p2, rr)"
    "root_of p l lr" "root_of p r rr" "uf_ok p2" "root_of p2 = root_of p" using two_finds [OF assms(1)] .
  have rel2: "uf_rel p2 = linked E" using assms(2) f(6) by (simp add: uf_rel_def)
  have least2: "root_of p2 x s \<Longrightarrow> s \<le> x" for x s using assms(3) f(6) by (simp add: least_roots_def)
  show ?thesis
  proof (cases "lr = rr")
    case True
    with linked_insert_same [OF same_root_linked [OF assms(2) f(3)]] f rel2 assms(3) show ?thesis
      by (simp add: uf_union_def least_roots_def)
  next
    case False
    let ?q = "graft p2 (max lr rr) (min lr rr)"
    have roots: "root_of p2 l lr" "root_of p2 r rr" using f by simp_all
    have fixed: "p2 lr = lr" "p2 rr = rr" using root_of_fixed roots by metis+
    have "uf_ok ?q \<and> uf_rel ?q = linked (insert (l, r) E)"
    proof (cases "lr < rr")
      case True
      then show ?thesis using graft_rel [OF f(5) rel2 roots(2,1)] linked_insert_flip [of r l E] by (auto simp: max_def min_def)
    next
      case ge: False
      then show ?thesis using graft_rel [OF f(5) rel2 roots] False by (simp add: max_def min_def not_less)
    qed
    moreover have "least_roots ?q"
      unfolding least_roots_def
    proof clarify
      fix x s assume "root_of ?q x s"
      moreover have "p2 (max lr rr) = max lr rr" "p2 (min lr rr) = min lr rr" "max lr rr \<noteq> min lr rr"
        using fixed False by (auto simp: max_def min_def)
      ultimately have "if root_of p2 x (max lr rr) then s = min lr rr else root_of p2 x s"
        using link_ok(2) [OF f(5), of "max lr rr" "min lr rr" x s] by simp
      then show "s \<le> x" using least2 [of x "max lr rr"] least2 [of x s] by (auto split: if_splits simp: min_le_iff_disj le_max_iff_disj)
    qed
    ultimately show ?thesis using f False by (simp add: uf_union_def)
  qed
qed

lemma uf_init: "uf_ok (\<lambda>i. i :: 'a)" "uf_rel (\<lambda>i. i :: 'a) = linked {}"
proof -
  show "uf_ok (\<lambda>i. i :: 'a)" by (rule uf_okI [where d = "\<lambda>_. 0"]) simp
  have "root_of (\<lambda>i. i) x r \<longleftrightarrow> r = x" for x r :: 'a by (auto intro: root_here elim: root_ofE)
  then show "uf_rel (\<lambda>i. i :: 'a) = linked {}" by (auto simp: uf_rel_def linked_def)
qed

end
