(* ===== verification/Similarity.thy ===== *)
theory Similarity
  imports Issuance Fingerprint Union_Find
begin

text \<open>
  Near-identical submissions share one slice of fleet concurrency
  (\<open>ditto/db/queries/similarity_budget.py\<close> and \<open>similarity_grouping.py\<close>): the tunable policy, the
  pairwise rule, the enforcement primitive the allocator calls, and the single-linkage grouping an operator is shown. The
  grouping runs a union-find with path halving over a dict of parents; the loop of \<open>find\<close> is a partial function and is shown to
  return. The stored sketches are a table from agent ids to fingerprints, the column \<open>agents.content_fingerprint\<close>.
\<close>

subsection \<open>The policy\<close>

definition DEFAULT_JACCARD_THRESHOLD :: rat where "DEFAULT_JACCARD_THRESHOLD = 90 / 100"
definition DEFAULT_CONTAINMENT_THRESHOLD :: rat where "DEFAULT_CONTAINMENT_THRESHOLD = 95 / 100"
definition MIN_SIMILARITY_THRESHOLD :: rat where "MIN_SIMILARITY_THRESHOLD = 70 / 100"
definition MAX_SIMILARITY_THRESHOLD :: rat where "MAX_SIMILARITY_THRESHOLD = 1"
definition MIN_COMPARABLE_SHINGLES :: int where "MIN_COMPARABLE_SHINGLES = 64"
definition DEFAULT_SIZE_RATIO_FLOOR :: rat where "DEFAULT_SIZE_RATIO_FLOOR = 1 / 2"
definition MIN_SIZE_RATIO_FLOOR :: rat where "MIN_SIZE_RATIO_FLOOR = 1 / 10"

record similarity_budget_policy =
  jaccard_threshold :: rat
  containment_threshold :: rat
  size_ratio_floor :: rat
  min_shingles :: int

text \<open>The constructor with its checks; \<open>None\<close> is the \<open>ValueError\<close>.\<close>

definition SimilarityBudgetPolicy :: "rat \<Rightarrow> rat \<Rightarrow> rat \<Rightarrow> int \<Rightarrow> similarity_budget_policy option" where
  "SimilarityBudgetPolicy jaccard containment size_floor shingles =
     (if \<not> (MIN_SIMILARITY_THRESHOLD \<le> jaccard \<and> jaccard \<le> MAX_SIMILARITY_THRESHOLD) then None
      else if \<not> (MIN_SIMILARITY_THRESHOLD \<le> containment \<and> containment \<le> MAX_SIMILARITY_THRESHOLD) then None
      else if \<not> (MIN_SIZE_RATIO_FLOOR \<le> size_floor \<and> size_floor \<le> 1) then None
      else if shingles < 1 then None
      else Some \<lparr>jaccard_threshold = jaccard, containment_threshold = containment, size_ratio_floor = size_floor,
                 min_shingles = shingles\<rparr>)"

definition default_policy :: similarity_budget_policy where
  "default_policy = \<lparr>jaccard_threshold = DEFAULT_JACCARD_THRESHOLD, containment_threshold = DEFAULT_CONTAINMENT_THRESHOLD,
     size_ratio_floor = DEFAULT_SIZE_RATIO_FLOOR, min_shingles = MIN_COMPARABLE_SHINGLES\<rparr>"

record similarity_budget_settings =
  sb_enabled :: bool
  sb_jaccard_threshold :: rat
  sb_containment_threshold :: rat

text \<open>The outer \<open>None\<close> is the \<open>ValueError\<close>, the inner one the disabled board.\<close>

definition policy_from_settings :: "similarity_budget_settings \<Rightarrow> similarity_budget_policy option option" where
  "policy_from_settings settings =
     (if \<not> sb_enabled settings then Some None
      else map_option Some (SimilarityBudgetPolicy (sb_jaccard_threshold settings) (sb_containment_threshold settings)
             DEFAULT_SIZE_RATIO_FLOOR MIN_COMPARABLE_SHINGLES))"

subsection \<open>The pairwise rule\<close>

record submission_sketch =
  ss_agent_id :: uuid
  ss_fingerprint :: "fingerprint option"

definition comparable :: "submission_sketch \<Rightarrow> bool" where
  "comparable s = (case ss_fingerprint s of None \<Rightarrow> False | Some fp \<Rightarrow> fp_m fp \<noteq> [])"

datatype similarity_channel = Jaccard_Channel | Containment_Channel

record similarity_match =
  sm_agent_id :: uuid
  sm_jaccard :: rat
  sm_containment :: rat
  sm_channel :: similarity_channel

definition similarity_scores :: "submission_sketch \<Rightarrow> submission_sketch \<Rightarrow> rat \<times> rat" where
  "similarity_scores left right = content_similarity (ss_fingerprint left) (ss_fingerprint right)"

definition sketch_card :: "submission_sketch \<Rightarrow> int" where
  "sketch_card s = (case ss_fingerprint s of None \<Rightarrow> 0 | Some fp \<Rightarrow> card_of fp)"

definition same_budget :: "similarity_budget_policy option \<Rightarrow> submission_sketch \<Rightarrow> submission_sketch \<Rightarrow> similarity_match option" where
  "same_budget pol left right =
     (let policy = (case pol of None \<Rightarrow> default_policy | Some p \<Rightarrow> p) in
      if ss_agent_id left = ss_agent_id right then None
      else if \<not> (comparable left \<and> comparable right) then None
      else let smaller = min (sketch_card left) (sketch_card right); larger = max (sketch_card left) (sketch_card right) in
      if smaller < min_shingles policy then None
      else if larger \<le> 0 \<or> of_int smaller / of_int larger < size_ratio_floor policy then None
      else case similarity_scores left right of (jaccard, containment) \<Rightarrow>
        if jaccard \<ge> jaccard_threshold policy then
          Some \<lparr>sm_agent_id = ss_agent_id right, sm_jaccard = jaccard, sm_containment = containment, sm_channel = Jaccard_Channel\<rparr>
        else if containment \<ge> containment_threshold policy then
          Some \<lparr>sm_agent_id = ss_agent_id right, sm_jaccard = jaccard, sm_containment = containment, sm_channel = Containment_Channel\<rparr>
        else None)"

definition similar_submissions ::
  "similarity_budget_policy option \<Rightarrow> submission_sketch \<Rightarrow> submission_sketch list \<Rightarrow> similarity_match list" where
  "similar_submissions pol candidate others =
     sort_key (\<lambda>m. (- sm_jaccard m, - sm_containment m, sm_agent_id m))
       (List.map_filter (same_budget pol candidate) others)"

subsection \<open>The sketches of the live leases\<close>

type_synonym sketch_table = "(uuid \<times> fingerprint option) list"

definition load_submission_sketches :: "sketch_table \<Rightarrow> uuid list \<Rightarrow> uuid \<rightharpoonup> submission_sketch" where
  "load_submission_sketches fps agent_ids =
     (let wanted = remdups agent_ids in
      if wanted = [] then Map.empty
      else map_of (map (\<lambda>(i, f). (i, \<lparr>ss_agent_id = i, ss_fingerprint = f\<rparr>)) (filter (\<lambda>(i, f). i \<in> set wanted) fps)))"

definition live_lease_agent_ids :: "time \<Rightarrow> db \<Rightarrow> uuid set" where
  "live_lease_agent_ids now d =
     t_agent_id ` set (filter (\<lambda>t. t_status t = ISSUED \<and> t_deadline t > now) (d_tickets d))"

definition live_lease_sketches :: "sketch_table \<Rightarrow> time \<Rightarrow> uuid list \<Rightarrow> db \<Rightarrow> submission_sketch list" where
  "live_lease_sketches fps now excluded d =
     (let leased = sorted_list_of_set (live_lease_agent_ids now d - set excluded) in
      List.map_filter (load_submission_sketches fps leased) leased)"

text \<open>The twins of a candidate as the allocator reads them, and the fleet with the rail on.\<close>

definition lease_twins :: "similarity_budget_policy option \<Rightarrow> sketch_table \<Rightarrow> time \<Rightarrow> db \<Rightarrow> uuid \<Rightarrow> uuid set" where
  "lease_twins policy fps now d agent_id =
     (case policy of None \<Rightarrow> {}
      | Some p \<Rightarrow>
        (case load_submission_sketches fps [agent_id] agent_id of None \<Rightarrow> {}
         | Some candidate_sketch \<Rightarrow>
             sm_agent_id ` set (similar_submissions (Some p) candidate_sketch
               (filter (\<lambda>s. ss_agent_id s \<noteq> agent_id) (live_lease_sketches fps now [] d)))))"

definition similarity_fleet :: "hotkey set \<Rightarrow> similarity_budget_policy option \<Rightarrow> int \<Rightarrow> sketch_table \<Rightarrow> time \<Rightarrow> db \<Rightarrow> fleet" where
  "similarity_fleet capable policy limit fps now d =
     \<lparr>f_capable = capable, f_twins = lease_twins policy fps now d, f_similarity_limit = limit\<rparr>"

subsection \<open>Single-linkage groups\<close>

fun link_all :: "similarity_budget_policy option \<Rightarrow> submission_sketch \<Rightarrow> submission_sketch list \<Rightarrow> (uuid \<Rightarrow> uuid) \<Rightarrow> (uuid \<Rightarrow> uuid) option" where
  "link_all pol left [] parent = Some parent"
| "link_all pol left (right # rest) parent =
     (if same_budget pol left right = None then link_all pol left rest parent
      else case uf_link parent (ss_agent_id left) (ss_agent_id right) of
        None \<Rightarrow> None
      | Some parent' \<Rightarrow> link_all pol left rest parent')"

fun link_pairs :: "similarity_budget_policy option \<Rightarrow> submission_sketch list \<Rightarrow> (uuid \<Rightarrow> uuid) \<Rightarrow> (uuid \<Rightarrow> uuid) option" where
  "link_pairs pol [] parent = Some parent"
| "link_pairs pol (left # rest) parent =
     (case link_all pol left rest parent of None \<Rightarrow> None | Some parent' \<Rightarrow> link_pairs pol rest parent')"

text \<open>\<open>grouped.setdefault(root, []).append(id)\<close> on a dict kept in insertion order.\<close>

fun setdefault_append :: "'k \<Rightarrow> 'v \<Rightarrow> ('k \<times> 'v list) list \<Rightarrow> ('k \<times> 'v list) list" where
  "setdefault_append k v [] = [(k, [v])]"
| "setdefault_append k v ((k', vs) # rest) =
     (if k' = k then (k', vs @ [v]) # rest else (k', vs) # setdefault_append k v rest)"

fun group_by_root :: "uuid list \<Rightarrow> (uuid \<Rightarrow> uuid) \<Rightarrow> (uuid \<times> uuid list) list \<Rightarrow> (uuid \<times> uuid list) list option" where
  "group_by_root [] parent grouped = Some grouped"
| "group_by_root (i # ids) parent grouped =
     (case uf_find parent i of None \<Rightarrow> None
      | Some (parent', rep) \<Rightarrow> group_by_root ids parent' (setdefault_append rep i grouped))"

definition similarity_budgets :: "similarity_budget_policy option \<Rightarrow> submission_sketch list \<Rightarrow> uuid list list option" where
  "similarity_budgets pol sketches =
     (case link_pairs pol sketches (\<lambda>i. i) of None \<Rightarrow> None
      | Some parent \<Rightarrow>
        map_option (\<lambda>grouped. sort_key (\<lambda>members. (- int (length members), hd members)) (map snd grouped))
          (group_by_root (map ss_agent_id sketches) parent []))"

subsection \<open>The groups are the connected components\<close>

definition left_edges :: "similarity_budget_policy option \<Rightarrow> submission_sketch \<Rightarrow> submission_sketch list \<Rightarrow> (uuid \<times> uuid) set" where
  "left_edges pol left rest =
     (\<lambda>right. (ss_agent_id left, ss_agent_id right)) ` {right \<in> set rest. same_budget pol left right \<noteq> None}"

text \<open>The pairs the rule groups directly, each sketch against the later ones.\<close>

fun budget_edges :: "similarity_budget_policy option \<Rightarrow> submission_sketch list \<Rightarrow> (uuid \<times> uuid) set" where
  "budget_edges pol [] = {}"
| "budget_edges pol (left # rest) = left_edges pol left rest \<union> budget_edges pol rest"

lemma left_edges_Cons:
  "left_edges pol left (right # rest) =
     (if same_budget pol left right = None then left_edges pol left rest
      else insert (ss_agent_id left, ss_agent_id right) (left_edges pol left rest))"
  by (auto simp: left_edges_def)

lemma link_all_correct:
  "uf_ok p \<Longrightarrow> uf_rel p = linked E \<Longrightarrow>
   \<exists>p'. link_all pol left rest p = Some p' \<and> uf_ok p' \<and> uf_rel p' = linked (left_edges pol left rest \<union> E)"
proof (induction rest arbitrary: p E)
  case (Cons right rest)
  show ?case
  proof (cases "same_budget pol left right")
    case None
    then show ?thesis using Cons by (simp add: left_edges_Cons)
  next
    case (Some m)
    obtain p1 where p1: "uf_link p (ss_agent_id left) (ss_agent_id right) = Some p1" "uf_ok p1"
      "uf_rel p1 = linked (insert (ss_agent_id left, ss_agent_id right) E)"
      using uf_link_correct [OF Cons.prems] by blast
    with Cons.IH [OF p1(2,3)] Some show ?thesis by (simp add: left_edges_Cons insert_commute)
  qed
qed (simp add: left_edges_def)

lemma link_pairs_correct:
  "uf_ok p \<Longrightarrow> uf_rel p = linked E \<Longrightarrow>
   \<exists>p'. link_pairs pol sketches p = Some p' \<and> uf_ok p' \<and> uf_rel p' = linked (budget_edges pol sketches \<union> E)"
proof (induction sketches arbitrary: p E)
  case (Cons left rest)
  obtain p1 where p1: "link_all pol left rest p = Some p1" "uf_ok p1" "uf_rel p1 = linked (left_edges pol left rest \<union> E)"
    using link_all_correct [OF Cons.prems] by blast
  with Cons.IH [OF p1(2,3)] show ?case by (simp add: Un_ac)
qed simp

subsection \<open>Grouping by root\<close>

definition first_keys :: "('v \<Rightarrow> 'k) \<Rightarrow> 'v list \<Rightarrow> 'k list" where
  "first_keys f vs = rev (remdups (rev (map f vs)))"

lemma first_keys_props: "distinct (first_keys f vs)" "set (first_keys f vs) = f ` set vs"
  by (simp_all add: first_keys_def)

lemma setdefault_append_map:
  "distinct ks \<Longrightarrow> setdefault_append k v (map (\<lambda>k. (k, g k)) ks) =
     (if k \<in> set ks then map (\<lambda>k'. (k', if k' = k then g k' @ [v] else g k')) ks
      else map (\<lambda>k. (k, g k)) ks @ [(k, [v])])"
  by (induction ks) auto

lemma fold_setdefault_append:
  "fold (\<lambda>v. setdefault_append (f v) v) vs [] = map (\<lambda>k. (k, filter (\<lambda>v. f v = k) vs)) (first_keys f vs)"
proof (induction vs rule: rev_induct)
  case (snoc v vs)
  have k: "first_keys f (vs @ [v]) = (if f v \<in> f ` set vs then first_keys f vs else first_keys f vs @ [f v])"
    by (auto simp: first_keys_def)
  have "filter (\<lambda>w. f w = f v) vs = []" if "f v \<notin> f ` set vs" using that by (metis (mono_tags, lifting) filter_False image_eqI)
  then show ?case
    using snoc setdefault_append_map [OF first_keys_props(1) [of f vs], of "f v" v "\<lambda>k. filter (\<lambda>v. f v = k) vs"]
    by (auto simp: k first_keys_props)
qed (simp add: first_keys_def)

lemma group_by_root_correct:
  assumes "\<And>i. root_of p i (rt i)"
  shows "uf_ok q \<Longrightarrow> root_of q = root_of p \<Longrightarrow>
    group_by_root ids q grouped = Some (fold (\<lambda>i. setdefault_append (rt i) i) ids grouped)"
proof (induction ids arbitrary: q grouped)
  case (Cons i ids)
  obtain q' r where "uf_find q i = Some (q', r)" "root_of p i r" "uf_ok q'" "root_of q' = root_of p"
    using uf_find_correct [OF Cons.prems(1), of i] Cons.prems(2) by auto
  moreover have "r = rt i" using assms root_of_unique calculation(2) by metis
  ultimately show ?case using Cons.IH by simp
qed simp

lemma mset_concat_groups:
  assumes "distinct ks" and "f ` set vs \<subseteq> set ks"
  shows "mset (concat (map (\<lambda>k. filter (\<lambda>v. f v = k) vs) ks)) = mset vs"
  using assms
proof (induction vs)
  case (Cons v vs)
  have "mset (concat (map (\<lambda>k. filter (\<lambda>w. f w = k) (v # vs)) ks)) =
      (\<Sum>k \<leftarrow> ks. (if f v = k then {#v#} else {#}) + mset (filter (\<lambda>w. f w = k) vs))"
    by (auto simp: mset_concat comp_def intro!: arg_cong [where f = sum_list])
  also have "\<dots> = (\<Sum>k \<leftarrow> ks. if f v = k then {#v#} else {#}) + mset (concat (map (\<lambda>k. filter (\<lambda>w. f w = k) vs) ks))"
    by (simp add: sum_list_addf mset_concat comp_def)
  also have "(\<Sum>k \<leftarrow> ks. if f v = k then {#v#} else {#}) = {#v#}"
    using Cons.prems by (simp add: sum_list_distinct_conv_sum_set sum.delta)
  finally show ?case using Cons by simp
qed (induction ks, auto)

text \<open>
  C26. The groups shown to an operator are exactly the connected components of the pairwise rule: the union-find always
  returns, every submission is in exactly one group, a group holds precisely the submissions reachable from any of its members
  through chains of direct matches, and the groups come largest first.
\<close>

theorem similarity_budgets_components:
  "\<exists>groups. similarity_budgets pol sketches = Some groups \<and>
     mset (concat groups) = mset (map ss_agent_id sketches) \<and>
     (\<forall>g \<in> set groups. g \<noteq> [] \<and> (\<forall>x \<in> set g. g =
        filter (\<lambda>y. (x, y) \<in> linked (budget_edges pol sketches)) (map ss_agent_id sketches))) \<and>
     sorted (map (\<lambda>g. (- int (length g), hd g)) groups)"
proof -
  let ?ids = "map ss_agent_id sketches"
  obtain p where p: "link_pairs pol sketches (\<lambda>i. i) = Some p" "uf_ok p" "uf_rel p = linked (budget_edges pol sketches)"
    using link_pairs_correct [OF uf_init] by fastforce
  obtain rt where rt: "\<And>i. root_of p i (rt i)" using root_of_total [OF p(2)] by metis
  have same: "(x, y) \<in> linked (budget_edges pol sketches) \<longleftrightarrow> rt y = rt x" for x y
    unfolding p(3) [symmetric] uf_rel_def using root_of_eq [OF rt [of x]] root_of_eq [OF rt [of y]] by auto
  let ?gs = "map (\<lambda>k. filter (\<lambda>i. rt i = k) ?ids) (first_keys rt ?ids)"
  let ?groups = "sort_key (\<lambda>members. (- int (length members), hd members)) ?gs"
  have "similarity_budgets pol sketches = Some ?groups"
    using group_by_root_correct [OF rt p(2) refl] p(1) by (simp add: similarity_budgets_def fold_setdefault_append comp_def)
  moreover have "mset (concat ?groups) = mset ?ids"
  proof -
    have "mset (concat ?groups) = mset (concat ?gs)" by (simp only: mset_concat mset_map mset_sort sum_mset_sum_list [symmetric])
    then show ?thesis using mset_concat_groups [OF first_keys_props(1) [of rt ?ids], of rt ?ids] by (simp add: first_keys_props)
  qed
  moreover have "\<forall>g \<in> set ?groups. g \<noteq> [] \<and> (\<forall>x \<in> set g. g =
      filter (\<lambda>y. (x, y) \<in> linked (budget_edges pol sketches)) ?ids)"
    unfolding same by (auto simp: first_keys_props filter_empty_conv)
  moreover have "sorted (map (\<lambda>g. (- int (length g), hd g)) ?groups)" by (rule sorted_sort_key)
  ultimately show ?thesis by blast
qed

theorem similarity_budgets_components_witness:
  "\<exists>groups. similarity_budgets None [\<lparr>ss_agent_id = 1, ss_fingerprint = None\<rparr>, \<lparr>ss_agent_id = 2, ss_fingerprint = None\<rparr>] = Some groups \<and>
     mset (concat groups) = mset [1, 2] \<and> (\<forall>g \<in> set groups. g \<noteq> [])"
  using similarity_budgets_components [of None "[\<lparr>ss_agent_id = 1, ss_fingerprint = None\<rparr>, \<lparr>ss_agent_id = 2, ss_fingerprint = None\<rparr>]"]
  by auto

subsection \<open>What grouping takes\<close>

lemma content_similarity_needs:
  assumes "0 < fst (content_similarity (Some a) (Some b)) \<or> 0 < snd (content_similarity (Some a) (Some b))"
  shows "fp_v a = fp_v b \<and> fp_corpus a = fp_corpus b"
  using assms by (auto simp: content_similarity_def split: if_splits)

text \<open>
  No policy an operator can construct groups two submissions on thin evidence: a match names two different submissions, both
  with a non-empty sketch of one version and one corpus, with at least one residual shingle each, within a factor of ten in size, and with
  an estimate of at least 0.70 on the channel that is named.
\<close>

theorem grouping_needs_evidence:
  assumes "SimilarityBudgetPolicy jt ct sf ms = Some p" and "same_budget (Some p) left right = Some m"
  shows "ss_agent_id left \<noteq> ss_agent_id right \<and> sm_agent_id m = ss_agent_id right \<and>
    (\<exists>a b. ss_fingerprint left = Some a \<and> ss_fingerprint right = Some b \<and> fp_m a \<noteq> [] \<and> fp_m b \<noteq> [] \<and>
       fp_v a = fp_v b \<and> fp_corpus a = fp_corpus b \<and> 1 \<le> card_of a \<and> 1 \<le> card_of b \<and>
       card_of a \<le> 10 * card_of b \<and> card_of b \<le> 10 * card_of a) \<and>
    7 / 10 \<le> (case sm_channel m of Jaccard_Channel \<Rightarrow> sm_jaccard m | Containment_Channel \<Rightarrow> sm_containment m)"
proof -
  from assms(1) have p: "7 / 10 \<le> jaccard_threshold p" "7 / 10 \<le> containment_threshold p"
      "1 / 10 \<le> size_ratio_floor p" "1 \<le> min_shingles p"
    by (auto simp: SimilarityBudgetPolicy_def MIN_SIMILARITY_THRESHOLD_def MIN_SIZE_RATIO_FLOOR_def split: if_splits)
  obtain j c where jc: "similarity_scores left right = (j, c)" by fastforce
  let ?s = "min (sketch_card left) (sketch_card right)" and ?l = "max (sketch_card left) (sketch_card right)"
  from assms(2) have ids: "ss_agent_id left \<noteq> ss_agent_id right" and cmp: "comparable left" "comparable right"
    and sh: "min_shingles p \<le> ?s" and pos: "0 < ?l" and sz: "size_ratio_floor p \<le> of_int ?s / of_int ?l"
    and m: "sm_agent_id m = ss_agent_id right"
      "sm_channel m = Jaccard_Channel \<and> jaccard_threshold p \<le> j \<and> sm_jaccard m = j \<or>
       sm_channel m = Containment_Channel \<and> containment_threshold p \<le> c \<and> sm_containment m = c"
    by (auto simp: same_budget_def Let_def jc not_less not_le split: if_splits)
  obtain a b where ab: "ss_fingerprint left = Some a" "ss_fingerprint right = Some b"
    using cmp by (auto simp: comparable_def split: option.splits)
  have sc: "7 / 10 \<le> j \<or> 7 / 10 \<le> c" using m(2) p by auto
  then have "0 < fst (content_similarity (Some a) (Some b)) \<or> 0 < snd (content_similarity (Some a) (Some b))"
    using jc by (auto simp: similarity_scores_def ab)
  then have v: "fp_v a = fp_v b" "fp_corpus a = fp_corpus b" using content_similarity_needs by blast+
  have "1 / 10 \<le> (of_int ?s :: rat) / of_int ?l" using p(3) sz by (rule order_trans)
  then have "(of_int ?l :: rat) \<le> of_int (10 * ?s)" using pos by (simp add: field_simps del: of_int_max of_int_min)
  then have "?l \<le> 10 * ?s" by (simp only: of_int_le_iff)
  moreover have "1 \<le> ?s" using sh p(4) by simp
  ultimately have "1 \<le> card_of a \<and> 1 \<le> card_of b \<and> card_of a \<le> 10 * card_of b \<and> card_of b \<le> 10 * card_of a"
    by (auto simp: sketch_card_def ab min_def max_def split: if_splits)
  moreover have "7 / 10 \<le> (case sm_channel m of Jaccard_Channel \<Rightarrow> sm_jaccard m | Containment_Channel \<Rightarrow> sm_containment m)"
    using m(2) p by auto
  ultimately show ?thesis using ids m(1) ab v cmp by (auto simp: comparable_def)
qed

definition demo_twin :: "uuid \<Rightarrow> submission_sketch" where
  "demo_twin i = \<lparr>ss_agent_id = i, ss_fingerprint = Some (demo_sketch 2 2 [''a'', ''b''])\<rparr>"

lemma demo_twins_match:
  "same_budget (Some \<lparr>jaccard_threshold = 9 / 10, containment_threshold = 19 / 20, size_ratio_floor = 1 / 2, min_shingles = 1\<rparr>) (demo_twin 1) (demo_twin 2) =
     Some \<lparr>sm_agent_id = 2, sm_jaccard = 1, sm_containment = 1, sm_channel = Jaccard_Channel\<rparr>"
  by code_simp

theorem grouping_needs_evidence_witness:
  "\<exists>p m. SimilarityBudgetPolicy (9 / 10) (19 / 20) (1 / 2) 1 = Some p \<and> same_budget (Some p) (demo_twin 1) (demo_twin 2) = Some m \<and>
     7 / 10 \<le> (case sm_channel m of Jaccard_Channel \<Rightarrow> sm_jaccard m | Containment_Channel \<Rightarrow> sm_containment m)"
proof -
  have p: "SimilarityBudgetPolicy (9 / 10) (19 / 20) (1 / 2) 1 =
      Some \<lparr>jaccard_threshold = 9 / 10, containment_threshold = 19 / 20, size_ratio_floor = 1 / 2, min_shingles = 1\<rparr>"
    by (simp add: SimilarityBudgetPolicy_def MIN_SIMILARITY_THRESHOLD_def MAX_SIMILARITY_THRESHOLD_def MIN_SIZE_RATIO_FLOOR_def)
  from grouping_needs_evidence [OF p demo_twins_match] p demo_twins_match show ?thesis by blast
qed

subsection \<open>The rail in the allocator\<close>

lemma finite_lease_twins: "finite (lease_twins policy fps now d a)"
  by (auto simp: lease_twins_def split: option.splits)

text \<open>The submissions with a live lease that the rule groups directly with a candidate.\<close>

definition near_twins :: "similarity_budget_policy \<Rightarrow> sketch_table \<Rightarrow> time \<Rightarrow> db \<Rightarrow> uuid \<Rightarrow> uuid set" where
  "near_twins p fps now d a =
     {b \<in> live_lease_agent_ids now d. \<exists>fa fb. map_of fps a = Some fa \<and> map_of fps b = Some fb \<and>
        same_budget (Some p) \<lparr>ss_agent_id = a, ss_fingerprint = fa\<rparr> \<lparr>ss_agent_id = b, ss_fingerprint = fb\<rparr> \<noteq> None}"

lemma load_sketches_iff:
  "load_submission_sketches fps ids i = Some s \<longleftrightarrow>
     i \<in> set ids \<and> (\<exists>f. map_of fps i = Some f \<and> s = \<lparr>ss_agent_id = i, ss_fingerprint = f\<rparr>)"
proof -
  have "map_of (map (\<lambda>(i, f). (i, \<lparr>ss_agent_id = i, ss_fingerprint = f\<rparr>)) (filter (\<lambda>(i, f). i \<in> set ids) fps)) i =
      (if i \<in> set ids then map_option (\<lambda>f. \<lparr>ss_agent_id = i, ss_fingerprint = f\<rparr>) (map_of fps i) else None)"
    by (induction fps) auto
  then show ?thesis by (auto simp: load_submission_sketches_def Let_def)
qed

lemma finite_live_leases: "finite (live_lease_agent_ids now d)"
  by (simp add: live_lease_agent_ids_def)

lemma set_map_filter: "set (List.map_filter f xs) = {y. \<exists>x \<in> set xs. f x = Some y}"
  by (induction xs) (auto simp: List.map_filter_simps split: option.splits)

lemma set_live_lease_sketches:
  "set (live_lease_sketches fps now [] d) =
     {\<lparr>ss_agent_id = b, ss_fingerprint = f\<rparr> | b f. b \<in> live_lease_agent_ids now d \<and> map_of fps b = Some f}"
  using finite_live_leases [of now d]
  by (auto simp: live_lease_sketches_def Let_def set_map_filter load_sketches_iff)

lemma same_budget_id: "same_budget pol left right = Some m \<Longrightarrow> sm_agent_id m = ss_agent_id right \<and> ss_agent_id left \<noteq> ss_agent_id right"
  by (auto simp: same_budget_def Let_def split: if_splits prod.splits)

lemma lease_twins_exact: "lease_twins (Some p) fps now d a = near_twins p fps now d a"
proof (cases "map_of fps a")
  case None
  then have "load_submission_sketches fps [a] a = None" using load_sketches_iff [of fps "[a]" a] by (cases "load_submission_sketches fps [a] a") auto
  with None show ?thesis by (simp add: lease_twins_def near_twins_def)
next
  case (Some fa)
  then have l: "load_submission_sketches fps [a] a = Some \<lparr>ss_agent_id = a, ss_fingerprint = fa\<rparr>" by (simp add: load_sketches_iff)
  show ?thesis
  proof (intro set_eqI iffI)
    fix b assume "b \<in> lease_twins (Some p) fps now d a"
    then obtain c fc m where c: "c \<in> live_lease_agent_ids now d" "map_of fps c = Some fc" "b = sm_agent_id m"
      "same_budget (Some p) \<lparr>ss_agent_id = a, ss_fingerprint = fa\<rparr> \<lparr>ss_agent_id = c, ss_fingerprint = fc\<rparr> = Some m"
      by (auto simp: lease_twins_def l similar_submissions_def set_map_filter set_live_lease_sketches)
    then have "b = c" using same_budget_id [OF c(4)] by simp
    with c show "b \<in> near_twins p fps now d a" by (auto simp: near_twins_def Some)
  next
    fix b assume "b \<in> near_twins p fps now d a"
    then obtain fb m where "b \<in> live_lease_agent_ids now d" "map_of fps b = Some fb"
      "same_budget (Some p) \<lparr>ss_agent_id = a, ss_fingerprint = fa\<rparr> \<lparr>ss_agent_id = b, ss_fingerprint = fb\<rparr> = Some m"
      by (auto simp: near_twins_def Some)
    moreover from this have "b = sm_agent_id m" "b \<noteq> a" using same_budget_id by fastforce+
    ultimately have "m \<in> set (similar_submissions (Some p) \<lparr>ss_agent_id = a, ss_fingerprint = fa\<rparr>
        (filter (\<lambda>s. ss_agent_id s \<noteq> a) (live_lease_sketches fps now [] d)))"
      unfolding similar_submissions_def set_sort set_map_filter set_filter set_live_lease_sketches by force
    then show "b \<in> lease_twins (Some p) fps now d a" using \<open>b = sm_agent_id m\<close> by (simp add: lease_twins_def l)
  qed
qed

lemma cached_origin:
  assumes "cache_ok c d cache" and "resolve_owner_linkage (ic_env c) b d = Some l"
    and "cached (advisory_lock_keys l) (facts_of c d l) cache = (f, cache')"
  shows "\<exists>b' m. resolve_owner_linkage (ic_env c) b' d = Some m \<and> f = facts_of c d m" and "cache_ok c d cache'"
proof -
  have "(\<exists>b' m. resolve_owner_linkage (ic_env c) b' d = Some m \<and> f = facts_of c d m) \<and> cache_ok c d cache'"
  proof (cases "map_of cache (advisory_lock_keys l)")
    case None
    have "cache_ok c d ((advisory_lock_keys l, facts_of c d l) # cache)" using assms(1,2) by (auto simp: cache_ok_def)
    moreover have "f = facts_of c d l" "cache' = (advisory_lock_keys l, facts_of c d l) # cache"
      using None assms(3) by (auto simp: cached_def)
    ultimately show ?thesis using assms(2) by blast
  next
    case (Some w)
    with assms(3) have "f = w" "cache' = cache" by (simp_all add: cached_def)
    moreover have "(advisory_lock_keys l, w) \<in> set cache" using Some by (rule map_of_SomeD)
    ultimately show ?thesis using assms(1) unfolding cache_ok_def by fast
  qed
  then show "\<exists>b' m. resolve_owner_linkage (ic_env c) b' d = Some m \<and> f = facts_of c d m" and "cache_ok c d cache'" by auto
qed

lemma select_candidate_gate:
  "cache_ok c d cache \<Longrightarrow> select_candidate c d locked n sk os lr rc cache = Some a \<Longrightarrow>
   \<exists>lr' m b. resolve_owner_linkage (ic_env c) b d = Some m \<and>
     owner_capacity_gate a (fst (facts_of c d m)) (snd (facts_of c d m)) (iq_owner_limit (ic_request c)) lr'
       (f_twins (ic_fleet c) a) (f_similarity_limit (ic_fleet c)) = None"
proof (induction c d locked n sk os lr rc cache rule: select_candidate.induct)
  case (1 c d locked n sk os lr rc cache)
  show ?case
  proof (cases "next_candidate c d (locked n) sk rc")
    case None
    then show ?thesis using "1.prems" "1.IH"(1) [OF None] by (simp add: select_candidate.simps [of c d locked n] split: if_splits)
  next
    case (Some ag)
    show ?thesis
    proof (cases "resolve_owner_linkage (ic_env c) (ag_agent_id ag) d")
      case None
      then show ?thesis using "1.prems" Some by (simp add: select_candidate.simps [of c d locked n])
    next
      case L: (Some l)
      obtain sel leased cache' where C: "cached (advisory_lock_keys l) (facts_of c d l) cache = ((sel, leased), cache')"
        by (metis prod.collapse)
      note C' = C [unfolded facts_of_def]
      note IH = "1.IH"(2-4) [OF Some L C' [symmetric] refl refl refl]
      obtain b m where m: "resolve_owner_linkage (ic_env c) b d = Some m" "(sel, leased) = facts_of c d m"
        using cached_origin(1) [OF "1.prems"(1) L C] by blast
      have ok: "cache_ok c d cache'" by (rule cached_origin(2) [OF "1.prems"(1) L C])
      let ?gate = "owner_capacity_gate (ag_agent_id ag) sel leased (iq_owner_limit (ic_request c)) lr
        (f_twins (ic_fleet c) (ag_agent_id ag)) (f_similarity_limit (ic_fleet c))"
      have sel: "fst (facts_of c d m) = sel" "snd (facts_of c d m) = leased" using m(2) by (metis fst_conv, metis snd_conv)
      consider "?gate = None" "a = ag_agent_id ag"
        | "?gate \<noteq> None" "select_candidate c d locked (n + 1) (sk @ [ag_agent_id ag])
            (if \<not> lr \<and> ?gate = Some Owner_Serialized then os @ [ag_agent_id ag] else os) lr rc cache' = Some a"
        | "\<not> ?gate \<noteq> None" "occupied_slots (ag_agent_id ag) (ic_version c) d \<ge> SCORING_QUORUM"
            "select_candidate c d locked (n + 1) (sk @ [ag_agent_id ag]) os lr rc cache' = Some a"
        | "\<not> ?gate \<noteq> None" "\<not> occupied_slots (ag_agent_id ag) (ic_version c) d \<ge> SCORING_QUORUM"
            "iq_completion_first (ic_request c) \<and>
               validator_blocked (iq_validator_hotkey (ic_request c)) (ic_version c) (iq_now (ic_request c)) (ag_agent_id ag) d"
            "select_candidate c d locked (n + 1) (sk @ [ag_agent_id ag]) os lr rc cache' = Some a"
        using "1.prems"(2) by (simp add: select_candidate.simps [of c d locked n] Some L C' Let_def split: if_splits)
      then show ?thesis
      proof cases
        case 1
        with m(1) sel show ?thesis by blast
      next
        case 2
        then show ?thesis using IH(1) ok by blast
      next
        case 3
        then show ?thesis using IH(2) ok by blast
      next
        case 4
        then show ?thesis using IH(3) ok by blast
      qed
    qed
  qed
qed


text \<open>The two submissions of \<open>duo_db\<close> with identical sketches, and a budget of two.\<close>

definition twin_policy :: similarity_budget_policy where
  "twin_policy = \<lparr>jaccard_threshold = 9 / 10, containment_threshold = 19 / 20, size_ratio_floor = 1 / 2, min_shingles = 1\<rparr>"

definition twin_sketches :: sketch_table where
  "twin_sketches = [(1, Some (demo_sketch 2 2 [''a'', ''b''])), (2, Some (demo_sketch 2 2 [''a'', ''b'']))]"

definition twin_context :: issue_context where
  "twin_context = duo_context\<lparr>ic_fleet := similarity_fleet {} (Some twin_policy) 2 twin_sketches 50 duo_db\<rparr>"

lemma twin_select: "select_candidate twin_context duo_db (\<lambda>_ _. False) 0 [] [] False None [] = Some 2"
  by code_simp


end
