(* ===== verification/Koth.thy ===== *)
theory Koth
  imports Queue_Order "HOL-Library.Multiset"
begin

text \<open>
  The order submissions are ranked in and the king-of-the-hill fold over it: \<open>ditto/score_order.py\<close>,
  \<open>ditto/api_server/koth.py\<close>, the pure part of \<open>ditto/db/queries/score_ranking.py\<close> and the score floors of
  \<open>ditto/db/queries/tickets.py\<close>. A float the code tests with \<open>math.isfinite\<close> is a \<open>pyfloat\<close>, any
  other a \<open>real\<close>; rounding is not modelled, \<open>math.sqrt\<close> and \<open>math.exp\<close> are the functions on reals.
\<close>

subsection \<open>The canonical order\<close>

record rankable =
  rk_agent_id :: uuid
  rk_first_seen :: time
  rk_composite :: real
  rk_eligible :: "bool option"

type_synonym score_order_key = "bool \<times> real \<times> time \<times> uuid"

definition score_order_key :: "rankable \<Rightarrow> real option \<Rightarrow> score_order_key" where
  "score_order_key row s =
     (\<not> (case rk_eligible row of None \<Rightarrow> True | Some e \<Rightarrow> e),
      - (case s of None \<Rightarrow> rk_composite row | Some x \<Rightarrow> x),
      rk_first_seen row, rk_agent_id row)"

text \<open>
  The \<open>ORDER BY\<close> of the ledger read, as the comparison of two rows on the columns in turn: a column is compared, and
  only on equality the next one decides.
\<close>

datatype sort_direction = Ascending | Descending

definition order_term :: "sort_direction \<Rightarrow> ('r \<Rightarrow> 'k :: linorder) \<Rightarrow> ('r \<Rightarrow> 'r \<Rightarrow> bool) \<Rightarrow> 'r \<Rightarrow> 'r \<Rightarrow> bool" where
  "order_term dir col next a b \<longleftrightarrow>
     (case dir of Ascending \<Rightarrow> col a < col b | Descending \<Rightarrow> col a > col b) \<or> (col a = col b \<and> next a b)"

definition score_order_terms :: "('r \<Rightarrow> bool) \<Rightarrow> ('r \<Rightarrow> real) \<Rightarrow> ('r \<Rightarrow> time) \<Rightarrow> ('r \<Rightarrow> uuid) \<Rightarrow> 'r \<Rightarrow> 'r \<Rightarrow> bool" where
  "score_order_terms eligible composite first_seen agent_id =
     order_term Descending eligible (order_term Descending composite (order_term Ascending first_seen
       (order_term Ascending agent_id (\<lambda>_ _. True))))"

text \<open>A row type is ranked through its projection to the columns the comparator reads.\<close>

definition rank_submissions :: "('r \<Rightarrow> rankable) \<Rightarrow> (uuid \<rightharpoonup> real) \<Rightarrow> 'r list \<Rightarrow> 'r list" where
  "rank_submissions proj scores rows =
     sort_key (\<lambda>r. score_order_key (proj r) (scores (rk_agent_id (proj r)))) rows"

subsection \<open>Entries of the fold\<close>

definition KOTH_MARGIN :: real where "KOTH_MARGIN = 7 / 1000"
definition KOTH_BAND_DECAY_MIN_BENCH_VERSION :: int where "KOTH_BAND_DECAY_MIN_BENCH_VERSION = 6"
definition KOTH_BAND_DECAY_START_COMPOSITE :: real where "KOTH_BAND_DECAY_START_COMPOSITE = 60 / 100"
definition KOTH_BAND_DECAY_RATE :: real where "KOTH_BAND_DECAY_RATE = 2"
definition KOTH_TAIL_SIZE :: nat where "KOTH_TAIL_SIZE = 4"
definition KOTH_DETHRONE_Z :: real where "KOTH_DETHRONE_Z = 164 / 100"
definition BLOCKS_PER_TEMPO :: int where "BLOCKS_PER_TEMPO = 360"

datatype pyfloat = Finite real | NonFinite

datatype pyval = Py_None | Py_Bool bool | Py_Num pyfloat

record koth_entry =
  ke_miner_hotkey :: hotkey
  ke_agent_id :: uuid
  ke_composite :: real
  ke_first_seen :: time
  ke_raw_rank :: int
  ke_bench_version :: int
  ke_composite_stderr :: "pyfloat option"
  ke_quorum_composites :: "pyfloat list option"
  ke_completed_wave_composites :: "pyfloat list option"
  ke_confirmation_composites :: "pyfloat list option"
  ke_confirmation_seeds :: "int list option"
  ke_efficiency_bonus :: pyval

definition entry_row :: "koth_entry \<Rightarrow> rankable" where
  "entry_row e = \<lparr>rk_agent_id = ke_agent_id e, rk_first_seen = ke_first_seen e, rk_composite = ke_composite e, rk_eligible = None\<rparr>"

text \<open>The values of a list of which each is finite and a score between 0 and 1.\<close>

fun score_values :: "pyfloat list \<Rightarrow> real list option" where
  "score_values [] = Some []"
| "score_values (Finite x # rest) = (if 0 \<le> x \<and> x \<le> 1 then map_option (\<lambda>xs. x # xs) (score_values rest) else None)"
| "score_values (NonFinite # rest) = None"

definition validated_composites :: "pyfloat list option \<Rightarrow> nat \<Rightarrow> real list option" where
  "validated_composites values minimum =
     (case values of None \<Rightarrow> None | Some vs \<Rightarrow> if length vs < minimum then None else score_values vs)"

definition confirmations :: "koth_entry \<Rightarrow> real list option" where
  "confirmations e = (case ke_confirmation_composites e of None \<Rightarrow> None | Some vs \<Rightarrow> if length vs < 2 then None else score_values vs)"

definition efficiency_multiplier :: "koth_entry \<Rightarrow> real" where
  "efficiency_multiplier e =
     (case ke_efficiency_bonus e of
        Py_Num (Finite bonus) \<Rightarrow> if 0 \<le> bonus \<and> bonus \<le> 1 / 10 then 1 + bonus else 1
      | _ \<Rightarrow> 1)"

definition mean :: "real list \<Rightarrow> real" where
  "mean xs = sum_list xs / of_nat (length xs)"

definition middle :: "real list \<Rightarrow> real" where
  "middle values =
     (let ordered = sort values; midpoint = length ordered div 2 in
      if odd (length ordered) then ordered ! midpoint else (ordered ! (midpoint - 1) + ordered ! midpoint) / 2)"

definition continual_composite :: "koth_entry \<Rightarrow> real" where
  "continual_composite e =
     (case (validated_composites (ke_quorum_composites e) 3, validated_composites (ke_completed_wave_composites e) 1) of
        (Some quorum, Some waves) \<Rightarrow>
          if length quorum = 3 then mean (quorum @ waves)
          else (case confirmations e of None \<Rightarrow> ke_composite e | Some values \<Rightarrow> middle values)
      | _ \<Rightarrow> (case confirmations e of None \<Rightarrow> ke_composite e | Some values \<Rightarrow> middle values))"

definition effective_composite :: "koth_entry \<Rightarrow> real" where
  "effective_composite e = continual_composite e * efficiency_multiplier e"

definition stderr_of :: "koth_entry \<Rightarrow> real option" where
  "stderr_of e = (case ke_composite_stderr e of Some (Finite v) \<Rightarrow> if 0 \<le> v then Some v else None | _ \<Rightarrow> None)"

definition official_scores :: "koth_entry list \<Rightarrow> uuid \<rightharpoonup> real" where
  "official_scores entries = map_of (rev (map (\<lambda>e. (ke_agent_id e, effective_composite e)) entries))"

subsection \<open>Who dethrones whom\<close>

text \<open>The scores by seed; \<open>None\<close> when a seed is negative or repeated.\<close>

fun by_seed :: "(int \<times> real) list \<Rightarrow> (int \<times> real) list \<Rightarrow> (int \<times> real) list option" where
  "by_seed out [] = Some out"
| "by_seed out ((seed, composite) # rest) =
     (if seed < 0 \<or> seed \<in> fst ` set out then None else by_seed (out @ [(seed, composite)]) rest)"

definition seed_composites :: "koth_entry \<Rightarrow> (int \<times> real) list option" where
  "seed_composites e =
     (case (confirmations e, ke_confirmation_seeds e) of
        (Some composites, Some seeds) \<Rightarrow> if length seeds \<noteq> length composites then None else by_seed [] (zip seeds composites)
      | _ \<Rightarrow> None)"

definition seed_score :: "(int \<times> real) list \<Rightarrow> int \<Rightarrow> real" where
  "seed_score m seed = the (map_of m seed)"

definition paired_statistic :: "koth_entry \<Rightarrow> koth_entry \<Rightarrow> (real \<times> real \<times> real) option" where
  "paired_statistic challenger champion =
     (case (seed_composites challenger, seed_composites champion) of
        (Some cs, Some ks) \<Rightarrow>
          (let shared = sorted_list_of_set (fst ` set cs \<inter> fst ` set ks) in
           if length shared < 2 then None
           else
             (let cm = efficiency_multiplier challenger; km = efficiency_multiplier champion;
                  differences = map (\<lambda>seed. seed_score cs seed * cm - seed_score ks seed * km) shared;
                  champion_reference = mean (map (\<lambda>seed. seed_score ks seed * km) shared);
                  mean_difference = mean differences;
                  variance = sum_list (map (\<lambda>x. (x - mean_difference)\<^sup>2) differences) / of_nat (length differences - 1)
              in Some (mean_difference, champion_reference, sqrt (variance / of_nat (length differences)))))
      | _ \<Rightarrow> None)"

definition dethrone_band_scale :: "koth_entry \<Rightarrow> koth_entry \<Rightarrow> real \<Rightarrow> real" where
  "dethrone_band_scale challenger champion champion_composite =
     (if min (ke_bench_version challenger) (ke_bench_version champion) < KOTH_BAND_DECAY_MIN_BENCH_VERSION then 1
      else exp (- KOTH_BAND_DECAY_RATE *
             (min (max champion_composite KOTH_BAND_DECAY_START_COMPOSITE) 1 - KOTH_BAND_DECAY_START_COMPOSITE)))"

datatype dethrone_method = Flat | Unpaired | Paired

record dethrone_decision =
  dd_challenger_lead :: real
  dd_required_lead :: real
  dd_margin_lead :: real
  dd_statistical_lead :: "real option"
  dd_method :: dethrone_method
  dd_dethrones :: bool

definition dethrone_decision :: "koth_entry \<Rightarrow> koth_entry \<Rightarrow> dethrone_decision" where
  "dethrone_decision challenger champion =
     (case paired_statistic challenger champion of
        Some (lead, champion_reference, standard_error) \<Rightarrow>
          (let statistical = KOTH_DETHRONE_Z * standard_error;
               required = max KOTH_MARGIN statistical * dethrone_band_scale challenger champion champion_reference
           in \<lparr>dd_challenger_lead = lead, dd_required_lead = required, dd_margin_lead = KOTH_MARGIN,
               dd_statistical_lead = Some statistical, dd_method = Paired,
               dd_dethrones = (champion_reference + lead > champion_reference + required)\<rparr>)
      | None \<Rightarrow>
          (let challenger_composite = effective_composite challenger; champion_composite = effective_composite champion;
               statistical =
                 (case (stderr_of challenger, stderr_of champion) of
                    (Some se1, Some se2) \<Rightarrow>
                      Some (KOTH_DETHRONE_Z * sqrt ((se1 * efficiency_multiplier challenger)\<^sup>2 + (se2 * efficiency_multiplier champion)\<^sup>2))
                  | _ \<Rightarrow> None);
               required = max KOTH_MARGIN (case statistical of Some s \<Rightarrow> s | None \<Rightarrow> KOTH_MARGIN) *
                 dethrone_band_scale challenger champion champion_composite
           in \<lparr>dd_challenger_lead = challenger_composite - champion_composite, dd_required_lead = required,
               dd_margin_lead = KOTH_MARGIN, dd_statistical_lead = statistical,
               dd_method = (if statistical = None then Flat else Unpaired),
               dd_dethrones = (challenger_composite > champion_composite + required)\<rparr>))"

subsection \<open>The projection\<close>

record koth_projection =
  kp_champion :: koth_entry
  kp_tail :: "koth_entry list"
  kp_raw_leader :: koth_entry
  kp_raw_leader_decision :: "dethrone_decision option"

definition succession :: "koth_entry list \<Rightarrow> koth_entry \<Rightarrow> koth_entry" where
  "succession challengers champion =
     foldl (\<lambda>champ challenger. if dd_dethrones (dethrone_decision challenger champ) then challenger else champ) champion challengers"

definition project_koth :: "koth_entry list \<Rightarrow> koth_projection option" where
  "project_koth entries =
     (let scored = filter (\<lambda>e. ke_composite e > 0) entries in
      case sort_key (\<lambda>e. (ke_first_seen e, ke_agent_id e)) scored of
        [] \<Rightarrow> None
      | first # challengers \<Rightarrow>
          (let champion = succession challengers first; official = official_scores scored;
               raw_leader = hd (rank_submissions entry_row official scored)
           in Some \<lparr>kp_champion = champion,
                kp_tail = take KOTH_TAIL_SIZE (rank_submissions entry_row official
                            (filter (\<lambda>e. ke_miner_hotkey e \<noteq> ke_miner_hotkey champion) scored)),
                kp_raw_leader = raw_leader,
                kp_raw_leader_decision =
                  (if ke_agent_id raw_leader = ke_agent_id champion then None
                   else Some (dethrone_decision raw_leader champion))\<rparr>))"

fun add_unseen :: "uuid set \<Rightarrow> koth_entry list \<Rightarrow> koth_entry list" where
  "add_unseen seen [] = []"
| "add_unseen seen (e # rest) =
     (if ke_agent_id e \<in> seen then add_unseen seen rest else e # add_unseen (insert (ke_agent_id e) seen) rest)"

definition emission_set :: "koth_projection option \<Rightarrow> koth_entry list" where
  "emission_set projection =
     (case projection of None \<Rightarrow> []
      | Some p \<Rightarrow> kp_champion p # add_unseen {ke_agent_id (kp_champion p)} (kp_tail p))"

definition indistinguishable_from :: "koth_entry \<Rightarrow> koth_entry \<Rightarrow> real \<Rightarrow> bool" where
  "indistinguishable_from candidate cutoff tolerance_z =
     (let gap = effective_composite cutoff - effective_composite candidate in
      if gap \<le> 0 then True
      else let se1 = (case stderr_of candidate of Some v \<Rightarrow> v | None \<Rightarrow> 0);
               se2 = (case stderr_of cutoff of Some v \<Rightarrow> v | None \<Rightarrow> 0)
           in gap \<le> tolerance_z * sqrt (se1\<^sup>2 + se2\<^sup>2))"

text \<open>The loop of \<open>retest_cohort\<close>; the break is the end of the recursion.\<close>

fun cohort_loop ::
  "nat \<Rightarrow> nat \<Rightarrow> real \<Rightarrow> uuid set \<Rightarrow> koth_entry list \<Rightarrow> koth_entry option \<Rightarrow> koth_entry list \<Rightarrow> koth_entry list" where
  "cohort_loop base_size ceiling_size tolerance_z seen members cutoff [] = members"
| "cohort_loop base_size ceiling_size tolerance_z seen members cutoff (e # rest) =
     (if ke_agent_id e \<in> seen then cohort_loop base_size ceiling_size tolerance_z seen members cutoff rest
      else if length members \<ge> ceiling_size then members
      else if length members \<ge> base_size \<and>
              (case cutoff of None \<Rightarrow> True | Some c \<Rightarrow> \<not> indistinguishable_from e c tolerance_z) then members
      else cohort_loop base_size ceiling_size tolerance_z (insert (ke_agent_id e) seen) (members @ [e])
             (if length (members @ [e]) = base_size then Some e else cutoff) rest)"

definition retest_cohort :: "koth_entry list \<Rightarrow> koth_projection option \<Rightarrow> int \<Rightarrow> int option \<Rightarrow> real \<Rightarrow> koth_entry list" where
  "retest_cohort entries projection cohort_size max_size tolerance_z =
     (case projection of None \<Rightarrow> []
      | Some p \<Rightarrow>
        (let champion = kp_champion p;
             ranked = rank_submissions entry_row (official_scores entries)
               (filter (\<lambda>e. ke_composite e > 0 \<and> ke_miner_hotkey e \<noteq> ke_miner_hotkey champion) entries);
             base_size = max 1 cohort_size;
             ceiling_size = (case max_size of None \<Rightarrow> base_size | Some m \<Rightarrow> max base_size m)
         in cohort_loop (nat base_size) (nat ceiling_size) tolerance_z {ke_agent_id champion} [champion] None ranked))"

subsection \<open>When a round is due\<close>

definition tempo_index :: "int \<Rightarrow> int" where
  "tempo_index block_number = block_number div BLOCKS_PER_TEMPO"

definition round_interval :: "int \<Rightarrow> int \<Rightarrow> int \<Rightarrow> int \<Rightarrow> int" where
  "round_interval base period step_cap scheduled = min (base * 2 ^ nat (scheduled div period)) step_cap"

lemma round_interval_bounds:
  assumes "0 < base" and "base \<le> step_cap"
  shows "base \<le> round_interval base period step_cap s" and "round_interval base period step_cap s \<le> step_cap"
proof -
  have "base * 1 \<le> base * 2 ^ nat (s div period)" using assms(1) by (intro mult_left_mono) simp_all
  with assms(2) show "base \<le> round_interval base period step_cap s" by (simp add: round_interval_def)
qed (simp add: round_interval_def)

text \<open>The loop is entered with a positive base only, which is what makes it advance.\<close>

function next_scheduled :: "int \<Rightarrow> int \<Rightarrow> int \<Rightarrow> int \<Rightarrow> int \<Rightarrow> int" where
  "next_scheduled base period step_cap reign_tempo scheduled =
     (if 0 < base \<and> base \<le> step_cap \<and> scheduled < reign_tempo then
        next_scheduled base period step_cap reign_tempo (scheduled + round_interval base period step_cap scheduled)
      else scheduled)"
  by pat_completeness auto

termination
proof (relation "measure (\<lambda>(base, period, step_cap, reign, scheduled). nat (reign - scheduled))")
  fix base period step_cap reign scheduled :: int
  assume "0 < base \<and> base \<le> step_cap \<and> scheduled < reign"
  then show "((base, period, step_cap, reign, scheduled + round_interval base period step_cap scheduled),
      base, period, step_cap, reign, scheduled) \<in> measure (\<lambda>(base, period, step_cap, reign, scheduled). nat (reign - scheduled))"
    using round_interval_bounds(1) [of base step_cap period scheduled] by simp
qed simp

declare next_scheduled.simps [simp del]

definition top5_round_is_due :: "int \<Rightarrow> int \<Rightarrow> int \<Rightarrow> int \<Rightarrow> int \<Rightarrow> bool" where
  "top5_round_is_due current_block crown_block base doubling_k cap =
     (if base \<le> 0 then False
      else let step_cap = max base cap; period = max 1 doubling_k;
               reign_tempo = max 0 (current_block - crown_block) div BLOCKS_PER_TEMPO
           in next_scheduled base period step_cap reign_tempo 0 = reign_tempo)"

subsection \<open>The score every surface cuts on\<close>

record finalized_row =
  fr_agent_id :: uuid
  fr_miner_hotkey :: hotkey
  fr_first_seen :: time
  fr_composite :: real
  fr_bench_version :: int
  fr_eligible :: "bool option"

definition final_row :: "finalized_row \<Rightarrow> rankable" where
  "final_row r = \<lparr>rk_agent_id = fr_agent_id r, rk_first_seen = fr_first_seen r, rk_composite = fr_composite r, rk_eligible = fr_eligible r\<rparr>"

text \<open>A dict of samples by seed is the list of its items.\<close>

definition official_entry ::
  "finalized_row \<Rightarrow> (uuid \<rightharpoonup> pyfloat list) \<Rightarrow> (uuid \<rightharpoonup> (int \<times> pyfloat) list) \<Rightarrow> (uuid \<rightharpoonup> pyval) \<Rightarrow> bool \<Rightarrow> koth_entry" where
  "official_entry row quorum waves bonuses fold_active =
     \<lparr>ke_miner_hotkey = fr_miner_hotkey row, ke_agent_id = fr_agent_id row, ke_composite = fr_composite row,
      ke_first_seen = fr_first_seen row, ke_raw_rank = 0, ke_bench_version = fr_bench_version row,
      ke_composite_stderr = None,
      ke_quorum_composites = Some (case quorum (fr_agent_id row) of None \<Rightarrow> [] | Some q \<Rightarrow> q),
      ke_completed_wave_composites =
        Some (map snd (sort_key fst (case waves (fr_agent_id row) of None \<Rightarrow> [] | Some w \<Rightarrow> w))),
      ke_confirmation_composites = None, ke_confirmation_seeds = None,
      ke_efficiency_bonus =
        (if fold_active then (case bonuses (fr_agent_id row) of None \<Rightarrow> Py_None | Some b \<Rightarrow> b) else Py_None)\<rparr>"

definition official_composites ::
  "finalized_row list \<Rightarrow> (uuid \<rightharpoonup> pyfloat list) \<Rightarrow> (uuid \<rightharpoonup> (int \<times> pyfloat) list) \<Rightarrow> bool \<Rightarrow> (uuid \<rightharpoonup> pyval) \<Rightarrow> bool \<Rightarrow> uuid \<rightharpoonup> real" where
  "official_composites rows quorum waves continual_active bonuses fold_active =
     (if \<not> continual_active \<and> \<not> fold_active then map_of (rev (map (\<lambda>r. (fr_agent_id r, fr_composite r)) rows))
      else map_of (rev (map (\<lambda>r. (fr_agent_id r, effective_composite (official_entry r quorum waves bonuses fold_active))) rows)))"

definition completed_wave_data ::
  "finalized_row list \<Rightarrow> (uuid \<rightharpoonup> (int \<times> pyfloat) list) \<Rightarrow> (uuid \<rightharpoonup> nat) \<Rightarrow>
   finalized_row list \<times> (uuid \<rightharpoonup> (int \<times> pyfloat) list) \<times> (uuid \<rightharpoonup> nat)" where
  "completed_wave_data rows samples depth =
     (rank_submissions final_row Map.empty
        (filter (\<lambda>r. (case fr_eligible r of None \<Rightarrow> True | Some e \<Rightarrow> e) \<and> fr_composite r > 0) rows),
      samples,
      (\<lambda>a. case samples a of Some seeds \<Rightarrow> Some (length seeds) | None \<Rightarrow> map_option (\<lambda>_. 0) (depth a)))"

subsection \<open>The score floors\<close>

record score_floor =
  sf_row :: finalized_row
  sf_score :: real

text \<open>The floors cut from the rows of the eligible ledger, given the official score of each.\<close>

definition floor_at :: "finalized_row list \<Rightarrow> (uuid \<rightharpoonup> real) \<Rightarrow> nat \<Rightarrow> score_floor option" where
  "floor_at ranked official position =
     (if length ranked < position then None
      else let row = ranked ! (position - 1) in
        Some \<lparr>sf_row = row, sf_score = (case official (fr_agent_id row) of Some s \<Rightarrow> s | None \<Rightarrow> fr_composite row)\<rparr>)"

definition get_score_priority_floor_rows ::
  "finalized_row list \<Rightarrow> (uuid \<rightharpoonup> real) \<Rightarrow> score_floor option \<times> score_floor option" where
  "get_score_priority_floor_rows ledger official =
     (let eligible = filter (\<lambda>r. fr_eligible r = Some True) ledger in
      if length eligible < EMISSION_CONTENDER_COUNT then (None, None)
      else let ranked = rank_submissions final_row official eligible in
        (floor_at ranked official EMISSION_CONTENDER_COUNT, floor_at ranked official PROVISIONAL_CONTENDER_LANE_SIZE))"

definition get_score_priority_floors :: "finalized_row list \<Rightarrow> (uuid \<rightharpoonup> real) \<Rightarrow> real option \<times> real option" where
  "get_score_priority_floors ledger official =
     (case get_score_priority_floor_rows ledger official of
        (continuation, provisional) \<Rightarrow> (map_option sf_score continuation, map_option sf_score provisional))"

subsection \<open>One order in two languages\<close>

lemma score_order_terms_iff:
  "score_order_terms eligible composite first_seen agent_id a b \<longleftrightarrow>
     (\<not> eligible a, - composite a, first_seen a, agent_id a) \<le> (\<not> eligible b, - composite b, first_seen b, agent_id b)"
  by (auto simp: score_order_terms_def order_term_def less_eq_prod_def)

definition eligible_col :: "rankable \<Rightarrow> bool" where
  "eligible_col r = (case rk_eligible r of None \<Rightarrow> True | Some e \<Rightarrow> e)"

definition score_col :: "(uuid \<rightharpoonup> real) \<Rightarrow> rankable \<Rightarrow> real" where
  "score_col scores r = (case scores (rk_agent_id r) of None \<Rightarrow> rk_composite r | Some x \<Rightarrow> x)"

lemma score_order_key_alt:
  "score_order_key r (scores (rk_agent_id r)) = (\<not> eligible_col r, - score_col scores r, rk_first_seen r, rk_agent_id r)"
  by (simp add: score_order_key_def eligible_col_def score_col_def)

lemma sorted_wrt_key: "sorted_wrt (\<lambda>a b. (f a :: 'k :: linorder) \<le> f b) xs \<longleftrightarrow> sorted (map f xs)"
  by (simp add: sorted_map)

text \<open>
  Every surface sees one ranking: any listing of the same rows that the database could return under the
  \<open>ORDER BY\<close> form of the comparator is the list the Python form computes, so two readers of one ledger never see
  two different fifth places.
\<close>

theorem canonical_order_unique:
  assumes "distinct (map (\<lambda>r. rk_agent_id (proj r)) rows)" and "mset rows' = mset rows"
    and "sorted_wrt (score_order_terms (\<lambda>r. eligible_col (proj r)) (\<lambda>r. score_col scores (proj r))
           (\<lambda>r. rk_first_seen (proj r)) (\<lambda>r. rk_agent_id (proj r))) rows'"
  shows "rows' = rank_submissions proj scores rows"
proof -
  let ?key = "\<lambda>r. score_order_key (proj r) (scores (rk_agent_id (proj r)))"
  have "inj_on ?key (set rows)"
    using assms(1) by (auto simp: distinct_map inj_on_def score_order_key_def)
  moreover have "sorted (map ?key rows')"
    using assms(3) unfolding score_order_terms_iff score_order_key_alt [symmetric] by (simp add: sorted_map)
  ultimately show ?thesis unfolding rank_submissions_def
    using assms(2) by (intro sort_key_inj_key_eq [symmetric]) simp_all
qed

definition demo_row :: "uuid \<Rightarrow> real \<Rightarrow> rankable" where
  "demo_row i c = \<lparr>rk_agent_id = i, rk_first_seen = int i, rk_composite = c, rk_eligible = None\<rparr>"

theorem canonical_order_unique_witness:
  "[demo_row 1 (4 / 5), demo_row 2 (1 / 2)] = rank_submissions (\<lambda>r. r) Map.empty [demo_row 2 (1 / 2), demo_row 1 (4 / 5)]"
  by (rule canonical_order_unique)
    (simp_all add: demo_row_def score_order_terms_iff eligible_col_def score_col_def)

subsection \<open>Dethroning\<close>

lemma band_scale_pos: "0 < dethrone_band_scale a b x"
  by (simp add: dethrone_band_scale_def)

lemma band_scale_bounds: "exp (- (4 / 5)) \<le> dethrone_band_scale a b x \<and> dethrone_band_scale a b x \<le> 1"
proof -
  have e: "exp (- (4 / 5)) \<le> (1 :: real)" by simp
  define y where "y = min (max x (60 / 100)) (1 :: real) - 60 / 100"
  have "0 \<le> y" "y \<le> 40 / 100" by (auto simp: y_def)
  then have "exp (- (4 / 5)) \<le> exp (- 2 * y) \<and> exp (- 2 * y) \<le> 1" by simp
  with e show ?thesis
    by (auto simp: dethrone_band_scale_def KOTH_BAND_DECAY_RATE_def KOTH_BAND_DECAY_START_COMPOSITE_def y_def)
qed

lemma required_lead_bound: "7 / 1000 * exp (- (4 / 5)) \<le> dd_required_lead (dethrone_decision a b)"
proof -
  have "7 / 1000 * exp (- (4 / 5)) \<le> max KOTH_MARGIN s * dethrone_band_scale a b x" for s x
    using band_scale_bounds [of a b x] band_scale_pos [of a b x]
    by (intro mult_mono) (auto simp: KOTH_MARGIN_def max_def)
  then show ?thesis by (auto simp: dethrone_decision_def Let_def split: option.splits)
qed

lemma required_lead_pos: "0 < dd_required_lead (dethrone_decision a b)"
  using required_lead_bound [of a b] exp_gt_zero [of "- (4 / 5) :: real"] by linarith

lemma dethrones_iff: "dd_dethrones (dethrone_decision a b) \<longleftrightarrow> dd_required_lead (dethrone_decision a b) < dd_challenger_lead (dethrone_decision a b)"
  by (auto simp: dethrone_decision_def Let_def split: option.splits)

lemma sum_list_uminus: "sum_list (map (\<lambda>x. - f x) xs) = - sum_list (map f xs :: real list)"
  by (induction xs) auto

lemma mean_uminus: "mean (map (\<lambda>x. - f x) xs) = - mean (map f xs)"
  by (simp add: mean_def sum_list_uminus)

lemma paired_lead_flip:
  assumes "paired_statistic a b = Some (lead, reference, se)"
  obtains reference' se' where "paired_statistic b a = Some (- lead, reference', se')"
proof -
  from assms obtain cs ks where s: "seed_composites a = Some cs" "seed_composites b = Some ks"
    by (auto simp: paired_statistic_def split: option.splits)
  let ?shared = "sorted_list_of_set (fst ` set cs \<inter> fst ` set ks)"
  let ?d = "\<lambda>seed. seed_score cs seed * efficiency_multiplier a - seed_score ks seed * efficiency_multiplier b"
  have l: "\<not> length ?shared < 2" "lead = mean (map ?d ?shared)"
    using assms s by (auto simp: paired_statistic_def Let_def split: if_splits)
  have "mean (map (\<lambda>seed. seed_score ks seed * efficiency_multiplier b - seed_score cs seed * efficiency_multiplier a) ?shared) = - lead"
    unfolding l(2) mean_uminus [symmetric] by (simp add: algebra_simps)
  then show thesis using that l(1) s by (simp add: paired_statistic_def Let_def Int_commute)
qed

lemma lead_flip: "dd_challenger_lead (dethrone_decision b a) = - dd_challenger_lead (dethrone_decision a b)"
proof (cases "paired_statistic a b")
  case None
  have "paired_statistic b a = None"
  proof (cases "paired_statistic b a")
    case (Some t)
    then obtain lead r se where "paired_statistic b a = Some (lead, r, se)" by (metis prod_cases3)
    with paired_lead_flip None show ?thesis by (metis option.distinct(1))
  qed
  with None show ?thesis by (simp add: dethrone_decision_def Let_def)
next
  case (Some t)
  obtain lead r se where "t = (lead, r, se)" by (metis prod_cases3)
  with Some obtain r' se' where "paired_statistic b a = Some (- lead, r', se')" using paired_lead_flip by metis
  with Some \<open>t = _\<close> show ?thesis by (simp add: dethrone_decision_def Let_def)
qed

text \<open>
  A crown never oscillates between two entries on the same evidence: if one dethrones the other then not the other
  way round, no entry dethrones itself, and whoever dethrones leads by more than the margin at its narrowest,
  \<open>0.007\<close> shrunk by the full band decay.
\<close>

theorem dethrone_asymmetric:
  assumes "dd_dethrones (dethrone_decision a b)"
  shows "\<not> dd_dethrones (dethrone_decision b a) \<and> a \<noteq> b \<and>
    7 / 1000 * exp (- (4 / 5)) < dd_challenger_lead (dethrone_decision a b)"
proof -
  have lead: "dd_required_lead (dethrone_decision a b) < dd_challenger_lead (dethrone_decision a b)"
    using assms by (simp add: dethrones_iff)
  have "\<not> dd_dethrones (dethrone_decision b a)"
    using lead required_lead_pos [of a b] required_lead_pos [of b a] lead_flip [of b a] by (simp add: dethrones_iff)
  moreover have "a \<noteq> b" using calculation assms by auto
  ultimately show ?thesis using lead required_lead_bound [of a b] by simp
qed

definition demo_entry :: "uuid \<Rightarrow> hotkey \<Rightarrow> time \<Rightarrow> real \<Rightarrow> koth_entry" where
  "demo_entry i h t c = \<lparr>ke_miner_hotkey = h, ke_agent_id = i, ke_composite = c, ke_first_seen = t, ke_raw_rank = 1,
     ke_bench_version = 1, ke_composite_stderr = None, ke_quorum_composites = None, ke_completed_wave_composites = None,
     ke_confirmation_composites = None, ke_confirmation_seeds = None, ke_efficiency_bonus = Py_None\<rparr>"

lemmas demo_koth_defs = demo_entry_def dethrone_decision_def paired_statistic_def seed_composites_def confirmations_def
  effective_composite_def continual_composite_def validated_composites_def efficiency_multiplier_def stderr_of_def
  dethrone_band_scale_def KOTH_MARGIN_def KOTH_BAND_DECAY_MIN_BENCH_VERSION_def

lemma demo_dethrones: "dd_dethrones (dethrone_decision (demo_entry 2 ''h2'' 2 (3 / 4)) (demo_entry 1 ''h1'' 1 (1 / 2)))"
  by (simp add: demo_koth_defs Let_def)

theorem dethrone_asymmetric_witness:
  "\<not> dd_dethrones (dethrone_decision (demo_entry 1 ''h1'' 1 (1 / 2)) (demo_entry 2 ''h2'' 2 (3 / 4)))"
  using dethrone_asymmetric [OF demo_dethrones] by blast

subsection \<open>Succession\<close>

lemma succession_append: "succession (xs @ [e]) champion =
    (if dd_dethrones (dethrone_decision e (succession xs champion)) then e else succession xs champion)"
  by (simp add: succession_def)

lemma succession_in: "succession xs champion \<in> insert champion (set xs)"
  by (induction xs rule: rev_induct) (auto simp: succession_append, simp add: succession_def)

definition age_key :: "koth_entry \<Rightarrow> time \<times> uuid" where
  "age_key e = (ke_first_seen e, ke_agent_id e)"

lemma inj_on_age_key: "distinct (map ke_agent_id es) \<Longrightarrow> inj_on age_key (set es)"
  unfolding distinct_map by (auto simp: age_key_def intro!: inj_onI dest: inj_onD)

lemma project_kothE:
  assumes "project_koth entries = Some p"
  obtains first challengers where
    "sort_key age_key (filter (\<lambda>e. ke_composite e > 0) entries) = first # challengers"
    "kp_champion p = succession challengers first"
    "kp_tail p = take KOTH_TAIL_SIZE (rank_submissions entry_row (official_scores (filter (\<lambda>e. ke_composite e > 0) entries))
       (filter (\<lambda>e. ke_miner_hotkey e \<noteq> ke_miner_hotkey (kp_champion p)) (filter (\<lambda>e. ke_composite e > 0) entries)))"
proof (cases "sort_key age_key (filter (\<lambda>e. ke_composite e > 0) entries)")
  case Nil
  with assms show thesis unfolding project_koth_def age_key_def [abs_def, symmetric] Let_def by simp
next
  case (Cons first challengers)
  with assms show thesis unfolding project_koth_def age_key_def [abs_def, symmetric] Let_def by (intro that) auto
qed

lemma champion_in: "project_koth entries = Some p \<Longrightarrow> kp_champion p \<in> set entries \<and> 0 < ke_composite (kp_champion p)"
proof -
  assume "project_koth entries = Some p"
  then obtain first challengers where s: "sort_key age_key (filter (\<lambda>e. ke_composite e > 0) entries) = first # challengers"
    and c: "kp_champion p = succession challengers first"
    by (rule project_kothE)
  have "kp_champion p \<in> set (first # challengers)" unfolding c using succession_in [of challengers first] by simp
  then show ?thesis unfolding s [symmetric] by simp
qed



subsection \<open>The retest cohort\<close>

text \<open>
  On a listing whose agents are new and distinct the loop takes a prefix: the fixed ranks first, then the ones it cannot tell from
  the cutoff.
\<close>

definition extends_cohort :: "nat \<Rightarrow> nat \<Rightarrow> real \<Rightarrow> koth_entry list \<Rightarrow> koth_entry list \<Rightarrow> bool" where
  "extends_cohort base most z members result \<longleftrightarrow>
     length result \<le> most \<and>
     (\<forall>i. base \<le> i \<and> length members \<le> i \<and> i < length result \<longrightarrow> indistinguishable_from (result ! i) (result ! (base - 1)) z)"

lemma cohort_loop_prefix:
  assumes "1 \<le> base" and "base \<le> most"
  shows "distinct (map ke_agent_id ranked) \<Longrightarrow> seen \<inter> ke_agent_id ` set ranked = {} \<Longrightarrow>
    length members \<le> most \<Longrightarrow>
    (\<forall>c. cutoff = Some c \<longrightarrow> base \<le> length members \<and> c = members ! (base - 1)) \<Longrightarrow>
    (base < length members \<longrightarrow> cutoff \<noteq> None) \<Longrightarrow>
    \<exists>n. cohort_loop base most z seen members cutoff ranked = members @ take n ranked \<and>
      extends_cohort base most z members (members @ take n ranked) \<and>
      (base - length members \<le> n \<or> length ranked \<le> n)"
proof (induction ranked arbitrary: seen members cutoff)
  case Nil
  have "extends_cohort base most z members members" unfolding extends_cohort_def using Nil.prems(3) by auto
  then show ?case by simp
next
  case (Cons e rest)
  have new: "ke_agent_id e \<notin> seen" using Cons.prems(2) by auto
  let ?stop = "length members \<ge> most \<or> (length members \<ge> base \<and>
      (case cutoff of None \<Rightarrow> True | Some c \<Rightarrow> \<not> indistinguishable_from e c z))"
  show ?case
  proof (cases ?stop)
    case True
    then have "cohort_loop base most z seen members cutoff (e # rest) = members @ take 0 (e # rest)" using new by auto
    moreover have "extends_cohort base most z members (members @ take 0 (e # rest))"
      using Cons.prems(3) by (auto simp: extends_cohort_def)
    moreover have "base - length members \<le> 0" using True assms(2) by auto
    ultimately show ?thesis by blast
  next
    case False
    let ?m = "members @ [e]" and ?c = "if length (members @ [e]) = base then Some e else cutoff"
    have step: "cohort_loop base most z seen members cutoff (e # rest) =
        cohort_loop base most z (insert (ke_agent_id e) seen) ?m ?c rest"
      using False new by (auto split: option.splits)
    have c_ok: "\<forall>c. ?c = Some c \<longrightarrow> base \<le> length ?m \<and> c = ?m ! (base - 1)"
    proof (cases "length ?m = base")
      case True
      then have "base - 1 = length members" by simp
      with True show ?thesis by (simp add: nth_append)
    next
      case len: False
      then have "?c = cutoff" by simp
      moreover have "?m ! (base - 1) = members ! (base - 1)" if "base \<le> length members"
        using that assms(1) by (simp add: nth_append)
      ultimately show ?thesis using Cons.prems(4) by (metis length_append_singleton le_SucI)
    qed
    have c_some: "base < length ?m \<longrightarrow> ?c \<noteq> None"
    proof
      assume "base < length ?m"
      then have b: "base \<le> length members" "length ?m \<noteq> base" by simp_all
      with False have "cutoff \<noteq> None" by (cases cutoff) simp_all
      with b(2) show "?c \<noteq> None" by simp
    qed
    obtain n where n: "cohort_loop base most z (insert (ke_agent_id e) seen) ?m ?c rest = ?m @ take n rest"
        "extends_cohort base most z ?m (?m @ take n rest)" "base - length ?m \<le> n \<or> length rest \<le> n"
      using Cons.IH [of "insert (ke_agent_id e) seen" ?m ?c] Cons.prems(1,2) False c_ok c_some by auto
    have "indistinguishable_from ((?m @ take n rest) ! length members) ((?m @ take n rest) ! (base - 1)) z"
      if "base \<le> length members"
    proof -
      from False that obtain c where "cutoff = Some c" "indistinguishable_from e c z" by (cases cutoff) simp_all
      then show ?thesis using Cons.prems(4) assms(1) that by (auto simp: nth_append)
    qed
    then have "extends_cohort base most z members (?m @ take n rest)"
      using n(2) unfolding extends_cohort_def by (metis le_antisym length_append_singleton not_less_eq_eq)
    moreover have "?m @ take n rest = members @ take (Suc n) (e # rest)" by simp
    ultimately show ?thesis using n(1,3) step
      by (intro exI [of _ "Suc n"]) auto
  qed
qed

definition cohort_ranking :: "koth_entry list \<Rightarrow> koth_entry \<Rightarrow> koth_entry list" where
  "cohort_ranking entries champion = rank_submissions entry_row (official_scores entries)
     (filter (\<lambda>e. ke_composite e > 0 \<and> ke_miner_hotkey e \<noteq> ke_miner_hotkey champion) entries)"

lemma set_rank [simp]: "set (rank_submissions proj scores rows) = set rows"
  by (simp add: rank_submissions_def)

lemma distinct_rank: "distinct (map f rows) \<Longrightarrow> distinct (map f (rank_submissions proj scores rows))"
  unfolding distinct_map rank_submissions_def by simp

lemma cohort_ranking_fresh:
  assumes "distinct (map ke_agent_id entries)" and "champion \<in> set entries"
  shows "distinct (map ke_agent_id (cohort_ranking entries champion))"
    and "{ke_agent_id champion} \<inter> ke_agent_id ` set (cohort_ranking entries champion) = {}"
proof -
  have "distinct (map ke_agent_id (filter P entries))" for P using assms(1) by (rule distinct_map_filter)
  then show "distinct (map ke_agent_id (cohort_ranking entries champion))"
    unfolding cohort_ranking_def by (rule distinct_rank)
  show "{ke_agent_id champion} \<inter> ke_agent_id ` set (cohort_ranking entries champion) = {}"
    using distinct_key_eq [OF assms(1) _ assms(2)] by (fastforce simp: cohort_ranking_def)
qed

lemma retest_cohort_prefix:
  assumes "distinct (map ke_agent_id entries)" and "project_koth entries = Some p"
  obtains n where "retest_cohort entries (Some p) k most z = kp_champion p # take n (cohort_ranking entries (kp_champion p))"
    "extends_cohort (nat (max 1 k)) (nat (case most of None \<Rightarrow> max 1 k | Some m \<Rightarrow> max (max 1 k) m)) z [kp_champion p]
       (kp_champion p # take n (cohort_ranking entries (kp_champion p)))"
    "nat (max 1 k) - 1 \<le> n \<or> length (cohort_ranking entries (kp_champion p)) \<le> n"
proof -
  let ?base = "nat (max 1 k)" and ?most = "nat (case most of None \<Rightarrow> max 1 k | Some m \<Rightarrow> max (max 1 k) m)"
  have le: "1 \<le> ?base" "?base \<le> ?most" by (auto split: option.splits)
  have ch: "kp_champion p \<in> set entries" using champion_in [OF assms(2)] by simp
  note fresh = cohort_ranking_fresh [OF assms(1) ch]
  obtain n where "cohort_loop ?base ?most z {ke_agent_id (kp_champion p)} [kp_champion p] None (cohort_ranking entries (kp_champion p)) =
      [kp_champion p] @ take n (cohort_ranking entries (kp_champion p))"
    "extends_cohort ?base ?most z [kp_champion p] ([kp_champion p] @ take n (cohort_ranking entries (kp_champion p)))"
    "?base - length [kp_champion p] \<le> n \<or> length (cohort_ranking entries (kp_champion p)) \<le> n"
    using cohort_loop_prefix [OF le fresh, of "[kp_champion p]" None z] le by auto
  then show thesis by (intro that) (simp_all add: retest_cohort_def cohort_ranking_def Let_def)
qed

text \<open>
  The tie-tolerant cohort is the champion followed by a prefix of the ranking: at most the ceiling, never fewer than the
  fixed ranks when the pool has them, and whoever stands beyond the fixed ranks is indistinguishable from the one cutoff
  entry, so the band cannot creep down the board.
\<close>

theorem retest_cohort_anchored:
  assumes "distinct (map ke_agent_id entries)" and "project_koth entries = Some p" and "1 \<le> k" and "k \<le> m"
  shows "let cohort = retest_cohort entries (Some p) k (Some m) z in
    (\<exists>n. cohort = kp_champion p # take n (cohort_ranking entries (kp_champion p))) \<and>
    int (length cohort) \<le> m \<and>
    min (nat k) (Suc (length (cohort_ranking entries (kp_champion p)))) \<le> length cohort \<and>
    (\<forall>i. nat k \<le> i \<and> i < length cohort \<longrightarrow> indistinguishable_from (cohort ! i) (cohort ! (nat k - 1)) z)"
proof -
  obtain n where n: "retest_cohort entries (Some p) k (Some m) z = kp_champion p # take n (cohort_ranking entries (kp_champion p))"
    "extends_cohort (nat k) (nat m) z [kp_champion p] (kp_champion p # take n (cohort_ranking entries (kp_champion p)))"
    "nat k - 1 \<le> n \<or> length (cohort_ranking entries (kp_champion p)) \<le> n"
    using retest_cohort_prefix [OF assms(1,2), of k "Some m" z] assms(3,4) by (auto simp: max_def)
  have "1 \<le> nat k" using assms(3) by simp
  with n(2) have "\<forall>i. nat k \<le> i \<and> i < length (kp_champion p # take n (cohort_ranking entries (kp_champion p))) \<longrightarrow>
    indistinguishable_from ((kp_champion p # take n (cohort_ranking entries (kp_champion p))) ! i)
      ((kp_champion p # take n (cohort_ranking entries (kp_champion p))) ! (nat k - 1)) z"
    by (auto simp: extends_cohort_def)
  moreover have "int (length (kp_champion p # take n (cohort_ranking entries (kp_champion p)))) \<le> m"
    using n(2) assms(3,4) by (auto simp: extends_cohort_def)
  moreover have "min (nat k) (Suc (length (cohort_ranking entries (kp_champion p)))) \<le>
      length (kp_champion p # take n (cohort_ranking entries (kp_champion p)))"
    using n(3) by auto
  ultimately show ?thesis unfolding Let_def n(1) by blast
qed

lemma insort_key_local: "(\<And>y. y \<in> insert x (set xs) \<Longrightarrow> f y = g y) \<Longrightarrow> insort_key f x xs = insort_key g x xs"
  by (induction xs) auto

lemma sort_key_local: "(\<And>y. y \<in> set xs \<Longrightarrow> f y = g y) \<Longrightarrow> sort_key f xs = sort_key g xs"
proof (induction xs)
  case (Cons a xs)
  have "sort_key f xs = sort_key g xs" using Cons by simp
  moreover have "insort_key f a (sort_key g xs) = insort_key g a (sort_key g xs)"
    by (rule insort_key_local) (use Cons.prems in auto)
  ultimately show ?case by simp
qed simp

lemma rank_cong:
  assumes "\<And>r. r \<in> set rows \<Longrightarrow> scores (rk_agent_id (proj r)) = scores' (rk_agent_id (proj r))"
  shows "rank_submissions proj scores rows = rank_submissions proj scores' rows"
  unfolding rank_submissions_def by (rule sort_key_local) (simp add: assms)

lemma official_scores_member:
  assumes "distinct (map ke_agent_id es)" and "e \<in> set es"
  shows "official_scores es (ke_agent_id e) = Some (effective_composite e)"
proof -
  have "distinct (map fst (rev (map (\<lambda>e. (ke_agent_id e, effective_composite e)) es)))"
    using assms(1) by (simp add: rev_map [symmetric] comp_def)
  then show ?thesis unfolding official_scores_def using assms(2) by (intro map_of_is_SomeI) auto
qed

lemma add_unseen_fresh:
  "distinct (map ke_agent_id es) \<Longrightarrow> seen \<inter> ke_agent_id ` set es = {} \<Longrightarrow> add_unseen seen es = es"
  by (induction es arbitrary: seen) auto

text \<open>
  The operator's dial starts at the historical lane: a cohort of five without a band is the emission set of the same
  pool, member for member and in the same order.
\<close>

theorem retest_cohort_extends_emission_set:
  assumes "distinct (map ke_agent_id entries)"
  shows "retest_cohort entries (project_koth entries) 5 None z = emission_set (project_koth entries)"
proof (cases "project_koth entries")
  case (Some p)
  let ?pos = "\<lambda>e. ke_composite e > 0" and ?r = "cohort_ranking entries (kp_champion p)"
  have ch: "kp_champion p \<in> set entries" using champion_in [OF Some] by simp
  have dpos: "distinct (map ke_agent_id (filter ?pos entries))" using assms by (rule distinct_map_filter)
  have tail: "kp_tail p = take 4 ?r"
  proof -
    have "kp_tail p = take KOTH_TAIL_SIZE (rank_submissions entry_row (official_scores (filter ?pos entries))
        (filter (\<lambda>e. ke_miner_hotkey e \<noteq> ke_miner_hotkey (kp_champion p)) (filter ?pos entries)))"
      using Some by (rule project_kothE)
    also have "rank_submissions entry_row (official_scores (filter ?pos entries))
        (filter (\<lambda>e. ke_miner_hotkey e \<noteq> ke_miner_hotkey (kp_champion p)) (filter ?pos entries)) = ?r"
      unfolding cohort_ranking_def filter_filter
      by (subst rank_cong [where scores' = "official_scores entries"])
        (auto simp: entry_row_def official_scores_member [OF dpos] official_scores_member [OF assms] conj_commute)
    finally show ?thesis by (simp add: KOTH_TAIL_SIZE_def)
  qed
  have fresh: "distinct (map ke_agent_id (take 4 ?r))" "{ke_agent_id (kp_champion p)} \<inter> ke_agent_id ` set (take 4 ?r) = {}"
    using cohort_ranking_fresh [OF assms ch] by (auto simp: take_map [symmetric] dest: in_set_takeD)
  obtain n where n: "retest_cohort entries (Some p) 5 None z = kp_champion p # take n ?r"
    "extends_cohort 5 5 z [kp_champion p] (kp_champion p # take n ?r)" "4 \<le> n \<or> length ?r \<le> n"
    using retest_cohort_prefix [OF assms Some, of 5 None z] by auto
  have "length (take n ?r) \<le> 4" using n(2) by (simp add: extends_cohort_def)
  then have "take n ?r = take 4 ?r" using n(3) by (auto simp: min_def split: if_splits)
  then show ?thesis unfolding Some n(1) emission_set_def using tail add_unseen_fresh [OF fresh] by simp
qed (simp add: retest_cohort_def emission_set_def)

theorem retest_cohort_extends_emission_set_witness:
  "retest_cohort [demo_entry 1 ''h1'' 1 (1 / 2), demo_entry 2 ''h2'' 2 (3 / 4)]
     (project_koth [demo_entry 1 ''h1'' 1 (1 / 2), demo_entry 2 ''h2'' 2 (3 / 4)]) 5 None 0 =
   emission_set (project_koth [demo_entry 1 ''h1'' 1 (1 / 2), demo_entry 2 ''h2'' 2 (3 / 4)])"
  by (rule retest_cohort_extends_emission_set) (simp add: demo_entry_def)

theorem retest_cohort_anchored_witness:
  "\<exists>p. project_koth [demo_entry 1 ''h1'' 1 (1 / 2), demo_entry 2 ''h2'' 2 (3 / 4)] = Some p \<and>
     int (length (retest_cohort [demo_entry 1 ''h1'' 1 (1 / 2), demo_entry 2 ''h2'' 2 (3 / 4)] (Some p) 1 (Some 2) 0)) \<le> 2"
proof -
  let ?es = "[demo_entry 1 ''h1'' 1 (1 / 2), demo_entry 2 ''h2'' 2 (3 / 4)]"
  have "\<exists>p. project_koth ?es = Some p"
    by (simp add: project_koth_def Let_def demo_entry_def less_prod_def)
  then obtain p where p: "project_koth ?es = Some p" by blast
  have d: "distinct (map ke_agent_id ?es)" by (simp add: demo_entry_def)
  have le: "(1 :: int) \<le> 1" "(1 :: int) \<le> 2" by simp_all
  have "int (length (retest_cohort ?es (Some p) 1 (Some 2) 0)) \<le> 2"
    using retest_cohort_anchored [OF d p le, of 0] unfolding Let_def by blast
  with p show ?thesis by blast
qed

subsection \<open>Bounds of the score\<close>

lemma score_values_bounds: "score_values vs = Some xs \<Longrightarrow> length xs = length vs \<and> (\<forall>x \<in> set xs. 0 \<le> x \<and> x \<le> 1)"
proof (induction vs arbitrary: xs rule: score_values.induct)
  case (2 x rest)
  then have x: "0 \<le> x \<and> x \<le> 1" by (cases "0 \<le> x \<and> x \<le> 1") simp_all
  with "2.prems" obtain ys where ys: "score_values rest = Some ys" "xs = x # ys" by auto
  with "2.IH" [OF x ys(1)] x show ?case by simp
qed simp_all

lemma validated_bounds:
  "validated_composites v n = Some xs \<Longrightarrow> n \<le> length xs \<and> (\<forall>x \<in> set xs. 0 \<le> x \<and> x \<le> 1)"
proof -
  assume "validated_composites v n = Some xs"
  then obtain vs where "\<not> length vs < n" "score_values vs = Some xs"
    by (cases v) (simp_all add: validated_composites_def split: if_splits)
  with score_values_bounds [of vs xs] show ?thesis by simp
qed

lemma mean_bounds:
  assumes "xs \<noteq> []" and "\<forall>x \<in> set xs. 0 \<le> x \<and> x \<le> 1"
  shows "0 \<le> mean xs \<and> mean xs \<le> 1"
proof -
  have "0 \<le> sum_list xs" using assms(2) by (intro sum_list_nonneg) auto
  moreover have "sum_list xs \<le> of_nat (length xs)" using assms(2) by (induction xs) auto
  ultimately show ?thesis using assms(1) by (auto simp: mean_def divide_le_eq)
qed

lemma middle_bounds:
  assumes "2 \<le> length xs" and "\<forall>x \<in> set xs. 0 \<le> x \<and> x \<le> 1"
  shows "0 \<le> middle xs \<and> middle xs \<le> 1"
proof -
  have n: "0 \<le> sort xs ! i \<and> sort xs ! i \<le> 1" if "i < length xs" for i
    using assms(2) that by (metis length_sort nth_mem set_sort)
  have "length xs div 2 < length xs" "length xs div 2 - 1 < length xs" using assms(1) by auto
  with n [of "length xs div 2"] n [of "length xs div 2 - 1"] show ?thesis by (auto simp: middle_def Let_def)
qed

lemma confirmations_bounds: "confirmations e = Some xs \<Longrightarrow> 2 \<le> length xs \<and> (\<forall>x \<in> set xs. 0 \<le> x \<and> x \<le> 1)"
proof -
  assume "confirmations e = Some xs"
  then obtain vs where "\<not> length vs < 2" "score_values vs = Some xs"
    by (cases "ke_confirmation_composites e") (simp_all add: confirmations_def split: if_splits)
  with score_values_bounds [of vs xs] show ?thesis by simp
qed

lemma multiplier_bounds: "1 \<le> efficiency_multiplier e \<and> efficiency_multiplier e \<le> 11 / 10"
  by (auto simp: efficiency_multiplier_def split: pyval.splits pyfloat.splits)

text \<open>
  The score that drives ranking and emissions stays in its band whatever the telemetry holds: with a stored composite between
  0 and 1 the continual aggregate is between 0 and 1 and the final score at most ten percent above it; malformed or
  out-of-range samples never enter a mean.
\<close>

theorem effective_composite_bounds:
  assumes "0 \<le> ke_composite e" and "ke_composite e \<le> 1"
  shows "0 \<le> continual_composite e \<and> continual_composite e \<le> 1 \<and>
    continual_composite e \<le> effective_composite e \<and> effective_composite e \<le> 11 / 10 * continual_composite e"
proof -
  have conf: "0 \<le> x \<and> x \<le> 1" if "x = (case confirmations e of None \<Rightarrow> ke_composite e | Some values \<Rightarrow> middle values)" for x
    using that assms middle_bounds confirmations_bounds by (auto split: option.splits)
  have "0 \<le> continual_composite e \<and> continual_composite e \<le> 1"
  proof (cases "\<exists>q w. validated_composites (ke_quorum_composites e) 3 = Some q \<and>
      validated_composites (ke_completed_wave_composites e) 1 = Some w \<and> length q = 3")
    case True
    then obtain q w where qw: "validated_composites (ke_quorum_composites e) 3 = Some q"
      "validated_composites (ke_completed_wave_composites e) 1 = Some w" "length q = 3" by blast
    have "q @ w \<noteq> []" "\<forall>x \<in> set (q @ w). 0 \<le> x \<and> x \<le> 1" using validated_bounds qw by fastforce+
    from mean_bounds [OF this] qw show ?thesis by (simp add: continual_composite_def)
  next
    case False
    then have "continual_composite e = (case confirmations e of None \<Rightarrow> ke_composite e | Some values \<Rightarrow> middle values)"
      by (auto simp: continual_composite_def split: option.splits)
    then show ?thesis by (rule conf)
  qed
  moreover from this have "continual_composite e * 1 \<le> effective_composite e"
    "effective_composite e \<le> continual_composite e * (11 / 10)"
    unfolding effective_composite_def using multiplier_bounds [of e] by (intro mult_left_mono; simp)+
  ultimately show ?thesis by simp
qed

theorem effective_composite_bounds_witness:
  "effective_composite ((demo_entry 1 ''h1'' 1 (1 / 2))\<lparr>ke_efficiency_bonus := Py_Num (Finite 5)\<rparr>) \<le>
     11 / 10 * continual_composite ((demo_entry 1 ''h1'' 1 (1 / 2))\<lparr>ke_efficiency_bonus := Py_Num (Finite 5)\<rparr>)"
proof -
  let ?e = "(demo_entry 1 ''h1'' 1 (1 / 2))\<lparr>ke_efficiency_bonus := Py_Num (Finite 5)\<rparr>"
  have "0 \<le> ke_composite ?e" "ke_composite ?e \<le> 1" by (simp_all add: demo_entry_def)
  from effective_composite_bounds [OF this] show ?thesis by blast
qed

subsection \<open>The schedule of rounds\<close>

text \<open>The scheduled points of a reign: the crown itself, and from each point the next one an interval later.\<close>

inductive scheduled_point :: "int \<Rightarrow> int \<Rightarrow> int \<Rightarrow> int \<Rightarrow> bool" for base period step_cap where
  at_crown: "scheduled_point base period step_cap 0"
| advance: "scheduled_point base period step_cap s \<Longrightarrow>
    scheduled_point base period step_cap (s + round_interval base period step_cap s)"

definition next_point :: "int \<Rightarrow> int \<Rightarrow> int \<Rightarrow> int \<Rightarrow> int" where
  "next_point base period step_cap s = s + round_interval base period step_cap s"

lemma scheduled_point_iff:
  "scheduled_point base period step_cap x \<longleftrightarrow> (\<exists>n. x = (next_point base period step_cap ^^ n) 0)"
proof
  assume "scheduled_point base period step_cap x"
  then show "\<exists>n. x = (next_point base period step_cap ^^ n) 0"
  proof induction
    case at_crown
    show ?case by (rule exI [of _ 0]) simp
  next
    case (advance s)
    then obtain n where "s = (next_point base period step_cap ^^ n) 0" by blast
    then have "s + round_interval base period step_cap s = (next_point base period step_cap ^^ Suc n) 0"
      by (simp add: next_point_def [of base period step_cap "(next_point base period step_cap ^^ n) 0"])
    then show ?case by blast
  qed
next
  have "scheduled_point base period step_cap ((next_point base period step_cap ^^ n) 0)" for n
    by (induction n) (simp_all add: at_crown next_point_def [of base period step_cap "(next_point base period step_cap ^^ _) 0"] advance)
  then show "\<exists>n. x = (next_point base period step_cap ^^ n) 0 \<Longrightarrow> scheduled_point base period step_cap x" by auto
qed

lemma scheduled_gap:
  assumes "0 < base" and "base \<le> step_cap"
    and "scheduled_point base period step_cap s" and "scheduled_point base period step_cap x" and "s < x"
  shows "next_point base period step_cap s \<le> x"
proof -
  let ?f = "\<lambda>n. (next_point base period step_cap ^^ n) 0"
  have up: "?f n < ?f (Suc n)" for n
    using round_interval_bounds(1) [OF assms(1,2), of period "?f n"] assms(1) by (simp add: next_point_def)
  obtain m n where mn: "s = ?f m" "x = ?f n" using assms(3,4) scheduled_point_iff by metis
  have "m < n" using assms(5) unfolding mn by (metis lift_Suc_mono_less [of ?f, OF up] linorder_neqE_nat order_less_asym)
  then have "?f (Suc m) \<le> ?f n" using lift_Suc_mono_le [of ?f, OF less_imp_le [OF up], of "Suc m" n] by simp
  then show ?thesis using mn by simp
qed

lemma next_scheduled_correct:
  "0 < base \<Longrightarrow> base \<le> step_cap \<Longrightarrow> scheduled_point base period step_cap s \<Longrightarrow> s \<le> reign \<Longrightarrow>
   scheduled_point base period step_cap (next_scheduled base period step_cap reign s) \<and>
   reign \<le> next_scheduled base period step_cap reign s \<and>
   next_scheduled base period step_cap reign s < reign + step_cap \<and>
   (scheduled_point base period step_cap reign \<longrightarrow> next_scheduled base period step_cap reign s = reign)"
proof (induction base period step_cap reign s rule: next_scheduled.induct)
  case (1 base period step_cap reign s)
  show ?case
  proof (cases "s < reign")
    case True
    let ?n = "s + round_interval base period step_cap s"
    have nx: "next_scheduled base period step_cap reign s = next_scheduled base period step_cap reign ?n"
      using True "1.prems" by (simp add: next_scheduled.simps [of base period step_cap reign s])
    have pt: "scheduled_point base period step_cap ?n" using "1.prems"(3) by (rule advance)
    have hit: "?n \<le> reign" if "scheduled_point base period step_cap reign"
      using scheduled_gap [OF "1.prems"(1,2,3) that True] by (simp add: next_point_def)
    show ?thesis
    proof (cases "?n \<le> reign")
      case le: True
      show ?thesis unfolding nx using "1.prems" True pt le by (intro "1.IH") simp_all
    next
      case gt: False
      then have stop: "next_scheduled base period step_cap reign ?n = ?n" by (simp add: next_scheduled.simps [of base period step_cap reign ?n])
      show ?thesis unfolding nx stop
        using gt hit pt True round_interval_bounds(2) [OF "1.prems"(1,2), of period s] by auto
    qed
  next
    case False
    then have "next_scheduled base period step_cap reign s = s" by (simp add: next_scheduled.simps [of base period step_cap reign s])
    with False show ?thesis using "1.prems" by simp
  qed
qed

lemma round_due_iff:
  assumes "0 < base"
  shows "top5_round_is_due current crown base k cap \<longleftrightarrow>
    scheduled_point base (max 1 k) (max base cap) (max 0 (current - crown) div BLOCKS_PER_TEMPO)"
proof -
  let ?r = "max 0 (current - crown) div BLOCKS_PER_TEMPO"
  have "0 \<le> ?r" by (simp add: BLOCKS_PER_TEMPO_def)
  from next_scheduled_correct [OF assms max.cobounded1 at_crown this, of "max 1 k" cap]
  have "scheduled_point base (max 1 k) (max base cap) ?r \<longleftrightarrow> next_scheduled base (max 1 k) (max base cap) ?r 0 = ?r"
    by metis
  then show ?thesis unfolding top5_round_is_due_def Let_def using assms by simp
qed

text \<open>
  A round is due exactly at the scheduled points of the reign, and the lane never goes silent: from every tempo of a reign
  the next round comes within the capped interval.
\<close>

theorem rounds_keep_coming:
  assumes "0 < base" and "0 \<le> t"
  shows "(\<forall>current. top5_round_is_due current crown base k cap \<longleftrightarrow>
      scheduled_point base (max 1 k) (max base cap) (max 0 (current - crown) div BLOCKS_PER_TEMPO)) \<and>
    (\<exists>u. t < u \<and> u \<le> t + max base cap \<and> top5_round_is_due (crown + u * BLOCKS_PER_TEMPO) crown base k cap)"
proof -
  let ?n = "next_scheduled base (max 1 k) (max base cap) (t + 1) 0"
  have n: "scheduled_point base (max 1 k) (max base cap) ?n" "t + 1 \<le> ?n" "?n < t + 1 + max base cap"
    using next_scheduled_correct [OF assms(1) max.cobounded1 at_crown, of "t + 1" "max 1 k" cap] assms(2) by auto
  have "max 0 (crown + ?n * BLOCKS_PER_TEMPO - crown) div BLOCKS_PER_TEMPO = ?n"
    using n(2) assms(2) by (simp add: BLOCKS_PER_TEMPO_def)
  then have "top5_round_is_due (crown + ?n * BLOCKS_PER_TEMPO) crown base k cap" using n(1) round_due_iff [OF assms(1)] by simp
  then show ?thesis using n round_due_iff [OF assms(1)] by (intro conjI allI exI [of _ ?n]) simp_all
qed

theorem rounds_keep_coming_witness:
  "\<exists>u. (5 :: int) < u \<and> u \<le> 5 + max 1 24 \<and> top5_round_is_due (100 + u * BLOCKS_PER_TEMPO) 100 1 20 24"
  using rounds_keep_coming [of 1 5 100 20 24] by auto

end
