(* ===== verification/Inference.thy ===== *)
theory Inference
  imports Lease_Liveness
begin

text \<open>
  The ticket-scoped inference grants, \<open>ditto/db/queries/inference.py\<close>: minting a grant for a live
  lease, exchanging it for a bearer, reserving and settling proxy requests in the chat and the
  embedding lane, and revocation. Each operation is one transaction on the tickets, the grants and the
  requests; the grant's row lock serialises them per grant. A token count is an \<open>int\<close>. SHA-256 of
  the bearer is the argument \<open>sha\<close>; the random bearer, the new grant's id and the
  route chosen by \<open>select_route\<close> are arguments too. Metrics and the route table's counters are
  not modelled. \<open>timedelta(seconds=config.timeout_seconds)\<close> is the field \<open>ip_timeout\<close>.
\<close>

datatype grant_status = Pending | Active | Revoked | Exhausted

record inference_grant =
  g_grant_id :: uuid
  g_agent_id :: uuid
  g_bench_version :: int
  g_validator_hotkey :: hotkey
  g_slot_id :: slot
  g_ticket_deadline :: time
  g_status :: grant_status
  g_bearer_digest :: "string option"
  g_broker_public_key :: "string option"
  g_generation :: int
  g_allowed_models :: "string list"
  g_route_provider :: "string option"
  g_route_profile :: "string option"
  g_request_budget :: int
  g_token_budget :: int
  g_embedding_model :: string
  g_embedding_profile :: string
  g_embedding_provider :: string
  g_embedding_dimensions :: int
  g_embedding_request_budget :: int
  g_embedding_token_budget :: int
  g_embedding_request_count :: int
  g_embedding_tokens :: int
  g_embedding_cost_microusd :: int
  g_embedding_active_requests :: int
  g_request_count :: int
  g_prompt_tokens :: int
  g_completion_tokens :: int
  g_cost_microusd :: int
  g_active_requests :: int
  g_usage_accounting_version :: int
  g_expires_at :: time
  g_updated_at :: "time option"

datatype request_status = Started | Completed | Failed | Canceled

datatype request_kind = Chat | Embedding

record inference_request =
  r_grant_id :: uuid
  r_nonce :: uuid
  r_generation :: int
  r_status :: request_status
  r_request_kind :: request_kind
  r_model :: string
  r_reserved_tokens :: int
  r_max_chargeable_tokens :: int
  r_prompt_tokens :: int
  r_completion_tokens :: int
  r_cost_microusd :: int
  r_upstream_provider :: "string option"
  r_upstream_attempts :: int
  r_openrouter_attempts :: int
  r_fallback_phase :: int
  r_terminal_error_code :: "string option"
  r_timed_out :: bool
  r_latency_ms :: "int option"
  r_started_at :: time
  r_completed_at :: "time option"

definition rkey :: "inference_request \<Rightarrow> uuid \<times> uuid" where
  "rkey r = (r_grant_id r, r_nonce r)"

record inference_proxy_config =
  ip_enabled :: bool
  ip_openrouter_api_key :: "string option"
  ip_allowed_models :: "string list"
  ip_provider :: string
  ip_request_budget :: int
  ip_token_budget :: int
  ip_embedding_model :: string
  ip_embedding_profile :: string
  ip_embedding_provider :: string
  ip_embedding_dimensions :: int
  ip_embedding_request_budget :: int
  ip_embedding_token_budget :: int
  ip_embedding_per_ticket_concurrency :: int
  ip_embedding_per_validator_concurrency :: int
  ip_embedding_global_concurrency :: int
  ip_embedding_per_ticket_requests_per_minute :: int
  ip_embedding_per_validator_requests_per_minute :: int
  ip_embedding_global_requests_per_minute :: int
  ip_per_ticket_concurrency :: int
  ip_per_validator_concurrency :: int
  ip_global_concurrency :: int
  ip_per_ticket_requests_per_minute :: int
  ip_per_validator_requests_per_minute :: int
  ip_global_requests_per_minute :: int
  ip_timeout :: timedelta
  ip_request_body_bytes :: nat
  ip_embedding_request_body_bytes :: nat
  ip_max_output_tokens :: int

record inference_db =
  i_tickets :: "ticket list"
  i_grants :: "inference_grant list"
  i_requests :: "inference_request list"

definition USAGE_ACCOUNTING_VERSION :: int where
  "USAGE_ACCOUNTING_VERSION = 2"

subsection \<open>Lanes\<close>

text \<open>The columns the code picks by \<open>request_kind == "chat"\<close>.\<close>

fun lane_spent :: "request_kind \<Rightarrow> inference_grant \<Rightarrow> int" where
  "lane_spent Chat g = g_prompt_tokens g + g_completion_tokens g"
| "lane_spent Embedding g = g_embedding_tokens g"

fun lane_token_budget :: "request_kind \<Rightarrow> inference_grant \<Rightarrow> int" where
  "lane_token_budget Chat g = g_token_budget g"
| "lane_token_budget Embedding g = g_embedding_token_budget g"

fun lane_active :: "request_kind \<Rightarrow> inference_grant \<Rightarrow> int" where
  "lane_active Chat g = g_active_requests g"
| "lane_active Embedding g = g_embedding_active_requests g"

fun lane_set_active :: "request_kind \<Rightarrow> int \<Rightarrow> inference_grant \<Rightarrow> inference_grant" where
  "lane_set_active Chat n g = g\<lparr>g_active_requests := n\<rparr>"
| "lane_set_active Embedding n g = g\<lparr>g_embedding_active_requests := n\<rparr>"

fun lane_count :: "request_kind \<Rightarrow> inference_grant \<Rightarrow> int" where
  "lane_count Chat g = g_request_count g"
| "lane_count Embedding g = g_embedding_request_count g"

fun lane_set_count :: "request_kind \<Rightarrow> int \<Rightarrow> inference_grant \<Rightarrow> inference_grant" where
  "lane_set_count Chat n g = g\<lparr>g_request_count := n\<rparr>"
| "lane_set_count Embedding n g = g\<lparr>g_embedding_request_count := n\<rparr>"

fun lane_request_budget :: "request_kind \<Rightarrow> inference_grant \<Rightarrow> int" where
  "lane_request_budget Chat g = g_request_budget g"
| "lane_request_budget Embedding g = g_embedding_request_budget g"

text \<open>Booking a reservation that never returned trusted usage.\<close>

fun lane_charge :: "request_kind \<Rightarrow> int \<Rightarrow> inference_grant \<Rightarrow> inference_grant" where
  "lane_charge Chat n g = g\<lparr>g_prompt_tokens := g_prompt_tokens g + n\<rparr>"
| "lane_charge Embedding n g = g\<lparr>g_embedding_tokens := g_embedding_tokens g + n\<rparr>"

fun per_ticket_concurrency :: "request_kind \<Rightarrow> inference_proxy_config \<Rightarrow> int" where
  "per_ticket_concurrency Chat c = ip_per_ticket_concurrency c"
| "per_ticket_concurrency Embedding c = ip_embedding_per_ticket_concurrency c"

fun per_validator_concurrency :: "request_kind \<Rightarrow> inference_proxy_config \<Rightarrow> int" where
  "per_validator_concurrency Chat c = ip_per_validator_concurrency c"
| "per_validator_concurrency Embedding c = ip_embedding_per_validator_concurrency c"

fun global_concurrency :: "request_kind \<Rightarrow> inference_proxy_config \<Rightarrow> int" where
  "global_concurrency Chat c = ip_global_concurrency c"
| "global_concurrency Embedding c = ip_embedding_global_concurrency c"

fun per_ticket_rpm :: "request_kind \<Rightarrow> inference_proxy_config \<Rightarrow> int" where
  "per_ticket_rpm Chat c = ip_per_ticket_requests_per_minute c"
| "per_ticket_rpm Embedding c = ip_embedding_per_ticket_requests_per_minute c"

fun per_validator_rpm :: "request_kind \<Rightarrow> inference_proxy_config \<Rightarrow> int" where
  "per_validator_rpm Chat c = ip_per_validator_requests_per_minute c"
| "per_validator_rpm Embedding c = ip_embedding_per_validator_requests_per_minute c"

fun global_rpm :: "request_kind \<Rightarrow> inference_proxy_config \<Rightarrow> int" where
  "global_rpm Chat c = ip_global_requests_per_minute c"
| "global_rpm Embedding c = ip_embedding_global_requests_per_minute c"

subsection \<open>Minting\<close>

definition bearer_digest :: "(string \<Rightarrow> string) \<Rightarrow> string \<Rightarrow> string" where
  "bearer_digest sha bearer = sha bearer"

definition grant_ticket :: "inference_grant \<Rightarrow> ticket list \<Rightarrow> ticket option" where
  "grant_ticket g ts = get_row tkey (g_agent_id g, g_bench_version g, g_validator_hotkey g) ts"

definition lease_grant :: "ticket \<Rightarrow> inference_grant list \<Rightarrow> inference_grant option" where
  "lease_grant t gs =
     select_first (\<lambda>g. g_agent_id g = t_agent_id t \<and> g_bench_version g = t_bench_version t \<and>
       g_validator_hotkey g = t_validator_hotkey t \<and> g_ticket_deadline g = t_deadline t) gs"

record route =
  rt_provider :: string
  rt_profile_revision :: string

definition mint_grant :: "uuid \<Rightarrow> ticket \<Rightarrow> string \<Rightarrow> string \<Rightarrow> string \<Rightarrow> inference_proxy_config \<Rightarrow> inference_grant" where
  "mint_grant grant_id t model provider profile config =
     \<lparr>g_grant_id = grant_id, g_agent_id = t_agent_id t, g_bench_version = t_bench_version t,
      g_validator_hotkey = t_validator_hotkey t, g_slot_id = t_slot_id t, g_ticket_deadline = t_deadline t,
      g_status = Pending, g_bearer_digest = None, g_broker_public_key = None, g_generation = 0,
      g_allowed_models = [model], g_route_provider = Some provider, g_route_profile = Some profile,
      g_request_budget = ip_request_budget config, g_token_budget = ip_token_budget config,
      g_embedding_model = ip_embedding_model config, g_embedding_profile = ip_embedding_profile config,
      g_embedding_provider = ip_embedding_provider config, g_embedding_dimensions = ip_embedding_dimensions config,
      g_embedding_request_budget = ip_embedding_request_budget config,
      g_embedding_token_budget = ip_embedding_token_budget config,
      g_embedding_request_count = 0, g_embedding_tokens = 0, g_embedding_cost_microusd = 0,
      g_embedding_active_requests = 0, g_request_count = 0, g_prompt_tokens = 0, g_completion_tokens = 0,
      g_cost_microusd = 0, g_active_requests = 0, g_usage_accounting_version = USAGE_ACCOUNTING_VERSION,
      g_expires_at = t_deadline t, g_updated_at = None\<rparr>"

text \<open>
  A taken primary key is the \<open>IntegrityError\<close> branch: the lease is read again, and still has no grant.
\<close>

definition ensure_inference_grant ::
  "uuid \<Rightarrow> (string \<Rightarrow> route option) \<Rightarrow> ticket \<Rightarrow> inference_proxy_config \<Rightarrow> inference_db \<Rightarrow>
   inference_db \<times> inference_grant option" where
  "ensure_inference_grant grant_id select_route t config s =
     (if \<not> ip_enabled config \<or> t_status t \<noteq> ISSUED then (s, None)
      else case lease_grant t (i_grants s) of
        Some g \<Rightarrow> (s, Some g)
      | None \<Rightarrow>
        (let model = benchmark_model (t_bench_version t);
             add = (\<lambda>g. (s\<lparr>i_grants := i_grants s @ [g]\<rparr>, Some g))
         in if model \<notin> set (ip_allowed_models config) then (s, None)
            else if grant_id \<in> set (map g_grant_id (i_grants s)) then (s, None)
            else if t_bench_version t \<ge> 7 then
              (case select_route model of None \<Rightarrow> (s, None)
               | Some r \<Rightarrow> add (mint_grant grant_id t model (rt_provider r) (rt_profile_revision r) config))
            else add (mint_grant grant_id t model (ip_provider config) (''legacy-config-'' @ ip_provider config) config)))"

record lease_model_usage =
  lu_chat_calls :: int
  lu_prompt_tokens :: int
  lu_completion_tokens :: int
  lu_accounting_version :: int

definition get_lease_model_usage :: "ticket \<Rightarrow> inference_grant list \<Rightarrow> lease_model_usage option" where
  "get_lease_model_usage t gs =
     map_option (\<lambda>g. \<lparr>lu_chat_calls = g_request_count g, lu_prompt_tokens = g_prompt_tokens g,
        lu_completion_tokens = g_completion_tokens g, lu_accounting_version = g_usage_accounting_version g\<rparr>)
       (lease_grant t gs)"

subsection \<open>Exchange and revocation\<close>

definition cancel_request :: "time \<Rightarrow> inference_request \<Rightarrow> inference_request" where
  "cancel_request now r =
     r\<lparr>r_status := Canceled, r_prompt_tokens := r_reserved_tokens r, r_completed_at := Some now\<rparr>"

definition started_in :: "uuid \<Rightarrow> inference_request \<Rightarrow> bool" where
  "started_in grant_id r \<longleftrightarrow> r_grant_id r = grant_id \<and> r_status r = Started"

definition lane_of :: "request_kind \<Rightarrow> inference_request \<Rightarrow> bool" where
  "lane_of k r \<longleftrightarrow> r_request_kind r = k"

text \<open>Cancel the selected started requests of a grant and book their reservations.\<close>

definition reserved_sum :: "(inference_request \<Rightarrow> bool) \<Rightarrow> inference_request list \<Rightarrow> int" where
  "reserved_sum p rs = sum_rows r_reserved_tokens (filter p rs)"

definition cancel_started :: "time \<Rightarrow> inference_grant \<Rightarrow> inference_request list \<Rightarrow> inference_grant \<times> inference_request list" where
  "cancel_started now g rs =
     (let p = started_in (g_grant_id g);
          g' = lane_charge Embedding (reserved_sum (\<lambda>r. p r \<and> lane_of Embedding r) rs)
                 (lane_charge Chat (reserved_sum (\<lambda>r. p r \<and> lane_of Chat r) rs) g)
      in (g'\<lparr>g_active_requests := 0, g_embedding_active_requests := 0\<rparr>, update_where p (cancel_request now) rs))"

definition activate_inference_grant ::
  "(string \<Rightarrow> string) \<Rightarrow> string \<Rightarrow> uuid \<Rightarrow> hotkey \<Rightarrow> string \<Rightarrow> time \<Rightarrow> inference_proxy_config \<Rightarrow> inference_db \<Rightarrow>
   inference_db \<times> (inference_grant \<times> string) option" where
  "activate_inference_grant sha bearer grant_id validator_hotkey broker_public_key now config s =
     (case get_row g_grant_id grant_id (i_grants s) of None \<Rightarrow> (s, None)
      | Some g \<Rightarrow>
      if g_validator_hotkey g \<noteq> validator_hotkey then (s, None)
      else (case grant_ticket g (i_tickets s) of
        None \<Rightarrow> (s\<lparr>i_grants := set_row g_grant_id (g\<lparr>g_status := Revoked\<rparr>) (i_grants s)\<rparr>, None)
      | Some t \<Rightarrow>
        if t_status t \<noteq> ISSUED \<or> t_deadline t \<noteq> g_ticket_deadline g \<or> t_deadline t \<le> now \<or>
           g_status g = Revoked \<or> g_status g = Exhausted
        then (s\<lparr>i_grants := set_row g_grant_id (g\<lparr>g_status := Revoked\<rparr>) (i_grants s)\<rparr>, None)
        else if list_ex (\<lambda>r. started_in grant_id r \<and> r_started_at r \<ge> now - ip_timeout config * 2) (i_requests s)
        then (s, None)
        else (case cancel_started now g (i_requests s) of
          (g1, rs) \<Rightarrow>
            (let g2 = g1\<lparr>g_bearer_digest := Some (bearer_digest sha bearer),
                         g_broker_public_key := Some (rev (dropWhile (\<lambda>c. c = CHR ''='') (rev broker_public_key))),
                         g_generation := g_generation g1 + 1, g_status := Active, g_slot_id := t_slot_id t,
                         g_expires_at := t_deadline t, g_updated_at := Some now\<rparr>
             in (s\<lparr>i_grants := set_row g_grant_id g2 (i_grants s), i_requests := rs\<rparr>, Some (g2, bearer))))))"

definition revoke_one :: "time \<Rightarrow> inference_grant \<Rightarrow> inference_db \<Rightarrow> inference_db" where
  "revoke_one now g s =
     (case cancel_started now g (i_requests s) of
        (g1, rs) \<Rightarrow> s\<lparr>i_grants := set_row g_grant_id (g1\<lparr>g_status := Revoked, g_updated_at := Some now\<rparr>) (i_grants s),
                     i_requests := rs\<rparr>)"

definition open_grants_of :: "ticket \<Rightarrow> inference_grant list \<Rightarrow> inference_grant list" where
  "open_grants_of t gs =
     filter (\<lambda>g. g_agent_id g = t_agent_id t \<and> g_bench_version g = t_bench_version t \<and>
       g_validator_hotkey g = t_validator_hotkey t \<and> (g_status g = Pending \<or> g_status g = Active)) gs"

definition revoke_ticket_inference :: "ticket \<Rightarrow> time \<Rightarrow> inference_db \<Rightarrow> inference_db" where
  "revoke_ticket_inference t now s = fold (revoke_one now) (open_grants_of t (i_grants s)) s"

definition ticket_inference_revoked_mid_lease :: "uuid \<Rightarrow> int \<Rightarrow> hotkey \<Rightarrow> time \<Rightarrow> inference_grant list \<Rightarrow> bool" where
  "ticket_inference_revoked_mid_lease agent_id bench_version validator_hotkey ticket_deadline gs \<longleftrightarrow>
     list_ex (\<lambda>g. g_agent_id g = agent_id \<and> g_bench_version g = bench_version \<and> g_validator_hotkey g = validator_hotkey \<and>
       g_ticket_deadline g = ticket_deadline \<and> g_status g = Revoked) gs"

subsection \<open>Admission\<close>

datatype inference_decline =
    GRANT_REVOKED | BUDGET_EXHAUSTED | AT_CAPACITY | TOKEN_BUDGET_EXHAUSTED | LEASE_EXPIRED
  | MODEL_NOT_PERMITTED | NONCE_REPLAYED | GRANT_NOT_EXCHANGED | RESERVATION_TOO_LARGE | UNATTRIBUTED

fun first_exhausted_scope :: "(string \<times> int \<times> int) list \<Rightarrow> string option" where
  "first_exhausted_scope [] = None"
| "first_exhausted_scope ((scope, observed, limit) # gates) =
     (if observed \<ge> limit then Some scope else first_exhausted_scope gates)"

definition parse_request_kind :: "string \<Rightarrow> request_kind option" where
  "parse_request_kind k =
     (if k = ''chat'' then Some Chat else if k = ''embedding'' then Some Embedding else None)"

definition model_permitted :: "request_kind \<Rightarrow> string \<Rightarrow> inference_grant \<Rightarrow> bool" where
  "model_permitted kind model g \<longleftrightarrow>
     (case kind of Chat \<Rightarrow> model \<in> set (g_allowed_models g)
      | Embedding \<Rightarrow> \<not> (g_bench_version g < 7 \<or> model \<noteq> g_embedding_model g))"

text \<open>The answer of a grant that is not active.\<close>

definition inactive_decline :: "request_kind \<Rightarrow> int \<Rightarrow> inference_grant \<Rightarrow> inference_decline" where
  "inactive_decline kind token_reservation g =
     (case g_status g of
        Exhausted \<Rightarrow>
          if kind = Chat \<and> g_prompt_tokens g + g_completion_tokens g + token_reservation > g_token_budget g
          then TOKEN_BUDGET_EXHAUSTED else BUDGET_EXHAUSTED
      | Revoked \<Rightarrow> GRANT_REVOKED
      | _ \<Rightarrow> GRANT_NOT_EXCHANGED)"

definition stale_request :: "request_kind \<Rightarrow> time \<Rightarrow> uuid \<Rightarrow> inference_request \<Rightarrow> bool" where
  "stale_request kind cutoff grant_id r \<longleftrightarrow>
     started_in grant_id r \<and> lane_of kind r \<and> r_started_at r < cutoff"

definition started_count :: "request_kind \<Rightarrow> uuid \<Rightarrow> inference_request list \<Rightarrow> int" where
  "started_count kind grant_id rs = int (length (filter (\<lambda>r. started_in grant_id r \<and> lane_of kind r) rs))"

text \<open>Reclaiming the lane's requests that outlived the provider timeout twice over.\<close>

definition reclaim_stale ::
  "request_kind \<Rightarrow> time \<Rightarrow> time \<Rightarrow> inference_grant \<Rightarrow> inference_request list \<Rightarrow> inference_grant \<times> inference_request list" where
  "reclaim_stale kind cutoff now g rs =
     (let stale = stale_request kind cutoff (g_grant_id g) in
      if list_ex stale rs then
        (let rs' = update_where stale (cancel_request now) rs
         in (lane_set_active kind (started_count kind (g_grant_id g) rs') (lane_charge kind (reserved_sum stale rs) g), rs'))
      else (g, rs))"

definition ticket_backs_grant :: "ticket option \<Rightarrow> time \<Rightarrow> inference_grant \<Rightarrow> bool" where
  "ticket_backs_grant t now g \<longleftrightarrow>
     (case t of None \<Rightarrow> False
      | Some t \<Rightarrow> t_status t = ISSUED \<and> t_deadline t = g_ticket_deadline g \<and> t_deadline t > now)"

definition active_sum :: "request_kind \<Rightarrow> (inference_grant \<Rightarrow> bool) \<Rightarrow> inference_grant list \<Rightarrow> int" where
  "active_sum kind p gs = sum_rows (lane_active kind) (filter (\<lambda>g. p g \<and> g_status g = Active) gs)"

definition recent_count :: "request_kind \<Rightarrow> time \<Rightarrow> (inference_request \<Rightarrow> bool) \<Rightarrow> inference_request list \<Rightarrow> int" where
  "recent_count kind minute_start p rs =
     int (length (filter (\<lambda>r. p r \<and> r_started_at r \<ge> minute_start \<and> lane_of kind r) rs))"

definition admission_gates ::
  "request_kind \<Rightarrow> time \<Rightarrow> inference_proxy_config \<Rightarrow> inference_grant \<Rightarrow> inference_db \<Rightarrow> (string \<times> int \<times> int) list" where
  "admission_gates kind now config g s =
     (let h = g_validator_hotkey g; minute_start = now - td_minutes 1;
          of_validator = (\<lambda>r. list_ex (\<lambda>x. g_grant_id x = r_grant_id r \<and> g_validator_hotkey x = h) (i_grants s))
      in [(''per_validator'', active_sum kind (\<lambda>x. g_validator_hotkey x = h) (i_grants s), per_validator_concurrency kind config),
          (''global'', active_sum kind (\<lambda>x. True) (i_grants s), global_concurrency kind config),
          (''per_ticket_rpm'', recent_count kind minute_start (\<lambda>r. r_grant_id r = g_grant_id g) (i_requests s), per_ticket_rpm kind config),
          (''per_validator_rpm'', recent_count kind minute_start of_validator (i_requests s), per_validator_rpm kind config),
          (''global_rpm'', recent_count kind minute_start (\<lambda>r. True) (i_requests s), global_rpm kind config)])"

definition new_request ::
  "inference_grant \<Rightarrow> uuid \<Rightarrow> request_kind \<Rightarrow> string \<Rightarrow> int \<Rightarrow> int option \<Rightarrow> time \<Rightarrow> inference_request" where
  "new_request g nonce kind model token_reservation max_chargeable_tokens now =
     \<lparr>r_grant_id = g_grant_id g, r_nonce = nonce, r_generation = g_generation g, r_status = Started,
      r_request_kind = kind, r_model = model, r_reserved_tokens = token_reservation,
      r_max_chargeable_tokens =
        (case max_chargeable_tokens of None \<Rightarrow> token_reservation | Some n \<Rightarrow> max token_reservation n),
      r_prompt_tokens = 0, r_completion_tokens = 0, r_cost_microusd = 0, r_upstream_provider = None,
      r_upstream_attempts = 0, r_openrouter_attempts = 0, r_fallback_phase = 0, r_terminal_error_code = None,
      r_timed_out = False, r_latency_ms = None, r_started_at = now, r_completed_at = None\<rparr>"

record begin_request =
  b_grant_id :: uuid
  b_nonce :: uuid
  b_bearer :: string
  b_model :: string
  b_token_reservation :: int
  b_max_chargeable_tokens :: "int option"
  b_now :: time
  b_request_kind :: string

text \<open>
  From the reservation's budget checks to the insert, on the grant \<open>g\<close> the reclamation left, whose
  row is already written back.
\<close>

definition reserve ::
  "begin_request \<Rightarrow> request_kind \<Rightarrow> inference_proxy_config \<Rightarrow> inference_grant \<Rightarrow> inference_db \<Rightarrow>
   inference_db \<times> (inference_decline + inference_grant \<times> inference_request)" where
  "reserve b kind config g s =
     (let put = (\<lambda>g. s\<lparr>i_grants := set_row g_grant_id g (i_grants s)\<rparr>);
          n = b_token_reservation b;
          active_reserved = reserved_sum (\<lambda>r. started_in (g_grant_id g) r \<and> lane_of kind r) (i_requests s)
      in if kind = Chat \<and> g_request_count g \<ge> g_request_budget g
         then (put (g\<lparr>g_status := Exhausted\<rparr>), Inl BUDGET_EXHAUSTED)
         else if kind = Embedding \<and> g_embedding_request_count g \<ge> g_embedding_request_budget g
         then (s, Inl BUDGET_EXHAUSTED)
         else if n < 1 then (s, Inl UNATTRIBUTED)
         else if lane_spent kind g + active_reserved + n > lane_token_budget kind g then
           (if n > lane_token_budget kind g then (s, Inl RESERVATION_TOO_LARGE)
            else if lane_spent kind g + n > lane_token_budget kind g
            then (if kind = Chat then put (g\<lparr>g_status := Exhausted\<rparr>) else s, Inl TOKEN_BUDGET_EXHAUSTED)
            else (s, Inl AT_CAPACITY))
         else if lane_active kind g \<ge> per_ticket_concurrency kind config then (s, Inl AT_CAPACITY)
         else if get_row rkey (g_grant_id g, b_nonce b) (i_requests s) \<noteq> None then (s, Inl NONCE_REPLAYED)
         else if first_exhausted_scope (admission_gates kind (b_now b) config g s) \<noteq> None then (s, Inl AT_CAPACITY)
         else (let r = new_request g (b_nonce b) kind (b_model b) n (b_max_chargeable_tokens b) (b_now b);
                   g' = (lane_set_count kind (lane_count kind g + 1) (lane_set_active kind (lane_active kind g + 1) g))
                          \<lparr>g_updated_at := Some (b_now b)\<rparr>
               in ((put g')\<lparr>i_requests := i_requests s @ [r]\<rparr>, Inr (g', r))))"

definition begin_inference_request ::
  "(string \<Rightarrow> string) \<Rightarrow> begin_request \<Rightarrow> inference_proxy_config \<Rightarrow> inference_db \<Rightarrow>
   inference_db \<times> (inference_decline + inference_grant \<times> inference_request)" where
  "begin_inference_request sha b config s =
     (case parse_request_kind (b_request_kind b) of None \<Rightarrow> (s, Inl UNATTRIBUTED)
      | Some kind \<Rightarrow>
      case get_row g_grant_id (b_grant_id b) (i_grants s) of None \<Rightarrow> (s, Inl UNATTRIBUTED)
      | Some g \<Rightarrow>
      if g_bearer_digest g \<noteq> Some (bearer_digest sha (b_bearer b)) then (s, Inl UNATTRIBUTED)
      else if g_expires_at g \<le> b_now b then (s, Inl LEASE_EXPIRED)
      else if \<not> model_permitted kind (b_model b) g then (s, Inl MODEL_NOT_PERMITTED)
      else if g_status g \<noteq> Active then (s, Inl (inactive_decline kind (b_token_reservation b) g))
      else (case reclaim_stale kind (b_now b - ip_timeout config * 2) (b_now b) g (i_requests s) of
        (g1, rs) \<Rightarrow>
          (let s1 = s\<lparr>i_grants := set_row g_grant_id g1 (i_grants s), i_requests := rs\<rparr>
           in if \<not> ticket_backs_grant (grant_ticket g (i_tickets s)) (b_now b) g1
              then (s1\<lparr>i_grants := set_row g_grant_id (g1\<lparr>g_status := Revoked\<rparr>) (i_grants s1)\<rparr>, Inl GRANT_REVOKED)
              else reserve b kind config g1 s1)))"

subsection \<open>Settlement\<close>

record finish_report =
  fr_grant_id :: uuid
  fr_nonce :: uuid
  fr_generation :: int
  fr_status :: request_status
  fr_prompt_tokens :: int
  fr_completion_tokens :: int
  fr_cost_microusd :: int
  fr_usage_available :: bool
  fr_now :: time
  fr_upstream_provider :: "string option"
  fr_timed_out :: bool
  fr_latency_ms :: "int option"
  fr_upstream_attempts :: int
  fr_openrouter_attempts :: int
  fr_fallback_phase :: int
  fr_terminal_error_code :: "string option"

text \<open>What is charged for a call, and whether the clamp refused its accounting.\<close>

definition settled_usage :: "finish_report \<Rightarrow> inference_request \<Rightarrow> int \<times> int \<times> bool" where
  "settled_usage f r =
     (let p = max 0 (fr_prompt_tokens f); c = max 0 (fr_completion_tokens f)
      in if \<not> fr_usage_available f then (r_reserved_tokens r, 0, False)
         else if p + c > r_max_chargeable_tokens r then (r_max_chargeable_tokens r, 0, True)
         else (p, c, False))"

definition finishable :: "finish_report \<Rightarrow> inference_request \<Rightarrow> bool" where
  "finishable f r \<longleftrightarrow>
     (r_status r = Started \<or>
      r_status r = Canceled \<and> \<not> (r_prompt_tokens r > 0 \<or> r_completion_tokens r > 0 \<or> r_cost_microusd r > 0)) \<and>
     r_generation r = fr_generation f"

definition settled_request :: "finish_report \<Rightarrow> bool \<Rightarrow> int \<Rightarrow> int \<Rightarrow> inference_request \<Rightarrow> inference_request" where
  "settled_request f deliverable p c r =
     r\<lparr>r_status := (if r_status r = Started \<and> (deliverable \<or> fr_status f \<noteq> Completed) then fr_status f else Canceled),
       r_prompt_tokens := p, r_completion_tokens := c, r_cost_microusd := max 0 (fr_cost_microusd f),
       r_upstream_provider := fr_upstream_provider f, r_upstream_attempts := max 0 (fr_upstream_attempts f),
       r_openrouter_attempts := max 0 (fr_openrouter_attempts f),
       r_fallback_phase := min 1 (max 0 (fr_fallback_phase f)), r_terminal_error_code := fr_terminal_error_code f,
       r_timed_out := fr_timed_out f, r_latency_ms := fr_latency_ms f, r_completed_at := Some (fr_now f)\<rparr>"

fun lane_settle :: "request_kind \<Rightarrow> bool \<Rightarrow> int \<Rightarrow> int \<Rightarrow> int \<Rightarrow> inference_grant \<Rightarrow> inference_grant" where
  "lane_settle Chat was_started p c cost g =
     g\<lparr>g_active_requests := (if was_started then max 0 (g_active_requests g - 1) else g_active_requests g),
       g_prompt_tokens := g_prompt_tokens g + p, g_completion_tokens := g_completion_tokens g + c,
       g_cost_microusd := g_cost_microusd g + cost\<rparr>"
| "lane_settle Embedding was_started p c cost g =
     g\<lparr>g_embedding_active_requests := (if was_started then max 0 (g_embedding_active_requests g - 1) else g_embedding_active_requests g),
       g_embedding_tokens := g_embedding_tokens g + p,
       g_embedding_cost_microusd := g_embedding_cost_microusd g + cost\<rparr>"

definition settled_grant :: "finish_report \<Rightarrow> inference_request \<Rightarrow> int \<Rightarrow> int \<Rightarrow> inference_grant \<Rightarrow> inference_grant" where
  "settled_grant f r p c g =
     (let g' = (lane_settle (r_request_kind r) (r_status r = Started) p c (max 0 (fr_cost_microusd f)) g)
                 \<lparr>g_updated_at := Some (fr_now f)\<rparr>
      in if r_request_kind r = Chat \<and> g_prompt_tokens g' + g_completion_tokens g' \<ge> g_token_budget g'
         then g'\<lparr>g_status := Exhausted\<rparr> else g')"

definition finish_inference_request :: "finish_report \<Rightarrow> inference_db \<Rightarrow> inference_db \<times> bool" where
  "finish_inference_request f s =
     (case get_row g_grant_id (fr_grant_id f) (i_grants s) of None \<Rightarrow> (s, False)
      | Some g \<Rightarrow>
      case get_row rkey (fr_grant_id f, fr_nonce f) (i_requests s) of None \<Rightarrow> (s, False)
      | Some r \<Rightarrow>
      if \<not> finishable f r then (s, False)
      else (case settled_usage f r of (p, c, clamped) \<Rightarrow>
        (let deliverable =
               fr_status f = Completed \<and> fr_usage_available f \<and> g_status g = Active \<and>
               g_generation g = fr_generation f \<and> r_status r = Started \<and> g_expires_at g > fr_now f \<and>
               ticket_backs_grant (grant_ticket g (i_tickets s)) (fr_now f) g \<and> \<not> clamped
         in (s\<lparr>i_grants := set_row g_grant_id (settled_grant f r p c g) (i_grants s),
               i_requests := set_row rkey (settled_request f deliverable p c r) (i_requests s)\<rparr>, deliverable))))"

end
