(* ===== verification/Inference_Books.thy ===== *)
theory Inference_Books
  imports Inference
begin

text \<open>
  The accounting of the inference grants. For every grant and lane the stored counters agree with the
  request rows, the request budget is never exceeded, and what has been charged together with the most
  that may still be charged for requests in flight stays within the token budget plus one ceiling slack
  per concurrent request. Every operation of \<open>ditto/db/queries/inference.py\<close> keeps these books.
\<close>

subsection \<open>The books of a grant\<close>

text \<open>
  What a request has cost its grant, and the meters of a lane: requests in flight, requests
  admitted, tokens charged, tokens reserved in flight, and the exposure, which counts a request in
  flight at the most it may still be charged.
\<close>

definition charge :: "inference_request \<Rightarrow> int" where
  "charge r = (case r_request_kind r of Chat \<Rightarrow> r_prompt_tokens r + r_completion_tokens r | Embedding \<Rightarrow> r_prompt_tokens r)"

definition in_lane :: "request_kind \<Rightarrow> uuid \<Rightarrow> inference_request \<Rightarrow> bool" where
  "in_lane k gid r \<longleftrightarrow> r_grant_id r = gid \<and> r_request_kind r = k"

definition in_flight :: "request_kind \<Rightarrow> uuid \<Rightarrow> inference_request \<Rightarrow> int" where
  "in_flight k gid r = of_bool (in_lane k gid r \<and> r_status r = Started)"

definition admitted :: "request_kind \<Rightarrow> uuid \<Rightarrow> inference_request \<Rightarrow> int" where
  "admitted k gid r = of_bool (in_lane k gid r)"

definition charged :: "request_kind \<Rightarrow> uuid \<Rightarrow> inference_request \<Rightarrow> int" where
  "charged k gid r = of_bool (in_lane k gid r \<and> r_status r \<noteq> Started) * charge r"

definition reserved :: "request_kind \<Rightarrow> uuid \<Rightarrow> inference_request \<Rightarrow> int" where
  "reserved k gid r = of_bool (in_lane k gid r \<and> r_status r = Started) * r_reserved_tokens r"

definition exposure :: "request_kind \<Rightarrow> uuid \<Rightarrow> inference_request \<Rightarrow> int" where
  "exposure k gid r = of_bool (in_lane k gid r) * (if r_status r = Started then r_max_chargeable_tokens r else charge r)"

lemmas meter_defs = in_flight_def admitted_def charged_def reserved_def exposure_def in_lane_def

text \<open>
  The books of one lane. \<open>C\<close> bounds the requests a grant may have in flight per lane and \<open>D\<close> how
  far a request's ceiling may lie above its reservation.
\<close>

definition lane_ok :: "(request_kind \<Rightarrow> nat) \<Rightarrow> nat \<Rightarrow> request_kind \<Rightarrow> inference_grant \<Rightarrow> inference_request list \<Rightarrow> bool" where
  "lane_ok C D k g rs \<longleftrightarrow>
     (let gid = g_grant_id g in
      lane_active k g = sum_rows (in_flight k gid) rs \<and>
      lane_count k g = sum_rows (admitted k gid) rs \<and>
      lane_spent k g = sum_rows (charged k gid) rs \<and>
      lane_count k g \<le> max 0 (lane_request_budget k g) \<and>
      sum_rows (exposure k gid) rs \<le> max 0 (lane_token_budget k g) + int (C k * D))"

definition request_ok :: "nat \<Rightarrow> inference_request \<Rightarrow> bool" where
  "request_ok D r \<longleftrightarrow>
     1 \<le> r_reserved_tokens r \<and> r_reserved_tokens r \<le> r_max_chargeable_tokens r \<and>
     r_max_chargeable_tokens r \<le> r_reserved_tokens r + int D \<and>
     0 \<le> r_prompt_tokens r \<and> 0 \<le> r_completion_tokens r \<and>
     r_prompt_tokens r + r_completion_tokens r \<le> r_max_chargeable_tokens r \<and>
     (r_status r = Started \<longrightarrow> r_prompt_tokens r = 0 \<and> r_completion_tokens r = 0)"

definition inference_ok :: "(request_kind \<Rightarrow> nat) \<Rightarrow> nat \<Rightarrow> inference_db \<Rightarrow> bool" where
  "inference_ok C D s \<longleftrightarrow>
     distinct (map g_grant_id (i_grants s)) \<and> distinct (map rkey (i_requests s)) \<and>
     (\<forall>r \<in> set (i_requests s). request_ok D r \<and> r_grant_id r \<in> set (map g_grant_id (i_grants s))) \<and>
     (\<forall>g \<in> set (i_grants s). \<forall>k. lane_ok C D k g (i_requests s))"

text \<open>Cancelling in-flight requests of a grant moves their reservations into the charged meter.\<close>

lemma request_ok_cancel: "request_ok D r \<Longrightarrow> r_status r = Started \<Longrightarrow> request_ok D (cancel_request now r)"
  by (simp add: request_ok_def cancel_request_def)

lemma r_grant_id_cancel [simp]: "r_grant_id (cancel_request now r) = r_grant_id r"
  by (simp add: cancel_request_def)

lemma rkey_cancel [simp]: "rkey (cancel_request now r) = rkey r"
  by (simp add: rkey_def cancel_request_def)

lemma cancel_meters:
  assumes "request_ok D r" and "started_in gid r"
  shows "charged k gid (cancel_request now r) = charged k gid r + of_bool (lane_of k r) * r_reserved_tokens r"
    and "reserved k gid (cancel_request now r) = reserved k gid r - of_bool (lane_of k r) * r_reserved_tokens r"
    and "in_flight k gid (cancel_request now r) = in_flight k gid r - of_bool (lane_of k r)"
    and "admitted k gid' (cancel_request now r) = admitted k gid' r"
    and "exposure k gid' (cancel_request now r) \<le> exposure k gid' r"
  using assms
  by (auto simp: meter_defs cancel_request_def started_in_def lane_of_def request_ok_def charge_def split: request_kind.splits)

lemma cancel_meters_other:
  assumes "started_in gid r" and "gid' \<noteq> gid"
  shows "charged k gid' (cancel_request now r) = charged k gid' r"
    and "reserved k gid' (cancel_request now r) = reserved k gid' r"
    and "in_flight k gid' (cancel_request now r) = in_flight k gid' r"
  using assms by (auto simp: meter_defs cancel_request_def started_in_def)

lemma cancel_sums:
  assumes "\<forall>r \<in> set rs. request_ok D r" and "\<And>r. p r \<Longrightarrow> started_in gid r"
  shows "sum_rows (charged k gid) (update_where p (cancel_request now) rs) =
           sum_rows (charged k gid) rs + reserved_sum (\<lambda>r. p r \<and> lane_of k r) rs"
    and "sum_rows (reserved k gid) (update_where p (cancel_request now) rs) =
           sum_rows (reserved k gid) rs - reserved_sum (\<lambda>r. p r \<and> lane_of k r) rs"
    and "sum_rows (in_flight k gid) (update_where p (cancel_request now) rs) =
           sum_rows (in_flight k gid) rs - int (length (filter (\<lambda>r. p r \<and> lane_of k r) rs))"
  using assms by (induction rs) (auto simp: row_simps reserved_sum_def cancel_meters(1-3))

lemma cancel_sums_any:
  assumes "\<forall>r \<in> set rs. request_ok D r" and "\<And>r. p r \<Longrightarrow> started_in gid r"
  shows "sum_rows (admitted k gid') (update_where p (cancel_request now) rs) = sum_rows (admitted k gid') rs"
    and "sum_rows (exposure k gid') (update_where p (cancel_request now) rs) \<le> sum_rows (exposure k gid') rs"
  using assms by (induction rs) (auto simp: row_simps cancel_meters(4) [of _ _ gid] intro!: add_mono cancel_meters(5) [of _ _ gid])

lemma cancel_sums_other:
  assumes "\<And>r. p r \<Longrightarrow> started_in gid r" and "gid' \<noteq> gid"
  shows "sum_rows (charged k gid') (update_where p (cancel_request now) rs) = sum_rows (charged k gid') rs"
    and "sum_rows (reserved k gid') (update_where p (cancel_request now) rs) = sum_rows (reserved k gid') rs"
    and "sum_rows (in_flight k gid') (update_where p (cancel_request now) rs) = sum_rows (in_flight k gid') rs"
  using assms by (induction rs) (auto simp: row_simps cancel_meters_other [of gid])


subsection \<open>Every operation keeps the books\<close>

lemma inference_okD:
  assumes "inference_ok C D s"
  shows "distinct (map g_grant_id (i_grants s))" and "distinct (map rkey (i_requests s))"
    and "\<forall>r \<in> set (i_requests s). request_ok D r"
    and "r \<in> set (i_requests s) \<Longrightarrow> r_grant_id r \<in> g_grant_id ` set (i_grants s)"
    and "g \<in> set (i_grants s) \<Longrightarrow> lane_ok C D k g (i_requests s)"
  using assms by (auto simp: inference_ok_def)

lemma inference_ok_putI:
  assumes ok: "inference_ok C D s" and g: "g \<in> set (i_grants s)" and id: "g_grant_id g' = g_grant_id g"
    and "distinct (map rkey rs)" and "\<And>r. r \<in> set rs \<Longrightarrow> request_ok D r \<and> r_grant_id r \<in> g_grant_id ` set (i_grants s)"
    and lane: "\<And>k. lane_ok C D k g' rs"
    and other: "\<And>k h. g_grant_id h \<noteq> g_grant_id g \<Longrightarrow> lane_ok C D k h (i_requests s) \<Longrightarrow> lane_ok C D k h rs"
  shows "inference_ok C D (s\<lparr>i_grants := set_row g_grant_id g' (i_grants s), i_requests := rs\<rparr>)"
proof -
  have ids: "map g_grant_id (set_row g_grant_id g' (i_grants s)) = map g_grant_id (i_grants s)"
    by (rule map_key_set_row)
  have "lane_ok C D k h rs" if "h \<in> set (set_row g_grant_id g' (i_grants s))" for h k
    using in_set_row [OF that] lane other inference_okD(5) [OF ok] id by auto
  then show ?thesis using assms(4,5) inference_okD(1) [OF ok] unfolding inference_ok_def
    by (simp add: ids del: set_map) (simp add: image_def)
qed

text \<open>A grant whose meters are untouched may change in every other column.\<close>

definition same_meters :: "inference_grant \<Rightarrow> inference_grant \<Rightarrow> bool" where
  "same_meters g h \<longleftrightarrow>
     g_grant_id g = g_grant_id h \<and>
     (\<forall>k. lane_active k g = lane_active k h \<and> lane_count k g = lane_count k h \<and> lane_spent k g = lane_spent k h \<and>
          lane_request_budget k g = lane_request_budget k h \<and> lane_token_budget k g = lane_token_budget k h)"

lemma same_meters_lane_ok: "same_meters g h \<Longrightarrow> lane_ok C D k h rs \<Longrightarrow> lane_ok C D k g rs"
  by (simp add: same_meters_def lane_ok_def Let_def)

lemma all_kinds: "(\<forall>k. P k) \<longleftrightarrow> P Chat \<and> P Embedding"
  using request_kind.exhaust by metis

lemma inference_ok_put_same:
  assumes "inference_ok C D s" and "g \<in> set (i_grants s)" and "same_meters g' g"
  shows "inference_ok C D (s\<lparr>i_grants := set_row g_grant_id g' (i_grants s)\<rparr>)"
proof -
  have "inference_ok C D (s\<lparr>i_grants := set_row g_grant_id g' (i_grants s), i_requests := i_requests s\<rparr>)"
    using assms inference_okD [OF assms(1)]
    by (intro inference_ok_putI [of C D s g]) (auto simp: same_meters_def intro: same_meters_lane_ok [OF assms(3)])
  then show ?thesis by simp
qed

lemma lane_charge_simps [simp]:
  "g_grant_id (lane_charge k n g) = g_grant_id g"
  "lane_active k' (lane_charge k n g) = lane_active k' g"
  "lane_count k' (lane_charge k n g) = lane_count k' g"
  "lane_spent k' (lane_charge k n g) = lane_spent k' g + (if k' = k then n else 0)"
  "lane_request_budget k' (lane_charge k n g) = lane_request_budget k' g"
  "lane_token_budget k' (lane_charge k n g) = lane_token_budget k' g"
  by (cases k; cases k'; simp)+

lemma lane_set_active_simps [simp]:
  "g_grant_id (lane_set_active k n g) = g_grant_id g"
  "lane_active k' (lane_set_active k n g) = (if k' = k then n else lane_active k' g)"
  "lane_count k' (lane_set_active k n g) = lane_count k' g"
  "lane_spent k' (lane_set_active k n g) = lane_spent k' g"
  "lane_request_budget k' (lane_set_active k n g) = lane_request_budget k' g"
  "lane_token_budget k' (lane_set_active k n g) = lane_token_budget k' g"
  by (cases k; cases k'; simp)+

lemma lane_set_count_simps [simp]:
  "g_grant_id (lane_set_count k n g) = g_grant_id g"
  "lane_active k' (lane_set_count k n g) = lane_active k' g"
  "lane_count k' (lane_set_count k n g) = (if k' = k then n else lane_count k' g)"
  "lane_spent k' (lane_set_count k n g) = lane_spent k' g"
  "lane_request_budget k' (lane_set_count k n g) = lane_request_budget k' g"
  "lane_token_budget k' (lane_set_count k n g) = lane_token_budget k' g"
  by (cases k; cases k'; simp)+

lemma requests_after_cancel:
  assumes ok: "inference_ok C D s" and p: "\<And>r. p r \<Longrightarrow> started_in gid r"
  shows "distinct (map rkey (update_where p (cancel_request now) (i_requests s)))"
    and "r \<in> set (update_where p (cancel_request now) (i_requests s)) \<Longrightarrow>
           request_ok D r \<and> r_grant_id r \<in> g_grant_id ` set (i_grants s)"
proof -
  have "map rkey (update_where p (cancel_request now) (i_requests s)) = map rkey (i_requests s)"
    by (rule map_update_where_same) simp
  then show "distinct (map rkey (update_where p (cancel_request now) (i_requests s)))"
    using inference_okD(2) [OF ok] by simp
  show "r \<in> set (update_where p (cancel_request now) (i_requests s)) \<Longrightarrow>
           request_ok D r \<and> r_grant_id r \<in> g_grant_id ` set (i_grants s)"
    using inference_okD(3,4) [OF ok] p [THEN iffD1 [OF started_in_def], THEN conjunct2]
    by (elim in_update_whereE) (auto intro: request_ok_cancel)
qed

lemma other_after_cancel:
  assumes "\<And>r. p r \<Longrightarrow> started_in gid r" and "g_grant_id h \<noteq> gid" and "\<forall>r \<in> set rs. request_ok D r" and "lane_ok C D k h rs"
  shows "lane_ok C D k h (update_where p (cancel_request now) rs)"
  using assms(4) cancel_sums_other [of p gid "g_grant_id h", OF assms(1,2)] cancel_sums_any(1) [of rs D p gid, OF assms(3,1)]
    cancel_sums_any(2) [of rs D p gid k "g_grant_id h" now, OF assms(3,1)]
  by (simp add: lane_ok_def Let_def)

lemma in_flight_after_cancel_all:
  "sum_rows (in_flight k gid) (update_where (started_in gid) (cancel_request now) rs) = 0"
  by (rule sum_rows_zero) (elim in_update_whereE; simp add: in_flight_def in_lane_def started_in_def cancel_request_def)

lemma cancel_started_ok:
  assumes ok: "inference_ok C D s" and g: "g \<in> set (i_grants s)" and c: "cancel_started now g (i_requests s) = (g1, rs)"
    and same: "same_meters g' g1"
  shows "inference_ok C D (s\<lparr>i_grants := set_row g_grant_id g' (i_grants s), i_requests := rs\<rparr>)"
proof -
  let ?p = "started_in (g_grant_id g)"
  have rs: "rs = update_where ?p (cancel_request now) (i_requests s)" using c by (simp add: cancel_started_def Let_def)
  have id: "g_grant_id g1 = g_grant_id g" using c by (auto simp: cancel_started_def Let_def)
  have "lane_ok C D k g1 rs" for k
  proof -
    have L: "lane_active k g1 = 0" "lane_count k g1 = lane_count k g"
      "lane_spent k g1 = lane_spent k g + reserved_sum (\<lambda>r. ?p r \<and> lane_of k r) (i_requests s)"
      "lane_request_budget k g1 = lane_request_budget k g" "lane_token_budget k g1 = lane_token_budget k g"
      using c by (cases k; auto simp: cancel_started_def Let_def)+
    show ?thesis
      using inference_okD(5) [OF ok g, of k] cancel_sums [of "i_requests s" D ?p "g_grant_id g", OF inference_okD(3) [OF ok]]
        cancel_sums_any(1) [of "i_requests s" D ?p "g_grant_id g", OF inference_okD(3) [OF ok]]
        cancel_sums_any(2) [of "i_requests s" D ?p "g_grant_id g" k "g_grant_id g" now, OF inference_okD(3) [OF ok]]
      by (simp add: lane_ok_def Let_def L id rs in_flight_after_cancel_all)
  qed
  then have lane: "lane_ok C D k g' rs" for k using same_meters_lane_ok [OF same] by blast
  show ?thesis
  proof (rule inference_ok_putI [OF ok g])
    show "g_grant_id g' = g_grant_id g" using same id by (simp add: same_meters_def)
    show "distinct (map rkey rs)" unfolding rs by (rule requests_after_cancel(1) [OF ok])
    show "request_ok D r \<and> r_grant_id r \<in> g_grant_id ` set (i_grants s)" if "r \<in> set rs" for r
      using requests_after_cancel(2) [OF ok _ that [unfolded rs]] by blast
    show "lane_ok C D k g' rs" for k by (rule lane)
    show "lane_ok C D k h rs" if "g_grant_id h \<noteq> g_grant_id g" "lane_ok C D k h (i_requests s)" for k h
      unfolding rs by (rule other_after_cancel [OF _ that(1) inference_okD(3) [OF ok] that(2)])
  qed
qed

text \<open>Reclaiming the stale requests of one lane.\<close>

lemma started_count_sum: "started_count k gid rs = sum_rows (in_flight k gid) rs"
  by (induction rs) (auto simp: started_count_def in_flight_def in_lane_def started_in_def lane_of_def)

lemma reclaim_stale_ok:
  assumes ok: "inference_ok C D s" and g: "g \<in> set (i_grants s)" and c: "reclaim_stale k cutoff now g (i_requests s) = (g1, rs)"
  shows "inference_ok C D (s\<lparr>i_grants := set_row g_grant_id g1 (i_grants s), i_requests := rs\<rparr>)"
    and "g_grant_id g1 = g_grant_id g"
proof -
  let ?p = "stale_request k cutoff (g_grant_id g)"
  have p: "?p r \<Longrightarrow> started_in (g_grant_id g) r" for r by (simp add: stale_request_def)
  show id: "g_grant_id g1 = g_grant_id g" using c by (auto simp: reclaim_stale_def Let_def split: if_splits)
  show "inference_ok C D (s\<lparr>i_grants := set_row g_grant_id g1 (i_grants s), i_requests := rs\<rparr>)"
  proof (cases "list_ex ?p (i_requests s)")
    case False
    then have "g1 = g" "rs = i_requests s" using c by (simp_all add: reclaim_stale_def Let_def)
    then show ?thesis using inference_ok_put_same [OF ok g, of g] by (simp add: same_meters_def)
  next
    case True
    then have rs: "rs = update_where ?p (cancel_request now) (i_requests s)"
      and g1: "g1 = lane_set_active k (started_count k (g_grant_id g) rs) (lane_charge k (reserved_sum ?p (i_requests s)) g)"
      using c by (auto simp: reclaim_stale_def Let_def)
    have none: "filter (\<lambda>r. ?p r \<and> lane_of k' r) rows = (if k' = k then filter ?p rows else [])" for k' rows
      by (auto simp: stale_request_def lane_of_def filter_empty_conv intro: filter_cong)
    show ?thesis
    proof (rule inference_ok_putI [OF ok g id])
      show "distinct (map rkey rs)" unfolding rs by (rule requests_after_cancel(1) [OF ok p])
      show "request_ok D r \<and> r_grant_id r \<in> g_grant_id ` set (i_grants s)" if "r \<in> set rs" for r
        using requests_after_cancel(2) [OF ok p that [unfolded rs]] by blast
      show "lane_ok C D k' g1 rs" for k'
        using inference_okD(5) [OF ok g, of k']
          cancel_sums [of "i_requests s" D ?p "g_grant_id g" k', OF inference_okD(3) [OF ok] p]
          cancel_sums_any(1) [of "i_requests s" D ?p "g_grant_id g", OF inference_okD(3) [OF ok] p]
          cancel_sums_any(2) [of "i_requests s" D ?p "g_grant_id g" k' "g_grant_id g" now, OF inference_okD(3) [OF ok] p]
        by (cases "k' = k") (simp_all add: lane_ok_def Let_def g1 started_count_sum rs reserved_sum_def none)
      show "lane_ok C D k' h rs" if "g_grant_id h \<noteq> g_grant_id g" "lane_ok C D k' h (i_requests s)" for k' h
        unfolding rs by (rule other_after_cancel [OF p that(1) inference_okD(3) [OF ok] that(2)])
    qed
  qed
qed


text \<open>Admitting a request that fits.\<close>

lemma reserved_sum_meter: "reserved_sum (\<lambda>r. started_in gid r \<and> lane_of k r) rs = sum_rows (reserved k gid) rs"
  by (induction rs) (auto simp: reserved_sum_def reserved_def in_lane_def started_in_def lane_of_def)

lemma exposure_le:
  assumes "\<forall>r \<in> set rs. request_ok D r"
  shows "sum_rows (exposure k gid) rs \<le> sum_rows (charged k gid) rs + sum_rows (reserved k gid) rs + int D * sum_rows (in_flight k gid) rs"
  using assms
proof (induction rs)
  case (Cons r rs)
  have "exposure k gid r \<le> charged k gid r + reserved k gid r + int D * in_flight k gid r"
    using Cons.prems by (auto simp: meter_defs request_ok_def)
  with Cons show ?case by (simp add: algebra_simps)
qed simp

lemma new_request_meters:
  "in_flight k gid (new_request g nonce kind m n mc now) = of_bool (gid = g_grant_id g \<and> k = kind)"
  "admitted k gid (new_request g nonce kind m n mc now) = of_bool (gid = g_grant_id g \<and> k = kind)"
  "charged k gid (new_request g nonce kind m n mc now) = 0"
  "reserved k gid (new_request g nonce kind m n mc now) = of_bool (gid = g_grant_id g \<and> k = kind) * n"
  "exposure k gid (new_request g nonce kind m n mc now) =
     of_bool (gid = g_grant_id g \<and> k = kind) * (case mc of None \<Rightarrow> n | Some c \<Rightarrow> max n c)"
  by (auto simp: meter_defs new_request_def)

lemma reserve_admits_ok:
  assumes ok: "inference_ok C D s" and g: "g \<in> set (i_grants s)"
    and r: "r = new_request g nonce kind m n mc now" and n: "1 \<le> n"
    and mc: "(case mc of None \<Rightarrow> n | Some c \<Rightarrow> max n c) \<le> n + int D"
    and fresh: "get_row rkey (g_grant_id g, nonce) (i_requests s) = None"
    and fits: "lane_spent kind g + sum_rows (reserved kind (g_grant_id g)) (i_requests s) + n \<le> lane_token_budget kind g"
    and count: "lane_count kind g < lane_request_budget kind g"
    and conc: "lane_active kind g < int (C kind)"
    and g': "same_meters g' (lane_set_count kind (lane_count kind g + 1) (lane_set_active kind (lane_active kind g + 1) g))"
  shows "inference_ok C D (s\<lparr>i_grants := set_row g_grant_id g' (i_grants s), i_requests := i_requests s @ [r]\<rparr>)"
proof (rule inference_ok_putI [OF ok g])
  show "g_grant_id g' = g_grant_id g" using g' by (simp add: same_meters_def)
  have "rkey r = (g_grant_id g, nonce)" by (simp add: r rkey_def new_request_def)
  with fresh show "distinct (map rkey (i_requests s @ [r]))"
    using inference_okD(2) [OF ok] by (auto simp: get_row_None_iff)
  show "request_ok D x \<and> r_grant_id x \<in> g_grant_id ` set (i_grants s)" if "x \<in> set (i_requests s @ [r])" for x
  proof (cases "x = r")
    case True
    then show ?thesis using g n mc by (auto simp: r new_request_def request_ok_def split: option.splits)
  next
    case False
    then show ?thesis using that inference_okD(3,4) [OF ok] by auto
  qed
  let ?rs = "i_requests s" and ?gid = "g_grant_id g"
  have room: "sum_rows (exposure kind ?gid) ?rs + (case mc of None \<Rightarrow> n | Some c \<Rightarrow> max n c) \<le> lane_token_budget kind g + int (C kind) * int D"
  proof -
    have "int D * (sum_rows (in_flight kind ?gid) ?rs + 1) \<le> int D * int (C kind)"
      using conc inference_okD(5) [OF ok g, of kind] by (intro mult_left_mono) (auto simp: lane_ok_def Let_def)
    then show ?thesis
      using exposure_le [OF inference_okD(3) [OF ok], of kind ?gid] mc fits inference_okD(5) [OF ok g, of kind]
      by (simp add: lane_ok_def Let_def algebra_simps)
  qed
  show "lane_ok C D k g' (i_requests s @ [r])" for k
  proof (rule same_meters_lane_ok [OF g'])
    show "lane_ok C D k (lane_set_count kind (lane_count kind g + 1) (lane_set_active kind (lane_active kind g + 1) g)) (i_requests s @ [r])"
      using inference_okD(5) [OF ok g, of k] count room by (cases "kind = k") (auto simp: lane_ok_def Let_def r new_request_meters)
  qed
  show "lane_ok C D k h (i_requests s @ [r])" if "g_grant_id h \<noteq> g_grant_id g" "lane_ok C D k h (i_requests s)" for k h
    using that by (simp add: lane_ok_def Let_def r new_request_meters)
qed

definition slack_ok :: "nat \<Rightarrow> begin_request \<Rightarrow> bool" where
  "slack_ok D b \<longleftrightarrow>
     (case b_max_chargeable_tokens b of None \<Rightarrow> True | Some c \<Rightarrow> c \<le> b_token_reservation b + int D)"

lemma reserve_ok:
  assumes ok: "inference_ok C D s" and g: "g \<in> set (i_grants s)"
    and D: "slack_ok D b" and C: "per_ticket_concurrency kind config \<le> int (C kind)"
  shows "inference_ok C D (fst (reserve b kind config g s))"
proof -
  have ex: "inference_ok C D (s\<lparr>i_grants := set_row g_grant_id (g\<lparr>g_status := Exhausted\<rparr>) (i_grants s)\<rparr>)"
    by (rule inference_ok_put_same [OF ok g]) (simp add: same_meters_def all_kinds)
  show ?thesis
  proof (cases "snd (reserve b kind config g s)")
    case (Inl e)
    then show ?thesis using ok ex by (auto simp: reserve_def Let_def split: if_splits)
  next
    case (Inr gr)
    let ?r = "new_request g (b_nonce b) kind (b_model b) (b_token_reservation b) (b_max_chargeable_tokens b) (b_now b)"
    let ?g' = "(lane_set_count kind (lane_count kind g + 1) (lane_set_active kind (lane_active kind g + 1) g))\<lparr>g_updated_at := Some (b_now b)\<rparr>"
    have st: "fst (reserve b kind config g s) = s\<lparr>i_grants := set_row g_grant_id ?g' (i_grants s), i_requests := i_requests s @ [?r]\<rparr>"
      and pre: "1 \<le> b_token_reservation b" "get_row rkey (g_grant_id g, b_nonce b) (i_requests s) = None"
      "lane_spent kind g + sum_rows (reserved kind (g_grant_id g)) (i_requests s) + b_token_reservation b \<le> lane_token_budget kind g"
      using Inr by (auto simp: reserve_def Let_def reserved_sum_meter split: if_splits)
    have conc: "lane_active kind g < int (C kind)"
      using Inr C by (auto simp: reserve_def Let_def split: if_splits)
    have mc: "(case b_max_chargeable_tokens b of None \<Rightarrow> b_token_reservation b | Some c \<Rightarrow> max (b_token_reservation b) c)
        \<le> b_token_reservation b + int D"
      using D by (auto simp: slack_ok_def split: option.splits)
    have count: "lane_count kind g < lane_request_budget kind g"
      using Inr by (cases kind) (auto simp: reserve_def Let_def split: if_splits)
    show ?thesis unfolding st
      by (rule reserve_admits_ok [OF ok g refl pre(1) mc pre(2,3) count conc]) (cases kind; simp add: same_meters_def all_kinds)
  qed
qed


lemma begin_inference_request_ok:
  assumes ok: "inference_ok C D s" and D: "slack_ok D b" and C: "\<And>k. per_ticket_concurrency k config \<le> int (C k)"
  shows "inference_ok C D (fst (begin_inference_request sha b config s))"
proof (cases "parse_request_kind (b_request_kind b)")
  case None
  then show ?thesis using ok by (simp add: begin_inference_request_def)
next
  case K: (Some kind)
  show ?thesis
  proof (cases "get_row g_grant_id (b_grant_id b) (i_grants s)")
    case None
    then show ?thesis using ok K by (simp add: begin_inference_request_def)
  next
    case G: (Some g)
    then have g: "g \<in> set (i_grants s)" by (auto dest: get_row_SomeD)
    obtain g1 rs where R: "reclaim_stale kind (b_now b - ip_timeout config * 2) (b_now b) g (i_requests s) = (g1, rs)"
      by fastforce
    let ?s1 = "s\<lparr>i_grants := set_row g_grant_id g1 (i_grants s), i_requests := rs\<rparr>"
    note ok1 = reclaim_stale_ok [OF ok g R]
    have g1: "g1 \<in> set (i_grants ?s1)" using g ok1(2) by (auto intro: set_row_mem)
    have rv: "inference_ok C D (?s1\<lparr>i_grants := set_row g_grant_id (g1\<lparr>g_status := Revoked\<rparr>) (i_grants ?s1)\<rparr>)"
      by (rule inference_ok_put_same [OF ok1(1) g1]) (simp add: same_meters_def all_kinds)
    then show ?thesis using ok reserve_ok [OF ok1(1) g1 D C]
      by (simp add: begin_inference_request_def K G R Let_def)
  qed
qed

text \<open>Settling a request in flight.\<close>

lemma settled_usage_bounds:
  assumes "settled_usage f r = (p, c, clamped)" and "request_ok D r"
  shows "0 \<le> p" and "0 \<le> c" and "p + c \<le> r_max_chargeable_tokens r"
  using assms by (auto simp: settled_usage_def request_ok_def Let_def split: if_splits)

lemma settled_request_simps:
  "rkey (settled_request f d p c r) = rkey r" "r_grant_id (settled_request f d p c r) = r_grant_id r"
  "r_request_kind (settled_request f d p c r) = r_request_kind r"
  "r_reserved_tokens (settled_request f d p c r) = r_reserved_tokens r"
  "r_max_chargeable_tokens (settled_request f d p c r) = r_max_chargeable_tokens r"
  "r_prompt_tokens (settled_request f d p c r) = p" "r_completion_tokens (settled_request f d p c r) = c"
  "r_status (settled_request f d p c r) =
     (if r_status r = Started \<and> (d \<or> fr_status f \<noteq> Completed) then fr_status f else Canceled)"
  by (simp_all add: settled_request_def rkey_def)

lemma lane_settle_simps:
  "g_grant_id (lane_settle k w p c cost g) = g_grant_id g"
  "lane_active k' (lane_settle k w p c cost g) = (if k' = k \<and> w then max 0 (lane_active k' g - 1) else lane_active k' g)"
  "lane_count k' (lane_settle k w p c cost g) = lane_count k' g"
  "lane_spent k' (lane_settle k w p c cost g) =
     lane_spent k' g + (if k' = k then (if k = Chat then p + c else p) else 0)"
  "lane_request_budget k' (lane_settle k w p c cost g) = lane_request_budget k' g"
  "lane_token_budget k' (lane_settle k w p c cost g) = lane_token_budget k' g"
  by (cases k; cases k'; simp)+

lemma settled_grant_same_meters:
  "same_meters (settled_grant f r p c g)
     (lane_settle (r_request_kind r) (r_status r = Started) p c (max 0 (fr_cost_microusd f)) g)"
  by (cases "r_request_kind r") (simp_all add: settled_grant_def Let_def same_meters_def all_kinds)

lemma settle_started_ok:
  assumes ok: "inference_ok C D s" and g: "g \<in> set (i_grants s)"
    and r: "get_row rkey (g_grant_id g, nonce) (i_requests s) = Some r" and st: "r_status r = Started"
    and u: "settled_usage f r = (p, c, clamped)" and fs: "fr_status f \<noteq> Started"
  shows "inference_ok C D (s\<lparr>i_grants := set_row g_grant_id (settled_grant f r p c g) (i_grants s),
                        i_requests := set_row rkey (settled_request f d p c r) (i_requests s)\<rparr>)"
proof -
  let ?r' = "settled_request f d p c r" and ?rs = "i_requests s" and ?gid = "g_grant_id g"
  have mem: "r \<in> set ?rs" and key: "rkey r = (?gid, nonce)" using r by (auto dest: get_row_SomeD)
  have gid: "r_grant_id r = ?gid" using key by (simp add: rkey_def)
  have rok: "request_ok D r" using mem inference_okD(3) [OF ok] by blast
  note pc = settled_usage_bounds [OF u rok]
  have sums: "sum_rows h (set_row rkey ?r' ?rs) = sum_rows h ?rs - h r + h ?r'" for h :: "inference_request \<Rightarrow> int"
    using r key by (intro sum_rows_set_row inference_okD(2) [OF ok]) (simp add: settled_request_simps)
  have st': "r_status ?r' \<noteq> Started" using fs by (simp add: settled_request_simps)
  have pos: "1 \<le> sum_rows (in_flight (r_request_kind r) ?gid) ?rs"
    using sum_member_le [OF mem, of "in_flight (r_request_kind r) ?gid"] st gid by (simp add: in_flight_def in_lane_def)
  have ch: "charge ?r' = (if r_request_kind r = Chat then p + c else p)"
    by (simp add: charge_def settled_request_simps split: request_kind.splits)
  have le: "charge ?r' \<le> r_max_chargeable_tokens r" using pc by (simp add: ch)
  show ?thesis
  proof (rule inference_ok_putI [OF ok g])
    show "g_grant_id (settled_grant f r p c g) = ?gid"
      using settled_grant_same_meters [of f r p c g] by (simp add: same_meters_def lane_settle_simps)
    show "distinct (map rkey (set_row rkey ?r' ?rs))" using inference_okD(2) [OF ok] by (simp add: row_simps)
    show "request_ok D x \<and> r_grant_id x \<in> g_grant_id ` set (i_grants s)" if "x \<in> set (set_row rkey ?r' ?rs)" for x
      using in_set_row [OF that]
    proof
      assume "x = ?r'"
      then show ?thesis using rok pc st' g gid by (simp add: request_ok_def settled_request_simps)
    next
      assume "x \<in> set ?rs \<and> rkey x \<noteq> rkey ?r'"
      then show ?thesis using inference_okD(3,4) [OF ok] by blast
    qed
    show "lane_ok C D k (settled_grant f r p c g) (set_row rkey ?r' ?rs)" for k
    proof (rule same_meters_lane_ok [OF settled_grant_same_meters])
      have m: "in_flight k ?gid ?r' = 0" "admitted k ?gid ?r' = admitted k ?gid r" "reserved k ?gid ?r' = 0"
        "charged k ?gid r = 0"
        using st st' by (simp_all add: meter_defs settled_request_simps(2-5))
      have exp: "exposure k ?gid r = of_bool (k = r_request_kind r) * r_max_chargeable_tokens r"
        "exposure k ?gid ?r' = of_bool (k = r_request_kind r) * charge ?r'"
        using st st' gid by (auto simp: exposure_def in_lane_def settled_request_simps(2-5))
      have m2: "in_flight k ?gid r = of_bool (k = r_request_kind r)"
        "reserved k ?gid r = of_bool (k = r_request_kind r) * r_reserved_tokens r"
        "charged k ?gid ?r' = of_bool (k = r_request_kind r) * charge ?r'"
        using st st' gid by (auto simp: meter_defs settled_request_simps(2-5))
      have spent: "lane_spent l (lane_settle (r_request_kind r) w p c cost g) =
          lane_spent l g + of_bool (l = r_request_kind r) * charge ?r'" for w cost l
        by (simp add: lane_settle_simps ch)
      show "lane_ok C D k (lane_settle (r_request_kind r) (r_status r = Started) p c (max 0 (fr_cost_microusd f)) g) (set_row rkey ?r' ?rs)"
        using inference_okD(5) [OF ok g, of k] pos le
        by (cases "r_request_kind r = k") (auto simp: lane_ok_def Let_def sums lane_settle_simps(1-3,5,6) spent m m2 exp st)
    qed
    show "lane_ok C D k h (set_row rkey ?r' ?rs)" if "g_grant_id h \<noteq> ?gid" "lane_ok C D k h ?rs" for k h
    proof -
      have "\<not> in_lane k (g_grant_id h) r" "\<not> in_lane k (g_grant_id h) ?r'"
        using that(1) gid by (auto simp: in_lane_def settled_request_simps)
      then have "in_flight k (g_grant_id h) r = in_flight k (g_grant_id h) ?r'" "admitted k (g_grant_id h) r = admitted k (g_grant_id h) ?r'"
        "charged k (g_grant_id h) r = charged k (g_grant_id h) ?r'" "reserved k (g_grant_id h) r = reserved k (g_grant_id h) ?r'"
        "exposure k (g_grant_id h) r = exposure k (g_grant_id h) ?r'"
        by (simp_all add: in_flight_def admitted_def charged_def reserved_def exposure_def)
      then show ?thesis using that(2) by (simp add: lane_ok_def Let_def sums)
    qed
  qed
qed

lemma finish_inference_request_ok:
  assumes ok: "inference_ok C D s" and fs: "fr_status f \<noteq> Started"
    and once: "\<And>r. get_row rkey (fr_grant_id f, fr_nonce f) (i_requests s) = Some r \<Longrightarrow> r_status r = Started \<or> 0 < r_prompt_tokens r"
  shows "inference_ok C D (fst (finish_inference_request f s))"
proof (cases "get_row g_grant_id (fr_grant_id f) (i_grants s)")
  case None
  then show ?thesis using ok by (simp add: finish_inference_request_def)
next
  case G: (Some g)
  then have g: "g \<in> set (i_grants s)" and id: "g_grant_id g = fr_grant_id f" by (auto dest: get_row_SomeD)
  show ?thesis
  proof (cases "get_row rkey (fr_grant_id f, fr_nonce f) (i_requests s)")
    case None
    then show ?thesis using ok G by (simp add: finish_inference_request_def)
  next
    case R: (Some r)
    obtain p c clamped where u: "settled_usage f r = (p, c, clamped)" by (metis prod_cases3)
    show ?thesis
    proof (cases "finishable f r")
      case False
      then show ?thesis using ok G R by (simp add: finish_inference_request_def)
    next
      case True
      then have st: "r_status r = Started" using once [OF R] by (auto simp: finishable_def)
      show ?thesis
        using settle_started_ok [OF ok g _ st u fs, of "fr_nonce f"] R True
        by (simp add: finish_inference_request_def G u id Let_def)
    qed
  qed
qed

lemma no_meters_without_requests:
  assumes "inference_ok C D s" and "gid \<notin> g_grant_id ` set (i_grants s)"
  shows "sum_rows (in_flight k gid) (i_requests s) = 0" "sum_rows (admitted k gid) (i_requests s) = 0"
    "sum_rows (charged k gid) (i_requests s) = 0" "sum_rows (reserved k gid) (i_requests s) = 0"
    "sum_rows (exposure k gid) (i_requests s) = 0"
proof -
  have "r_grant_id r \<noteq> gid" if "r \<in> set (i_requests s)" for r
    using inference_okD(4) [OF assms(1) that] assms(2) by auto
  then show "sum_rows (in_flight k gid) (i_requests s) = 0" "sum_rows (admitted k gid) (i_requests s) = 0"
    "sum_rows (charged k gid) (i_requests s) = 0" "sum_rows (reserved k gid) (i_requests s) = 0"
    "sum_rows (exposure k gid) (i_requests s) = 0"
    by (auto intro!: sum_rows_zero simp: meter_defs)
qed

lemma mint_grant_ok:
  assumes ok: "inference_ok C D s" and new: "gid \<notin> g_grant_id ` set (i_grants s)"
  shows "inference_ok C D (s\<lparr>i_grants := i_grants s @ [mint_grant gid t m pv pf config]\<rparr>)"
proof -
  have id: "g_grant_id (mint_grant gid t m pv pf config) = gid" by (simp add: mint_grant_def)
  have "lane_ok C D k (mint_grant gid t m pv pf config) (i_requests s)" for k
    by (cases k) (simp_all add: lane_ok_def Let_def id no_meters_without_requests [OF ok new], simp_all add: mint_grant_def)
  then show ?thesis
    using inference_okD [OF ok] new by (simp add: inference_ok_def id)
qed

lemma ensure_inference_grant_ok:
  assumes "inference_ok C D s"
  shows "inference_ok C D (fst (ensure_inference_grant gid sel t config s))"
  using assms mint_grant_ok [OF assms, of gid t]
  by (auto simp: ensure_inference_grant_def Let_def split: option.splits)

lemma activate_inference_grant_ok:
  assumes ok: "inference_ok C D s"
  shows "inference_ok C D (fst (activate_inference_grant sha bearer gid h pk now config s))"
proof (cases "get_row g_grant_id gid (i_grants s)")
  case None
  then show ?thesis using ok by (simp add: activate_inference_grant_def)
next
  case G: (Some g)
  then have g: "g \<in> set (i_grants s)" by (auto dest: get_row_SomeD)
  have rv: "inference_ok C D (s\<lparr>i_grants := set_row g_grant_id (g\<lparr>g_status := Revoked\<rparr>) (i_grants s)\<rparr>)"
    by (rule inference_ok_put_same [OF ok g]) (simp add: same_meters_def all_kinds)
  obtain g1 rs where C: "cancel_started now g (i_requests s) = (g1, rs)" by fastforce
  note on = cancel_started_ok [OF ok g C]
  show ?thesis using ok rv
    by (auto simp: activate_inference_grant_def G C Let_def same_meters_def all_kinds intro!: on split: option.splits)
qed

lemma revoke_one_ok:
  assumes "inference_ok C D s" and "g \<in> set (i_grants s)"
  shows "inference_ok C D (revoke_one now g s)"
proof -
  obtain g1 rs where C: "cancel_started now g (i_requests s) = (g1, rs)" by fastforce
  show ?thesis unfolding revoke_one_def C prod.case
    by (rule cancel_started_ok [OF assms C]) (simp add: same_meters_def all_kinds)
qed

subsection \<open>What an answer means\<close>

lemma begin_cases:
  assumes "parse_request_kind (b_request_kind b) = Some kind" and "get_row g_grant_id (b_grant_id b) (i_grants s) = Some g"
    and "g_bearer_digest g = Some (sha (b_bearer b))" and "b_now b < g_expires_at g"
    and "model_permitted kind (b_model b) g" and "g_status g = Active"
    and "reclaim_stale kind (b_now b - ip_timeout config * 2) (b_now b) g (i_requests s) = (g1, rs)"
    and "ticket_backs_grant (grant_ticket g (i_tickets s)) (b_now b) g1"
  shows "begin_inference_request sha b config s =
           reserve b kind config g1 (s\<lparr>i_grants := set_row g_grant_id g1 (i_grants s), i_requests := rs\<rparr>)"
  using assms by (simp add: begin_inference_request_def bearer_digest_def Let_def)

lemma reclaim_stale_deadline:
  "reclaim_stale kind cutoff now g rs = (g1, rs') \<Longrightarrow> g_ticket_deadline g1 = g_ticket_deadline g"
  by (cases kind) (auto simp: reclaim_stale_def Let_def split: if_splits)

text \<open>
  C25. An admitted request was authenticated and is covered: its caller presented the bearer of an
  active, unexpired grant; the grant's ticket is an open lease with the deadline the grant was minted for; the model is permitted;
  the nonce had not been used on the grant; and after reclaiming stale calls, the lane was below its request budget and its
  concurrency, and the reservation fits the token budget beside everything spent and reserved.
\<close>

theorem admission_sound:
  assumes "begin_inference_request sha b config s = (s', Inr (g', r))"
  shows "\<exists>kind g t g1 rs.
    parse_request_kind (b_request_kind b) = Some kind \<and>
    get_row g_grant_id (b_grant_id b) (i_grants s) = Some g \<and>
    g_bearer_digest g = Some (sha (b_bearer b)) \<and> g_status g = Active \<and> b_now b < g_expires_at g \<and>
    model_permitted kind (b_model b) g \<and>
    grant_ticket g (i_tickets s) = Some t \<and> t_status t = ISSUED \<and> t_deadline t = g_ticket_deadline g \<and> b_now b < t_deadline t \<and>
    reclaim_stale kind (b_now b - ip_timeout config * 2) (b_now b) g (i_requests s) = (g1, rs) \<and>
    get_row rkey (b_grant_id b, b_nonce b) rs = None \<and>
    lane_count kind g1 < lane_request_budget kind g1 \<and>
    lane_active kind g1 < per_ticket_concurrency kind config \<and>
    1 \<le> b_token_reservation b \<and>
    lane_spent kind g1 + reserved_sum (\<lambda>x. started_in (g_grant_id g) x \<and> lane_of kind x) rs + b_token_reservation b
      \<le> lane_token_budget kind g1"
proof -
  obtain kind g where K: "parse_request_kind (b_request_kind b) = Some kind"
    and G: "get_row g_grant_id (b_grant_id b) (i_grants s) = Some g"
    and auth: "g_bearer_digest g = Some (sha (b_bearer b))" "b_now b < g_expires_at g"
      "model_permitted kind (b_model b) g" "g_status g = Active"
    using assms by (auto simp: begin_inference_request_def bearer_digest_def split: option.splits if_splits)
  obtain g1 rs where R: "reclaim_stale kind (b_now b - ip_timeout config * 2) (b_now b) g (i_requests s) = (g1, rs)"
    by fastforce
  let ?s1 = "s\<lparr>i_grants := set_row g_grant_id g1 (i_grants s), i_requests := rs\<rparr>"
  have T: "ticket_backs_grant (grant_ticket g (i_tickets s)) (b_now b) g1"
    using assms by (auto simp: begin_inference_request_def bearer_digest_def K G R auth Let_def split: if_splits)
  then obtain t where t: "grant_ticket g (i_tickets s) = Some t" "t_status t = ISSUED" "t_deadline t = g_ticket_deadline g"
    "b_now b < t_deadline t"
    using reclaim_stale_deadline [OF R] by (auto simp: ticket_backs_grant_def split: option.splits)
  have id: "g_grant_id g1 = b_grant_id b" "g_grant_id g = b_grant_id b"
    using R get_row_SomeD [OF G] by (auto simp: reclaim_stale_def Let_def split: if_splits)
  have res: "reserve b kind config g1 ?s1 = (s', Inr (g', r))"
    using assms begin_cases [where sha = sha, OF K G auth R T] by simp
  then have f: "get_row rkey (b_grant_id b, b_nonce b) rs = None" "lane_active kind g1 < per_ticket_concurrency kind config"
    "1 \<le> b_token_reservation b"
    "lane_spent kind g1 + reserved_sum (\<lambda>x. started_in (g_grant_id g) x \<and> lane_of kind x) rs + b_token_reservation b \<le> lane_token_budget kind g1"
    by (auto simp: reserve_def Let_def id split: if_splits)
  have n: "lane_count kind g1 < lane_request_budget kind g1"
    using res by (cases kind) (auto simp: reserve_def Let_def split: if_splits)
  show ?thesis
    by (rule exI [of _ kind], rule exI [of _ g], rule exI [of _ t], rule exI [of _ g1], rule exI [of _ rs])
      (use K G auth t R f n in simp)
qed

text \<open>
  C35. Only the holder of a grant's bearer learns anything about it: every decline except the unexplained
  one was given to a caller that presented the right bearer, an unknown grant and a wrong bearer get the same answer, and neither changes the tables.
\<close>

theorem decline_reveals_nothing:
  assumes "\<nexists>g. get_row g_grant_id (b_grant_id b) (i_grants s) = Some g \<and> g_bearer_digest g = Some (sha (b_bearer b))"
  shows "begin_inference_request sha b config s = (s, Inl UNATTRIBUTED)"
  using assms by (auto simp: begin_inference_request_def bearer_digest_def split: option.splits)



definition demo_config :: inference_proxy_config where
  "demo_config =
     \<lparr>ip_enabled = True, ip_openrouter_api_key = Some ''key'', ip_allowed_models = [V7_MODEL], ip_provider = ''openrouter'',
      ip_request_budget = 10, ip_token_budget = 1000, ip_embedding_model = ''e'', ip_embedding_profile = ''p'',
      ip_embedding_provider = ''q'', ip_embedding_dimensions = 768, ip_embedding_request_budget = 10,
      ip_embedding_token_budget = 1000, ip_embedding_per_ticket_concurrency = 2, ip_embedding_per_validator_concurrency = 4,
      ip_embedding_global_concurrency = 8, ip_embedding_per_ticket_requests_per_minute = 10,
      ip_embedding_per_validator_requests_per_minute = 20, ip_embedding_global_requests_per_minute = 40,
      ip_per_ticket_concurrency = 2, ip_per_validator_concurrency = 4, ip_global_concurrency = 8,
      ip_per_ticket_requests_per_minute = 10, ip_per_validator_requests_per_minute = 20, ip_global_requests_per_minute = 40,
      ip_timeout = td_seconds 60, ip_request_body_bytes = 100, ip_embedding_request_body_bytes = 100,
      ip_max_output_tokens = 50\<rparr>"

text \<open>A grant freshly minted for an open lease and exchanged for the bearer \<open>b\<close>.\<close>

definition demo_lease :: ticket where
  "demo_lease = idle_lease\<lparr>t_bench_version := 7, t_deadline := td_hours 3\<rparr>"

definition demo_grant :: inference_grant where
  "demo_grant = (mint_grant 1 demo_lease V7_MODEL ''openrouter'' ''r'' demo_config)
     \<lparr>g_status := Active, g_generation := 1, g_bearer_digest := Some ''b'', g_broker_public_key := Some ''k''\<rparr>"

definition demo_idb :: inference_db where
  "demo_idb = \<lparr>i_tickets = [demo_lease], i_grants = [demo_grant], i_requests = []\<rparr>"

definition demo_begin :: begin_request where
  "demo_begin = \<lparr>b_grant_id = 1, b_nonce = 5, b_bearer = ''b'', b_model = V7_MODEL, b_token_reservation = 100,
     b_max_chargeable_tokens = Some 150, b_now = td_hours 2, b_request_kind = ''chat''\<rparr>"

lemma demo_begin_admitted:
  "begin_inference_request (\<lambda>x. x) demo_begin demo_config demo_idb =
     (\<lparr>i_tickets = [demo_lease], i_grants = [demo_grant\<lparr>g_request_count := 1, g_active_requests := 1, g_updated_at := Some (td_hours 2)\<rparr>],
       i_requests = [new_request demo_grant 5 Chat V7_MODEL 100 (Some 150) (td_hours 2)]\<rparr>,
      Inr (demo_grant\<lparr>g_request_count := 1, g_active_requests := 1, g_updated_at := Some (td_hours 2)\<rparr>,
           new_request demo_grant 5 Chat V7_MODEL 100 (Some 150) (td_hours 2)))"
  by code_simp

theorem admission_sound_witness:
  "begin_inference_request (\<lambda>x. x) demo_begin demo_config demo_idb =
     (\<lparr>i_tickets = [demo_lease], i_grants = [demo_grant\<lparr>g_request_count := 1, g_active_requests := 1, g_updated_at := Some (td_hours 2)\<rparr>],
       i_requests = [new_request demo_grant 5 Chat V7_MODEL 100 (Some 150) (td_hours 2)]\<rparr>,
      Inr (demo_grant\<lparr>g_request_count := 1, g_active_requests := 1, g_updated_at := Some (td_hours 2)\<rparr>,
           new_request demo_grant 5 Chat V7_MODEL 100 (Some 150) (td_hours 2))) \<and>
   (\<exists>t. grant_ticket demo_grant (i_tickets demo_idb) = Some t \<and> t_status t = ISSUED)"
proof -
  have "get_row g_grant_id (b_grant_id demo_begin) (i_grants demo_idb) = Some demo_grant" by code_simp
  then show ?thesis using admission_sound [OF demo_begin_admitted] demo_begin_admitted by fastforce
qed

theorem decline_reveals_nothing_witness:
  "begin_inference_request (\<lambda>x. x) (demo_begin\<lparr>b_bearer := ''wrong''\<rparr>) demo_config demo_idb = (demo_idb, Inl UNATTRIBUTED)"
proof (rule decline_reveals_nothing)
  have "get_row g_grant_id (b_grant_id (demo_begin\<lparr>b_bearer := ''wrong''\<rparr>)) (i_grants demo_idb) = Some demo_grant" by code_simp
  moreover have "g_bearer_digest demo_grant = Some ''b''" by code_simp
  ultimately show "\<nexists>g. get_row g_grant_id (b_grant_id (demo_begin\<lparr>b_bearer := ''wrong''\<rparr>)) (i_grants demo_idb) = Some g \<and>
      g_bearer_digest g = Some (b_bearer (demo_begin\<lparr>b_bearer := ''wrong''\<rparr>))" by simp
qed

text \<open>The same lease with both of its chat slots held by calls that died two hours ago.\<close>

definition wedged_idb :: inference_db where
  "wedged_idb = demo_idb
     \<lparr>i_grants := [demo_grant\<lparr>g_request_count := 2, g_active_requests := 2\<rparr>],
      i_requests := [new_request demo_grant 1 Chat V7_MODEL 100 None 0, new_request demo_grant 2 Chat V7_MODEL 100 None 0]\<rparr>"


text \<open>
  An exchange after exhaustion reads as a platform fault: when a validator's broker exchanges the grant of its
  open lease again after the agent spent its budget, the grant turns from exhausted to revoked, and the
  lease is reported as one whose inference the platform revoked.
\<close>

theorem exhaustion_becomes_revocation:
  assumes "get_row g_grant_id gid (i_grants s) = Some g" and "g_status g = Exhausted" and "g_validator_hotkey g = h"
  shows "ticket_inference_revoked_mid_lease (g_agent_id g) (g_bench_version g) h (g_ticket_deadline g)
           (i_grants (fst (activate_inference_grant sha bearer gid h key now config s)))"
proof -
  let ?g = "g\<lparr>g_status := Revoked\<rparr>"
  have id: "g_grant_id g = gid" and mem: "g \<in> set (i_grants s)" using get_row_SomeD [OF assms(1)] by auto
  have "i_grants (fst (activate_inference_grant sha bearer gid h key now config s)) = set_row g_grant_id ?g (i_grants s)"
    using assms by (simp add: activate_inference_grant_def split: option.splits)
  moreover have "?g \<in> set (set_row g_grant_id ?g (i_grants s))" by (rule set_row_mem) (use mem in auto)
  ultimately show ?thesis using assms(3)
    by (auto simp: ticket_inference_revoked_mid_lease_def list_ex_iff intro!: bexI [of _ ?g])
qed

theorem exhaustion_becomes_revocation_witness:
  "let s = demo_idb\<lparr>i_grants := [demo_grant\<lparr>g_status := Exhausted\<rparr>]\<rparr>;
       revoked = ticket_inference_revoked_mid_lease (g_agent_id demo_grant) 7 (g_validator_hotkey demo_grant) (g_ticket_deadline demo_grant)
   in \<not> revoked (i_grants s) \<and>
      revoked (i_grants (fst (activate_inference_grant (\<lambda>x. x) ''new'' 1 (g_validator_hotkey demo_grant) ''k'' (td_hours 2) demo_config s)))"
proof -
  let ?s = "demo_idb\<lparr>i_grants := [demo_grant\<lparr>g_status := Exhausted\<rparr>]\<rparr>"
  have "get_row g_grant_id 1 (i_grants ?s) = Some (demo_grant\<lparr>g_status := Exhausted\<rparr>)" by code_simp
  from exhaustion_becomes_revocation [OF this, of "g_validator_hotkey demo_grant" "\<lambda>x. x" "''new''" "''k''" "td_hours 2" demo_config]
  have "ticket_inference_revoked_mid_lease (g_agent_id demo_grant) (g_bench_version demo_grant) (g_validator_hotkey demo_grant) (g_ticket_deadline demo_grant)
    (i_grants (fst (activate_inference_grant (\<lambda>x. x) ''new'' 1 (g_validator_hotkey demo_grant) ''k'' (td_hours 2) demo_config ?s)))"
    by simp
  moreover have "g_bench_version demo_grant = 7" by code_simp
  moreover have "\<not> ticket_inference_revoked_mid_lease (g_agent_id demo_grant) 7 (g_validator_hotkey demo_grant) (g_ticket_deadline demo_grant) (i_grants ?s)"
    by code_simp
  ultimately show ?thesis by (simp add: Let_def)
qed

end
