(* ===== verification/Inference_Proxy.thy ===== *)
theory Inference_Proxy
  imports Inference_Books
begin

text \<open>
  The inference proxy's endpoint, \<open>ditto/api_server/endpoints/inference.py\<close>: what a harness may send,
  what is sent upstream in its place, the bounded provider retry, and the two transactions around a
  call, admission and settlement. A request body is parsed JSON (\<open>json\<close> of \<open>Canonical_Json\<close>); an object
  is the list of its items, and a Python dict assignment keeps the position of an existing key. The
  value of a float literal is the argument \<open>float_val\<close> of its \<open>repr\<close>, \<open>None\<close> for a
  non-finite one. The Ed25519 verification is the argument \<open>verify\<close>.
\<close>

text \<open>\<open>Unhandled\<close> is an exception no handler turns into a refusal: the client sees a 500.\<close>

datatype http_error = Http nat pytext | InferenceDeclined inference_decline | Unhandled string

subsection \<open>Token estimates\<close>

definition ESTIMATED_BYTES_PER_TOKEN :: int where
  "ESTIMATED_BYTES_PER_TOKEN = 4"

definition estimated_tokens :: "nat \<Rightarrow> int" where
  "estimated_tokens body_length = max 1 (- (- int body_length div ESTIMATED_BYTES_PER_TOKEN))"

definition max_chargeable_tokens :: "nat \<Rightarrow> int \<Rightarrow> int" where
  "max_chargeable_tokens body_length output_tokens = output_tokens + max 1 (int body_length)"

subsection \<open>Objects\<close>

type_synonym payload = "(pytext \<times> json) list"

definition keys_of :: "payload \<Rightarrow> pytext set" where
  "keys_of d = set (map fst d)"

text \<open>\<open>d.get(name)\<close>, with \<open>None\<close> for an absent key and for a JSON null alike.\<close>

definition jget :: "string \<Rightarrow> payload \<Rightarrow> json option" where
  "jget name d = (case map_of d (ptext name) of Some JNull \<Rightarrow> None | v \<Rightarrow> v)"

definition has_key :: "string \<Rightarrow> payload \<Rightarrow> bool" where
  "has_key name d \<longleftrightarrow> ptext name \<in> keys_of d"

definition dict_set :: "string \<Rightarrow> json \<Rightarrow> payload \<Rightarrow> payload" where
  "dict_set name v d =
     (if has_key name d then map (\<lambda>(k, w). if k = ptext name then (k, v) else (k, w)) d
      else d @ [(ptext name, v)])"

definition dict_pop :: "string \<Rightarrow> payload \<Rightarrow> payload" where
  "dict_pop name d = filter (\<lambda>(k, w). k \<noteq> ptext name) d"

definition names :: "string list \<Rightarrow> pytext set" where
  "names ns = ptext ` set ns"

fun is_str :: "json \<Rightarrow> bool" where
  "is_str (JStr s) = True"
| "is_str j = False"

fun is_bool :: "json \<Rightarrow> bool" where
  "is_bool (JBool b) = True"
| "is_bool j = False"

definition is_text :: "string \<Rightarrow> json option \<Rightarrow> bool" where
  "is_text s j \<longleftrightarrow> j = Some (JStr (ptext s))"

subsection \<open>What a request may carry\<close>

definition PINNED_REQUEST_FIELDS :: "string list" where
  "PINNED_REQUEST_FIELDS =
     [''model'', ''max_tokens'', ''max_completion_tokens'', ''n'', ''best_of'', ''reasoning'', ''reasoning_effort'',
      ''include_reasoning'', ''service_tier'', ''usage'', ''prompt_cache_key'']"

definition DROPPED_REQUEST_FIELDS :: "string list" where
  "DROPPED_REQUEST_FIELDS = [''user'', ''metadata'', ''safety_identifier'', ''store'', ''stream_options'']"

definition FORWARDED_REQUEST_FIELDS :: "string list" where
  "FORWARDED_REQUEST_FIELDS =
     [''messages'', ''tools'', ''tool_choice'', ''parallel_tool_calls'', ''temperature'', ''top_p'', ''top_k'', ''min_p'',
      ''top_a'', ''seed'', ''stop'', ''frequency_penalty'', ''presence_penalty'', ''repetition_penalty'', ''logit_bias'',
      ''logprobs'', ''response_format'', ''structured_outputs'', ''prediction'', ''verbosity'', ''stream'']"

definition ALLOWED_REQUEST_FIELDS :: "string list" where
  "ALLOWED_REQUEST_FIELDS = PINNED_REQUEST_FIELDS @ DROPPED_REQUEST_FIELDS @ FORWARDED_REQUEST_FIELDS"

definition REFUSED_REQUEST_FIELDS :: "(string \<times> string) list" where
  "REFUSED_REQUEST_FIELDS =
     [(''models'', ''the model is pinned by the ticket, not chosen by the request''),
      (''provider'', ''provider routing is pinned by the platform''),
      (''route'', ''provider routing is pinned by the platform''),
      (''preset'', ''provider routing is pinned by the platform''),
      (''transforms'', ''prompt transforms would change benchmark semantics''),
      (''plugins'', ''server-side plugins are not available on this lane''),
      (''web_search_options'', ''server-side web search is not available on this lane''),
      (''functions'', ''use tools instead''),
      (''function_call'', ''use tool_choice instead''),
      (''audio'', ''this lane serves text completions only''),
      (''modalities'', ''this lane serves text completions only''),
      (''top_logprobs'', ''logprobs is supported but top_logprobs is not: it would exceed this lane's response size limit'')]"

text \<open>The first failing check of a sequence, the first error over the items of a loop.\<close>

fun first_error :: "(bool \<times> 'e) list \<Rightarrow> 'e option" where
  "first_error [] = None"
| "first_error ((bad, e) # checks) = (if bad then Some e else first_error checks)"

fun first_some :: "('x \<Rightarrow> 'e option) \<Rightarrow> 'x list \<Rightarrow> 'e option" where
  "first_some f [] = None"
| "first_some f (x # xs) = (case f x of None \<Rightarrow> first_some f xs | Some e \<Rightarrow> Some e)"

definition or_else :: "'e option \<Rightarrow> 'e option \<Rightarrow> 'e option" where
  "or_else a b = (case a of None \<Rightarrow> b | Some e \<Rightarrow> Some e)"

definition bad_request :: "string \<Rightarrow> http_error" where
  "bad_request detail = Http 400 (ptext detail)"

definition refused_keys :: "payload \<Rightarrow> pytext list" where
  "refused_keys d = sort (remdups (filter (\<lambda>k. k \<in> names (map fst REFUSED_REQUEST_FIELDS)) (map fst d)))"

definition refusal_reason :: "pytext \<Rightarrow> pytext" where
  "refusal_reason k =
     k @ ptext '' ('' @
     (case map_of (map (\<lambda>(n, why). (ptext n, ptext why)) REFUSED_REQUEST_FIELDS) k of Some why \<Rightarrow> why | None \<Rightarrow> []) @ ptext '')''"

definition unknown_keys :: "payload \<Rightarrow> pytext list" where
  "unknown_keys d = sort (remdups (filter (\<lambda>k. k \<notin> names ALLOWED_REQUEST_FIELDS) (map fst d)))"

definition field_names_error :: "payload \<Rightarrow> http_error option" where
  "field_names_error d =
     first_error
       [(refused_keys d \<noteq> [],
         Http 400 (ptext ''unsupported inference parameter: '' @ join_with (ptext ''; '') (map refusal_reason (refused_keys d)))),
        (unknown_keys d \<noteq> [],
         Http 400 (ptext ''unsupported inference parameter: '' @ join_with (ptext '', '') (unknown_keys d)))]"

text \<open>\<open>isinstance(value, (int, float))\<close>, not a bool, and finite: its value.\<close>

fun finite_number :: "(string \<Rightarrow> rat option) \<Rightarrow> json \<Rightarrow> rat option" where
  "finite_number float_val (JInt n) = Some (of_int n)"
| "finite_number float_val (JFloat r) = float_val r"
| "finite_number float_val j = None"

text \<open>\<open>math.isfinite\<close> converts an int to a float first; from \<open>FLOAT_OVERFLOW\<close> on that raises.\<close>

definition FLOAT_OVERFLOW :: int where
  "FLOAT_OVERFLOW = 2 ^ 1024 - 2 ^ 970"

definition overflows :: "payload \<Rightarrow> string \<Rightarrow> bool" where
  "overflows d name \<longleftrightarrow> (case jget name d of Some (JInt n) \<Rightarrow> \<bar>n\<bar> \<ge> FLOAT_OVERFLOW | _ \<Rightarrow> False)"

definition number_field_bad :: "(string \<Rightarrow> rat option) \<Rightarrow> payload \<Rightarrow> string \<Rightarrow> bool" where
  "number_field_bad float_val d name \<longleftrightarrow>
     (case jget name d of None \<Rightarrow> False | Some v \<Rightarrow> finite_number float_val v = None)"

definition out_of_range :: "(string \<Rightarrow> rat option) \<Rightarrow> payload \<Rightarrow> (rat \<Rightarrow> bool) \<Rightarrow> string \<Rightarrow> bool" where
  "out_of_range float_val d ok name \<longleftrightarrow>
     (case jget name d of None \<Rightarrow> False
      | Some v \<Rightarrow> (case finite_number float_val v of None \<Rightarrow> True | Some x \<Rightarrow> \<not> ok x))"

definition int_field_bad :: "payload \<Rightarrow> (int \<Rightarrow> bool) \<Rightarrow> string \<Rightarrow> bool" where
  "int_field_bad d ok name \<longleftrightarrow>
     (case jget name d of None \<Rightarrow> False | Some (JInt n) \<Rightarrow> \<not> ok n | Some v \<Rightarrow> True)"

definition bool_field_bad :: "payload \<Rightarrow> string \<Rightarrow> bool" where
  "bool_field_bad d name \<longleftrightarrow>
     (case map_of d (ptext name) of None \<Rightarrow> False | Some v \<Rightarrow> \<not> is_bool v)"

definition stop_bad :: "payload \<Rightarrow> bool" where
  "stop_bad d \<longleftrightarrow>
     (case jget ''stop'' d of None \<Rightarrow> False | Some (JStr s) \<Rightarrow> False
      | Some (JArr xs) \<Rightarrow> \<not> (1 \<le> length xs \<and> length xs \<le> 4 \<and> list_all is_str xs)
      | Some v \<Rightarrow> True)"

definition invalid_if :: "(string \<Rightarrow> bool) \<Rightarrow> string list \<Rightarrow> (bool \<times> http_error) list" where
  "invalid_if bad ns = map (\<lambda>name. (bad name, bad_request (''invalid '' @ name))) ns"

definition sampling_error :: "(string \<Rightarrow> rat option) \<Rightarrow> payload \<Rightarrow> http_error option" where
  "sampling_error float_val d =
     first_error
       (concat (map (\<lambda>name. [(overflows d name, Unhandled ''OverflowError''),
                             (number_field_bad float_val d name, bad_request (''invalid '' @ name))])
          [''temperature'', ''top_p'', ''frequency_penalty'', ''presence_penalty'', ''min_p'', ''top_a'', ''repetition_penalty'']) @
        invalid_if (out_of_range float_val d (\<lambda>x. -2 \<le> x \<and> x \<le> 2)) [''frequency_penalty'', ''presence_penalty''] @
        invalid_if (out_of_range float_val d (\<lambda>x. 0 \<le> x \<and> x \<le> 1)) [''min_p'', ''top_a''] @
        invalid_if (out_of_range float_val d (\<lambda>x. 0 < x \<and> x \<le> 2)) [''repetition_penalty''] @
        invalid_if (int_field_bad d (\<lambda>n. n \<ge> 0)) [''top_k''] @
        invalid_if (bool_field_bad d) [''logprobs''] @
        invalid_if (out_of_range float_val d (\<lambda>x. 0 \<le> x \<and> x \<le> 2)) [''temperature''] @
        invalid_if (out_of_range float_val d (\<lambda>x. 0 \<le> x \<and> x \<le> 1)) [''top_p''] @
        invalid_if (int_field_bad d (\<lambda>n. - (2 ^ 63) \<le> n \<and> n < 2 ^ 63)) [''seed''] @
        [(stop_bad d, bad_request ''invalid stop'')] @
        invalid_if (bool_field_bad d) [''parallel_tool_calls'', ''stream'', ''store''] @
        [(jget ''stream'' d = Some (JBool True),
          bad_request ''unsupported inference parameter: stream (this lane answers with a single non-streaming response)'')] @
        invalid_if (int_field_bad d (\<lambda>n. n \<ge> 1)) [''n'', ''best_of''])"

definition tool_choice_bad :: "payload \<Rightarrow> bool" where
  "tool_choice_bad d \<longleftrightarrow>
     (case jget ''tool_choice'' d of None \<Rightarrow> False
      | Some (JStr s) \<Rightarrow> s \<notin> names [''none'', ''auto'', ''required'']
      | Some (JObj c) \<Rightarrow>
          \<not> (keys_of c = names [''type'', ''function''] \<and> is_text ''function'' (jget ''type'' c) \<and>
             (case jget ''function'' c of
                Some (JObj f) \<Rightarrow> keys_of f = names [''name''] \<and> (case jget ''name'' f of Some (JStr n) \<Rightarrow> n \<noteq> [] | _ \<Rightarrow> False)
              | _ \<Rightarrow> False))
      | Some v \<Rightarrow> True)"

definition message_fields :: "pytext \<Rightarrow> string list option" where
  "message_fields role =
     (if role = ptext ''system'' \<or> role = ptext ''user'' then Some [''role'', ''content'']
      else if role = ptext ''assistant'' then Some [''role'', ''content'', ''tool_calls'']
      else if role = ptext ''tool'' then Some [''role'', ''content'', ''tool_call_id'', ''name'']
      else None)"

fun text_part :: "json \<Rightarrow> bool" where
  "text_part (JObj p) \<longleftrightarrow>
     keys_of p = names [''type'', ''text''] \<and> is_text ''text'' (jget ''type'' p) \<and>
     (case jget ''text'' p of Some v \<Rightarrow> is_str v | None \<Rightarrow> False)"
| "text_part j \<longleftrightarrow> False"

definition content_bad :: "json option \<Rightarrow> bool" where
  "content_bad content \<longleftrightarrow>
     (case content of None \<Rightarrow> False | Some (JStr s) \<Rightarrow> False
      | Some (JArr parts) \<Rightarrow> \<not> (parts \<noteq> [] \<and> list_all text_part parts)
      | Some v \<Rightarrow> True)"

fun is_str_option :: "json option \<Rightarrow> bool" where
  "is_str_option (Some (JStr s)) = True"
| "is_str_option v = False"

fun tool_call_error :: "json \<Rightarrow> http_error option" where
  "tool_call_error (JObj call) =
     first_error
       [(\<not> keys_of call \<subseteq> names [''id'', ''type'', ''function''], bad_request ''invalid tool call''),
        (\<not> (is_text ''function'' (jget ''type'' call) \<and> is_str_option (jget ''id'' call) \<and>
            (case jget ''function'' call of
               Some (JObj f) \<Rightarrow> keys_of f \<subseteq> names [''name'', ''arguments''] \<and>
                 is_str_option (jget ''name'' f) \<and> is_str_option (jget ''arguments'' f)
             | _ \<Rightarrow> False)),
         bad_request ''invalid tool call'')]"
| "tool_call_error j = Some (bad_request ''invalid tool call'')"

fun message_error :: "json \<Rightarrow> http_error option" where
  "message_error (JObj m) =
     (case jget ''role'' m of
        Some (JStr role) \<Rightarrow>
          (case message_fields role of None \<Rightarrow> Some (bad_request ''invalid message'')
           | Some allowed \<Rightarrow>
             or_else
               (first_error
                  [(\<not> keys_of m \<subseteq> names allowed, bad_request ''invalid message''),
                   (content_bad (jget ''content'' m), bad_request ''text content only''),
                   (role = ptext ''tool'' \<and> has_key ''name'' m \<and>
                      (case map_of m (ptext ''name'') of Some (JStr n) \<Rightarrow> n = [] | _ \<Rightarrow> True),
                    bad_request ''invalid tool name'')])
               (case map_of m (ptext ''tool_calls'') of
                  None \<Rightarrow> None
                | Some (JArr calls) \<Rightarrow> first_some tool_call_error calls
                | Some v \<Rightarrow> Some (bad_request ''invalid tool calls'')))
      | _ \<Rightarrow> Some (bad_request ''invalid message''))"
| "message_error j = Some (bad_request ''invalid message'')"

fun tool_error :: "json \<Rightarrow> http_error option" where
  "tool_error (JObj t) =
     first_error
       [(\<not> keys_of t \<subseteq> names [''type'', ''function''], bad_request ''function tools only''),
        (\<not> (is_text ''function'' (jget ''type'' t) \<and>
            (case jget ''function'' t of
               Some (JObj f) \<Rightarrow> keys_of f \<subseteq> names [''name'', ''description'', ''parameters'', ''strict''] \<and>
                 is_str_option (jget ''name'' f) \<and>
                 (case map_of f (ptext ''parameters'') of None \<Rightarrow> True | Some (JObj ps) \<Rightarrow> True | Some v \<Rightarrow> False)
             | _ \<Rightarrow> False)),
         bad_request ''invalid function tool'')]"
| "tool_error j = Some (bad_request ''function tools only'')"

definition validate_request_schema :: "(string \<Rightarrow> rat option) \<Rightarrow> payload \<Rightarrow> http_error option" where
  "validate_request_schema float_val d =
     or_else (field_names_error d)
     (or_else (sampling_error float_val d)
     (or_else (first_error [(tool_choice_bad d, bad_request ''invalid tool_choice'')])
     (or_else
        (case jget ''messages'' d of
           Some (JArr ms) \<Rightarrow> if ms = [] then Some (bad_request ''messages must be non-empty'') else first_some message_error ms
         | _ \<Rightarrow> Some (bad_request ''messages must be non-empty''))
        (case map_of d (ptext ''tools'') of
           None \<Rightarrow> None
         | Some (JArr ts) \<Rightarrow> first_some tool_error ts
         | Some v \<Rightarrow> Some (bad_request ''invalid tools'')))))"

definition output_token_limit :: "payload \<Rightarrow> int \<Rightarrow> http_error + int" where
  "output_token_limit d maximum =
     (case first_error (invalid_if (int_field_bad d (\<lambda>n. n \<ge> 1)) [''max_tokens'', ''max_completion_tokens'']) of
        Some e \<Rightarrow> Inl e
      | None \<Rightarrow>
          (let requested = concat (map (\<lambda>name. case jget name d of Some (JInt n) \<Rightarrow> [n] | _ \<Rightarrow> [])
                 [''max_tokens'', ''max_completion_tokens''])
           in Inr (fold min requested maximum)))"

definition locked_grant_model :: "inference_grant \<Rightarrow> string \<Rightarrow> inference_proxy_config \<Rightarrow> http_error + string" where
  "locked_grant_model g requested config =
     (if g_bench_version g < 7 then
        (if requested \<notin> set (ip_allowed_models config) then Inl (Http 403 (ptext ''model is not permitted'')) else Inr requested)
      else case g_allowed_models g of [] \<Rightarrow> Inl (Http 409 (ptext ''inference route unavailable''))
      | locked # _ \<Rightarrow> Inr locked)"

subsection \<open>What is sent upstream\<close>

definition benchmark_reasoning :: "string \<Rightarrow> payload option" where
  "benchmark_reasoning model =
     (if model = V7_MODEL then Some [(ptext ''effort'', JStr (ptext ''medium'')), (ptext ''exclude'', JBool True)] else None)"

fun strip_tool_name :: "json \<Rightarrow> json" where
  "strip_tool_name (JObj m) = (if is_text ''tool'' (jget ''role'' m) then JObj (dict_pop ''name'' m) else JObj m)"
| "strip_tool_name j = j"

definition REMOVED_REQUEST_FIELDS :: "string list" where
  "REMOVED_REQUEST_FIELDS =
     [''best_of'', ''reasoning_effort'', ''include_reasoning'', ''service_tier'', ''usage'', ''prompt_cache_key'',
      ''max_completion_tokens'']"

definition locked_upstream_payload :: "payload \<Rightarrow> string \<Rightarrow> int \<Rightarrow> payload" where
  "locked_upstream_payload d model max_tokens =
     (let u1 = fold dict_pop REMOVED_REQUEST_FIELDS (fold dict_pop DROPPED_REQUEST_FIELDS d);
          u2 = dict_set ''model'' (JStr (ptext model)) u1;
          u3 = (case jget ''messages'' u2 of Some (JArr ms) \<Rightarrow> dict_set ''messages'' (JArr (map strip_tool_name ms)) u2 | _ \<Rightarrow> u2);
          u4 = dict_set ''stream'' (JBool False) (dict_set ''n'' (JInt 1) (dict_set ''max_tokens'' (JInt max_tokens) u3))
      in case benchmark_reasoning model of
           None \<Rightarrow> dict_pop ''reasoning'' u4
         | Some r \<Rightarrow> dict_set ''reasoning'' (JObj r) u4)"

subsection \<open>The provider retry\<close>

definition PROVIDER_MAX_ATTEMPTS :: nat where
  "PROVIDER_MAX_ATTEMPTS = 3"

definition PROVIDER_RETRY_STATUSES :: "nat list" where
  "PROVIDER_RETRY_STATUSES = [408, 429, 500, 502, 503, 504]"

datatype provider_outcome = Connect_Error | Connect_Timeout | Read_Timeout | Transport_Error | Response nat

datatype provider_result =
    Provider_Result (pr_status: nat) (pr_attempts: nat)
  | Provider_Call_Error (pr_attempts: nat) (pr_timed_out: bool)
  | Provider_Assertion_Error

text \<open>
  One iteration per attempt; \<open>outcome n\<close> is what the provider does on the \<open>n\<close>-th call. The second
  component lists the delays slept, in seconds.
\<close>

fun retry_loop :: "(nat \<Rightarrow> provider_outcome) \<Rightarrow> nat list \<Rightarrow> provider_result \<times> rat list" where
  "retry_loop outcome [] = (Provider_Assertion_Error, [])"
| "retry_loop outcome (attempt # rest) =
     (let again = (case retry_loop outcome rest of (r, delays) \<Rightarrow> (r, (1 / 4) * 2 ^ (attempt - 1) # delays))
      in case outcome attempt of
           Connect_Error \<Rightarrow>
             if attempt = PROVIDER_MAX_ATTEMPTS then (Provider_Call_Error attempt False, []) else again
         | Connect_Timeout \<Rightarrow>
             if attempt = PROVIDER_MAX_ATTEMPTS then (Provider_Call_Error attempt True, []) else again
         | Read_Timeout \<Rightarrow> (Provider_Call_Error attempt True, [])
         | Transport_Error \<Rightarrow> (Provider_Call_Error attempt False, [])
         | Response status \<Rightarrow>
             if status \<in> set PROVIDER_RETRY_STATUSES \<and> attempt < PROVIDER_MAX_ATTEMPTS then again
             else (Provider_Result status attempt, []))"

definition post_provider_with_retry :: "(nat \<Rightarrow> provider_outcome) \<Rightarrow> provider_result \<times> rat list" where
  "post_provider_with_retry outcome = retry_loop outcome [1..<PROVIDER_MAX_ATTEMPTS + 1]"

subsection \<open>The two transactions of a call\<close>

record proxy_call =
  pc_grant :: uuid
  pc_generation :: int
  pc_nonce :: uuid
  pc_requested_at :: time
  pc_proof :: string
  pc_bearer :: string
  pc_body :: string
  pc_now :: time

type_synonym proof_check = "string \<Rightarrow> uuid \<times> int \<times> uuid \<times> time \<times> string \<Rightarrow> string \<Rightarrow> bool"

definition PROXY_MAX_AGE :: timedelta where
  "PROXY_MAX_AGE = td_seconds 30"

definition HOSTED_EMBEDDING_BENCH_VERSIONS :: "int list" where
  "HOSTED_EMBEDDING_BENCH_VERSIONS = [7, 8]"

definition invalid_proof :: http_error where
  "invalid_proof = Http 401 (ptext ''invalid inference proof'')"

definition proof_verifies :: "proof_check \<Rightarrow> proxy_call \<Rightarrow> inference_grant \<Rightarrow> bool" where
  "proof_verifies verify c g \<longleftrightarrow>
     (case g_broker_public_key g of None \<Rightarrow> False
      | Some key \<Rightarrow> verify key (pc_grant c, pc_generation c, pc_nonce c, pc_requested_at c, pc_body c) (pc_proof c))"

text \<open>A refusal is raised inside \<open>session.begin()\<close>: the transaction is rolled back.\<close>

definition transaction ::
  "inference_db \<Rightarrow> inference_db \<times> (inference_decline + 'a) \<Rightarrow> inference_db \<times> (http_error + 'a)" where
  "transaction s result =
     (case result of (s', Inr x) \<Rightarrow> (s', Inr x) | (s', Inl d) \<Rightarrow> (s, Inl (InferenceDeclined d)))"

definition begin_for :: "proxy_call \<Rightarrow> string \<Rightarrow> int \<Rightarrow> int \<Rightarrow> string \<Rightarrow> begin_request" where
  "begin_for c model reservation max_chargeable kind =
     \<lparr>b_grant_id = pc_grant c, b_nonce = pc_nonce c, b_bearer = pc_bearer c, b_model = model,
      b_token_reservation = reservation, b_max_chargeable_tokens = Some max_chargeable, b_now = pc_now c,
      b_request_kind = kind\<rparr>"

definition admit_chat ::
  "proof_check \<Rightarrow> (string \<Rightarrow> string) \<Rightarrow> inference_proxy_config \<Rightarrow> proxy_call \<Rightarrow> string \<Rightarrow> int \<Rightarrow> inference_db \<Rightarrow>
   inference_db \<times> (http_error + inference_grant \<times> inference_request)" where
  "admit_chat verify sha config c requested_model max_tokens s =
     (case get_row g_grant_id (pc_grant c) (i_grants s) of None \<Rightarrow> (s, Inl invalid_proof)
      | Some g \<Rightarrow>
      if g_broker_public_key g = None \<or> g_generation g \<noteq> pc_generation c then (s, Inl invalid_proof)
      else if \<not> proof_verifies verify c g then (s, Inl invalid_proof)
      else case locked_grant_model g requested_model config of Inl e \<Rightarrow> (s, Inl e)
      | Inr model \<Rightarrow>
        (let n = length (pc_body c) in
         transaction s (begin_inference_request sha
           (begin_for c model (max_tokens + estimated_tokens n) (max_chargeable_tokens n max_tokens) ''chat'') config s)))"

definition proxy_chat_completions_admission ::
  "(string \<Rightarrow> json option) \<Rightarrow> (string \<Rightarrow> rat option) \<Rightarrow> proof_check \<Rightarrow> (string \<Rightarrow> string) \<Rightarrow> inference_proxy_config \<Rightarrow>
   proxy_call \<Rightarrow> inference_db \<Rightarrow> inference_db \<times> (http_error + inference_grant \<times> inference_request)" where
  "proxy_chat_completions_admission loads float_val verify sha config c s =
     (if \<not> ip_enabled config \<or> ip_openrouter_api_key config = None
      then (s, Inl (Http 404 (ptext ''inference proxy is disabled'')))
      else if length (pc_body c) > ip_request_body_bytes config
      then (s, Inl (Http 413 (ptext ''inference request is too large'')))
      else if \<bar>pc_now c - pc_requested_at c\<bar> > PROXY_MAX_AGE
      then (s, Inl (Http 409 (ptext ''inference request is stale'')))
      else case loads (pc_body c) of
        None \<Rightarrow> (s, Inl (Http 400 (ptext ''invalid JSON request'')))
      | Some (JObj d) \<Rightarrow>
          (case validate_request_schema float_val d of Some e \<Rightarrow> (s, Inl e)
           | None \<Rightarrow>
           case jget ''model'' d of
             Some (JStr m) \<Rightarrow>
               (case output_token_limit d (ip_max_output_tokens config) of Inl e \<Rightarrow> (s, Inl e)
                | Inr max_tokens \<Rightarrow> admit_chat verify sha config c (map char_of m) max_tokens s)
           | _ \<Rightarrow> (s, Inl (Http 403 (ptext ''model is not permitted''))))
      | Some v \<Rightarrow> (s, Inl (Http 400 (ptext ''inference request must be a JSON object''))))"

definition admit_embedding ::
  "proof_check \<Rightarrow> (string \<Rightarrow> string) \<Rightarrow> inference_proxy_config \<Rightarrow> inference_proxy_config \<Rightarrow> proxy_call \<Rightarrow> inference_db \<Rightarrow>
   inference_db \<times> (http_error + inference_grant \<times> inference_request)" where
  "admit_embedding verify sha config admission_config c s =
     (case get_row g_grant_id (pc_grant c) (i_grants s) of None \<Rightarrow> (s, Inl invalid_proof)
      | Some g \<Rightarrow>
      if g_bench_version g \<notin> set HOSTED_EMBEDDING_BENCH_VERSIONS \<or> g_broker_public_key g = None \<or>
         g_generation g \<noteq> pc_generation c \<or> g_embedding_model g \<noteq> ip_embedding_model config \<or>
         g_embedding_profile g \<noteq> ip_embedding_profile config \<or> g_embedding_provider g \<noteq> ip_embedding_provider config \<or>
         g_embedding_dimensions g \<noteq> ip_embedding_dimensions config
      then (s, Inl invalid_proof)
      else if \<not> proof_verifies verify c g then (s, Inl invalid_proof)
      else (let n = length (pc_body c) in
        transaction s (begin_inference_request sha
          (begin_for c (ip_embedding_model config) (estimated_tokens n) (max_chargeable_tokens n 0) ''embedding'')
          admission_config s)))"

definition EMBEDDING_MAX_INPUTS :: nat where
  "EMBEDDING_MAX_INPUTS = 256"

text \<open>Python's \<open>==\<close> between a JSON value and an int.\<close>

fun equals_int :: "(string \<Rightarrow> rat option) \<Rightarrow> json \<Rightarrow> int \<Rightarrow> bool" where
  "equals_int float_val (JInt n) k \<longleftrightarrow> n = k"
| "equals_int float_val (JBool b) k \<longleftrightarrow> of_bool b = k"
| "equals_int float_val (JFloat r) k \<longleftrightarrow> float_val r = Some (of_int k)"
| "equals_int float_val j k \<longleftrightarrow> False"

fun nonempty_str :: "json \<Rightarrow> bool" where
  "nonempty_str (JStr s) \<longleftrightarrow> s \<noteq> []"
| "nonempty_str j \<longleftrightarrow> False"

definition validated_embedding_payload ::
  "(string \<Rightarrow> rat option) \<Rightarrow> string \<Rightarrow> int \<Rightarrow> json \<Rightarrow> http_error + json list" where
  "validated_embedding_payload float_val model dimensions v =
     (let bad = Inl (bad_request ''invalid embedding request'') in
      case v of
        JObj d \<Rightarrow>
          if keys_of d \<noteq> names [''model'', ''input'', ''dimensions'', ''encoding_format''] then bad
          else (case jget ''input'' d of
            Some (JArr inputs) \<Rightarrow>
              if \<not> is_text model (jget ''model'' d) \<or>
                 \<not> (case jget ''dimensions'' d of None \<Rightarrow> False | Some n \<Rightarrow> equals_int float_val n dimensions) \<or>
                 \<not> is_text ''float'' (jget ''encoding_format'' d) \<or>
                 \<not> (1 \<le> length inputs \<and> length inputs \<le> EMBEDDING_MAX_INPUTS) \<or> \<not> list_all nonempty_str inputs
              then bad else Inr inputs
          | _ \<Rightarrow> bad)
      | _ \<Rightarrow> bad)"

definition proxy_embeddings_admission ::
  "(string \<Rightarrow> json option) \<Rightarrow> (string \<Rightarrow> rat option) \<Rightarrow> proof_check \<Rightarrow> (string \<Rightarrow> string) \<Rightarrow> inference_proxy_config \<Rightarrow>
   inference_proxy_config \<Rightarrow> proxy_call \<Rightarrow> inference_db \<Rightarrow> inference_db \<times> (http_error + inference_grant \<times> inference_request)" where
  "proxy_embeddings_admission loads float_val verify sha config admission_config c s =
     (if \<not> ip_enabled config \<or> ip_openrouter_api_key config = None
      then (s, Inl (Http 404 (ptext ''inference proxy is disabled'')))
      else if length (pc_body c) > ip_embedding_request_body_bytes config
      then (s, Inl (Http 413 (ptext ''embedding request is too large'')))
      else if \<bar>pc_now c - pc_requested_at c\<bar> > PROXY_MAX_AGE
      then (s, Inl (Http 409 (ptext ''embedding request is stale'')))
      else case loads (pc_body c) of
        None \<Rightarrow> (s, Inl (Http 400 (ptext ''invalid JSON request'')))
      | Some v \<Rightarrow>
          (case validated_embedding_payload float_val (ip_embedding_model config) (ip_embedding_dimensions config) v of
             Inl e \<Rightarrow> (s, Inl e)
           | Inr inputs \<Rightarrow> admit_embedding verify sha config admission_config c s))"

text \<open>The report of the \<open>finally\<close> block: a call completed exactly when its usage was validated.\<close>

record call_result =
  cr_usage :: "(int \<times> int \<times> int) option"
  cr_provider :: "string option"
  cr_timed_out :: bool
  cr_latency_ms :: "int option"
  cr_upstream_attempts :: int
  cr_openrouter_attempts :: int
  cr_fallback_phase :: int
  cr_terminal_error_code :: "string option"
  cr_finished_at :: time

definition settlement :: "proxy_call \<Rightarrow> call_result \<Rightarrow> finish_report" where
  "settlement c res =
     (let (p, n, cost) = (case cr_usage res of None \<Rightarrow> (0, 0, 0) | Some u \<Rightarrow> u)
      in \<lparr>fr_grant_id = pc_grant c, fr_nonce = pc_nonce c, fr_generation = pc_generation c,
          fr_status = (if cr_usage res = None then Failed else Completed),
          fr_prompt_tokens = p, fr_completion_tokens = n, fr_cost_microusd = cost,
          fr_usage_available = (cr_usage res \<noteq> None), fr_now = cr_finished_at res,
          fr_upstream_provider = cr_provider res, fr_timed_out = cr_timed_out res, fr_latency_ms = cr_latency_ms res,
          fr_upstream_attempts = cr_upstream_attempts res, fr_openrouter_attempts = cr_openrouter_attempts res,
          fr_fallback_phase = cr_fallback_phase res, fr_terminal_error_code = cr_terminal_error_code res\<rparr>)"

subsection \<open>Runs of the proxy\<close>

text \<open>
  The proxy as a machine: the inference tables and the calls that were admitted and not yet settled.
  A call settles once, in the \<open>finally\<close> block of the request that admitted it, or never, when its
  process dies. Other components mint, exchange and revoke grants and change the tickets in between.
\<close>

record proxy_state =
  ps_db :: inference_db
  ps_calls :: "(uuid \<times> uuid) list"

record proxy_world =
  pw_loads :: "string \<Rightarrow> json option"
  pw_float_val :: "string \<Rightarrow> rat option"
  pw_verify :: proof_check
  pw_sha :: "string \<Rightarrow> string"
  pw_select_route :: "string \<Rightarrow> route option"
  pw_config :: inference_proxy_config

datatype proxy_op =
    Mint uuid ticket
  | Exchange string uuid hotkey string time
  | Chat_Call proxy_call
  | Embedding_Call inference_proxy_config proxy_call
  | Settle proxy_call call_result
  | Revoke ticket time
  | Tickets_Change "ticket list"

definition call_key :: "proxy_call \<Rightarrow> uuid \<times> uuid" where
  "call_key c = (pc_grant c, pc_nonce c)"

definition enter_call :: "proxy_call \<Rightarrow> inference_db \<times> (http_error + 'a) \<Rightarrow> proxy_state \<Rightarrow> proxy_state" where
  "enter_call c result ps =
     (case result of
        (s, Inr _) \<Rightarrow> ps\<lparr>ps_db := s, ps_calls := call_key c # ps_calls ps\<rparr>
      | (s, Inl _) \<Rightarrow> ps\<lparr>ps_db := s\<rparr>)"

fun proxy_step :: "proxy_world \<Rightarrow> proxy_op \<Rightarrow> proxy_state \<Rightarrow> proxy_state" where
  "proxy_step w (Mint gid t) ps =
     ps\<lparr>ps_db := fst (ensure_inference_grant gid (pw_select_route w) t (pw_config w) (ps_db ps))\<rparr>"
| "proxy_step w (Exchange bearer gid h key now) ps =
     ps\<lparr>ps_db := fst (activate_inference_grant (pw_sha w) bearer gid h key now (pw_config w) (ps_db ps))\<rparr>"
| "proxy_step w (Chat_Call c) ps =
     enter_call c (proxy_chat_completions_admission (pw_loads w) (pw_float_val w) (pw_verify w) (pw_sha w) (pw_config w) c (ps_db ps)) ps"
| "proxy_step w (Embedding_Call admission_config c) ps =
     enter_call c (proxy_embeddings_admission (pw_loads w) (pw_float_val w) (pw_verify w) (pw_sha w) (pw_config w) admission_config c (ps_db ps)) ps"
| "proxy_step w (Settle c res) ps =
     (if call_key c \<in> set (ps_calls ps) then
        ps\<lparr>ps_db := fst (finish_inference_request (settlement c res) (ps_db ps)),
           ps_calls := filter (\<lambda>k. k \<noteq> call_key c) (ps_calls ps)\<rparr>
      else ps)"
| "proxy_step w (Revoke t now) ps = ps\<lparr>ps_db := revoke_ticket_inference t now (ps_db ps)\<rparr>"
| "proxy_step w (Tickets_Change ts) ps = ps\<lparr>ps_db := (ps_db ps)\<lparr>i_tickets := ts\<rparr>\<rparr>"

subsection \<open>The books along every run\<close>

text \<open>The operator's overlay may tune the embedding lane's concurrency, up to the bound \<open>C\<close>.\<close>

fun op_bounded :: "(request_kind \<Rightarrow> nat) \<Rightarrow> proxy_op \<Rightarrow> bool" where
  "op_bounded C (Embedding_Call admission_config c) \<longleftrightarrow>
     (\<forall>k \<in> {Chat, Embedding}. per_ticket_concurrency k admission_config \<le> int (C k))"
| "op_bounded C x \<longleftrightarrow> True"

definition body_slack :: "proxy_world \<Rightarrow> nat" where
  "body_slack w = max (ip_request_body_bytes (pw_config w)) (ip_embedding_request_body_bytes (pw_config w))"

definition unsettled :: "inference_request list \<Rightarrow> uuid \<times> uuid \<Rightarrow> bool" where
  "unsettled rs key \<longleftrightarrow> (\<exists>r \<in> set rs. rkey r = key \<and> (r_status r = Started \<or> 0 < r_prompt_tokens r))"

definition proxy_ok :: "(request_kind \<Rightarrow> nat) \<Rightarrow> nat \<Rightarrow> proxy_state \<Rightarrow> bool" where
  "proxy_ok C D ps \<longleftrightarrow>
     inference_ok C D (ps_db ps) \<and> (\<forall>key \<in> set (ps_calls ps). unsettled (i_requests (ps_db ps)) key)"

lemma unsettled_cancel:
  assumes "\<forall>r \<in> set rs. request_ok D r" and "unsettled rs key"
  shows "unsettled (update_where p (cancel_request now) rs) key"
proof -
  obtain r where r: "r \<in> set rs" "rkey r = key" "r_status r = Started \<or> 0 < r_prompt_tokens r"
    using assms(2) by (auto simp: unsettled_def)
  let ?r = "if p r then cancel_request now r else r"
  have "?r \<in> set (update_where p (cancel_request now) rs)" using r(1) by (auto simp: set_update_where)
  moreover have "rkey ?r = key \<and> (r_status ?r = Started \<or> 0 < r_prompt_tokens ?r)"
    using r assms(1) by (auto simp: cancel_request_def rkey_def request_ok_def)
  ultimately show ?thesis unfolding unsettled_def by blast
qed

lemma unsettled_append: "unsettled rs key \<Longrightarrow> unsettled (rs @ [r]) key"
  by (auto simp: unsettled_def)

lemma unsettled_set_row:
  assumes "unsettled rs key" and "key \<noteq> rkey r"
  shows "unsettled (set_row rkey r rs) key"
  using assms by (force simp: unsettled_def set_row_def set_update_where)

lemma reserve_requests:
  "i_requests (fst (reserve b kind config g s)) = i_requests s \<or>
   (\<exists>r. i_requests (fst (reserve b kind config g s)) = i_requests s @ [r])"
  by (auto simp: reserve_def Let_def)

lemma begin_unsettled:
  assumes ok: "inference_ok C D s" and u: "unsettled (i_requests s) key"
  shows "unsettled (i_requests (fst (begin_inference_request sha b config s))) key"
proof (cases "parse_request_kind (b_request_kind b)")
  case None
  then show ?thesis using u by (simp add: begin_inference_request_def)
next
  case K: (Some kind)
  show ?thesis
  proof (cases "get_row g_grant_id (b_grant_id b) (i_grants s)")
    case None
    then show ?thesis using u K by (simp add: begin_inference_request_def)
  next
    case G: (Some g)
    obtain g1 rs where R: "reclaim_stale kind (b_now b - ip_timeout config * 2) (b_now b) g (i_requests s) = (g1, rs)"
      by fastforce
    then have "rs = i_requests s \<or> (\<exists>p. rs = update_where p (cancel_request (b_now b)) (i_requests s))"
      by (auto simp: reclaim_stale_def Let_def split: if_splits)
    then have u': "unsettled rs key" using u unsettled_cancel [OF inference_okD(3) [OF ok] u] by auto
    let ?s1 = "s\<lparr>i_grants := set_row g_grant_id g1 (i_grants s), i_requests := rs\<rparr>"
    have "unsettled (i_requests (fst (reserve b kind config g1 ?s1))) key"
      using reserve_requests [of b kind config g1 ?s1] u' by (auto intro: unsettled_append)
    then show ?thesis using u u' by (simp add: begin_inference_request_def K G R Let_def)
  qed
qed

lemma begin_admits:
  assumes "begin_inference_request sha b config s = (s', Inr (g, r))"
  shows "r \<in> set (i_requests s')" and "rkey r = (b_grant_id b, b_nonce b)" and "r_status r = Started"
  using assms
  by (auto simp: begin_inference_request_def reserve_def Let_def new_request_def rkey_def reclaim_stale_def
      dest!: get_row_SomeD split: option.splits if_splits prod.splits)

lemma estimate_slack:
  "max_chargeable_tokens n m \<le> m + estimated_tokens n + int n"
  "1 \<le> m \<Longrightarrow> 1 \<le> m + estimated_tokens n"
proof -
  have "1 \<le> estimated_tokens n" by (simp add: estimated_tokens_def)
  then show "max_chargeable_tokens n m \<le> m + estimated_tokens n + int n" "1 \<le> m \<Longrightarrow> 1 \<le> m + estimated_tokens n"
    by (simp_all add: max_chargeable_tokens_def)
qed

lemma transaction_ok:
  assumes "inference_ok C D s" and "\<And>s' x. result = (s', Inr x) \<Longrightarrow> inference_ok C D s'"
  shows "inference_ok C D (fst (transaction s result))"
  using assms by (auto simp: transaction_def split: prod.splits sum.splits)

lemma transaction_SomeD: "transaction s result = (s', Inr x) \<Longrightarrow> result = (s', Inr x)"
  by (auto simp: transaction_def split: prod.splits sum.splits)

lemma transaction_Inl: "snd (transaction s result) = Inl e \<Longrightarrow> fst (transaction s result) = s"
  by (auto simp: transaction_def split: prod.splits sum.splits)

text \<open>
  What an admission does to the tables: nothing when it refuses, one reservation of this call's
  nonce when it admits.
\<close>

definition admits :: "inference_proxy_config \<Rightarrow> nat \<Rightarrow> (string \<Rightarrow> string) \<Rightarrow> proxy_call \<Rightarrow> inference_db \<Rightarrow> inference_db \<times> (http_error + inference_grant \<times> inference_request) \<Rightarrow> bool" where
  "admits config D sha c s result \<longleftrightarrow>
     (case result of
        (s', Inl e) \<Rightarrow> s' = s
      | (s', Inr x) \<Rightarrow> (\<exists>b. begin_inference_request sha b config s = (s', Inr x) \<and> slack_ok D b \<and>
                        b_grant_id b = pc_grant c \<and> b_nonce b = pc_nonce c))"

lemma admits_refuse [simp]: "admits config D sha c s (s, Inl e)"
  by (simp add: admits_def)

lemma admits_transaction:
  assumes "slack_ok D b" and "b_grant_id b = pc_grant c" and "b_nonce b = pc_nonce c"
  shows "admits config D sha c s (transaction s (begin_inference_request sha b config s))"
  using assms by (auto simp: admits_def transaction_def split: prod.splits sum.splits)

lemma admit_chat_admits:
  assumes "length (pc_body c) \<le> D"
  shows "admits config D sha c s (admit_chat verify sha config c m n s)"
proof -
  have "slack_ok D (begin_for c model (n + estimated_tokens (length (pc_body c))) (max_chargeable_tokens (length (pc_body c)) n) ''chat'')" for model
    using estimate_slack(1) [of "length (pc_body c)" n] assms by (simp add: slack_ok_def begin_for_def)
  then show ?thesis
    by (auto simp: admit_chat_def Let_def begin_for_def intro!: admits_transaction split: option.splits sum.splits)
qed

lemma chat_admission_admits:
  assumes "ip_request_body_bytes config \<le> D"
  shows "admits config D sha c s (proxy_chat_completions_admission loads float_val verify sha config c s)"
proof (cases "length (pc_body c) \<le> ip_request_body_bytes config")
  case True
  note a = admit_chat_admits [of c D, OF le_trans [OF True assms]]
  show ?thesis using a by (auto simp: proxy_chat_completions_admission_def split: option.splits json.splits sum.splits)
next
  case False
  then show ?thesis by (simp add: proxy_chat_completions_admission_def)
qed

lemma embedding_admission_admits:
  assumes "ip_embedding_request_body_bytes config \<le> D"
  shows "admits admission_config D sha c s (proxy_embeddings_admission loads float_val verify sha config admission_config c s)"
proof (cases "length (pc_body c) \<le> ip_embedding_request_body_bytes config")
  case True
  have "slack_ok D (begin_for c m (estimated_tokens (length (pc_body c))) (max_chargeable_tokens (length (pc_body c)) 0) ''embedding'')" for m
    using estimate_slack(1) [of "length (pc_body c)" 0] assms True by (simp add: slack_ok_def begin_for_def)
  then have "admits admission_config D sha c s (admit_embedding verify sha config admission_config c s)"
    by (auto simp: admit_embedding_def Let_def begin_for_def intro!: admits_transaction split: option.splits)
  then show ?thesis by (auto simp: proxy_embeddings_admission_def split: option.splits sum.splits)
next
  case False
  then show ?thesis by (simp add: proxy_embeddings_admission_def)
qed

lemma enter_call_ok:
  assumes ok: "proxy_ok C D ps" and a: "admits config D sha c (ps_db ps) result"
    and C: "\<And>k. per_ticket_concurrency k config \<le> int (C k)"
  shows "proxy_ok C D (enter_call c result ps)"
proof (cases "snd result")
  case (Inl e)
  then have "fst result = ps_db ps" using a by (auto simp: admits_def split: prod.splits sum.splits)
  then show ?thesis using ok Inl by (auto simp: enter_call_def proxy_ok_def split: prod.splits sum.splits)
next
  case (Inr x)
  obtain s' g r where res: "result = (s', Inr (g, r))" using Inr by (cases result; cases x) auto
  obtain b where b: "begin_inference_request sha b config (ps_db ps) = (s', Inr (g, r))" "slack_ok D b"
    "b_grant_id b = pc_grant c" "b_nonce b = pc_nonce c"
    using a by (auto simp: admits_def res)
  have ik: "inference_ok C D (ps_db ps)" using ok by (simp add: proxy_ok_def)
  have "inference_ok C D s'" using begin_inference_request_ok [OF ik b(2) C, of sha] b(1) by simp
  moreover have "unsettled (i_requests s') (call_key c)"
    using begin_admits [OF b(1)] b(3,4) by (auto simp: unsettled_def call_key_def)
  moreover have "unsettled (i_requests s') key" if "key \<in> set (ps_calls ps)" for key
    using begin_unsettled [OF ik, of key sha b config] ok that b(1) by (simp add: proxy_ok_def)
  ultimately show ?thesis by (simp add: enter_call_def res proxy_ok_def)
qed

lemma settle_unsettled:
  assumes "unsettled (i_requests s) key" and "key \<noteq> (fr_grant_id f, fr_nonce f)"
  shows "unsettled (i_requests (fst (finish_inference_request f s))) key"
proof -
  have "rkey (settled_request f d p c r) = (fr_grant_id f, fr_nonce f)"
    if "get_row rkey (fr_grant_id f, fr_nonce f) (i_requests s) = Some r" for d p c r
    using get_row_SomeD [OF that] by (simp add: settled_request_simps)
  then show ?thesis using assms
    by (auto simp: finish_inference_request_def Let_def intro!: unsettled_set_row split: option.splits prod.splits)
qed

lemma settle_step_ok:
  assumes ok: "proxy_ok C D ps" and c: "call_key c \<in> set (ps_calls ps)"
  shows "proxy_ok C D (ps\<lparr>ps_db := fst (finish_inference_request (settlement c res) (ps_db ps)),
                         ps_calls := filter (\<lambda>k. k \<noteq> call_key c) (ps_calls ps)\<rparr>)"
proof -
  let ?f = "settlement c res"
  have key: "(fr_grant_id ?f, fr_nonce ?f) = call_key c" by (simp add: settlement_def call_key_def split: prod.splits option.splits)
  have st: "fr_status ?f \<noteq> Started" by (simp add: settlement_def split: prod.splits option.splits)
  have ik: "inference_ok C D (ps_db ps)" using ok by (simp add: proxy_ok_def)
  have once: "r_status r = Started \<or> 0 < r_prompt_tokens r"
    if "get_row rkey (fr_grant_id ?f, fr_nonce ?f) (i_requests (ps_db ps)) = Some r" for r
  proof -
    obtain r' where r': "r' \<in> set (i_requests (ps_db ps))" "rkey r' = call_key c" "r_status r' = Started \<or> 0 < r_prompt_tokens r'"
      using ok c by (auto simp: proxy_ok_def unsettled_def)
    have "r' = r" using get_row_eqI [OF inference_okD(2) [OF ik] r'(1)] that r'(2) by (simp add: key)
    then show ?thesis using r'(3) by simp
  qed
  have "unsettled (i_requests (fst (finish_inference_request ?f (ps_db ps)))) k"
    if "k \<in> set (ps_calls ps)" "k \<noteq> call_key c" for k
    using settle_unsettled [of "ps_db ps" k ?f] ok that by (auto simp: proxy_ok_def key)
  then show ?thesis using finish_inference_request_ok [OF ik st once] by (simp add: proxy_ok_def)
qed


lemma revoke_fold_ok:
  "proxy_ok C D ps \<Longrightarrow> set gs \<subseteq> set (i_grants (ps_db ps)) \<Longrightarrow> distinct (map g_grant_id gs) \<Longrightarrow>
   proxy_ok C D (ps\<lparr>ps_db := fold (revoke_one now) gs (ps_db ps)\<rparr>)"
proof (induction gs arbitrary: ps)
  case (Cons g gs)
  let ?ps = "ps\<lparr>ps_db := revoke_one now g (ps_db ps)\<rparr>"
  have ik: "inference_ok C D (ps_db ps)" using Cons.prems(1) by (simp add: proxy_ok_def)
  have g: "g \<in> set (i_grants (ps_db ps))" using Cons.prems(2) by simp
  have rs: "i_requests (revoke_one now g (ps_db ps)) =
      update_where (started_in (g_grant_id g)) (cancel_request now) (i_requests (ps_db ps))"
    by (simp add: revoke_one_def cancel_started_def Let_def)
  have "proxy_ok C D ?ps"
    using Cons.prems(1) revoke_one_ok [OF ik g, of now] unsettled_cancel [OF inference_okD(3) [OF ik]]
    by (auto simp: proxy_ok_def rs)
  moreover have "set gs \<subseteq> set (i_grants (ps_db ?ps))"
  proof
    fix h
    assume h: "h \<in> set gs"
    then have "g_grant_id h \<noteq> g_grant_id g" "h \<in> set (i_grants (ps_db ps))"
      using Cons.prems(2,3) by (auto simp: image_iff)
    then show "h \<in> set (i_grants (ps_db ?ps))"
      by (force simp: revoke_one_def cancel_started_def Let_def set_row_def set_update_where)
  qed
  ultimately have "proxy_ok C D (?ps\<lparr>ps_db := fold (revoke_one now) gs (ps_db ?ps)\<rparr>)"
    using Cons.prems(3) by (intro Cons.IH) simp_all
  then show ?case by simp
qed simp

lemma Mint_requests: "i_requests (fst (ensure_inference_grant gid sel t config s)) = i_requests s"
  by (auto simp: ensure_inference_grant_def Let_def split: option.splits)

lemma Exchange_requests:
  "i_requests (fst (activate_inference_grant sha bearer gid h key now config s)) = i_requests s \<or>
   (\<exists>p. i_requests (fst (activate_inference_grant sha bearer gid h key now config s)) = update_where p (cancel_request now) (i_requests s))"
  by (auto simp: activate_inference_grant_def cancel_started_def Let_def split: option.splits)

lemma proxy_step_ok:
  assumes guard: "op_bounded C x" and ok: "proxy_ok C D ps"
    and D: "body_slack w \<le> D" and C: "\<And>k. per_ticket_concurrency k (pw_config w) \<le> int (C k)"
  shows "proxy_ok C D (proxy_step w x ps)"
proof -
  have ik: "inference_ok C D (ps_db ps)" and uk: "\<And>key. key \<in> set (ps_calls ps) \<Longrightarrow> unsettled (i_requests (ps_db ps)) key"
    using ok by (auto simp: proxy_ok_def)
  note cancel = unsettled_cancel [OF inference_okD(3) [OF ik]]
  show ?thesis
  proof (cases x)
    case (Mint gid t)
    then show ?thesis using ensure_inference_grant_ok [OF ik] uk by (simp add: proxy_ok_def Mint_requests)
  next
    case (Exchange bearer gid h key now)
    then show ?thesis
      using activate_inference_grant_ok [OF ik] uk Exchange_requests [of "pw_sha w" bearer gid h key now "pw_config w" "ps_db ps"] cancel
      by (auto simp: proxy_ok_def)
  next
    case (Chat_Call c)
    then show ?thesis using enter_call_ok [OF ok chat_admission_admits C] D by (simp add: body_slack_def)
  next
    case (Embedding_Call ac c)
    have "per_ticket_concurrency k ac \<le> int (C k)" for k using guard Embedding_Call by (cases k) simp_all
    then show ?thesis using Embedding_Call enter_call_ok [OF ok embedding_admission_admits] D by (simp add: body_slack_def)
  next
    case (Settle c res)
    then show ?thesis using settle_step_ok [OF ok] ok by simp
  next
    case (Revoke t now)
    have "distinct (map g_grant_id (open_grants_of t (i_grants (ps_db ps))))"
      using inference_okD(1) [OF ik] by (simp add: open_grants_of_def distinct_map_filter)
    then show ?thesis using Revoke revoke_fold_ok [OF ok] by (simp add: revoke_ticket_inference_def open_grants_of_def)
  next
    case (Tickets_Change ts)
    then show ?thesis using ik uk by (simp add: proxy_ok_def inference_ok_def)
  qed
qed

subsection \<open>Dead grants\<close>

definition dead :: "inference_grant \<Rightarrow> bool" where
  "dead g \<longleftrightarrow> g_status g = Revoked \<or> g_status g = Exhausted"

definition dead_kept :: "inference_db \<Rightarrow> inference_db \<Rightarrow> bool" where
  "dead_kept s s' \<longleftrightarrow>
     (\<forall>gid g. get_row g_grant_id gid (i_grants s) = Some g \<and> dead g \<longrightarrow>
        (\<exists>g'. get_row g_grant_id gid (i_grants s') = Some g' \<and> dead g'))"

lemma dead_kept_refl [simp]: "dead_kept s s"
  by (simp add: dead_kept_def)

lemma dead_kept_trans: "dead_kept s t \<Longrightarrow> dead_kept t u \<Longrightarrow> dead_kept s u"
  unfolding dead_kept_def by blast

lemma dead_kept_put:
  assumes "get_row g_grant_id (g_grant_id g') (i_grants s) = Some g" and "dead g \<Longrightarrow> dead g'"
    and "i_grants s' = set_row g_grant_id g' (i_grants s)"
  shows "dead_kept s s'"
  using assms by (auto simp: dead_kept_def get_row_set_row)

lemma lane_charge_status [simp]: "g_status (lane_charge k n g) = g_status g"
  by (cases k) simp_all

lemma lane_set_active_status [simp]: "g_status (lane_set_active k n g) = g_status g"
  by (cases k) simp_all

lemma lane_set_count_status [simp]: "g_status (lane_set_count k n g) = g_status g"
  by (cases k) simp_all

lemma cancel_started_status: "cancel_started now g rs = (g1, rs') \<Longrightarrow> g_status g1 = g_status g \<and> g_grant_id g1 = g_grant_id g"
  by (auto simp: cancel_started_def Let_def)

lemma reclaim_stale_status: "reclaim_stale k cutoff now g rs = (g1, rs') \<Longrightarrow> g_status g1 = g_status g \<and> g_grant_id g1 = g_grant_id g"
  by (auto simp: reclaim_stale_def Let_def split: if_splits)

lemma begin_dead_kept: "dead_kept s (fst (begin_inference_request sha b config s))"
proof (cases "\<exists>kind g. parse_request_kind (b_request_kind b) = Some kind \<and> get_row g_grant_id (b_grant_id b) (i_grants s) = Some g \<and>
    g_bearer_digest g = Some (bearer_digest sha (b_bearer b)) \<and> b_now b < g_expires_at g \<and>
    model_permitted kind (b_model b) g \<and> g_status g = Active")
  case False
  then show ?thesis by (auto simp: begin_inference_request_def not_less split: option.splits)
next
  case True
  then obtain kind g where K: "parse_request_kind (b_request_kind b) = Some kind"
    and G: "get_row g_grant_id (b_grant_id b) (i_grants s) = Some g"
    and a: "g_bearer_digest g = Some (bearer_digest sha (b_bearer b))" "b_now b < g_expires_at g" "model_permitted kind (b_model b) g"
      "g_status g = Active" by blast
  obtain g1 rs where R: "reclaim_stale kind (b_now b - ip_timeout config * 2) (b_now b) g (i_requests s) = (g1, rs)" by fastforce
  note st = reclaim_stale_status [OF R]
  have id: "g_grant_id g = b_grant_id b" using get_row_SomeD [OF G] by simp
  let ?s1 = "s\<lparr>i_grants := set_row g_grant_id g1 (i_grants s), i_requests := rs\<rparr>"
  have 1: "dead_kept s ?s1" by (rule dead_kept_put [of g1 s g]) (use st G id in \<open>auto simp: dead_def\<close>)
  have G1: "get_row g_grant_id (g_grant_id g1) (i_grants ?s1) = Some g1" using G st id by (simp add: get_row_set_row)
  have put: "dead_kept ?s1 (?s1\<lparr>i_grants := set_row g_grant_id g' (i_grants ?s1), i_requests := x\<rparr>)"
    if "g_grant_id g' = g_grant_id g1" for g' x
    by (rule dead_kept_put [of g' ?s1 g1]) (use that G1 st a(4) in \<open>auto simp: dead_def\<close>)
  have put': "dead_kept ?s1 (?s1\<lparr>i_grants := set_row g_grant_id g' (i_grants ?s1)\<rparr>)"
    if "g_grant_id g' = g_grant_id g1" for g'
    by (rule dead_kept_put [of g' ?s1 g1]) (use that G1 st a(4) in \<open>auto simp: dead_def\<close>)
  have res: "dead_kept ?s1 (fst (reserve b kind config g1 ?s1))"
    unfolding reserve_def Let_def
    using put [of "(lane_set_count kind (lane_count kind g1 + 1) (lane_set_active kind (lane_active kind g1 + 1) g1))\<lparr>g_updated_at := Some (b_now b)\<rparr>"]
      put' [of "g1\<lparr>g_status := Exhausted\<rparr>"]
    by (cases kind) (simp_all)
  have "fst (begin_inference_request sha b config s) \<in>
      {?s1\<lparr>i_grants := set_row g_grant_id (g1\<lparr>g_status := Revoked\<rparr>) (i_grants ?s1)\<rparr>, fst (reserve b kind config g1 ?s1)}"
    using a by (simp add: begin_inference_request_def K G R Let_def)
  then show ?thesis using dead_kept_trans [OF 1] res put' [of "g1\<lparr>g_status := Revoked\<rparr>"] by auto
qed

lemma lane_settle_status [simp]: "g_status (lane_settle k w p c cost g) = g_status g"
  by (cases k) simp_all

lemma settled_grant_status: "dead g \<Longrightarrow> dead (settled_grant f r p c g)"
  by (simp add: settled_grant_def Let_def dead_def)

lemma settled_grant_id: "g_grant_id (settled_grant f r p c g) = g_grant_id g"
  by (simp add: settled_grant_def Let_def lane_settle_simps)

lemma finish_dead_kept: "dead_kept s (fst (finish_inference_request f s))"
proof (cases "get_row g_grant_id (fr_grant_id f) (i_grants s)")
  case None
  then show ?thesis by (simp add: finish_inference_request_def)
next
  case G: (Some g)
  have id: "g_grant_id g = fr_grant_id f" using get_row_SomeD [OF G] by simp
  have put: "dead_kept s (s\<lparr>i_grants := set_row g_grant_id (settled_grant f r p c g) (i_grants s), i_requests := x\<rparr>)" for r p c x
    by (rule dead_kept_put [of "settled_grant f r p c g" s g]) (use G id in \<open>auto simp: settled_grant_id intro: settled_grant_status\<close>)
  show ?thesis using put by (auto simp: finish_inference_request_def G Let_def split: option.splits prod.splits)
qed

lemma activate_dead_kept: "dead_kept s (fst (activate_inference_grant sha bearer gid h key now config s))"
proof (cases "get_row g_grant_id gid (i_grants s)")
  case None
  then show ?thesis by (simp add: activate_inference_grant_def)
next
  case G: (Some g)
  have id: "g_grant_id g = gid" using get_row_SomeD [OF G] by simp
  have rv: "dead_kept s (s\<lparr>i_grants := set_row g_grant_id (g\<lparr>g_status := Revoked\<rparr>) (i_grants s)\<rparr>)"
    by (rule dead_kept_put [of "g\<lparr>g_status := Revoked\<rparr>" s g]) (use G id in \<open>auto simp: dead_def\<close>)
  obtain g1 rs where C: "cancel_started now g (i_requests s) = (g1, rs)" by fastforce
  have on: "dead_kept s (s\<lparr>i_grants := set_row g_grant_id g' (i_grants s), i_requests := rs\<rparr>)"
    if "g_grant_id g' = gid" "\<not> dead g" for g'
    by (rule dead_kept_put [of g' s g]) (use G that in auto)
  show ?thesis using rv on cancel_started_status [OF C]
    by (auto simp: activate_inference_grant_def G C Let_def id dead_def split: option.splits)
qed

lemma revoke_one_dead_kept:
  assumes "get_row g_grant_id (g_grant_id g) (i_grants s) = Some g0"
  shows "dead_kept s (revoke_one now g s)"
proof -
  obtain g1 rs where C: "cancel_started now g (i_requests s) = (g1, rs)" by fastforce
  show ?thesis
    by (rule dead_kept_put [of "g1\<lparr>g_status := Revoked, g_updated_at := Some now\<rparr>" s g0])
      (use assms cancel_started_status [OF C] in \<open>auto simp: revoke_one_def C dead_def\<close>)
qed

lemma revoke_fold_dead_kept:
  "(\<And>g. g \<in> set gs \<Longrightarrow> g_grant_id g \<in> g_grant_id ` set (i_grants s)) \<Longrightarrow> dead_kept s (fold (revoke_one now) gs s)"
proof (induction gs arbitrary: s)
  case (Cons g gs)
  have ids: "g_grant_id ` set (i_grants (revoke_one now g s)) = g_grant_id ` set (i_grants s)"
  proof -
    have "map g_grant_id (i_grants (revoke_one now g s)) = map g_grant_id (i_grants s)"
      by (simp add: revoke_one_def cancel_started_def Let_def row_simps)
    then show ?thesis by (metis set_map)
  qed
  obtain g0 where "get_row g_grant_id (g_grant_id g) (i_grants s) = Some g0"
    using Cons.prems [of g] get_row_None_iff [of g_grant_id "g_grant_id g" "i_grants s"] by (metis list.set_intros(1) not_None_eq)
  then have "dead_kept s (revoke_one now g s)" by (rule revoke_one_dead_kept)
  moreover have "dead_kept (revoke_one now g s) (fold (revoke_one now) gs (revoke_one now g s))"
    by (rule Cons.IH) (use Cons.prems ids in auto)
  ultimately show ?case using dead_kept_trans by simp
qed simp

lemma mint_dead_kept: "dead_kept s (fst (ensure_inference_grant gid sel t config s))"
proof -
  have "dead_kept s (s\<lparr>i_grants := i_grants s @ [g]\<rparr>)" for g
    by (auto simp: dead_kept_def get_row_append_new split: option.splits)
  then show ?thesis by (auto simp: ensure_inference_grant_def Let_def split: option.splits)
qed

lemma admits_dead_kept:
  assumes "admits config D sha c (ps_db ps) result"
  shows "dead_kept (ps_db ps) (ps_db (enter_call c result ps))"
proof (cases "snd result")
  case (Inl e)
  then have "fst result = ps_db ps" using assms by (auto simp: admits_def split: prod.splits sum.splits)
  then show ?thesis using Inl by (auto simp: enter_call_def split: prod.splits sum.splits)
next
  case (Inr x)
  then obtain b where "begin_inference_request sha b config (ps_db ps) = (fst result, Inr x)"
    using assms by (cases result) (auto simp: admits_def)
  then have "fst result = fst (begin_inference_request sha b config (ps_db ps))" by simp
  then show ?thesis using Inr begin_dead_kept [of "ps_db ps" sha b config] by (cases result) (simp add: enter_call_def)
qed

lemma proxy_step_dead_kept: "dead_kept (ps_db ps) (ps_db (proxy_step w x ps))"
proof (cases x)
  case (Mint gid t)
  then show ?thesis by (simp add: mint_dead_kept)
next
  case (Exchange bearer gid h key now)
  then show ?thesis by (simp add: activate_dead_kept)
next
  case (Chat_Call c)
  then show ?thesis using admits_dead_kept [OF chat_admission_admits [OF order_refl]] by simp
next
  case (Embedding_Call ac c)
  then show ?thesis using admits_dead_kept [OF embedding_admission_admits [OF order_refl]] by simp
next
  case (Settle c res)
  then show ?thesis by (simp add: finish_dead_kept)
next
  case (Revoke t now)
  then show ?thesis
    by (simp add: revoke_ticket_inference_def) (rule revoke_fold_dead_kept, auto simp: open_grants_of_def)
next
  case (Tickets_Change ts)
  then show ?thesis by (simp add: dead_kept_def)
qed

interpretation grants: monotone_machine "proxy_step w" "\<lambda>ps. True" "\<lambda>ps ps'. dead_kept (ps_db ps) (ps_db ps')"
  for w
  by unfold_locales (auto intro: dead_kept_trans proxy_step_dead_kept)

definition lane_bound :: "proxy_world \<Rightarrow> nat \<Rightarrow> request_kind \<Rightarrow> nat" where
  "lane_bound w n k = max n (nat (per_ticket_concurrency k (pw_config w)))"

interpretation books: guarded_machine "proxy_step w" "op_bounded (lane_bound w n)" "proxy_ok (lane_bound w n) (body_slack w)"
  for w n
  by unfold_locales (rule proxy_step_ok, auto simp: lane_bound_def)

definition empty_proxy :: "ticket list \<Rightarrow> proxy_state" where
  "empty_proxy ts = \<lparr>ps_db = \<lparr>i_tickets = ts, i_grants = [], i_requests = []\<rparr>, ps_calls = []\<rparr>"

lemma empty_proxy_ok: "proxy_ok C D (empty_proxy ts)"
  by (simp add: empty_proxy_def proxy_ok_def inference_ok_def)

lemma length_filter_in_flight: "int (length (filter (\<lambda>r. in_lane k gid r \<and> r_status r = Started) rs)) = sum_rows (in_flight k gid) rs"
  by (induction rs) (auto simp: in_flight_def)

lemma length_filter_admitted: "int (length (filter (in_lane k gid) rs)) = sum_rows (admitted k gid) rs"
  by (induction rs) (auto simp: admitted_def)

lemma sum_filter_charged: "sum_rows charge (filter (\<lambda>r. in_lane k gid r \<and> r_status r \<noteq> Started) rs) = sum_rows (charged k gid) rs"
  by (induction rs) (auto simp: charged_def)

lemma charged_le_exposure:
  assumes "\<forall>r \<in> set rs. request_ok D r"
  shows "sum_rows (charged k gid) rs \<le> sum_rows (exposure k gid) rs"
  using assms by (intro sum_rows_mono) (auto simp: charged_def exposure_def request_ok_def)

text \<open>
  C1. The inference books balance along every run of the proxy, from empty tables and under any
  interleaving of mints, exchanges, calls, settlements, revocations and ticket changes: for every grant and lane
  the in-flight counter is the number of started requests, the request counter is the number of
  requests ever admitted and never exceeds the request budget, the spent tokens are exactly what the settled
  requests were charged, and they exceed the token budget by at most one request body per concurrent slot.
\<close>

theorem inference_books_balance:
  assumes "list_all (op_bounded (lane_bound w n)) ops"
    and "s = ps_db (fold (proxy_step w) ops (empty_proxy ts))" and "g \<in> set (i_grants s)"
  shows "lane_active k g = int (length (filter (\<lambda>r. in_lane k (g_grant_id g) r \<and> r_status r = Started) (i_requests s))) \<and>
         lane_count k g = int (length (filter (in_lane k (g_grant_id g)) (i_requests s))) \<and>
         lane_count k g \<le> max 0 (lane_request_budget k g) \<and>
         lane_spent k g = sum_rows charge (filter (\<lambda>r. in_lane k (g_grant_id g) r \<and> r_status r \<noteq> Started) (i_requests s)) \<and>
         lane_spent k g \<le> max 0 (lane_token_budget k g) + int (lane_bound w n k * body_slack w)"
proof -
  have ok: "inference_ok (lane_bound w n) (body_slack w) s"
    using books.guarded_run [OF assms(1) empty_proxy_ok] unfolding assms(2) proxy_ok_def by blast
  show ?thesis
    using inference_okD(5) [OF ok assms(3), of k] charged_le_exposure [OF inference_okD(3) [OF ok], of k "g_grant_id g"]
    by (simp add: lane_ok_def Let_def length_filter_in_flight length_filter_admitted sum_filter_charged)
qed

text \<open>
  A dead grant stays dead: once a grant is revoked or exhausted, no sequence of proxy operations
  makes it pending or active again, and it never disappears.
\<close>

theorem dead_grants_stay_dead:
  assumes "get_row g_grant_id gid (i_grants (ps_db ps)) = Some g" and "g_status g = Revoked \<or> g_status g = Exhausted"
  shows "\<exists>g'. get_row g_grant_id gid (i_grants (ps_db (fold (proxy_step w) ops ps))) = Some g' \<and>
              (g_status g' = Revoked \<or> g_status g' = Exhausted)"
  using grants.run_grows [of ps w ops] assms unfolding dead_kept_def dead_def by blast

subsection \<open>The locked payload\<close>

lemma map_of_dict_set: "map_of (dict_set n v d) k = (if k = ptext n then Some v else map_of d k)"
proof (cases "has_key n d")
  case True
  have "map_of (map (\<lambda>(k, w). if k = ptext n then (k, v) else (k, w)) d) k =
      (if k = ptext n then map_option (\<lambda>_. v) (map_of d k) else map_of d k)"
    by (induction d) auto
  moreover have "map_of d (ptext n) \<noteq> None" using True by (simp add: has_key_def keys_of_def map_of_eq_None_iff)
  ultimately show ?thesis using True by (auto simp: dict_set_def)
next
  case False
  then have "map_of d (ptext n) = None" by (simp add: has_key_def keys_of_def map_of_eq_None_iff)
  with False show ?thesis by (auto simp: dict_set_def map_add_def split: option.splits)
qed

lemma map_of_dict_pop: "map_of (dict_pop n d) k = (if k = ptext n then None else map_of d k)"
  unfolding dict_pop_def by (induction d) auto

lemma keys_of_iff: "k \<in> keys_of d \<longleftrightarrow> map_of d k \<noteq> None"
  by (simp add: keys_of_def map_of_eq_None_iff)

lemma map_of_fold_pop: "map_of (fold dict_pop ns d) k = (if k \<in> names ns then None else map_of d k)"
  by (induction ns arbitrary: d) (auto simp: names_def map_of_dict_pop)

lemma locked_messages_lookup:
  "map_of (case jget ''messages'' u of Some (JArr ms) \<Rightarrow> dict_set ''messages'' (JArr (map strip_tool_name ms)) u | _ \<Rightarrow> u) k =
     (if k = ptext ''messages'' then (case map_of u k of Some (JArr ms) \<Rightarrow> Some (JArr (map strip_tool_name ms)) | v \<Rightarrow> v)
      else map_of u k)"
  by (auto simp: jget_def map_of_dict_set split: option.splits json.splits)

lemma locked_lookup:
  "map_of (locked_upstream_payload d model max_tokens) k =
     (if k = ptext ''reasoning'' then map_option JObj (benchmark_reasoning model)
      else if k = ptext ''stream'' then Some (JBool False)
      else if k = ptext ''n'' then Some (JInt 1)
      else if k = ptext ''max_tokens'' then Some (JInt max_tokens)
      else if k = ptext ''model'' then Some (JStr (ptext model))
      else if k \<in> names REMOVED_REQUEST_FIELDS \<or> k \<in> names DROPPED_REQUEST_FIELDS then None
      else if k = ptext ''messages'' then (case map_of d k of Some (JArr ms) \<Rightarrow> Some (JArr (map strip_tool_name ms)) | v \<Rightarrow> v)
      else map_of d k)"
  by (cases "benchmark_reasoning model")
    (simp_all add: locked_upstream_payload_def Let_def map_of_dict_set map_of_dict_pop locked_messages_lookup map_of_fold_pop)

lemma accepted_keys:
  assumes "validate_request_schema float_val d = None"
  shows "keys_of d \<subseteq> names ALLOWED_REQUEST_FIELDS"
proof -
  have "field_names_error d = None" using assms by (auto simp: validate_request_schema_def or_else_def split: option.splits)
  then have "unknown_keys d = []" by (simp add: field_names_error_def split: if_splits)
  then have "set (sort (remdups (filter (\<lambda>k. k \<notin> names ALLOWED_REQUEST_FIELDS) (map fst d)))) = {}"
    by (simp add: unknown_keys_def)
  then have "filter (\<lambda>k. k \<notin> names ALLOWED_REQUEST_FIELDS) (map fst d) = []" by (simp only: set_sort set_remdups set_empty)
  then show ?thesis by (auto simp: keys_of_def filter_empty_conv)
qed

lemma fold_min_le: "fold min xs (m :: int) \<le> m \<and> (\<forall>x \<in> set xs. fold min xs m \<le> x)"
proof (induction xs arbitrary: m)
  case (Cons x xs)
  show ?case using Cons [of "min x m"] by (auto simp: min_def split: if_splits)
qed simp

lemma output_token_limit_le: "output_token_limit d maximum = Inr n \<Longrightarrow> n \<le> maximum"
  using fold_min_le unfolding output_token_limit_def Let_def by (auto simp del: list.map concat.simps split: option.splits)

lemma names_iff: "ptext name \<in> names ns \<longleftrightarrow> name \<in> set ns"
  by (auto simp: names_def)

text \<open>No forwarded field is pinned or dropped.\<close>

lemma forwarded_free:
  "name \<in> set FORWARDED_REQUEST_FIELDS \<Longrightarrow>
   name \<notin> set REMOVED_REQUEST_FIELDS \<and> name \<notin> set DROPPED_REQUEST_FIELDS \<and>
   name \<noteq> ''reasoning'' \<and> name \<noteq> ''n'' \<and> name \<noteq> ''max_tokens'' \<and> name \<noteq> ''model''"
proof -
  have "list_all (\<lambda>name. name \<notin> set REMOVED_REQUEST_FIELDS \<and> name \<notin> set DROPPED_REQUEST_FIELDS \<and>
     name \<noteq> ''reasoning'' \<and> name \<noteq> ''n'' \<and> name \<noteq> ''max_tokens'' \<and> name \<noteq> ''model'') FORWARDED_REQUEST_FIELDS"
    by code_simp
  then show "name \<in> set FORWARDED_REQUEST_FIELDS \<Longrightarrow> ?thesis" unfolding list_all_iff by blast
qed


subsection \<open>The bounded retry\<close>

definition repeatable :: "provider_outcome \<Rightarrow> bool" where
  "repeatable x \<longleftrightarrow>
     (case x of Connect_Error \<Rightarrow> True | Connect_Timeout \<Rightarrow> True | Response status \<Rightarrow> status \<in> set PROVIDER_RETRY_STATUSES
      | _ \<Rightarrow> False)"

text \<open>
  C37. The provider is called at most three times and always yields a terminal result; every call but the last one
  failed before the provider could have executed it or with a transient status, so an ambiguous
  failure is never repeated; and the delays in between double from a quarter second.
\<close>

theorem provider_retry_bounded:
  "\<exists>result. post_provider_with_retry outcome = (result, map (\<lambda>i. (1 / 4) * 2 ^ (i - 1)) [1..<pr_attempts result]) \<and>
     result \<noteq> Provider_Assertion_Error \<and> 1 \<le> pr_attempts result \<and> pr_attempts result \<le> PROVIDER_MAX_ATTEMPTS \<and>
     (\<forall>i \<in> {1..<pr_attempts result}. repeatable (outcome i)) \<and>
     (case result of
        Provider_Result status attempts \<Rightarrow> outcome attempts = Response status
      | Provider_Call_Error attempts timed_out \<Rightarrow>
          outcome attempts \<in> (if timed_out then {Connect_Timeout, Read_Timeout} else {Connect_Error, Transport_Error})
      | Provider_Assertion_Error \<Rightarrow> False)"
proof -
  have u: "[1..<PROVIDER_MAX_ATTEMPTS + 1] = [1, 2, 3]" by (simp add: PROVIDER_MAX_ATTEMPTS_def upt_rec)
  have r: "{Suc 0..<2} = {1}" "{Suc 0..<3} = {1, 2}" "[Suc 0..<2] = [1]" "[Suc 0..<3] = [1, 2]"
    by (auto simp: upt_rec)
  show ?thesis
    unfolding post_provider_with_retry_def u
    by (cases "outcome 1"; cases "outcome 2"; cases "outcome 3")
      (simp_all add: PROVIDER_MAX_ATTEMPTS_def repeatable_def r)
qed

theorem provider_retry_bounded_witness:
  "\<exists>result. post_provider_with_retry (\<lambda>_. Response 503) = (result, [1 / 4, 1 / 2]) \<and> result = Provider_Result 503 3 \<and>
     (\<forall>i \<in> {1..<pr_attempts result}. repeatable (Response 503))"
proof -
  have "post_provider_with_retry (\<lambda>_. Response 503) = (Provider_Result 503 3, [1 / 4, 1 / 2])" by code_simp
  then show ?thesis using provider_retry_bounded [of "\<lambda>_. Response 503"] by auto
qed


definition demo_payload :: payload where
  "demo_payload =
     [(ptext ''model'', JStr (ptext ''other'')), (ptext ''n'', JInt 5),
      (ptext ''messages'', JArr [JObj [(ptext ''role'', JStr (ptext ''user''))]])]"

definition demo_world :: proxy_world where
  "demo_world = \<lparr>pw_loads = \<lambda>_. Some (JObj demo_payload), pw_float_val = \<lambda>_. None, pw_verify = \<lambda>_ _ _. True,
     pw_sha = \<lambda>x. x, pw_select_route = \<lambda>_. Some \<lparr>rt_provider = ''openrouter'', rt_profile_revision = ''r''\<rparr>,
     pw_config = demo_config\<rparr>"

definition demo_call :: proxy_call where
  "demo_call = \<lparr>pc_grant = 1, pc_generation = 1, pc_nonce = 5, pc_requested_at = td_hours 2, pc_proof = '''', pc_bearer = ''b'',
     pc_body = ''{}'', pc_now = td_hours 2\<rparr>"

definition demo_result :: call_result where
  "demo_result = \<lparr>cr_usage = Some (30, 20, 7), cr_provider = Some ''deepinfra'', cr_timed_out = False, cr_latency_ms = Some 900,
     cr_upstream_attempts = 1, cr_openrouter_attempts = 1, cr_fallback_phase = 0, cr_terminal_error_code = None,
     cr_finished_at = td_hours 2 + td_seconds 1\<rparr>"

definition demo_ops :: "proxy_op list" where
  "demo_ops = [Mint 1 demo_lease, Exchange ''b'' 1 ''v'' ''k'' (td_hours 1), Chat_Call demo_call, Settle demo_call demo_result]"

lemma demo_valid: "validate_request_schema (\<lambda>_. None) demo_payload = None"
  by (simp add: validate_request_schema_def field_names_error_def refused_keys_def unknown_keys_def demo_payload_def names_iff
      ALLOWED_REQUEST_FIELDS_def PINNED_REQUEST_FIELDS_def FORWARDED_REQUEST_FIELDS_def REFUSED_REQUEST_FIELDS_def
      sampling_error_def overflows_def number_field_bad_def out_of_range_def int_field_bad_def bool_field_bad_def stop_bad_def
      invalid_if_def jget_def tool_choice_bad_def message_fields_def content_bad_def has_key_def keys_of_def or_else_def)

lemma demo_limit: "output_token_limit demo_payload 50 = Inr 50"
  by (simp add: output_token_limit_def demo_payload_def jget_def invalid_if_def int_field_bad_def)

lemma demo_admission:
  "proxy_chat_completions_admission (\<lambda>_. Some (JObj demo_payload)) (\<lambda>_. None) verify sha demo_config demo_call s =
     admit_chat verify sha demo_config demo_call (map char_of (ptext ''other'')) 50 s"
proof -
  have m: "jget ''model'' demo_payload = Some (JStr (ptext ''other''))" by (simp add: demo_payload_def jget_def)
  show ?thesis
    by (simp add: proxy_chat_completions_admission_def demo_valid demo_limit m)
      (simp add: demo_config_def demo_call_def PROXY_MAX_AGE_def td_defs demo_limit)
qed


lemma demo_run:
  "map (\<lambda>g. (g_status g, lane_count Chat g, lane_spent Chat g, lane_active Chat g))
     (i_grants (ps_db (fold (proxy_step demo_world) demo_ops (empty_proxy [demo_lease])))) = [(Active, 1, 50, 0)]"
proof -
  let ?enter = "\<lambda>ps. enter_call demo_call (admit_chat (\<lambda>_ _ _. True) (\<lambda>x. x) demo_config demo_call (map char_of (ptext ''other'')) 50 (ps_db ps)) ps"
  have "proxy_step demo_world (Chat_Call demo_call) ps = ?enter ps" for ps
    by (simp add: demo_world_def demo_admission)
  then have "fold (proxy_step demo_world) demo_ops ps =
      proxy_step demo_world (Settle demo_call demo_result)
        (?enter (fold (proxy_step demo_world) [Mint 1 demo_lease, Exchange ''b'' 1 ''v'' ''k'' (td_hours 1)] ps))" for ps
    by (simp only: demo_ops_def fold_simps)
  then show ?thesis by (simp only:) code_simp
qed

theorem inference_books_balance_witness:
  "\<exists>g \<in> set (i_grants (ps_db (fold (proxy_step demo_world) demo_ops (empty_proxy [demo_lease])))).
     lane_spent Chat g = 50 \<and> 50 \<le> max 0 (lane_token_budget Chat g) + int (lane_bound demo_world 0 Chat * body_slack demo_world)"
proof -
  let ?s = "ps_db (fold (proxy_step demo_world) demo_ops (empty_proxy [demo_lease]))"
  obtain g where g: "g \<in> set (i_grants ?s)" "lane_spent Chat g = 50"
    using demo_run by (cases "i_grants ?s") auto
  have "list_all (op_bounded (lane_bound demo_world 0)) demo_ops" by (simp add: demo_ops_def)
  from inference_books_balance [OF this refl g(1), of Chat] show ?thesis using g by (intro bexI [of _ g]) auto
qed

theorem dead_grants_stay_dead_witness:
  "\<exists>g'. get_row g_grant_id 1 (i_grants (ps_db (fold (proxy_step demo_world) demo_ops
      \<lparr>ps_db = demo_idb\<lparr>i_grants := [demo_grant\<lparr>g_status := Revoked\<rparr>]\<rparr>, ps_calls = []\<rparr>))) = Some g' \<and>
     (g_status g' = Revoked \<or> g_status g' = Exhausted)"
proof (rule dead_grants_stay_dead)
  show "get_row g_grant_id 1 (i_grants (ps_db \<lparr>ps_db = demo_idb\<lparr>i_grants := [demo_grant\<lparr>g_status := Revoked\<rparr>]\<rparr>, ps_calls = []\<rparr>)) =
      Some (demo_grant\<lparr>g_status := Revoked\<rparr>)" by code_simp
  show "g_status (demo_grant\<lparr>g_status := Revoked\<rparr>) = Revoked \<or> g_status (demo_grant\<lparr>g_status := Revoked\<rparr>) = Exhausted" by simp
qed

text \<open>A grant with one token short of the reservation: the query marks it exhausted, the endpoint forgets.\<close>

definition spent_idb :: inference_db where
  "spent_idb = demo_idb\<lparr>i_grants := [demo_grant\<lparr>g_prompt_tokens := 950\<rparr>]\<rparr>"


end
