(* ===== verification/Owners.thy ===== *)
theory Owners
  imports Queue_Order Union_Find
begin

text \<open>
  Who counts as one recipient of emissions (\<open>attested_emission_owner_roots\<close> and the ranked-quorum counts of
  \<open>ditto/db/queries/scores.py\<close>). Payment-time coldkeys and active attestations are the edges of an ownership graph over
  the strings \<open>hotkey:\<dots>\<close> and \<open>coldkey:\<dots>\<close>. Python folds them with a union-find; the ledger query walks the same graph with a
  recursive common table expression. Both are modelled, and shown to name every owner by the least node of its component.
\<close>

subsection \<open>The ownership graph\<close>

definition hotkey_node :: "hotkey \<Rightarrow> string" where
  "hotkey_node h = ''hotkey:'' @ h"

definition coldkey_node :: "string \<Rightarrow> string" where
  "coldkey_node c = ''coldkey:'' @ c"

definition attestation_edges :: "env \<Rightarrow> db \<Rightarrow> (string \<times> string) list" where
  "attestation_edges env d =
     map (\<lambda>a. (hotkey_node (oa_hotkey_lo a), hotkey_node (oa_hotkey_hi a))) (active_attestations env d)"

definition linked_hotkeys :: "env \<Rightarrow> db \<Rightarrow> hotkey set" where
  "linked_hotkeys env d = set (map oa_hotkey_lo (active_attestations env d)) \<union> set (map oa_hotkey_hi (active_attestations env d))"

definition payment_edges :: "env \<Rightarrow> db \<Rightarrow> (string \<times> string) list" where
  "payment_edges env d =
     map (\<lambda>p. (hotkey_node (pm_miner_hotkey p), coldkey_node (pm_miner_coldkey p)))
       (filter (\<lambda>p. pm_miner_hotkey p \<in> linked_hotkeys env d) (d_payments d))"

definition identity_edges :: "(hotkey \<times> string) list \<Rightarrow> (string \<times> string) list" where
  "identity_edges identities = map (\<lambda>(h, raw_owner). (hotkey_node h, raw_owner)) identities"

definition ownership_graph :: "env \<Rightarrow> db \<Rightarrow> (hotkey \<times> string) list \<Rightarrow> (string \<times> string) list" where
  "ownership_graph env d identities = identity_edges identities @ attestation_edges env d @ payment_edges env d"

subsection \<open>The union-find of the Python reader\<close>

fun union_all :: "('a :: linorder \<times> 'a) list \<Rightarrow> ('a \<Rightarrow> 'a) \<Rightarrow> ('a \<Rightarrow> 'a) option" where
  "union_all [] parent = Some parent"
| "union_all ((l, r) # edges) parent =
     (case uf_union parent l r of None \<Rightarrow> None | Some parent' \<Rightarrow> union_all edges parent')"

fun find_all :: "'a list \<Rightarrow> ('a \<Rightarrow> 'a) \<Rightarrow> 'a list option" where
  "find_all [] parent = Some []"
| "find_all (x # xs) parent =
     (case uf_find parent x of None \<Rightarrow> None
      | Some (parent', r) \<Rightarrow> map_option (\<lambda>rs. r # rs) (find_all xs parent'))"

definition attested_emission_owner_roots :: "env \<Rightarrow> db \<Rightarrow> (hotkey \<times> string) list \<Rightarrow> string list option" where
  "attested_emission_owner_roots env d identities =
     (if identities = [] then Some []
      else case union_all (ownership_graph env d identities) (\<lambda>node. node) of None \<Rightarrow> None
      | Some parent \<Rightarrow> find_all (map (\<lambda>(h, raw_owner). hotkey_node h) identities) parent)"

subsection \<open>The recursive walk of the ledger query\<close>

text \<open>
  \<open>owner_edges\<close> holds every edge in both directions. The recursive \<open>UNION\<close> adds the right ends of edges that leave a node
  reached so far until nothing new appears; \<open>owner_root\<close> is the \<open>MIN\<close> of the nodes reached.
\<close>

definition owner_edges :: "env \<Rightarrow> db \<Rightarrow> (hotkey \<times> string) list \<Rightarrow> (string \<times> string) list" where
  "owner_edges env d candidates =
     (let es = ownership_graph env d candidates in es @ map (\<lambda>(l, r). (r, l)) es)"

definition walk_step :: "('a \<times> 'a) list \<Rightarrow> 'a list \<Rightarrow> 'a list" where
  "walk_step edges nodes = remdups (map snd (filter (\<lambda>(l, r). l \<in> set nodes \<and> r \<notin> set nodes) edges))"

function owner_walk :: "('a \<times> 'a) list \<Rightarrow> 'a list \<Rightarrow> 'a list" where
  "owner_walk edges nodes =
     (if walk_step edges nodes = [] then nodes else owner_walk edges (nodes @ walk_step edges nodes))"
  by pat_completeness auto
termination
proof (relation "measure (\<lambda>(edges, nodes). card (set (map snd edges) - set nodes))")
  fix edges :: "('a \<times> 'a) list" and nodes
  assume ne: "walk_step edges nodes \<noteq> []"
  have new: "set (walk_step edges nodes) \<subseteq> set (map snd edges) - set nodes" by (force simp: walk_step_def)
  have "set (map snd edges) - set (nodes @ walk_step edges nodes) \<subset> set (map snd edges) - set nodes"
  proof (rule psubsetI)
    show "set (map snd edges) - set (nodes @ walk_step edges nodes) \<subseteq> set (map snd edges) - set nodes" by auto
    from ne obtain x where "x \<in> set (walk_step edges nodes)" by (meson last_in_set)
    with new show "set (map snd edges) - set (nodes @ walk_step edges nodes) \<noteq> set (map snd edges) - set nodes" by auto
  qed
  then have "card (set (map snd edges) - set (nodes @ walk_step edges nodes)) < card (set (map snd edges) - set nodes)"
    by (intro psubset_card_mono) simp_all
  then show "((edges, nodes @ walk_step edges nodes), edges, nodes) \<in> measure (\<lambda>(edges, nodes). card (set (map snd edges) - set nodes))"
    by simp
qed simp

declare owner_walk.simps [simp del]

definition owner_root :: "env \<Rightarrow> db \<Rightarrow> (hotkey \<times> string) list \<Rightarrow> hotkey \<Rightarrow> string" where
  "owner_root env d candidates h = Min (set (owner_walk (owner_edges env d candidates) [hotkey_node h]))"

subsection \<open>Ranked quorums\<close>

definition MIN_ELIGIBLE_CASES :: int where "MIN_ELIGIBLE_CASES = 100"

definition is_ranked :: "score \<Rightarrow> bool" where
  "is_ranked s \<longleftrightarrow> s_n s \<ge> MIN_ELIGIBLE_CASES \<and> s_composite s > 0"

text \<open>
  The median row of a pool as the SQL picks it: \<open>row_number()\<close> over ascending composite and hotkey, and the rows whose
  doubled number is the count or the count plus one.
\<close>

definition pool_order :: "score list \<Rightarrow> score list" where
  "pool_order rows = sort_key (\<lambda>s. (s_composite s, s_validator_hotkey s)) rows"

definition median_rows :: "score list \<Rightarrow> score list" where
  "median_rows rows =
     map snd (filter (\<lambda>(srn, s). srn * 2 = length rows \<or> srn * 2 = length rows + 1) (enumerate 1 (pool_order rows)))"

definition ranked_quorum_agent_ids :: "int \<Rightarrow> uuid set option \<Rightarrow> db \<Rightarrow> uuid set" where
  "ranked_quorum_agent_ids bench_version agent_ids d =
     set (map ag_agent_id (filter (\<lambda>ag. ag_status ag = AGENT_SCORED \<and>
        (case agent_ids of None \<Rightarrow> True | Some ids \<Rightarrow> ag_agent_id ag \<in> ids) \<and>
        (let rows = scores_of (ag_agent_id ag) bench_version d
         in length rows \<ge> SCORING_QUORUM \<and> list_ex is_ranked (median_rows rows))) (d_agents d)))"

definition identities_of :: "agent list \<Rightarrow> db \<Rightarrow> (hotkey \<times> string) list" where
  "identities_of ags d = map (\<lambda>ag. (ag_miner_hotkey ag, emission_owner_key ag d)) ags"

text \<open>That the union-find returns a list is \<open>owner_roots_agree\<close>.\<close>

definition count_ranked_quorum_agents :: "env \<Rightarrow> int \<Rightarrow> uuid set option \<Rightarrow> db \<Rightarrow> nat" where
  "count_ranked_quorum_agents env bench_version agent_ids d =
     (let ranked_ids = ranked_quorum_agent_ids bench_version agent_ids d in
      if ranked_ids = {} then 0
      else card (set (the (attested_emission_owner_roots env d
        (identities_of (filter (\<lambda>ag. ag_agent_id ag \<in> ranked_ids) (d_agents d)) d)))))"

subsection \<open>Both readers name an owner by the least node of its component\<close>

lemma union_all_correct:
  "uf_ok p \<Longrightarrow> uf_rel p = linked E \<Longrightarrow> least_roots p \<Longrightarrow>
   \<exists>p'. union_all edges p = Some p' \<and> uf_ok p' \<and> uf_rel p' = linked (set edges \<union> E) \<and> least_roots p'"
proof (induction edges arbitrary: p E)
  case (Cons e edges)
  obtain l r where e: "e = (l, r)" by (cases e)
  obtain p1 where p1: "uf_union p l r = Some p1" "uf_ok p1" "uf_rel p1 = linked (insert (l, r) E)" "least_roots p1"
    using uf_union_correct [OF Cons.prems] by blast
  with Cons.IH [OF p1(2-4)] show ?case by (auto simp: e)
qed simp

lemma find_all_correct:
  "uf_ok p \<Longrightarrow> (\<And>x. root_of p x (rt x)) \<Longrightarrow> find_all xs p = Some (map rt xs)"
proof (induction xs arbitrary: p)
  case (Cons x xs)
  obtain p' r where f: "uf_find p x = Some (p', r)" "root_of p x r" "uf_ok p'" "root_of p' = root_of p"
    using uf_find_correct [OF Cons.prems(1)] by blast
  have "r = rt x" using root_of_unique [OF Cons.prems(2) f(2)] .
  moreover have "find_all xs p' = Some (map rt xs)" using f(3,4) Cons.prems(2) by (intro Cons.IH) simp_all
  ultimately show ?case using f(1) by simp
qed simp

lemma least_roots_init: "least_roots (\<lambda>i. i :: 'a :: linorder)"
  by (auto simp: least_roots_def elim: root_ofE)

lemma walk_step_set: "set (walk_step edges nodes) = {r. \<exists>l \<in> set nodes. (l, r) \<in> set edges} - set nodes"
  by (force simp: walk_step_def)

lemma owner_walk_set: "set (owner_walk edges nodes) = (set edges)\<^sup>* `` set nodes"
proof (induction edges nodes rule: owner_walk.induct)
  case (1 edges nodes)
  let ?new = "walk_step edges nodes"
  show ?case
  proof (cases "?new = []")
    case True
    then have "\<And>l r. l \<in> set nodes \<Longrightarrow> (l, r) \<in> set edges \<Longrightarrow> r \<in> set nodes"
      using walk_step_set [of edges nodes] by auto
    then have "set edges `` set nodes \<subseteq> set nodes" by auto
    then have "(set edges)\<^sup>* `` set nodes = set nodes" by (rule Image_closed_trancl)
    with True show ?thesis by (simp add: owner_walk.simps [of edges nodes])
  next
    case False
    have "set ?new \<subseteq> (set edges)\<^sup>* `` set nodes" unfolding walk_step_set by blast
    then have "(set edges)\<^sup>* `` (set nodes \<union> set ?new) = (set edges)\<^sup>* `` set nodes" by (auto intro: rtrancl_trans)
    with 1 [OF False] False show ?thesis by (simp add: owner_walk.simps [of edges nodes])
  qed
qed

lemma owner_edges_linked: "(set (owner_edges env d ids))\<^sup>* = linked (set (ownership_graph env d ids))"
proof -
  have "set (owner_edges env d ids) = set (ownership_graph env d ids) \<union> converse (set (ownership_graph env d ids))"
    by (force simp: owner_edges_def Let_def)
  then show ?thesis by (simp add: linked_def)
qed

lemma owner_root_least:
  "(hotkey_node h, owner_root env d ids h) \<in> linked (set (ownership_graph env d ids))"
  "(hotkey_node h, x) \<in> linked (set (ownership_graph env d ids)) \<Longrightarrow> owner_root env d ids h \<le> x"
proof -
  let ?W = "set (owner_walk (owner_edges env d ids) [hotkey_node h])"
  have W: "?W = {x. (hotkey_node h, x) \<in> linked (set (ownership_graph env d ids))}"
    by (auto simp: owner_walk_set owner_edges_linked)
  have "hotkey_node h \<in> ?W" by (simp add: W)
  then have "Min ?W \<in> ?W" by (intro Min_in) auto
  then show "(hotkey_node h, owner_root env d ids h) \<in> linked (set (ownership_graph env d ids))" by (simp add: W owner_root_def)
  assume "(hotkey_node h, x) \<in> linked (set (ownership_graph env d ids))"
  then have "x \<in> ?W" by (simp add: W)
  then show "owner_root env d ids h \<le> x" unfolding owner_root_def by (intro Min_le) simp_all
qed

lemma linked_same_component: "(x, y) \<in> linked E \<Longrightarrow> (x, z) \<in> linked E \<longleftrightarrow> (y, z) \<in> linked E"
  using linked_trans linked_sym by metis

lemma owner_root_eq_iff:
  "owner_root env d ids h = owner_root env d ids k \<longleftrightarrow>
     (hotkey_node h, hotkey_node k) \<in> linked (set (ownership_graph env d ids))" (is "_ \<longleftrightarrow> (?x, ?y) \<in> ?L")
proof
  assume "owner_root env d ids h = owner_root env d ids k"
  then show "(?x, ?y) \<in> ?L"
    using owner_root_least(1) [where h = h and env = env and d = d and ids = ids]
      owner_root_least(1) [where h = k and env = env and d = d and ids = ids] linked_trans linked_sym by metis
next
  assume xy: "(?x, ?y) \<in> ?L"
  then have "(?x, z) \<in> ?L \<longleftrightarrow> (?y, z) \<in> ?L" for z by (rule linked_same_component)
  then show "owner_root env d ids h = owner_root env d ids k"
    using owner_root_least [where env = env and d = d and ids = ids and h = h] owner_root_least [where env = env and d = d and ids = ids and h = k]
    by (metis antisym)
qed

text \<open>
  C28. The two resolvers of emission owners agree. For every set of loaded rows the union-find of
  \<open>attested_emission_owner_roots\<close> returns (its loops end), and its root of every row is the one the recursive query of the
  ledger computes; the root is a node of the row's component of the ownership graph, no node of the component is smaller, and
  two rows get the same root exactly when payments and attestations connect their hotkeys.
\<close>

theorem owner_roots_agree:
  "attested_emission_owner_roots env d identities = Some (map (\<lambda>(h, raw_owner). owner_root env d identities h) identities)
   \<and> (let component = (\<lambda>h. {x. (hotkey_node h, x) \<in> linked (set (ownership_graph env d identities))}) in
      owner_root env d identities h \<in> component h
      \<and> component h \<subseteq> {owner_root env d identities h ..}
      \<and> (owner_root env d identities h = owner_root env d identities k \<longleftrightarrow> hotkey_node k \<in> component h))"
proof -
  let ?E = "set (ownership_graph env d identities)"
  obtain p where p: "union_all (ownership_graph env d identities) (\<lambda>node. node) = Some p" "uf_ok p" "uf_rel p = linked ?E" "least_roots p"
    using union_all_correct [OF uf_init least_roots_init] by fastforce
  obtain rt where rt: "\<And>x. root_of p x (rt x)" using root_of_total [OF p(2)] by metis
  have root: "rt (hotkey_node h) = owner_root env d identities h" for h
  proof (rule antisym)
    have "root_of p (rt (hotkey_node h)) (rt (hotkey_node h))" using root_of_fixed [OF rt] by (rule root_here)
    then have "(hotkey_node h, rt (hotkey_node h)) \<in> linked ?E"
      unfolding p(3) [symmetric] using rt [of "hotkey_node h"] by (auto simp: uf_rel_def)
    then show "owner_root env d identities h \<le> rt (hotkey_node h)" by (rule owner_root_least(2))
    have "(hotkey_node h, owner_root env d identities h) \<in> uf_rel p" unfolding p(3) by (rule owner_root_least(1))
    then obtain r where "root_of p (hotkey_node h) r" "root_of p (owner_root env d identities h) r" by (auto simp: uf_rel_def)
    with root_of_unique [OF rt] p(4) show "rt (hotkey_node h) \<le> owner_root env d identities h"
      by (metis least_roots_def)
  qed
  have "attested_emission_owner_roots env d identities = Some (map (\<lambda>(h, raw_owner). owner_root env d identities h) identities)"
    using p(1) find_all_correct [OF p(2) rt] by (auto simp: attested_emission_owner_roots_def root)
  then show ?thesis using owner_root_least owner_root_eq_iff by (auto simp: Let_def)
qed


text \<open>
  The root is canonical within one read only: the row of an attested hotkey \<open>h1\<close> has one root when it is loaded alone and
  another when two rows of a hotkey are loaded with it that has a payment by the same coldkey and one by a smaller coldkey.
\<close>

definition linked_db :: db where
  "linked_db = demo_db\<lparr>d_payments := [demo_payment 1 ''h1'' ''b'', demo_payment 2 ''h2'' ''b'', demo_payment 4 ''h2'' ''a'']\<rparr>"

theorem root_depends_on_loaded_rows:
  "attested_emission_owner_roots demo_env linked_db [(''h1'', ''coldkey:b'')] = Some [''coldkey:b'']"
  "attested_emission_owner_roots demo_env linked_db [(''h1'', ''coldkey:b''), (''h2'', ''coldkey:b''), (''h2'', ''coldkey:a'')]
     = Some [''coldkey:a'', ''coldkey:a'', ''coldkey:a'']"
  by code_simp+

subsection \<open>The median row\<close>

lemma filter_enumerate_single:
  assumes "n \<le> k" and "k < n + length xs" and "\<And>i. P i \<longleftrightarrow> i = k"
  shows "filter (\<lambda>(i, x). P i) (enumerate n xs) = [(k, xs ! (k - n))]"
  using assms(1,2)
proof (induction xs arbitrary: n)
  case (Cons x xs)
  show ?case
  proof (cases "n = k")
    case True
    have "filter (\<lambda>(i, x). P i) (enumerate (Suc k) xs) = []"
      by (auto simp: filter_empty_conv assms(3) in_set_enumerate_eq)
    with True show ?thesis by (simp add: assms(3))
  next
    case False
    then have "filter (\<lambda>(i, x). P i) (enumerate (Suc n) xs) = [(k, xs ! (k - Suc n))]" using Cons.prems by (intro Cons.IH) auto
    with False Cons.prems show ?thesis by (simp add: assms(3) nth_Cons')
  qed
qed simp

lemma length_pool_order [simp]: "length (pool_order rows) = length rows"
  by (simp add: pool_order_def)

lemma median_rows_lower_middle:
  assumes "rows \<noteq> []"
  shows "median_rows rows = [pool_order rows ! ((length rows - 1) div 2)]"
proof -
  obtain n where n: "length rows = Suc n" using assms by (cases rows) auto
  let ?k = "Suc ((length rows - 1) div 2)"
  have "(m * 2 = Suc n \<or> m * 2 = Suc n + 1) \<longleftrightarrow> m = Suc (n div 2)" for m :: nat by presburger
  then have "(srn * 2 = length rows \<or> srn * 2 = length rows + 1) \<longleftrightarrow> srn = ?k" for srn :: nat by (simp add: n)
  then have "filter (\<lambda>(srn, s). srn * 2 = length rows \<or> srn * 2 = length rows + 1) (enumerate 1 (pool_order rows)) =
      [(?k, pool_order rows ! (?k - 1))]"
    by (intro filter_enumerate_single) (simp_all add: n less_Suc_eq_le)
  then show ?thesis by (simp add: median_rows_def)
qed

lemma median_rows_Nil [simp]: "median_rows [] = []"
  by (simp add: median_rows_def pool_order_def)

lemma set_pool_order [simp]: "set (pool_order rows) = set rows"
  by (simp add: pool_order_def)

lemma median_row_mem: "r \<in> set (median_rows rows) \<Longrightarrow> r \<in> set rows"
proof (cases "rows = []")
  case False
  assume "r \<in> set (median_rows rows)"
  then have "r = pool_order rows ! ((length rows - 1) div 2)" using median_rows_lower_middle [OF False] by simp
  moreover have "(length rows - 1) div 2 < length (pool_order rows)" using False by (cases rows) (auto simp: less_Suc_eq_le)
  ultimately show ?thesis using nth_mem set_pool_order by metis
qed simp

end
