(* ===== verification/Rollout.thy ===== *)
theory Rollout
  imports Owners
begin

text \<open>
  The benchmark rollout (\<open>ditto/db/queries/benchmark_rollout.py\<close>): which benchmark version owns the ledger, and the
  durable transitions from one version to the next. A rollout is opened with a frozen cohort of inherited agents, collects their
  scores on the desired version, and ends activated or superseded. \<open>active_bench_version\<close> is the authority every reader asks;
  \<open>persisted_active_bench_version\<close> the durable decision behind it.

  A validator's report carries its capability payload; the column is modelled by the record it validates to, \<open>None\<close> for a
  payload the schema rejects. Audit payloads are display data and left out; identifiers drawn by \<open>uuid4\<close> are arguments.
\<close>

subsection \<open>Constants\<close>

definition DEFAULT_BENCH_VERSION :: int where "DEFAULT_BENCH_VERSION = 2"
definition LEGACY_BENCH_VERSION :: int where "LEGACY_BENCH_VERSION = 2"
definition PRIORITY_COHORT_SIZE :: int where "PRIORITY_COHORT_SIZE = 5"
definition DEFAULT_RESCORE_COHORT_SIZE :: int where "DEFAULT_RESCORE_COHORT_SIZE = 10"
definition MAX_PERSISTED_RESCORE_COHORT_SIZE :: int where "MAX_PERSISTED_RESCORE_COHORT_SIZE = 25"
definition MIN_DESIRED_AUTHORITY_AGENTS :: nat where "MIN_DESIRED_AUTHORITY_AGENTS = 5"

record snapshot_member =
  sn_agent_id :: uuid
  sn_miner_hotkey :: hotkey
  sn_composite :: rat

record dataset_pin =
  dp_seed :: int
  dp_sha256 :: string
  dp_run_size :: string
  dp_seed_block :: "int option"
  dp_seed_block_hash :: "string option"

datatype rollout_error = RolloutConflictError string | RolloutValueError string

subsection \<open>Capable scorers\<close>

record supported_route =
  vr_model :: string
  vr_provider :: string
  vr_profile_revision :: string

record v7_calibration =
  v7_manifest_sha256 :: string
  v7_supported_routes :: "supported_route list"

record scorer_capability =
  sc_status :: string
  sc_supported_bench_versions :: "int list"
  sc_observed_at :: "int option"
  sc_software_version :: "string option"
  sc_source_revision :: "string option"
  sc_v7_calibration :: "v7_calibration option"

record validator_capabilities =
  vcap_screened_images :: bool
  vcap_ticket_inference :: bool
  vcap_signed_score_quorum :: bool
  vcap_executor_isolation :: string
  vcap_scorer_benchmarks :: "scorer_capability option"

record component_identity =
  ci_version :: "string option"
  ci_source_revision :: "string option"

record validator_report =
  vp_validator_hotkey :: hotkey
  vp_seen_at :: time
  vp_protocol_version :: int
  vp_capabilities :: "validator_capabilities option"
  vp_dittobench_api :: "component_identity option"

definition protocol_serves_version :: "int \<Rightarrow> int \<Rightarrow> bool" where
  "protocol_serves_version protocol_version version =
     (if protocol_version < 8 then False else \<not> (version \<ge> 7 \<and> protocol_version < 12))"

definition verified_scorer_for_version :: "validator_report \<Rightarrow> int \<Rightarrow> scorer_capability option" where
  "verified_scorer_for_version hb version =
     (if \<not> protocol_serves_version (vp_protocol_version hb) version then None
      else case (vp_capabilities hb, vp_dittobench_api hb) of
        (Some caps, Some api) \<Rightarrow>
          (case vcap_scorer_benchmarks caps of
             None \<Rightarrow> None
           | Some scorer \<Rightarrow>
             (if sc_status scorer \<noteq> ''fresh_verified'' \<or> version \<notin> set (sc_supported_bench_versions scorer) then None
              else if version \<ge> 7 \<and> (\<not> vcap_ticket_inference caps \<or> \<not> vcap_signed_score_quorum caps) then None
              else if version = 7 \<and> sc_v7_calibration scorer = None then None
              else if version \<ge> 8 \<and> vcap_executor_isolation caps \<notin>
                        {''privileged_dind'', ''rootless_dind'', ''rootless_host'', ''ephemeral_vm''} then None
              else if \<not> (vcap_screened_images caps \<and> ci_source_revision api = sc_source_revision scorer \<and>
                        (ci_version api = None \<or> ci_version api = sc_software_version scorer)) then None
              else Some scorer))
      | _ \<Rightarrow> None)"

text \<open>\<open>int(now.timestamp())\<close> of an instant after the epoch.\<close>

definition unix_seconds :: "time \<Rightarrow> int" where
  "unix_seconds now = now div 1000000"

definition heartbeat_supports_version :: "validator_report \<Rightarrow> time \<Rightarrow> int \<Rightarrow> bool" where
  "heartbeat_supports_version hb now version =
     (if now - vp_seen_at hb > td_minutes 5 then False
      else case verified_scorer_for_version hb version of
        None \<Rightarrow> False
      | Some scorer \<Rightarrow> (case sc_observed_at scorer of None \<Rightarrow> False | Some t \<Rightarrow> \<bar>unix_seconds now - t\<bar> \<le> 300))"

definition capable_validator_counts :: "validator_report list \<Rightarrow> int list \<Rightarrow> time \<Rightarrow> (int \<times> nat) list" where
  "capable_validator_counts reports versions now =
     map (\<lambda>version. (version, length (filter (\<lambda>hb. heartbeat_supports_version hb now version) reports))) versions"

subsection \<open>Live inference readiness\<close>

record provider_route =
  pr_model :: string
  pr_provider :: string
  pr_profile_revision :: string
  pr_status :: string
  pr_calibration_status :: string
  pr_calibration_manifest_sha256 :: "string option"
  pr_last_observed_at :: "time option"
  pr_calibration_tool_accuracy :: "rat option"
  pr_calibration_composite :: "rat option"
  pr_calibration_sample_count :: int
  pr_ewma_error_rate :: rat
  pr_ewma_timeout_rate :: rat
  pr_cooldown_until :: "time option"

record routing_policy =
  rp_model :: string
  rp_enabled :: bool
  rp_min_tool_accuracy :: rat
  rp_min_composite :: rat
  rp_min_calibration_samples :: int
  rp_max_error_rate :: rat
  rp_max_timeout_rate :: rat

datatype routing_mode = Aggregate_Throughput | Adaptive

record inference_requirements =
  ir_enabled :: bool
  ir_provider_key_configured :: bool
  ir_model :: string
  ir_routing_mode :: routing_mode
  ir_reviewed_manifest_sha256 :: "string option"
  ir_aggregate_provider :: "string option"
  ir_aggregate_profile_revision :: "string option"
  ir_aggregate_calibration_samples :: "int option"
  ir_route_observation_max_age :: timedelta

text \<open>What an authority read sees besides the tables of \<open>db\<close>.\<close>

record live =
  l_env :: env
  l_reports :: "validator_report list"
  l_routes :: "provider_route list"
  l_policies :: "routing_policy list"
  l_requirements :: "inference_requirements option"

text \<open>A comparison with a \<open>NULL\<close> column is false.\<close>

definition ge_null :: "'a :: linorder option \<Rightarrow> 'a \<Rightarrow> bool" where
  "ge_null x bound = (case x of None \<Rightarrow> False | Some y \<Rightarrow> y \<ge> bound)"

definition proven_route :: "inference_requirements \<Rightarrow> time \<Rightarrow> provider_route \<Rightarrow> routing_policy \<Rightarrow> bool" where
  "proven_route rq now r pol \<longleftrightarrow>
     rp_model pol = pr_model r \<and> pr_model r = ir_model rq \<and> pr_status r = ''healthy'' \<and> pr_calibration_status r = ''eligible'' \<and>
     pr_calibration_manifest_sha256 r \<noteq> None \<and> pr_calibration_manifest_sha256 r = ir_reviewed_manifest_sha256 rq \<and>
     ge_null (pr_last_observed_at r) (now - ir_route_observation_max_age rq) \<and>
     ge_null (pr_calibration_tool_accuracy r) (rp_min_tool_accuracy pol) \<and>
     ge_null (pr_calibration_composite r) (rp_min_composite pol)"

definition mode_route :: "inference_requirements \<Rightarrow> provider_route \<Rightarrow> routing_policy \<Rightarrow> bool" where
  "mode_route rq r pol =
     (case ir_routing_mode rq of
        Aggregate_Throughput \<Rightarrow>
          ir_aggregate_provider rq = Some (pr_provider r) \<and> ir_aggregate_profile_revision rq = Some (pr_profile_revision r) \<and>
          ir_aggregate_calibration_samples rq = Some (pr_calibration_sample_count r)
      | Adaptive \<Rightarrow>
          rp_enabled pol \<and> pr_calibration_sample_count r \<ge> rp_min_calibration_samples pol \<and>
          pr_ewma_error_rate r \<le> rp_max_error_rate pol \<and> pr_ewma_timeout_rate r \<le> rp_max_timeout_rate pol)"

definition ready_routes :: "live \<Rightarrow> inference_requirements \<Rightarrow> time \<Rightarrow> provider_route list" where
  "ready_routes lv rq now =
     filter (\<lambda>r. list_ex (\<lambda>pol. proven_route rq now r pol \<and> mode_route rq r pol) (l_policies lv) \<and>
        (case pr_cooldown_until r of None \<Rightarrow> True | Some t \<Rightarrow> t \<le> now)) (l_routes lv)"

definition report_serves_route :: "inference_requirements \<Rightarrow> (string \<times> string) set \<Rightarrow> time \<Rightarrow> int \<Rightarrow> validator_report \<Rightarrow> bool" where
  "report_serves_route rq route_identities now bench_version hb =
     (if vp_protocol_version hb < 11 \<or> \<not> heartbeat_supports_version hb now bench_version then False
      else case vp_capabilities hb of None \<Rightarrow> False
      | Some caps \<Rightarrow>
        (case (case vcap_scorer_benchmarks caps of None \<Rightarrow> None | Some scorer \<Rightarrow> sc_v7_calibration scorer) of
           None \<Rightarrow> False
         | Some calibration \<Rightarrow>
             vcap_ticket_inference caps \<and> Some (v7_manifest_sha256 calibration) = ir_reviewed_manifest_sha256 rq \<and>
             list_ex (\<lambda>r. vr_model r = ir_model rq \<and> (vr_provider r, vr_profile_revision r) \<in> route_identities)
               (v7_supported_routes calibration)))"

definition inference_activation_ready :: "live \<Rightarrow> int \<Rightarrow> time \<Rightarrow> inference_requirements option \<Rightarrow> bool" where
  "inference_activation_ready lv bench_version now requirements =
     (if bench_version < 7 then True
      else case requirements of None \<Rightarrow> False
      | Some rq \<Rightarrow>
        (if \<not> ir_enabled rq \<or> \<not> ir_provider_key_configured rq \<or> ir_reviewed_manifest_sha256 rq = None then False
         else if ir_routing_mode rq = Aggregate_Throughput \<and>
                 (ir_aggregate_provider rq = None \<or> ir_aggregate_profile_revision rq = None \<or>
                  ir_aggregate_calibration_samples rq = None) then False
         else let routes = ready_routes lv rq now in
           if routes = [] then False
           else list_ex (report_serves_route rq (set (map (\<lambda>r. (pr_provider r, pr_profile_revision r)) routes)) now bench_version)
                  (l_reports lv)))"

subsection \<open>Rollout rows\<close>

definition open_status :: "string \<Rightarrow> bool" where
  "open_status st \<longleftrightarrow> st \<in> {''collecting'', ''blocked_ineligible''}"

definition open_rollout :: "db \<Rightarrow> benchmark_rollout option" where
  "open_rollout d = select_first (\<lambda>r. open_status (ro_status r)) (d_rollouts d)"

definition rollout_for_transition :: "int \<Rightarrow> int \<Rightarrow> db \<Rightarrow> benchmark_rollout option" where
  "rollout_for_transition from_version desired_version d =
     select_first (\<lambda>r. ro_from_version r = from_version \<and> ro_desired_version r = desired_version) (d_rollouts d)"

definition rollout_for_desired_version :: "int \<Rightarrow> db \<Rightarrow> benchmark_rollout option" where
  "rollout_for_desired_version desired_version d =
     first_by (\<lambda>r. - ro_created_at r) (filter (\<lambda>r. ro_desired_version r = desired_version) (d_rollouts d))"

definition members_of :: "uuid \<Rightarrow> db \<Rightarrow> rollout_member list" where
  "members_of rollout_id d = filter (\<lambda>m. rm_rollout_id m = rollout_id) (d_rollout_members d)"

definition agent_is_rollout_member :: "benchmark_rollout \<Rightarrow> uuid \<Rightarrow> db \<Rightarrow> bool" where
  "agent_is_rollout_member rollout agent_id d \<longleftrightarrow>
     list_ex (\<lambda>m. rm_rollout_id m = ro_rollout_id rollout \<and> rm_agent_id m = agent_id) (d_rollout_members d)"

definition set_rollout :: "benchmark_rollout \<Rightarrow> db \<Rightarrow> db" where
  "set_rollout r d = d\<lparr>d_rollouts := set_row ro_rollout_id r (d_rollouts d)\<rparr>"

definition append_rollout_audit :: "uuid \<Rightarrow> benchmark_rollout \<Rightarrow> string \<Rightarrow> time \<Rightarrow> db \<Rightarrow> db" where
  "append_rollout_audit audit_id rollout event now d =
     d\<lparr>d_rollout_audit := d_rollout_audit d @
        [\<lparr>ra_audit_id = audit_id, ra_rollout_id = ro_rollout_id rollout, ra_event = event, ra_recorded_at = now\<rparr>]\<rparr>"

subsection \<open>Authority\<close>

definition latest_activated :: "db \<Rightarrow> benchmark_rollout option" where
  "latest_activated d =
     first_by (\<lambda>r. - the (ro_activated_at r))
       (filter (\<lambda>r. ro_status r = ''activated'' \<and> ro_activated_at r \<noteq> None) (d_rollouts d))"

definition latest_selected :: "db \<Rightarrow> (benchmark_rollout \<times> rollout_audit) option" where
  "latest_selected d =
     first_by (\<lambda>(r, a). (- ra_recorded_at a, - int (ra_audit_id a)))
       (filter (\<lambda>(r, a). ra_rollout_id a = ro_rollout_id r \<and> ra_event a = ''authority_selected'')
          (List.product (d_rollouts d) (d_rollout_audit d)))"

definition persisted_active_bench_version :: "db \<Rightarrow> int" where
  "persisted_active_bench_version d =
     (case latest_selected d of
        Some (r, a) \<Rightarrow>
          (case latest_activated d of
             None \<Rightarrow> ro_desired_version r
           | Some act \<Rightarrow> if ra_recorded_at a \<ge> the (ro_activated_at act) then ro_desired_version r else ro_desired_version act)
      | None \<Rightarrow>
          (case latest_activated d of Some act \<Rightarrow> ro_desired_version act | None \<Rightarrow> MIN_SCOREABLE_BENCH_VERSION))"

definition priority_ids :: "benchmark_rollout \<Rightarrow> db \<Rightarrow> uuid set" where
  "priority_ids r d =
     set (map rm_agent_id (filter (\<lambda>m. rm_position m \<le> ro_priority_cohort_target r) (members_of (ro_rollout_id r) d)))"

definition member_ids :: "benchmark_rollout \<Rightarrow> db \<Rightarrow> uuid set" where
  "member_ids r d = set (map rm_agent_id (members_of (ro_rollout_id r) d))"

definition transition_ready :: "live \<Rightarrow> benchmark_rollout \<Rightarrow> db \<Rightarrow> bool" where
  "transition_ready lv r d \<longleftrightarrow>
     int (card (priority_ids r d)) = ro_priority_cohort_target r \<and>
     ranked_quorum_agent_ids (ro_desired_version r) (Some (priority_ids r d)) d = priority_ids r d \<and>
     count_ranked_quorum_agents (l_env lv) (ro_desired_version r) (Some (member_ids r d)) d \<ge> MIN_DESIRED_AUTHORITY_AGENTS"

definition active_bench_version :: "live \<Rightarrow> time \<Rightarrow> db \<Rightarrow> int" where
  "active_bench_version lv now d =
     (case open_rollout d of
        None \<Rightarrow> persisted_active_bench_version d
      | Some r \<Rightarrow>
          if transition_ready lv r d then
            (if ro_desired_version r \<ge> 7 \<and> \<not> inference_activation_ready lv (ro_desired_version r) now (l_requirements lv)
             then persisted_active_bench_version d else ro_desired_version r)
          else persisted_active_bench_version d)"

definition arrival_bench_version :: "live \<Rightarrow> time \<Rightarrow> agent \<Rightarrow> db \<Rightarrow> int" where
  "arrival_bench_version lv now ag d =
     (let bench_version = active_bench_version lv now d in
      case open_rollout d of None \<Rightarrow> bench_version
      | Some r \<Rightarrow>
          if ag_created_at ag \<ge> ro_created_at r then ro_desired_version r
          else if list_ex (\<lambda>c. cv_rollout_id c = ro_rollout_id r \<and> cv_agent_id c = ag_agent_id ag) (d_rollout_carryover d)
          then ro_desired_version r
          else bench_version)"

subsection \<open>Transitions\<close>

definition supersede_open_rollout :: "live \<Rightarrow> uuid \<Rightarrow> time \<Rightarrow> db \<Rightarrow> rollout_error + db \<times> benchmark_rollout option" where
  "supersede_open_rollout lv audit_id now d =
     (case first_by (\<lambda>r. - ro_created_at r) (d_rollouts d) of
        None \<Rightarrow> Inr (d, None)
      | Some r \<Rightarrow>
          if ro_status r = ''superseded'' then Inr (d, None)
          else if ro_status r = ''activated'' then
            Inl (RolloutConflictError ''an activated benchmark rollout cannot be superseded'')
          else if active_bench_version lv now d = ro_desired_version r then
            Inl (RolloutConflictError ''a benchmark rollout that already owns active authority cannot be superseded'')
          else let r' = r\<lparr>ro_status := ''superseded'', ro_blocked_reason := None\<rparr> in
            Inr (append_rollout_audit audit_id r' ''superseded'' now (set_rollout r' d), Some r'))"

text \<open>\<open>blocked_reason\<close> and the number of ranked quorums; ready exactly when there is no reason.\<close>

definition authority_selection_state :: "live \<Rightarrow> int \<Rightarrow> db \<Rightarrow> string option \<times> nat" where
  "authority_selection_state lv bench_version d =
     (case rollout_for_desired_version bench_version d of
        None \<Rightarrow> (Some ''no rollout history exists for this contract'', 0)
      | Some r \<Rightarrow>
          if int (card (priority_ids r d)) \<noteq> ro_priority_cohort_target r then
            (Some ''the rollout does not contain a complete priority cohort'', 0)
          else if set (map ag_agent_id (filter (\<lambda>ag. ag_agent_id ag \<in> priority_ids r d \<and>
                        ag_status ag \<in> {AGENT_SCORED, LIVE}) (d_agents d))) \<noteq> priority_ids r d then
            (Some ''one or more priority agents are no longer eligible'', 0)
          else let ranked = count_ranked_quorum_agents (l_env lv) bench_version (Some (priority_ids r d)) d in
            ((if ranked \<ge> MIN_DESIRED_AUTHORITY_AGENTS then None
              else Some ''the priority cohort does not yet have five ranked quorums''), ranked))"

definition select_active_bench_version ::
  "live \<Rightarrow> uuid \<Rightarrow> int \<Rightarrow> time \<Rightarrow> inference_requirements option \<Rightarrow> db \<Rightarrow> rollout_error + db \<times> benchmark_rollout" where
  "select_active_bench_version lv audit_id bench_version now requirements d =
     (if list_ex (\<lambda>r. open_status (ro_status r)) (d_rollouts d) then
        Inl (RolloutConflictError ''supersede the open benchmark rollout before changing active authority'')
      else if bench_version \<le> persisted_active_bench_version d then
        Inl (RolloutConflictError ''active benchmark selection is forward-only'')
      else case find (\<lambda>r. ro_desired_version r = bench_version) (rev (sort_key ro_created_at (d_rollouts d))) of
        None \<Rightarrow> Inl (RolloutConflictError ''only a fully qualified superseded rollout can be selected for recovery'')
      | Some r \<Rightarrow>
          if ro_status r \<noteq> ''superseded'' then
            Inl (RolloutConflictError ''only a fully qualified superseded rollout can be selected for recovery'')
          else case fst (authority_selection_state lv bench_version d) of
            Some reason \<Rightarrow> Inl (RolloutConflictError reason)
          | None \<Rightarrow>
              if \<not> inference_activation_ready lv bench_version now requirements then
                Inl (RolloutConflictError ''benchmark inference is not live on the exact reviewed route'')
              else Inr (append_rollout_audit audit_id r ''authority_selected'' now d, r))"

definition pin_of :: "benchmark_dataset \<Rightarrow> dataset_pin" where
  "pin_of b = \<lparr>dp_seed = bd_seed b, dp_sha256 = bd_sha256 b, dp_run_size = bd_run_size b,
     dp_seed_block = bd_seed_block b, dp_seed_block_hash = bd_seed_block_hash b\<rparr>"

definition dataset_row :: "uuid \<Rightarrow> int \<Rightarrow> dataset_pin \<Rightarrow> benchmark_dataset" where
  "dataset_row agent_id bench_version pin =
     \<lparr>bd_agent_id = agent_id, bd_bench_version = bench_version, bd_seed = dp_seed pin, bd_sha256 = dp_sha256 pin,
      bd_run_size = dp_run_size pin, bd_seed_block = dp_seed_block pin, bd_seed_block_hash = dp_seed_block_hash pin\<rparr>"

text \<open>
  Pinning a dataset: insert it, keep an equal one, refuse a different one. \<open>session.get\<close> by the composite key.
\<close>

definition pin_dataset :: "uuid \<Rightarrow> int \<Rightarrow> dataset_pin \<Rightarrow> benchmark_dataset list \<Rightarrow> benchmark_dataset list option" where
  "pin_dataset agent_id bench_version pin ds =
     (case get_row (\<lambda>b. (bd_agent_id b, bd_bench_version b)) (agent_id, bench_version) ds of
        None \<Rightarrow> Some (ds @ [dataset_row agent_id bench_version pin])
      | Some b \<Rightarrow> if pin_of b = pin then Some ds else None)"

definition member_row :: "uuid \<Rightarrow> int \<Rightarrow> snapshot_member \<Rightarrow> rollout_member" where
  "member_row rollout_id position m =
     \<lparr>rm_rollout_id = rollout_id, rm_agent_id = sn_agent_id m, rm_position = position,
      rm_frozen_miner_hotkey = sn_miner_hotkey m, rm_frozen_composite = sn_composite m\<rparr>"

fun freeze_members ::
  "uuid \<Rightarrow> int \<Rightarrow> (uuid \<times> dataset_pin) list \<Rightarrow> int \<Rightarrow> snapshot_member list \<Rightarrow> db \<Rightarrow> db option" where
  "freeze_members rollout_id desired_version datasets position [] d = Some d"
| "freeze_members rollout_id desired_version datasets position (m # ms) d =
     (case map_of datasets (sn_agent_id m) of None \<Rightarrow> None
      | Some pin \<Rightarrow>
        (case pin_dataset (sn_agent_id m) desired_version pin (d_datasets d) of None \<Rightarrow> None
         | Some ds \<Rightarrow>
           freeze_members rollout_id desired_version datasets (position + 1) ms
             (d\<lparr>d_rollout_members := d_rollout_members d @ [member_row rollout_id position m], d_datasets := ds\<rparr>)))"

definition create_rollout_snapshot ::
  "uuid \<Rightarrow> uuid \<Rightarrow> snapshot_member list \<Rightarrow> (uuid \<times> dataset_pin) list \<Rightarrow> time \<Rightarrow> int \<Rightarrow> int \<Rightarrow> int \<Rightarrow> int \<Rightarrow> db \<Rightarrow>
   rollout_error + db \<times> benchmark_rollout" where
  "create_rollout_snapshot rollout_id audit_id members datasets now from_version desired_version
      rescore_cohort_target priority_cohort_target d =
     (if desired_version \<le> from_version then Inl (RolloutValueError ''a benchmark rollout must move the version forward'')
      else if \<not> (PRIORITY_COHORT_SIZE \<le> rescore_cohort_target \<and> rescore_cohort_target \<le> MAX_PERSISTED_RESCORE_COHORT_SIZE) then
        Inl (RolloutValueError ''rollout rescore cohort target out of range'')
      else if \<not> (PRIORITY_COHORT_SIZE \<le> priority_cohort_target \<and> priority_cohort_target \<le> MAX_PERSISTED_RESCORE_COHORT_SIZE) then
        Inl (RolloutValueError ''rollout priority cohort target out of range'')
      else if priority_cohort_target > rescore_cohort_target then
        Inl (RolloutValueError ''rollout priority cohort target cannot exceed its rescore cohort target'')
      else case rollout_for_transition from_version desired_version d of
        Some existing \<Rightarrow> Inr (d, existing)
      | None \<Rightarrow>
        (case open_rollout d of
           Some _ \<Rightarrow> Inl (RolloutConflictError ''only one benchmark rollout may be open at a time'')
         | None \<Rightarrow>
           if \<not> (PRIORITY_COHORT_SIZE \<le> int (length members) \<and> int (length members) \<le> rescore_cohort_target) then
             Inl (RolloutValueError ''a benchmark rollout requires more members'')
           else if \<not> distinct (map sn_agent_id members) then
             Inl (RolloutValueError ''benchmark rollout agents must be distinct'')
           else if \<not> distinct (map sn_miner_hotkey members) then
             Inl (RolloutValueError ''benchmark rollout miners must be distinct'')
           else if set (map fst datasets) \<noteq> set (map sn_agent_id members) then
             Inl (RolloutValueError ''every frozen rollout member requires one target dataset pin'')
           else let r = \<lparr>ro_rollout_id = rollout_id, ro_from_version = from_version, ro_desired_version = desired_version,
                  ro_status = ''collecting'', ro_created_at = now, ro_activated_at = None,
                  ro_cohort_size = int (length members), ro_rescore_cohort_target = rescore_cohort_target,
                  ro_priority_cohort_target = priority_cohort_target, ro_blocked_reason = None\<rparr>
                in case freeze_members rollout_id desired_version datasets 1 members (d\<lparr>d_rollouts := d_rollouts d @ [r]\<rparr>) of
                     None \<Rightarrow> Inl (RolloutValueError ''existing benchmark dataset does not match snapshot'')
                   | Some d' \<Rightarrow> Inr (append_rollout_audit audit_id r ''cohort_frozen'' now d', r)))"

definition next_position :: "uuid \<Rightarrow> db \<Rightarrow> int" where
  "next_position rollout_id d = fold max (map rm_position (members_of rollout_id d)) 0 + 1"

text \<open>\<open>None\<close> is the failed assertion of a rollout that is not stored.\<close>

definition append_rollout_member ::
  "uuid \<Rightarrow> uuid \<Rightarrow> snapshot_member \<Rightarrow> dataset_pin \<Rightarrow> time \<Rightarrow> db \<Rightarrow> rollout_error + db \<times> bool" where
  "append_rollout_member audit_id rollout_id m pin now d =
     (case get_row ro_rollout_id rollout_id (d_rollouts d) of
        None \<Rightarrow> Inl (RolloutValueError ''assertion'')
      | Some locked \<Rightarrow>
          if agent_is_rollout_member locked (sn_agent_id m) d \<or> \<not> open_status (ro_status locked) then Inr (d, False)
          else let r = (if ro_status locked = ''blocked_ineligible''
                        then locked\<lparr>ro_status := ''collecting'', ro_blocked_reason := None\<rparr> else locked);
                   position = next_position rollout_id d
               in case pin_dataset (sn_agent_id m) (ro_desired_version locked) pin (d_datasets d) of
                    None \<Rightarrow> Inl (RolloutValueError ''existing benchmark dataset does not match qualification'')
                  | Some ds \<Rightarrow>
                      Inr (append_rollout_audit audit_id r ''member_qualified'' now
                        ((set_rollout r d)\<lparr>d_rollout_members := d_rollout_members d @ [member_row rollout_id position m],
                           d_datasets := ds\<rparr>), True))"

definition member_agents :: "uuid \<Rightarrow> db \<Rightarrow> (rollout_member \<times> agent) list" where
  "member_agents rollout_id d =
     filter (\<lambda>(m, ag). ag_agent_id ag = rm_agent_id m) (List.product (members_of rollout_id d) (d_agents d))"

definition eligible_status :: "agent \<Rightarrow> bool" where
  "eligible_status ag \<longleftrightarrow> ag_status ag \<in> {AGENT_SCORED, LIVE}"

definition validate_frozen_members :: "uuid \<Rightarrow> benchmark_rollout \<Rightarrow> time \<Rightarrow> db \<Rightarrow> db \<times> bool" where
  "validate_frozen_members audit_id r now d =
     (let rows = sort_key (\<lambda>(m, ag). rm_position m) (member_agents (ro_rollout_id r) d);
          invalid = map (\<lambda>(m, ag). uuid_str (rm_agent_id m)) (filter (\<lambda>(m, ag). \<not> eligible_status ag) rows)
      in if int (length rows) \<noteq> ro_cohort_size r \<or> invalid \<noteq> [] then
           (let reason = (if int (length rows) \<noteq> ro_cohort_size r then ''frozen cohort is incomplete''
                          else ''ineligible frozen members: '' @ join_with '','' invalid)
            in if ro_status r \<noteq> ''blocked_ineligible'' \<or> ro_blocked_reason r \<noteq> Some reason then
                 (let r' = r\<lparr>ro_status := ''blocked_ineligible'', ro_blocked_reason := Some reason\<rparr>
                  in (append_rollout_audit audit_id r' ''cohort_blocked'' now (set_rollout r' d), False))
               else (d, False))
         else if ro_status r = ''blocked_ineligible'' then
           (let r' = r\<lparr>ro_status := ''collecting'', ro_blocked_reason := None\<rparr>
            in (append_rollout_audit audit_id r' ''cohort_unblocked'' now (set_rollout r' d), True))
         else (d, True))"

definition rollout_cohort_complete :: "live \<Rightarrow> benchmark_rollout \<Rightarrow> int \<Rightarrow> db \<Rightarrow> bool" where
  "rollout_cohort_complete lv r cohort_size d =
     (let ids = set (map rm_agent_id (filter (\<lambda>m. rm_position m \<le> cohort_size) (members_of (ro_rollout_id r) d)))
      in if int (card ids) \<noteq> cohort_size then False
         else int (count_ranked_quorum_agents (l_env lv) (ro_desired_version r) (Some ids) d) = cohort_size)"

definition rollout_cohort_score_complete :: "benchmark_rollout \<Rightarrow> int \<Rightarrow> db \<Rightarrow> bool" where
  "rollout_cohort_score_complete r cohort_size d =
     (let ids = remdups (map rm_agent_id (filter (\<lambda>m. rm_position m \<le> cohort_size) (members_of (ro_rollout_id r) d)))
      in int (length ids) = cohort_size \<and>
         list_all (\<lambda>i. length (scores_of i (ro_desired_version r) d) \<ge> SCORING_QUORUM) ids)"

definition maybe_activate_rollout ::
  "live \<Rightarrow> uuid \<Rightarrow> benchmark_rollout \<Rightarrow> time \<Rightarrow> inference_requirements option \<Rightarrow> db \<Rightarrow> db \<times> bool" where
  "maybe_activate_rollout lv audit_id r now requirements d =
     (if \<not> open_status (ro_status r) then (d, False)
      else let rows = member_agents (ro_rollout_id r) d; ids = set (map (\<lambda>(m, ag). rm_agent_id m) rows) in
      if int (length rows) \<noteq> ro_cohort_size r then (d, False)
      else if list_ex (\<lambda>(m, ag). \<not> eligible_status ag) rows then (d, False)
      else if list_ex (\<lambda>(m, ag). length (scores_of (rm_agent_id m) (ro_desired_version r) d) < SCORING_QUORUM) rows then (d, False)
      else if ranked_quorum_agent_ids (ro_desired_version r) (Some ids) d \<noteq> ids then (d, False)
      else if count_ranked_quorum_agents (l_env lv) (ro_desired_version r) (Some ids) d < MIN_DESIRED_AUTHORITY_AGENTS then (d, False)
      else if \<not> inference_activation_ready lv (ro_desired_version r) now requirements then (d, False)
      else let r' = r\<lparr>ro_status := ''activated'', ro_activated_at := Some now, ro_blocked_reason := None\<rparr>
           in (append_rollout_audit audit_id r' ''activated'' now (set_rollout r' d), True))"

subsection \<open>The durable decision\<close>

text \<open>The decisions on record, as the times and versions the query orders.\<close>

definition activations :: "db \<Rightarrow> (time \<times> int) list" where
  "activations d =
     map (\<lambda>r. (the (ro_activated_at r), ro_desired_version r))
       (filter (\<lambda>r. ro_status r = ''activated'' \<and> ro_activated_at r \<noteq> None) (d_rollouts d))"

definition selections :: "db \<Rightarrow> (time \<times> uuid \<times> int) list" where
  "selections d =
     map (\<lambda>(r, a). (ra_recorded_at a, ra_audit_id a, ro_desired_version r))
       (filter (\<lambda>(r, a). ra_rollout_id a = ro_rollout_id r \<and> ra_event a = ''authority_selected'')
          (List.product (d_rollouts d) (d_rollout_audit d)))"

definition decide :: "(time \<times> uuid \<times> int) option \<Rightarrow> (time \<times> int) option \<Rightarrow> int" where
  "decide sel act =
     (case sel of
        Some (t, i, v) \<Rightarrow> (case act of None \<Rightarrow> v | Some (u, w) \<Rightarrow> if t \<ge> u then v else w)
      | None \<Rightarrow> (case act of Some (u, w) \<Rightarrow> w | None \<Rightarrow> MIN_SCOREABLE_BENCH_VERSION))"

lemma persisted_decide:
  "persisted_active_bench_version d =
     decide (first_by (\<lambda>(t, i, v). (- t, - int i)) (selections d)) (first_by (\<lambda>(t, v). - t) (activations d))"
proof -
  have "first_by (\<lambda>(t, i, v). (- t, - int i)) (selections d) =
      map_option (\<lambda>(r, a). (ra_recorded_at a, ra_audit_id a, ro_desired_version r)) (latest_selected d)"
    by (simp add: selections_def latest_selected_def first_by_map case_prod_unfold)
  moreover have "first_by (\<lambda>(t, v). - t) (activations d) =
      map_option (\<lambda>r. (the (ro_activated_at r), ro_desired_version r)) (latest_activated d)"
    by (simp add: activations_def latest_activated_def first_by_map case_prod_unfold)
  ultimately show ?thesis
    by (simp add: persisted_active_bench_version_def decide_def split: option.split prod.split)
qed

lemma persisted_cong:
  "selections d' = selections d \<Longrightarrow> activations d' = activations d \<Longrightarrow>
   persisted_active_bench_version d' = persisted_active_bench_version d"
  by (simp add: persisted_decide)

lemma persisted_new_activation:
  assumes "selections d' = selections d" and "set (activations d') = insert (now, v) (set (activations d))"
    and "\<And>t w. (t, w) \<in> set (activations d) \<Longrightarrow> t < now" and "\<And>t i w. (t, i, w) \<in> set (selections d) \<Longrightarrow> t < now"
  shows "persisted_active_bench_version d' = v"
proof -
  have a: "first_by (\<lambda>(t, v). - t) (activations d') = Some (now, v)"
    using assms(2,3) by (intro first_by_eqI) auto
  show ?thesis
  proof (cases "first_by (\<lambda>(t, i, v). (- t, - int i)) (selections d')")
    case (Some x)
    then have "x \<in> set (selections d)" using first_by_SomeD(1) assms(1) by metis
    moreover obtain t i w where "x = (t, i, w)" by (cases x)
    ultimately show ?thesis using assms(4) [of t i w] Some a by (simp add: persisted_decide decide_def)
  qed (use a in \<open>simp add: persisted_decide decide_def\<close>)
qed

lemma persisted_new_selection:
  assumes "activations d' = activations d" and "set (selections d') = insert (now, i, v) (set (selections d))"
    and "\<And>t w. (t, w) \<in> set (activations d) \<Longrightarrow> t < now" and "\<And>t i w. (t, i, w) \<in> set (selections d) \<Longrightarrow> t < now"
  shows "persisted_active_bench_version d' = v"
proof -
  have a: "first_by (\<lambda>(t, i, v). (- t, - int i)) (selections d') = Some (now, i, v)"
    using assms(2,4) by (intro first_by_eqI) auto
  show ?thesis
  proof (cases "first_by (\<lambda>(t, v). - t) (activations d')")
    case (Some x)
    then have "x \<in> set (activations d)" using first_by_SomeD(1) assms(1) by metis
    moreover obtain t w where "x = (t, w)" by (cases x)
    ultimately show ?thesis using assms(3) [of t w] Some a by (simp add: persisted_decide decide_def)
  qed (use a in \<open>simp add: persisted_decide decide_def\<close>)
qed

subsection \<open>The invariant of the rollout table\<close>

text \<open>
  Identifiers are unique; at most one rollout is open; a rollout moves the version forward and is activated exactly when it has
  an activation time; an open rollout aims past the durable version; audit rows name stored rollouts; no decision is
  dated past the clock. The first three are the primary key, the partial unique index and the check constraints of the table.
\<close>

definition row_ok :: "benchmark_rollout \<Rightarrow> bool" where
  "row_ok r \<longleftrightarrow> ro_from_version r < ro_desired_version r \<and>
     ro_status r \<in> {''collecting'', ''blocked_ineligible'', ''activated'', ''superseded''} \<and> (ro_status r = ''activated'' \<longleftrightarrow> ro_activated_at r \<noteq> None)"

definition rollout_inv :: "time \<Rightarrow> db \<Rightarrow> bool" where
  "rollout_inv clock d \<longleftrightarrow>
     distinct (map ro_rollout_id (d_rollouts d)) \<and>
     length (filter (\<lambda>r. open_status (ro_status r)) (d_rollouts d)) \<le> 1 \<and>
     (\<forall>r \<in> set (d_rollouts d). row_ok r \<and> (\<forall>t. ro_activated_at r = Some t \<longrightarrow> t \<le> clock) \<and>
        (open_status (ro_status r) \<longrightarrow> persisted_active_bench_version d < ro_desired_version r)) \<and>
     (\<forall>a \<in> set (d_rollout_audit d). ra_rollout_id a \<in> ro_rollout_id ` set (d_rollouts d) \<and>
        (ra_event a = ''authority_selected'' \<longrightarrow> ra_recorded_at a \<le> clock))"

lemma open_status_simps [simp]:
  "open_status ''collecting''" "open_status ''blocked_ineligible''" "\<not> open_status ''activated''" "\<not> open_status ''superseded''"
  by (simp_all add: open_status_def)

lemma activations_mem: "(t, v) \<in> set (activations d) \<longleftrightarrow>
    (\<exists>r \<in> set (d_rollouts d). ro_status r = ''activated'' \<and> ro_activated_at r = Some t \<and> ro_desired_version r = v)"
  by (force simp: activations_def)

lemma selections_mem: "(t, i, v) \<in> set (selections d) \<longleftrightarrow>
    (\<exists>r \<in> set (d_rollouts d). \<exists>a \<in> set (d_rollout_audit d). ra_rollout_id a = ro_rollout_id r \<and> ra_event a = ''authority_selected'' \<and>
       ra_recorded_at a = t \<and> ra_audit_id a = i \<and> ro_desired_version r = v)"
  by (force simp: selections_def)

lemma decisions_past:
  assumes "rollout_inv clock d" and "clock < now"
  shows "(t, v) \<in> set (activations d) \<Longrightarrow> t < now" and "(t, i, v) \<in> set (selections d) \<Longrightarrow> t < now"
  using assms by (force simp: activations_mem selections_mem rollout_inv_def)+

text \<open>Tables that do not concern authority.\<close>

lemma decisions_cong:
  assumes "d_rollouts d' = d_rollouts d" and "d_rollout_audit d' = d_rollout_audit d"
  shows "activations d' = activations d" and "selections d' = selections d"
    and "persisted_active_bench_version d' = persisted_active_bench_version d" and "rollout_inv c d' \<longleftrightarrow> rollout_inv c d"
proof -
  show a: "activations d' = activations d" and s: "selections d' = selections d" using assms by (simp_all add: activations_def selections_def)
  show "persisted_active_bench_version d' = persisted_active_bench_version d" using s a by (rule persisted_cong)
  then show "rollout_inv c d' \<longleftrightarrow> rollout_inv c d" using assms by (simp add: rollout_inv_def)
qed

lemma rollout_inv_later: "rollout_inv c d \<Longrightarrow> c \<le> c' \<Longrightarrow> rollout_inv c' d"
  unfolding rollout_inv_def by (meson order_trans)

lemma selections_audit:
  "ra_event a \<noteq> ''authority_selected'' \<Longrightarrow> selections (d\<lparr>d_rollout_audit := d_rollout_audit d @ [a]\<rparr>) = selections d"
proof -
  assume a: "ra_event a \<noteq> ''authority_selected''"
  have "map f (filter (\<lambda>(r, x). ra_rollout_id x = ro_rollout_id r \<and> ra_event x = ''authority_selected'') (List.product rs (as @ [a]))) =
      map f (filter (\<lambda>(r, x). ra_rollout_id x = ro_rollout_id r \<and> ra_event x = ''authority_selected'') (List.product rs as))"
    for rs as and f :: "benchmark_rollout \<times> rollout_audit \<Rightarrow> time \<times> uuid \<times> int"
    using a by (induction rs) simp_all
  then show ?thesis by (simp add: selections_def)
qed

lemma audit_step:
  assumes "rollout_inv c d" and "event \<noteq> ''authority_selected''" and "ro_rollout_id r \<in> ro_rollout_id ` set (d_rollouts d)"
  shows "rollout_inv c (append_rollout_audit i r event now d)"
    and "persisted_active_bench_version (append_rollout_audit i r event now d) = persisted_active_bench_version d"
proof -
  let ?d = "append_rollout_audit i r event now d"
  show p: "persisted_active_bench_version ?d = persisted_active_bench_version d"
    by (rule persisted_cong) (simp_all add: append_rollout_audit_def selections_audit assms(2) activations_def)
  show "rollout_inv c ?d"
    using assms p unfolding rollout_inv_def by (auto simp: append_rollout_audit_def)
qed

text \<open>Rewriting the open row without activating it.\<close>

lemma selections_set_rollout:
  assumes "\<And>s. s \<in> set (d_rollouts d) \<Longrightarrow> ro_rollout_id s = ro_rollout_id r \<Longrightarrow> ro_desired_version s = ro_desired_version r"
  shows "selections (set_rollout r d) = selections d"
proof -
  let ?f = "\<lambda>(r, a). (ra_recorded_at a, ra_audit_id a, ro_desired_version r)"
  let ?p = "\<lambda>(r, a). ra_rollout_id a = ro_rollout_id r \<and> ra_event a = ''authority_selected''"
  have one: "map ?f (filter ?p (map (Pair x) as)) = map ?f (filter ?p (map (Pair y) as))"
    if "ro_rollout_id x = ro_rollout_id y" "ro_desired_version x = ro_desired_version y" for x y and as :: "rollout_audit list"
    using that by (induction as) auto
  have "map ?f (filter ?p (List.product (set_row ro_rollout_id r rs) as)) = map ?f (filter ?p (List.product rs as))"
    if "\<And>s. s \<in> set rs \<Longrightarrow> ro_rollout_id s = ro_rollout_id r \<Longrightarrow> ro_desired_version s = ro_desired_version r" for rs and as :: "rollout_audit list"
    using that
  proof (induction rs)
    case (Cons x rs)
    have "map ?f (filter ?p (map (Pair (if ro_rollout_id x = ro_rollout_id r then r else x)) as)) = map ?f (filter ?p (map (Pair x) as))"
      using Cons.prems [of x] by (intro one) auto
    with Cons show ?case by (simp add: set_row_def row_simps)
  qed (simp add: set_row_def row_simps)
  with assms show ?thesis by (simp add: selections_def set_rollout_def)
qed

lemma open_row_step:
  assumes inv: "rollout_inv c d" and r: "r \<in> set (d_rollouts d)" "open_status (ro_status r)"
    and r': "ro_rollout_id r' = ro_rollout_id r" "ro_from_version r' = ro_from_version r" "ro_desired_version r' = ro_desired_version r"
      "ro_status r' \<in> {''collecting'', ''blocked_ineligible'', ''superseded''}" "ro_activated_at r' = ro_activated_at r"
  shows "rollout_inv c (set_rollout r' d)" and "persisted_active_bench_version (set_rollout r' d) = persisted_active_bench_version d"
proof -
  have dist: "distinct (map ro_rollout_id (d_rollouts d))" using inv by (simp add: rollout_inv_def)
  have only: "s = r" if "s \<in> set (d_rollouts d)" "ro_rollout_id s = ro_rollout_id r'" for s
    using distinct_key_eq [OF dist that(1) r(1)] that(2) r'(1) by simp
  have na: "ro_status r \<noteq> ''activated''" using r(2) by (auto simp: open_status_def)
  have sel: "selections (set_rollout r' d) = selections d"
    using only r'(3) by (intro selections_set_rollout) auto
  have act: "activations (set_rollout r' d) = activations d"
    unfolding activations_def set_rollout_def using only na r'(4)
    by (simp, intro arg_cong [where f = "map _"] filter_set_row_other) auto
  show p: "persisted_active_bench_version (set_rollout r' d) = persisted_active_bench_version d" using sel act by (rule persisted_cong)
  have len: "length (filter (\<lambda>s. open_status (ro_status s)) (set_row ro_rollout_id r' (d_rollouts d)))
      \<le> length (filter (\<lambda>s. open_status (ro_status s)) (d_rollouts d))"
    unfolding set_row_def by (rule length_filter_update_where_le) (use only r(2) in auto)
  have ids: "ro_rollout_id ` set (set_row ro_rollout_id r' (d_rollouts d)) = ro_rollout_id ` set (d_rollouts d)"
    using arg_cong [OF map_key_set_row [of ro_rollout_id r' "d_rollouts d"], of set] by simp
  have rows: "row_ok s \<and> (\<forall>t. ro_activated_at s = Some t \<longrightarrow> t \<le> c) \<and>
      (open_status (ro_status s) \<longrightarrow> persisted_active_bench_version d < ro_desired_version s)"
    if s: "s \<in> set (set_row ro_rollout_id r' (d_rollouts d))" for s
  proof -
    consider "s = r'" | "s \<in> set (d_rollouts d)" using in_set_row [OF s] by blast
    then show ?thesis
    proof cases
      case 1
      have "row_ok r \<and> (open_status (ro_status r) \<longrightarrow> persisted_active_bench_version d < ro_desired_version r)"
        using inv r(1) by (simp add: rollout_inv_def)
      with 1 r' na r(2) show ?thesis by (auto simp: row_ok_def)
    qed (use inv in \<open>simp add: rollout_inv_def\<close>)
  qed
  show "rollout_inv c (set_rollout r' d)"
    unfolding rollout_inv_def p using inv len rows
    by (auto simp: set_rollout_def ids row_simps rollout_inv_def)
qed

lemma set_rollout_ids [simp]: "ro_rollout_id ` set (d_rollouts (set_rollout r d)) = ro_rollout_id ` set (d_rollouts d)"
  using arg_cong [OF map_key_set_row [of ro_rollout_id r "d_rollouts d"], of set] by (simp add: set_rollout_def)

lemma open_row_audit_step:
  assumes "rollout_inv c d" "r \<in> set (d_rollouts d)" "open_status (ro_status r)"
    "ro_rollout_id r' = ro_rollout_id r" "ro_from_version r' = ro_from_version r" "ro_desired_version r' = ro_desired_version r"
    "ro_status r' \<in> {''collecting'', ''blocked_ineligible'', ''superseded''}" "ro_activated_at r' = ro_activated_at r"
    "event \<noteq> ''authority_selected''"
  shows "rollout_inv c (append_rollout_audit i r' event now (set_rollout r' d)) \<and>
    persisted_active_bench_version (append_rollout_audit i r' event now (set_rollout r' d)) = persisted_active_bench_version d"
proof -
  note step = open_row_step [OF assms(1-8)]
  have "ro_rollout_id r' \<in> ro_rollout_id ` set (d_rollouts (set_rollout r' d))" using assms(2,4) by auto
  from audit_step [OF step(1) assms(9) this, of i now] step(2) show ?thesis by simp
qed

text \<open>Activating the open row.\<close>

lemma activate_step:
  assumes inv: "rollout_inv c d" and r: "r \<in> set (d_rollouts d)" "open_status (ro_status r)" and now: "c < now"
  defines "r' \<equiv> r\<lparr>ro_status := ''activated'', ro_activated_at := Some now, ro_blocked_reason := None\<rparr>"
  shows "rollout_inv now (append_rollout_audit i r' ''activated'' now (set_rollout r' d))"
    and "persisted_active_bench_version (append_rollout_audit i r' ''activated'' now (set_rollout r' d)) = ro_desired_version r"
    and "persisted_active_bench_version d < ro_desired_version r"
proof -
  let ?d = "set_rollout r' d"
  have rf: "ro_rollout_id r' = ro_rollout_id r" "ro_from_version r' = ro_from_version r" "ro_desired_version r' = ro_desired_version r"
    "ro_status r' = ''activated''" "ro_activated_at r' = Some now" by (simp_all add: r'_def)
  have dist: "distinct (map ro_rollout_id (d_rollouts d))" using inv by (simp add: rollout_inv_def)
  have only: "s = r" if "s \<in> set (d_rollouts d)" "ro_rollout_id s = ro_rollout_id r'" for s
    using distinct_key_eq [OF dist that(1) r(1)] that(2) by (simp add: rf)
  have rok: "row_ok r" and fwd: "persisted_active_bench_version d < ro_desired_version r" using inv r by (auto simp: rollout_inv_def)
  show "persisted_active_bench_version d < ro_desired_version r" by (rule fwd)
  have rows: "set (d_rollouts ?d) = insert r' (set (d_rollouts d) - {r})"
    using set_set_row [OF dist r(1) rf(1)] by (simp add: set_rollout_def)
  then have mem: "s \<in> set (d_rollouts ?d) \<longleftrightarrow> s = r' \<or> s \<in> set (d_rollouts d) \<and> s \<noteq> r" for s by auto
  have sel: "selections ?d = selections d" using only by (intro selections_set_rollout) (auto simp: rf)
  have na: "ro_status r \<noteq> ''activated''" using r(2) by (auto simp: open_status_def)
  have act: "set (activations ?d) = insert (now, ro_desired_version r) (set (activations d))"
  proof -
    have "x \<in> set (activations ?d) \<longleftrightarrow> x = (now, ro_desired_version r) \<or> x \<in> set (activations d)" for x
      using na by (cases x) (auto simp: activations_mem rows rf)
    then show ?thesis by auto
  qed
  have p: "persisted_active_bench_version ?d = ro_desired_version r"
    using sel act decisions_past [OF inv now] by (rule persisted_new_activation)
  have open1: "filter (\<lambda>s. open_status (ro_status s)) (d_rollouts ?d) = []"
  proof -
    have "s = r" if "s \<in> set (d_rollouts d)" "open_status (ro_status s)" for s
    proof -
      have "length (filter (\<lambda>s. open_status (ro_status s)) (d_rollouts d)) \<le> 1" using inv by (simp add: rollout_inv_def)
      moreover have "r \<in> set (filter (\<lambda>s. open_status (ro_status s)) (d_rollouts d))"
        "s \<in> set (filter (\<lambda>s. open_status (ro_status s)) (d_rollouts d))" using that r by auto
      ultimately show ?thesis by (cases "filter (\<lambda>s. open_status (ro_status s)) (d_rollouts d)") auto
    qed
    then show ?thesis by (auto simp: filter_empty_conv mem rf)
  qed
  have "rollout_inv now ?d"
    unfolding rollout_inv_def p
  proof (intro conjI)
    show "distinct (map ro_rollout_id (d_rollouts ?d))" using dist by (simp add: set_rollout_def row_simps)
    show "length (filter (\<lambda>s. open_status (ro_status s)) (d_rollouts ?d)) \<le> 1" by (simp add: open1)
    have "\<not> open_status (ro_status s)" if "s \<in> set (d_rollouts ?d)" for s using open1 that by (simp add: filter_empty_conv)
    moreover have "row_ok r'" using rok by (simp add: row_ok_def rf)
    ultimately show "\<forall>s \<in> set (d_rollouts ?d). row_ok s \<and> (\<forall>t. ro_activated_at s = Some t \<longrightarrow> t \<le> now) \<and>
        (open_status (ro_status s) \<longrightarrow> ro_desired_version r < ro_desired_version s)"
      using inv now by (fastforce simp: mem rollout_inv_def rf)
    have "d_rollout_audit ?d = d_rollout_audit d" by (simp add: set_rollout_def)
    then show "\<forall>a \<in> set (d_rollout_audit ?d). ra_rollout_id a \<in> ro_rollout_id ` set (d_rollouts ?d) \<and>
        (ra_event a = ''authority_selected'' \<longrightarrow> ra_recorded_at a \<le> now)"
      unfolding set_rollout_ids using inv now by (fastforce simp: rollout_inv_def)
  qed
  moreover have "ro_rollout_id r' \<in> ro_rollout_id ` set (d_rollouts ?d)" using r(1) by (auto simp: rf)
  ultimately show "rollout_inv now (append_rollout_audit i r' ''activated'' now ?d)"
    "persisted_active_bench_version (append_rollout_audit i r' ''activated'' now ?d) = ro_desired_version r"
    using audit_step [of now ?d "''activated''" r' i now] p by simp_all
qed

text \<open>Selecting a superseded contract, and opening a rollout.\<close>

lemma select_authority_step:
  assumes inv: "rollout_inv c d" and now: "c < now" and closed: "\<And>s. s \<in> set (d_rollouts d) \<Longrightarrow> \<not> open_status (ro_status s)"
    and r: "r \<in> set (d_rollouts d)"
  shows "rollout_inv now (append_rollout_audit i r ''authority_selected'' now d)"
    and "persisted_active_bench_version (append_rollout_audit i r ''authority_selected'' now d) = ro_desired_version r"
proof -
  let ?d = "append_rollout_audit i r ''authority_selected'' now d"
  have dist: "distinct (map ro_rollout_id (d_rollouts d))" using inv by (simp add: rollout_inv_def)
  have only: "s = r" if "s \<in> set (d_rollouts d)" "ro_rollout_id r = ro_rollout_id s" for s
    using distinct_key_eq [OF dist that(1) r] that(2) by simp
  have "x \<in> set (selections ?d) \<longleftrightarrow> x = (now, i, ro_desired_version r) \<or> x \<in> set (selections d)" for x
    using r only by (cases x) (auto simp: selections_mem append_rollout_audit_def)
  then have sel: "set (selections ?d) = insert (now, i, ro_desired_version r) (set (selections d))" by auto
  have act: "activations ?d = activations d" by (simp add: activations_def append_rollout_audit_def)
  show p: "persisted_active_bench_version ?d = ro_desired_version r"
    using act sel decisions_past [OF inv now] by (rule persisted_new_selection)
  show "rollout_inv now ?d"
    using rollout_inv_later [OF inv less_imp_le [OF now]] closed r unfolding rollout_inv_def by (auto simp: append_rollout_audit_def)
qed

lemma new_row_step:
  assumes inv: "rollout_inv c d" and fresh: "ro_rollout_id r \<notin> ro_rollout_id ` set (d_rollouts d)"
    and closed: "\<And>s. s \<in> set (d_rollouts d) \<Longrightarrow> \<not> open_status (ro_status s)"
    and r: "ro_from_version r < ro_desired_version r" "ro_status r = ''collecting''" "ro_activated_at r = None"
    and fwd: "persisted_active_bench_version d < ro_desired_version r"
  shows "rollout_inv c (d\<lparr>d_rollouts := d_rollouts d @ [r]\<rparr>)"
    and "persisted_active_bench_version (d\<lparr>d_rollouts := d_rollouts d @ [r]\<rparr>) = persisted_active_bench_version d"
proof -
  let ?d = "d\<lparr>d_rollouts := d_rollouts d @ [r]\<rparr>"
  have audits: "ra_rollout_id a \<noteq> ro_rollout_id r" if "a \<in> set (d_rollout_audit d)" for a
  proof -
    have "ra_rollout_id a \<in> ro_rollout_id ` set (d_rollouts d)" using inv that by (simp add: rollout_inv_def)
    with fresh show ?thesis by metis
  qed
  have "List.product (rs @ [r]) as = List.product rs as @ map (Pair r) as" for rs and as :: "rollout_audit list"
    by (induction rs) simp_all
  then have sel: "selections ?d = selections d" using audits by (simp add: selections_def filter_empty_conv)
  have act: "activations ?d = activations d" using r(2) by (simp add: activations_def)
  show p: "persisted_active_bench_version ?d = persisted_active_bench_version d" using sel act by (rule persisted_cong)
  have "filter (\<lambda>s. open_status (ro_status s)) (d_rollouts d) = []" using closed by (simp add: filter_empty_conv)
  then show "rollout_inv c ?d" unfolding rollout_inv_def p using inv fresh r fwd
    by (auto simp: rollout_inv_def row_ok_def)
qed

subsection \<open>Every transition keeps the invariant and moves authority forward\<close>

lemma open_rollout_None: "open_rollout d = None \<Longrightarrow> s \<in> set (d_rollouts d) \<Longrightarrow> \<not> open_status (ro_status s)"
  by (simp add: open_rollout_def select_first_None_iff)

lemma open_rollout_SomeD: "open_rollout d = Some r \<Longrightarrow> r \<in> set (d_rollouts d) \<and> open_status (ro_status r)"
  unfolding open_rollout_def by (drule select_first_SomeD) simp

lemma open_rollout_eq:
  assumes "rollout_inv c d" and "r \<in> set (d_rollouts d)" and "open_status (ro_status r)"
  shows "open_rollout d = Some r"
proof -
  have len: "length (filter (\<lambda>s. open_status (ro_status s)) (d_rollouts d)) \<le> 1" using assms(1) by (simp add: rollout_inv_def)
  show ?thesis unfolding open_rollout_def
  proof (rule select_first_eqI)
    show "r \<in> set (d_rollouts d)" "open_status (ro_status r)" by (fact assms)+
    fix s assume "s \<in> set (d_rollouts d)" "open_status (ro_status s)"
    then have "s \<in> set (filter (\<lambda>s. open_status (ro_status s)) (d_rollouts d))"
      "r \<in> set (filter (\<lambda>s. open_status (ro_status s)) (d_rollouts d))" using assms by auto
    with len show "s = r" by (cases "filter (\<lambda>s. open_status (ro_status s)) (d_rollouts d)") auto
  qed
qed

lemma active_at_least_persisted:
  "rollout_inv c d \<Longrightarrow> persisted_active_bench_version d \<le> active_bench_version lv now d"
  by (auto simp: active_bench_version_def rollout_inv_def split: option.split dest!: open_rollout_SomeD)

text \<open>
  What a transition may do to a database: the invariant holds at the later time, the durable version does not fall, and no
  rollout disappears, changes its versions, or leaves a terminal status.
\<close>

definition row_grows :: "benchmark_rollout \<Rightarrow> benchmark_rollout \<Rightarrow> bool" where
  "row_grows r r' \<longleftrightarrow>
     ro_rollout_id r' = ro_rollout_id r \<and> ro_from_version r' = ro_from_version r \<and> ro_desired_version r' = ro_desired_version r \<and>
     (\<not> open_status (ro_status r) \<longrightarrow> ro_status r' = ro_status r \<and> ro_activated_at r' = ro_activated_at r)"

definition db_grows :: "db \<Rightarrow> db \<Rightarrow> bool" where
  "db_grows d d' \<longleftrightarrow>
     persisted_active_bench_version d \<le> persisted_active_bench_version d' \<and>
     (\<forall>r \<in> set (d_rollouts d). \<exists>r' \<in> set (d_rollouts d'). row_grows r r') \<and>
     set (d_rollout_members d) \<subseteq> set (d_rollout_members d')"

lemma row_grows_refl [simp]: "row_grows r r"
  by (simp add: row_grows_def)

lemma row_grows_trans: "row_grows r s \<Longrightarrow> row_grows s t \<Longrightarrow> row_grows r t"
  by (auto simp: row_grows_def)

lemma db_growsI:
  assumes "persisted_active_bench_version d \<le> persisted_active_bench_version d'" and "set (d_rollouts d) \<subseteq> set (d_rollouts d')"
    and "set (d_rollout_members d) \<subseteq> set (d_rollout_members d')"
  shows "db_grows d d'"
  unfolding db_grows_def using assms row_grows_refl by blast

lemma db_grows_refl [simp]: "db_grows d d"
  by (rule db_growsI) simp_all

lemma db_grows_trans: "db_grows d e \<Longrightarrow> db_grows e f \<Longrightarrow> db_grows d f"
  unfolding db_grows_def by (meson order_trans row_grows_trans subset_trans)

lemma set_rollout_rows:
  assumes "distinct (map ro_rollout_id (d_rollouts d))" and "r \<in> set (d_rollouts d)" and "row_grows r r'"
  shows "\<forall>s \<in> set (d_rollouts d). \<exists>s' \<in> set (d_rollouts (set_rollout r' d)). row_grows s s'"
proof
  fix s assume s: "s \<in> set (d_rollouts d)"
  have mem: "set (d_rollouts (set_rollout r' d)) = insert r' (set (d_rollouts d) - {r})"
    using set_set_row [OF assms(1,2), of r'] assms(3) by (simp add: set_rollout_def row_grows_def)
  show "\<exists>s' \<in> set (d_rollouts (set_rollout r' d)). row_grows s s'"
    using s assms(3) row_grows_refl [of s] unfolding mem by (cases "s = r") blast+
qed

lemmas rollout_distinct = rollout_inv_def [THEN iffD1, THEN conjunct1]

text \<open>Rewriting the open row in place, with an audit row.\<close>

lemma rewrite_open:
  assumes inv: "rollout_inv c d" and r: "r \<in> set (d_rollouts d)" "open_status (ro_status r)"
    and r': "ro_rollout_id r' = ro_rollout_id r" "ro_from_version r' = ro_from_version r" "ro_desired_version r' = ro_desired_version r"
      "ro_status r' \<in> {''collecting'', ''blocked_ineligible'', ''superseded''}" "ro_activated_at r' = ro_activated_at r"
    and ev: "event \<noteq> ''authority_selected''"
  shows "rollout_inv c (append_rollout_audit i r' event now (set_rollout r' d)) \<and>
         db_grows d (append_rollout_audit i r' event now (set_rollout r' d))"
proof -
  have "row_grows r r'" using r r' by (simp add: row_grows_def)
  from set_rollout_rows [OF rollout_distinct [OF inv] r(1) this] open_row_audit_step [OF inv r r' ev, of i now]
  show ?thesis by (simp add: db_grows_def append_rollout_audit_def) (simp add: set_rollout_def)
qed

lemma supersede_keeps:
  assumes inv: "rollout_inv c d" and res: "supersede_open_rollout lv i now d = Inr (d', out)"
  shows "rollout_inv c d' \<and> db_grows d d'"
proof (cases "d' = d")
  case True
  then show ?thesis using inv by simp
next
  case False
  then obtain r where f: "first_by (\<lambda>r. - ro_created_at r) (d_rollouts d) = Some r" "ro_status r \<noteq> ''superseded''" "ro_status r \<noteq> ''activated''"
    and d': "d' = append_rollout_audit i (r\<lparr>ro_status := ''superseded'', ro_blocked_reason := None\<rparr>) ''superseded'' now
        (set_rollout (r\<lparr>ro_status := ''superseded'', ro_blocked_reason := None\<rparr>) d)"
    using res by (auto simp: supersede_open_rollout_def Let_def split: option.splits if_splits)
  have r: "r \<in> set (d_rollouts d)" using first_by_SomeD(1) [OF f(1)] .
  then have "open_status (ro_status r)" using inv f(2,3) by (auto simp: rollout_inv_def row_ok_def open_status_def)
  with r show ?thesis unfolding d' by (intro rewrite_open [OF inv]) simp_all
qed

lemma select_keeps:
  assumes inv: "rollout_inv c d" and now: "c < now" and res: "select_active_bench_version lv i v now rq d = Inr (d', r)"
  shows "rollout_inv now d' \<and> db_grows d d' \<and> persisted_active_bench_version d' = v"
proof -
  from res have closed: "\<And>s. s \<in> set (d_rollouts d) \<Longrightarrow> \<not> open_status (ro_status s)" and fwd: "persisted_active_bench_version d < v"
    and f: "find (\<lambda>r. ro_desired_version r = v) (rev (sort_key ro_created_at (d_rollouts d))) = Some r"
    and d': "d' = append_rollout_audit i r ''authority_selected'' now d"
    by (auto simp: select_active_bench_version_def list_ex_iff split: if_splits option.splits)
  have r: "r \<in> set (d_rollouts d)" "ro_desired_version r = v" using find_SomeD [OF f] by auto
  note step = select_authority_step [OF inv now closed r(1), of i]
  have "db_grows d d'" unfolding d' using step(2) fwd r(2) by (intro db_growsI) (simp_all add: append_rollout_audit_def)
  with step r(2) show ?thesis by (simp add: d')
qed

lemma freeze_members_other:
  "freeze_members rid v ps n ms d = Some d' \<Longrightarrow>
   d_rollouts d' = d_rollouts d \<and> d_rollout_audit d' = d_rollout_audit d \<and> set (d_rollout_members d) \<subseteq> set (d_rollout_members d')"
  by (induction rid v ps n ms d rule: freeze_members.induct) (auto split: option.splits)

lemma create_keeps:
  assumes inv: "rollout_inv c d" and fresh: "rid \<notin> ro_rollout_id ` set (d_rollouts d)"
    and fr: "src = active_bench_version lv t d"
    and res: "create_rollout_snapshot rid i ms ps now src desired rescore priority d = Inr (d', r)"
  shows "rollout_inv c d' \<and> db_grows d d'"
proof (cases "d' = d")
  case True
  then show ?thesis using inv by simp
next
  case False
  let ?r = "\<lparr>ro_rollout_id = rid, ro_from_version = src, ro_desired_version = desired, ro_status = ''collecting'', ro_created_at = now,
    ro_activated_at = None, ro_cohort_size = int (length ms), ro_rescore_cohort_target = rescore, ro_priority_cohort_target = priority,
    ro_blocked_reason = None\<rparr>"
  let ?d1 = "d\<lparr>d_rollouts := d_rollouts d @ [?r]\<rparr>"
  from False res have fwd: "src < desired" and closed: "open_rollout d = None"
    and "\<exists>d2. freeze_members rid desired ps 1 ms ?d1 = Some d2 \<and> d' = append_rollout_audit i ?r ''cohort_frozen'' now d2"
    by (auto simp: create_rollout_snapshot_def Let_def split: if_splits option.splits)
  then obtain d2 where d2: "freeze_members rid desired ps 1 ms ?d1 = Some d2" and d': "d' = append_rollout_audit i ?r ''cohort_frozen'' now d2" by blast
  note other = freeze_members_other [OF d2]
  have p: "persisted_active_bench_version d < desired" using active_at_least_persisted [OF inv, of lv t] fwd fr by simp
  have "rollout_inv c ?d1" "persisted_active_bench_version ?d1 = persisted_active_bench_version d"
    using new_row_step [OF inv _ open_rollout_None [OF closed], of ?r] fresh fwd p by simp_all
  then have inv2: "rollout_inv c d2" and p2: "persisted_active_bench_version d2 = persisted_active_bench_version d"
    using decisions_cong(3,4) [of d2 ?d1] other by auto
  have "ro_rollout_id ?r \<in> ro_rollout_id ` set (d_rollouts d2)" using other by simp
  note step = audit_step [OF inv2 _ this, of "''cohort_frozen''" i now]
  have "db_grows d d'" 
  proof (rule db_growsI)
    show "persisted_active_bench_version d \<le> persisted_active_bench_version d'" using step(2) p2 unfolding d' by simp
    show "set (d_rollouts d) \<subseteq> set (d_rollouts d')" using other by (auto simp: d' append_rollout_audit_def)
    show "set (d_rollout_members d) \<subseteq> set (d_rollout_members d')" using other by (auto simp: d' append_rollout_audit_def)
  qed
  with step(1) show ?thesis by (simp add: d')
qed

lemma append_keeps:
  assumes inv: "rollout_inv c d" and res: "append_rollout_member i rid m pin now d = Inr (d', b)"
  shows "rollout_inv c d' \<and> db_grows d d' \<and> persisted_active_bench_version d' = persisted_active_bench_version d"
proof (cases "d' = d")
  case True
  then show ?thesis using inv by simp
next
  case False
  then obtain r ds where g: "get_row ro_rollout_id rid (d_rollouts d) = Some r" "open_status (ro_status r)"
    and d': "d' = append_rollout_audit i
        (if ro_status r = ''blocked_ineligible'' then r\<lparr>ro_status := ''collecting'', ro_blocked_reason := None\<rparr> else r) ''member_qualified'' now
        ((set_rollout (if ro_status r = ''blocked_ineligible'' then r\<lparr>ro_status := ''collecting'', ro_blocked_reason := None\<rparr> else r) d)
          \<lparr>d_rollout_members := d_rollout_members d @ [member_row rid (next_position rid d) m], d_datasets := ds\<rparr>)"
    using res by (auto simp: append_rollout_member_def Let_def split: option.splits if_splits)
  let ?r = "if ro_status r = ''blocked_ineligible'' then r\<lparr>ro_status := ''collecting'', ro_blocked_reason := None\<rparr> else r"
  let ?e = "append_rollout_audit i ?r ''member_qualified'' now (set_rollout ?r d)"
  have r: "r \<in> set (d_rollouts d)" using get_row_SomeD [OF g(1)] by simp
  have e: "rollout_inv c ?e \<and> db_grows d ?e \<and> persisted_active_bench_version ?e = persisted_active_bench_version d"
  proof -
    have "ro_status ?r \<in> {''collecting'', ''blocked_ineligible'', ''superseded''}" using g(2) by (auto simp: open_status_def)
    then show ?thesis
      using rewrite_open [OF inv r g(2), of ?r "''member_qualified''" i now] open_row_audit_step [OF inv r g(2), of ?r "''member_qualified''" i now]
      by (auto split: if_splits)
  qed
  have "d_rollouts d' = d_rollouts ?e" "d_rollout_audit d' = d_rollout_audit ?e" by (simp_all add: d' append_rollout_audit_def set_rollout_def)
  moreover from this have "rollout_inv c d' \<longleftrightarrow> rollout_inv c ?e" "persisted_active_bench_version d' = persisted_active_bench_version ?e"
    using decisions_cong(3,4) [of d' ?e] by auto
  moreover have "set (d_rollout_members d) \<subseteq> set (d_rollout_members d')" by (auto simp: d' append_rollout_audit_def)
  ultimately show ?thesis using e by (simp add: db_grows_def)
qed

lemma validate_keeps:
  assumes inv: "rollout_inv c d" and r: "r \<in> set (d_rollouts d)" "open_status (ro_status r)"
  shows "rollout_inv c (fst (validate_frozen_members i r now d)) \<and> db_grows d (fst (validate_frozen_members i r now d))"
proof -
  have noop: "rollout_inv c d \<and> db_grows d d" using inv by simp
  have "rollout_inv c (append_rollout_audit i (r\<lparr>ro_status := st, ro_blocked_reason := why\<rparr>) ev now
        (set_rollout (r\<lparr>ro_status := st, ro_blocked_reason := why\<rparr>) d)) \<and>
      db_grows d (append_rollout_audit i (r\<lparr>ro_status := st, ro_blocked_reason := why\<rparr>) ev now
        (set_rollout (r\<lparr>ro_status := st, ro_blocked_reason := why\<rparr>) d))"
    if "st \<in> {''collecting'', ''blocked_ineligible''}" "ev \<in> {''cohort_blocked'', ''cohort_unblocked''}" for st why ev
    by (rule rewrite_open [OF inv r]) (use that in auto)
  with noop show ?thesis unfolding validate_frozen_members_def Let_def by (auto split: if_splits)
qed

lemma activate_keeps:
  assumes inv: "rollout_inv c d" and now: "c < now" and r: "r \<in> set (d_rollouts d)"
  shows "rollout_inv now (fst (maybe_activate_rollout lv i r now rq d)) \<and> db_grows d (fst (maybe_activate_rollout lv i r now rq d))"
proof (cases "snd (maybe_activate_rollout lv i r now rq d)")
  case False
  then have "fst (maybe_activate_rollout lv i r now rq d) = d"
    unfolding maybe_activate_rollout_def Let_def by (auto split: if_splits)
  then show ?thesis using rollout_inv_later [OF inv] now by simp
next
  case True
  let ?r = "r\<lparr>ro_status := ''activated'', ro_activated_at := Some now, ro_blocked_reason := None\<rparr>"
  have o: "open_status (ro_status r)" and d': "fst (maybe_activate_rollout lv i r now rq d) = append_rollout_audit i ?r ''activated'' now (set_rollout ?r d)"
    using True unfolding maybe_activate_rollout_def Let_def by (auto split: if_splits)
  have "row_grows r ?r" using o by (simp add: row_grows_def)
  from set_rollout_rows [OF rollout_distinct [OF inv] r this] activate_step(1,2) [OF inv r o now, of i] activate_step(3) [OF inv r o now]
  show ?thesis unfolding d' db_grows_def by (simp add: append_rollout_audit_def) (simp add: set_rollout_def)
qed

subsection \<open>What activation requires\<close>

text \<open>
  The schema's cross-field check of a scorer capability (\<open>support_matches_verified_identity\<close>, without the probe evidence).
\<close>

definition support_matches_verified_identity :: "scorer_capability \<Rightarrow> bool" where
  "support_matches_verified_identity sc \<longleftrightarrow>
     (let versions = sc_supported_bench_versions sc in
      sort (remdups versions) = versions \<and>
      (if sc_status sc = ''fresh_verified''
       then \<not> (versions = [] \<or> sc_observed_at sc = None \<or> sc_software_version sc = None \<or> sc_source_revision sc = None)
       else versions \<in> {[], [2]}) \<and>
      \<not> (list_ex (\<lambda>v. v > 2) versions \<and> sc_status sc \<noteq> ''fresh_verified'') \<and>
      \<not> (sc_v7_calibration sc \<noteq> None \<and> 7 \<notin> set versions))"

definition valid_report :: "validator_report \<Rightarrow> bool" where
  "valid_report hb \<longleftrightarrow>
     (case vp_capabilities hb of None \<Rightarrow> True
      | Some caps \<Rightarrow> (case vcap_scorer_benchmarks caps of None \<Rightarrow> True | Some sc \<Rightarrow> support_matches_verified_identity sc))"

definition reported_scorer :: "validator_report \<Rightarrow> scorer_capability option" where
  "reported_scorer hb = (case vp_capabilities hb of None \<Rightarrow> None | Some caps \<Rightarrow> vcap_scorer_benchmarks caps)"

lemma inference_ready_scorer:
  assumes "inference_activation_ready lv v now rq" and "7 \<le> v"
  shows "\<exists>hb \<in> set (l_reports lv). \<exists>sc cal q. heartbeat_supports_version hb now v \<and> reported_scorer hb = Some sc \<and>
    sc_v7_calibration sc = Some cal \<and> rq = Some q \<and> Some (v7_manifest_sha256 cal) = ir_reviewed_manifest_sha256 q"
proof -
  from assms obtain q where q: "rq = Some q"
    and ex: "list_ex (report_serves_route q (set (map (\<lambda>r. (pr_provider r, pr_profile_revision r)) (ready_routes lv q now))) now v) (l_reports lv)"
    by (auto simp: inference_activation_ready_def Let_def split: if_splits option.splits)
  from ex obtain hb where hb: "hb \<in> set (l_reports lv)"
    and serves: "report_serves_route q (set (map (\<lambda>r. (pr_provider r, pr_profile_revision r)) (ready_routes lv q now))) now v hb"
    by (auto simp: list_ex_iff)
  from serves have "heartbeat_supports_version hb now v \<and>
      (\<exists>sc cal. reported_scorer hb = Some sc \<and> sc_v7_calibration sc = Some cal \<and> Some (v7_manifest_sha256 cal) = ir_reviewed_manifest_sha256 q)"
    by (auto simp: report_serves_route_def reported_scorer_def split: if_splits option.splits)
  with q hb show ?thesis by blast
qed

lemma heartbeat_supportsD:
  assumes "heartbeat_supports_version hb now v" and "reported_scorer hb = Some sc"
  shows "sc_status sc = ''fresh_verified''" "v \<in> set (sc_supported_bench_versions sc)"
  using assms
  by (auto simp: heartbeat_supports_version_def verified_scorer_for_version_def reported_scorer_def split: if_splits option.splits)

lemma valid_report_scorer: "valid_report hb \<Longrightarrow> reported_scorer hb = Some sc \<Longrightarrow> support_matches_verified_identity sc"
  by (auto simp: valid_report_def reported_scorer_def split: option.splits)

lemma calibration_needs_seven:
  "support_matches_verified_identity sc \<Longrightarrow> sc_v7_calibration sc = Some cal \<Longrightarrow> 7 \<in> set (sc_supported_bench_versions sc)"
  by (simp add: support_matches_verified_identity_def Let_def)

lemma ranked_quorumD:
  assumes "i \<in> ranked_quorum_agent_ids v ids d" and "distinct (map ag_agent_id (d_agents d))" and "ag \<in> set (d_agents d)" "ag_agent_id ag = i"
  shows "ag_status ag = AGENT_SCORED" "SCORING_QUORUM \<le> length (scores_of i v d)" "list_ex is_ranked (median_rows (scores_of i v d))"
proof -
  from assms(1) obtain ag' where ag': "ag' \<in> set (d_agents d)" "ag_agent_id ag' = i" "ag_status ag' = AGENT_SCORED"
      "SCORING_QUORUM \<le> length (scores_of i v d)" "list_ex is_ranked (median_rows (scores_of i v d))"
    by (auto simp: ranked_quorum_agent_ids_def Let_def)
  have "ag' = ag" using distinct_key_eq [OF assms(2) ag'(1) assms(3)] ag'(2) assms(4) by simp
  with ag' show "ag_status ag = AGENT_SCORED" "SCORING_QUORUM \<le> length (scores_of i v d)" "list_ex is_ranked (median_rows (scores_of i v d))"
    by simp_all
qed

text \<open>
  C8. What an activation proves. When a rollout is activated it was open and becomes the durable authority, which moves
  strictly forward. Every frozen member is a scored agent with a quorum of scores on the new version whose median ranks, the
  cohort is complete, and at least five distinct owner families stand behind it. For a version from 7 on, some validator with a
  fresh verified report serves that version and carries the reviewed calibration manifest; if the reports pass their schema, that
  validator also supports version 7.
\<close>

theorem activation_sound:
  assumes inv: "rollout_inv clock d" and r: "r \<in> set (d_rollouts d)" and now: "clock < now"
    and ids: "distinct (map ag_agent_id (d_agents d))"
    and act: "maybe_activate_rollout lv aid r now rq d = (d', True)"
  shows "open_status (ro_status r) \<and> persisted_active_bench_version d < ro_desired_version r
    \<and> persisted_active_bench_version d' = ro_desired_version r
    \<and> int (length (member_agents (ro_rollout_id r) d)) = ro_cohort_size r
    \<and> (\<forall>(m, ag) \<in> set (member_agents (ro_rollout_id r) d). ag_status ag = AGENT_SCORED
         \<and> SCORING_QUORUM \<le> length (scores_of (rm_agent_id m) (ro_desired_version r) d)
         \<and> list_ex is_ranked (median_rows (scores_of (rm_agent_id m) (ro_desired_version r) d)))
    \<and> 5 \<le> count_ranked_quorum_agents (l_env lv) (ro_desired_version r) (Some (rm_agent_id ` fst ` set (member_agents (ro_rollout_id r) d))) d
    \<and> (7 \<le> ro_desired_version r \<longrightarrow> (\<exists>hb \<in> set (l_reports lv). \<exists>sc cal q.
         heartbeat_supports_version hb now (ro_desired_version r) \<and> reported_scorer hb = Some sc \<and> sc_v7_calibration sc = Some cal \<and>
         rq = Some q \<and> Some (v7_manifest_sha256 cal) = ir_reviewed_manifest_sha256 q \<and>
         (valid_report hb \<longrightarrow> 7 \<in> set (sc_supported_bench_versions sc))))"
proof -
  let ?rows = "member_agents (ro_rollout_id r) d"
  let ?ids = "set (map (\<lambda>(m, ag). rm_agent_id m) ?rows)"
  let ?r = "r\<lparr>ro_status := ''activated'', ro_activated_at := Some now, ro_blocked_reason := None\<rparr>"
  from act have o: "open_status (ro_status r)" and len: "int (length ?rows) = ro_cohort_size r"
    and ranked: "ranked_quorum_agent_ids (ro_desired_version r) (Some ?ids) d = ?ids"
    and five: "MIN_DESIRED_AUTHORITY_AGENTS \<le> count_ranked_quorum_agents (l_env lv) (ro_desired_version r) (Some ?ids) d"
    and ready: "inference_activation_ready lv (ro_desired_version r) now rq"
    and d': "d' = append_rollout_audit aid ?r ''activated'' now (set_rollout ?r d)"
    unfolding maybe_activate_rollout_def Let_def by (auto split: if_splits)
  have eq: "?ids = rm_agent_id ` fst ` set ?rows" by force
  have moved: "persisted_active_bench_version d < ro_desired_version r" "persisted_active_bench_version d' = ro_desired_version r"
    unfolding d' using activate_step(3) [OF inv r o now] activate_step(2) [OF inv r o now] by simp_all
  have scored: "ag_status ag = AGENT_SCORED
         \<and> SCORING_QUORUM \<le> length (scores_of (rm_agent_id m) (ro_desired_version r) d)
         \<and> list_ex is_ranked (median_rows (scores_of (rm_agent_id m) (ro_desired_version r) d))" if "(m, ag) \<in> set ?rows" for m ag
  proof -
    from that have "ag \<in> set (d_agents d)" "ag_agent_id ag = rm_agent_id m" by (auto simp: member_agents_def)
    moreover have "rm_agent_id m \<in> ranked_quorum_agent_ids (ro_desired_version r) (Some ?ids) d" unfolding ranked using that by force
    ultimately show ?thesis using ranked_quorumD [OF _ ids] by blast
  qed
  have "7 \<le> ro_desired_version r \<longrightarrow> (\<exists>hb \<in> set (l_reports lv). \<exists>sc cal q.
         heartbeat_supports_version hb now (ro_desired_version r) \<and> reported_scorer hb = Some sc \<and> sc_v7_calibration sc = Some cal \<and>
         rq = Some q \<and> Some (v7_manifest_sha256 cal) = ir_reviewed_manifest_sha256 q \<and>
         (valid_report hb \<longrightarrow> 7 \<in> set (sc_supported_bench_versions sc)))"
    using inference_ready_scorer [OF ready] valid_report_scorer calibration_needs_seven by blast
  with o moved len scored five show ?thesis unfolding MIN_DESIRED_AUTHORITY_AGENTS_def eq by blast
qed

text \<open>
  A fleet whose scorers support version 8 only is never ready for it, although \<open>verified_scorer_for_version\<close> accepts such a
  scorer: readiness asks every version from 7 on for the calibration manifest, which the schema forbids without version 7.
\<close>

lemma v8_only_fleet_never_ready:
  assumes "\<forall>hb \<in> set (l_reports lv). valid_report hb \<and> (\<forall>sc. reported_scorer hb = Some sc \<longrightarrow> 7 \<notin> set (sc_supported_bench_versions sc))"
    and "7 \<le> v"
  shows "\<not> inference_activation_ready lv v now rq"
  using assms inference_ready_scorer [OF _ assms(2)] valid_report_scorer calibration_needs_seven by blast

text \<open>
  A frozen member that has gone live passes the status checks of the rollout and still blocks its activation for good: the ranked quorum only
  counts scored agents.
\<close>

lemma live_member_blocks_activation:
  assumes "distinct (map ag_agent_id (d_agents d))" and "(m, ag) \<in> set (member_agents (ro_rollout_id r) d)" and "ag_status ag = LIVE"
  shows "eligible_status ag" and "maybe_activate_rollout lv aid r now rq d = (d, False)"
proof -
  show "eligible_status ag" using assms(3) by (simp add: eligible_status_def)
  let ?rows = "member_agents (ro_rollout_id r) d"
  let ?ids = "set (map (\<lambda>(m, ag). rm_agent_id m) ?rows)"
  have "ranked_quorum_agent_ids (ro_desired_version r) (Some ?ids) d \<noteq> ?ids"
  proof
    assume "ranked_quorum_agent_ids (ro_desired_version r) (Some ?ids) d = ?ids"
    moreover have "rm_agent_id m \<in> ?ids" using assms(2) by force
    moreover have "ag \<in> set (d_agents d)" "ag_agent_id ag = rm_agent_id m" using assms(2) by (auto simp: member_agents_def)
    ultimately show False using ranked_quorumD(1) [OF _ assms(1), of "rm_agent_id m" "ro_desired_version r" "Some ?ids" ag] assms(3) by simp
  qed
  then show "maybe_activate_rollout lv aid r now rq d = (d, False)" unfolding maybe_activate_rollout_def Let_def by simp
qed

subsection \<open>A rollout that activates\<close>

definition demo_capability :: scorer_capability where
  "demo_capability = \<lparr>sc_status = ''fresh_verified'', sc_supported_bench_versions = [7, 8], sc_observed_at = Some 0,
     sc_software_version = Some ''1'', sc_source_revision = Some ''r'',
     sc_v7_calibration = Some \<lparr>v7_manifest_sha256 = ''m'',
       v7_supported_routes = [\<lparr>vr_model = ''x'', vr_provider = ''p'', vr_profile_revision = ''1''\<rparr>]\<rparr>\<rparr>"

definition demo_report :: validator_report where
  "demo_report = \<lparr>vp_validator_hotkey = ''v'', vp_seen_at = 0, vp_protocol_version = 12,
     vp_capabilities = Some \<lparr>vcap_screened_images = True, vcap_ticket_inference = True, vcap_signed_score_quorum = True,
       vcap_executor_isolation = ''rootless_dind'', vcap_scorer_benchmarks = Some demo_capability\<rparr>,
     vp_dittobench_api = Some \<lparr>ci_version = None, ci_source_revision = Some ''r''\<rparr>\<rparr>"

definition demo_requirements :: inference_requirements where
  "demo_requirements = \<lparr>ir_enabled = True, ir_provider_key_configured = True, ir_model = ''x'', ir_routing_mode = Adaptive,
     ir_reviewed_manifest_sha256 = Some ''m'', ir_aggregate_provider = None, ir_aggregate_profile_revision = None,
     ir_aggregate_calibration_samples = None, ir_route_observation_max_age = 100\<rparr>"

definition demo_live :: live where
  "demo_live = \<lparr>l_env = demo_env, l_reports = [demo_report],
     l_routes = [\<lparr>pr_model = ''x'', pr_provider = ''p'', pr_profile_revision = ''1'', pr_status = ''healthy'',
       pr_calibration_status = ''eligible'', pr_calibration_manifest_sha256 = Some ''m'', pr_last_observed_at = Some 0,
       pr_calibration_tool_accuracy = Some 1, pr_calibration_composite = Some 1, pr_calibration_sample_count = 10,
       pr_ewma_error_rate = 0, pr_ewma_timeout_rate = 0, pr_cooldown_until = None\<rparr>],
     l_policies = [\<lparr>rp_model = ''x'', rp_enabled = True, rp_min_tool_accuracy = 0, rp_min_composite = 0,
       rp_min_calibration_samples = 1, rp_max_error_rate = 1, rp_max_timeout_rate = 1\<rparr>],
     l_requirements = Some demo_requirements\<rparr>"

definition demo_rollout :: benchmark_rollout where
  "demo_rollout = \<lparr>ro_rollout_id = 1, ro_from_version = 7, ro_desired_version = 8, ro_status = ''collecting'', ro_created_at = 0,
     ro_activated_at = None, ro_cohort_size = 5, ro_rescore_cohort_target = 5, ro_priority_cohort_target = 5, ro_blocked_reason = None\<rparr>"

definition demo_members :: "(uuid \<times> hotkey) list" where
  "demo_members = [(1, ''h1''), (2, ''h2''), (3, ''h3''), (4, ''h4''), (5, ''h5'')]"

definition rollout_db :: db where
  "rollout_db = demo_db\<lparr>
     d_agents := map (\<lambda>(i, h). (demo_agent i h)\<lparr>ag_status := AGENT_SCORED\<rparr>) demo_members,
     d_scores := concat (map (\<lambda>(i, h). map (\<lambda>v. (demo_score v (1 / 2))\<lparr>s_agent_id := i, s_bench_version := 8\<rparr>) [''u'', ''v'', ''w'']) demo_members),
     d_payments := [], d_attestations := [], d_rollouts := [demo_rollout],
     d_rollout_members := map (\<lambda>(i, h). \<lparr>rm_rollout_id = 1, rm_agent_id = i, rm_position = int i, rm_frozen_miner_hotkey = h,
       rm_frozen_composite = 1\<rparr>) demo_members\<rparr>"

lemma rollout_db_inv: "rollout_inv 0 rollout_db"
proof -
  have "persisted_active_bench_version rollout_db = 7" by code_simp
  then show ?thesis by (simp add: rollout_inv_def row_ok_def rollout_db_def demo_db_def demo_rollout_def)
qed

lemma rollout_db_activates: "snd (maybe_activate_rollout demo_live 1 demo_rollout 1 (Some demo_requirements) rollout_db)"
  by code_simp

lemma rollout_db_basic:
  "demo_rollout \<in> set (d_rollouts rollout_db)" "distinct (map ag_agent_id (d_agents rollout_db))" "l_reports demo_live = [demo_report]"
  by (simp_all add: rollout_db_def demo_members_def demo_agent_def demo_live_def)

theorem activation_sound_witness:
  "persisted_active_bench_version (fst (maybe_activate_rollout demo_live 1 demo_rollout 1 (Some demo_requirements) rollout_db)) = 8
   \<and> heartbeat_supports_version demo_report 1 8"
proof -
  have v: "ro_desired_version demo_rollout = 8" by (simp add: demo_rollout_def)
  have "maybe_activate_rollout demo_live 1 demo_rollout 1 (Some demo_requirements) rollout_db =
      (fst (maybe_activate_rollout demo_live 1 demo_rollout 1 (Some demo_requirements) rollout_db), True)"
    using rollout_db_activates by (simp add: prod_eq_iff)
  from activation_sound [OF rollout_db_inv rollout_db_basic(1) zero_less_one rollout_db_basic(2) this]
  show ?thesis unfolding rollout_db_basic(3) v by auto
qed

end
