(* ===== verification/Rollout_Refresh.thy ===== *)
theory Rollout_Refresh
  imports Rollout
begin

text \<open>
  How a rollout gets and fills its cohort: the rankings it freezes (\<open>rolling_top_five\<close> and \<open>historical_rescore_cohort\<close> of
  \<open>db/queries/benchmark_rollout.py\<close>), the adoption of stranded submissions (\<open>db/queries/benchmark_carryover.py\<close>) and the
  convergence passes of \<open>api_server/benchmark_rollout.py\<close>. A pass is two transactions with dataset rendering between them;
  each is a function of the tables it finds, so anything may happen in between. The renderer is an argument.

  The last section runs every operation as one machine and shows that authority never moves back.
\<close>

subsection \<open>Rankings\<close>

text \<open>The loops that keep the first row of every owner until a limit is reached.\<close>

fun first_per_owner :: "('a \<Rightarrow> string) \<Rightarrow> nat \<Rightarrow> string set \<Rightarrow> 'a list \<Rightarrow> 'a list \<Rightarrow> 'a list" where
  "first_per_owner owner limit seen acc [] = acc"
| "first_per_owner owner limit seen acc (x # xs) =
     (if owner x \<in> seen then first_per_owner owner limit seen acc xs
      else if length (acc @ [x]) = limit then acc @ [x]
      else first_per_owner owner limit (insert (owner x) seen) (acc @ [x]) xs)"

definition median_row :: "score list \<Rightarrow> score" where
  "median_row rows = pool_order rows ! ((length rows - 1) div 2)"

definition hybrid_rows :: "int \<Rightarrow> int option \<Rightarrow> uuid \<Rightarrow> db \<Rightarrow> score list" where
  "hybrid_rows source_version target_version agent_id d =
     (let selected = (case target_version of None \<Rightarrow> [] | Some t \<Rightarrow> scores_of agent_id t d) in
      if target_version = None \<or> length selected < SCORING_QUORUM then scores_of agent_id source_version d else selected)"

definition top_five_candidates :: "int \<Rightarrow> int option \<Rightarrow> db \<Rightarrow> (agent \<times> rat) list" where
  "top_five_candidates source_version target_version d =
     sort_key (\<lambda>(ag, composite). (- composite, ag_created_at ag, ag_agent_id ag))
       (map (\<lambda>ag. (ag, s_composite (median_row (hybrid_rows source_version target_version (ag_agent_id ag) d))))
         (filter (\<lambda>ag. ag_status ag = AGENT_SCORED \<and>
            (let selected = hybrid_rows source_version target_version (ag_agent_id ag) d
             in selected \<noteq> [] \<and> \<not> (s_n (median_row selected) < 100 \<or> s_composite (median_row selected) \<le> 0))) (d_agents d)))"

definition snapshot_of :: "agent \<times> rat \<Rightarrow> snapshot_member" where
  "snapshot_of x = \<lparr>sn_agent_id = ag_agent_id (fst x), sn_miner_hotkey = ag_miner_hotkey (fst x), sn_composite = snd x\<rparr>"

definition rolling_top_five :: "live \<Rightarrow> time \<Rightarrow> db \<Rightarrow> snapshot_member list" where
  "rolling_top_five lv now d =
     (let rollout = open_rollout d;
          source_version = (case rollout of Some r \<Rightarrow> ro_from_version r | None \<Rightarrow> active_bench_version lv now d)
      in map snapshot_of
           (first_per_owner (\<lambda>(ag, composite). emission_owner_key ag d) (nat PRIORITY_COHORT_SIZE) {} []
              (top_five_candidates source_version (map_option ro_desired_version rollout) d)))"

definition finalized_agent :: "agent \<Rightarrow> bool" where
  "finalized_agent ag \<longleftrightarrow> ag_status ag \<in> {AGENT_SCORED, LIVE}"

definition historical_versions :: "int \<Rightarrow> db \<Rightarrow> int list" where
  "historical_versions source_version d =
     take 2 (rev (sort (remdups (filter (\<lambda>v. v \<le> source_version) (map s_bench_version (d_scores d))))))"

definition finalized_in :: "int \<Rightarrow> db \<Rightarrow> agent \<Rightarrow> bool" where
  "finalized_in version d ag \<longleftrightarrow>
     finalized_agent ag \<and>
     (let rows = scores_of (ag_agent_id ag) version d
      in length rows \<ge> SCORING_QUORUM \<and> \<not> (s_n (median_row rows) < 100 \<or> s_composite (median_row rows) \<le> 0))"

definition era_ranking :: "db \<Rightarrow> int \<Rightarrow> (agent \<times> rat) list" where
  "era_ranking d version =
     sort_key (\<lambda>(ag, composite). (- composite, ag_created_at ag, ag_agent_id ag))
       (map (\<lambda>ag. (ag, s_composite (median_row (scores_of (ag_agent_id ag) version d)))) (filter (finalized_in version d) (d_agents d)))"

text \<open>
  The owner root of every finalized agent. An agent that was taken has its owner among the seen ones, so the set of seen
  agents of the source never decides anything and the loop is \<open>first_per_owner\<close> over the eras in turn.
\<close>

definition family_root :: "env \<Rightarrow> db \<Rightarrow> agent \<Rightarrow> string" where
  "family_root env d ag =
     (let ags = filter finalized_agent (d_agents d) in
      case map_of (zip (map ag_agent_id ags) (the (attested_emission_owner_roots env d (identities_of ags d)))) (ag_agent_id ag) of
        Some node \<Rightarrow> node | None \<Rightarrow> [])"

definition historical_rescore_cohort :: "live \<Rightarrow> int \<Rightarrow> int \<Rightarrow> db \<Rightarrow> rollout_error + snapshot_member list" where
  "historical_rescore_cohort lv source_version limit d =
     (if \<not> (PRIORITY_COHORT_SIZE \<le> limit \<and> limit \<le> MAX_PERSISTED_RESCORE_COHORT_SIZE) then
        Inl (RolloutValueError ''rollout cohort limit out of range'')
      else Inr (map snapshot_of
        (first_per_owner (\<lambda>(ag, composite). family_root (l_env lv) d ag) (nat limit) {} []
           (concat (map (era_ranking d) (historical_versions source_version d))))))"

subsection \<open>The cohort of an open rollout\<close>

fun fill_cohort :: "int \<Rightarrow> uuid set \<Rightarrow> snapshot_member list \<Rightarrow> snapshot_member list \<Rightarrow> snapshot_member list" where
  "fill_cohort target seen cohort [] = cohort"
| "fill_cohort target seen cohort (m # ms) =
     (if sn_agent_id m \<in> seen then fill_cohort target seen cohort ms
      else if int (length (cohort @ [m])) = target then cohort @ [m]
      else fill_cohort target (insert (sn_agent_id m) seen) (cohort @ [m]) ms)"

definition rollout_rescore_cohort :: "live \<Rightarrow> benchmark_rollout \<Rightarrow> int option \<Rightarrow> db \<Rightarrow> rollout_error + snapshot_member list" where
  "rollout_rescore_cohort lv r target_override d =
     (let existing = sort_key rm_position (members_of (ro_rollout_id r) d);
          target = (case target_override of None \<Rightarrow> ro_rescore_cohort_target r | Some t \<Rightarrow> t);
          cohort = map (\<lambda>m. \<lparr>sn_agent_id = rm_agent_id m, sn_miner_hotkey = rm_frozen_miner_hotkey m,
                     sn_composite = rm_frozen_composite m\<rparr>) existing
      in if int (length existing) > MAX_PERSISTED_RESCORE_COHORT_SIZE then
           Inl (RolloutValueError ''existing benchmark rollout exceeds the top-25 bound'')
         else if \<not> (PRIORITY_COHORT_SIZE \<le> target \<and> target \<le> MAX_PERSISTED_RESCORE_COHORT_SIZE) then
           Inl (RolloutValueError ''benchmark rollout rescore target is out of range'')
         else if int (length existing) \<ge> target then Inr cohort
         else map_sum id (fill_cohort target (set (map sn_agent_id cohort)) cohort)
                (historical_rescore_cohort lv (ro_from_version r) target d))"

datatype seed_source = Versioned_Pin | Legacy_Pin | Source_Scores_Canonical_Min | Historical_Scores_Latest_Min

record pending_qualification =
  pq_member :: snapshot_member
  pq_seed :: int
  pq_run_size :: string
  pq_seed_block :: "int option"
  pq_seed_block_hash :: "string option"
  pq_seed_source :: seed_source
  pq_existing_sha256 :: "string option"

text \<open>Python's \<open>or\<close> on optional text: absent and empty fall through.\<close>

definition or_text :: "string option \<Rightarrow> string option \<Rightarrow> string option" where
  "or_text x y = (case x of Some s \<Rightarrow> if s = [] then y else Some s | None \<Rightarrow> y)"

text \<open>
  The scores are ordered by version descending, so the first row names the latest one. \<open>Inl\<close> is the reason a candidate cannot
  qualify.
\<close>

definition qualification_candidate ::
  "int \<Rightarrow> int \<Rightarrow> snapshot_member \<Rightarrow> string option \<Rightarrow> db \<Rightarrow> string + pending_qualification" where
  "qualification_candidate source_version target_version m generator_run_size d =
     (case get_row ag_agent_id (sn_agent_id m) (d_agents d) of None \<Rightarrow> Inl ''assertion''
      | Some ag \<Rightarrow>
      case get_row (\<lambda>b. (bd_agent_id b, bd_bench_version b)) (sn_agent_id m, target_version) (d_datasets d) of
        Some b \<Rightarrow> Inr \<lparr>pq_member = m, pq_seed = bd_seed b, pq_run_size = bd_run_size b, pq_seed_block = bd_seed_block b,
                     pq_seed_block_hash = bd_seed_block_hash b, pq_seed_source = Versioned_Pin, pq_existing_sha256 = Some (bd_sha256 b)\<rparr>
      | None \<Rightarrow>
      case (ag_dataset_seed ag, ag_dataset_sha256 ag, ag_dataset_run_size ag) of
        (Some seed, Some _, Some run_size) \<Rightarrow>
          Inr \<lparr>pq_member = m, pq_seed = seed, pq_run_size = run_size, pq_seed_block = ag_dataset_seed_block ag,
               pq_seed_block_hash = ag_dataset_seed_block_hash ag, pq_seed_source = Legacy_Pin, pq_existing_sha256 = None\<rparr>
      | _ \<Rightarrow>
      (let rows = filter (\<lambda>s. s_agent_id s = sn_agent_id m \<and> s_bench_version s \<le> source_version) (d_scores d);
           latest = fold max (map s_bench_version rows) 0;
           seeds = map s_seed (filter (\<lambda>s. s_bench_version s = latest) rows);
           pick = (if seeds \<noteq> [] then
                     Some (Min (set seeds), None, None,
                       if latest = source_version then Source_Scores_Canonical_Min else Historical_Scores_Latest_Min)
                   else case ag_dataset_seed ag of
                     Some seed \<Rightarrow> Some (seed, ag_dataset_seed_block ag, ag_dataset_seed_block_hash ag, Legacy_Pin)
                   | None \<Rightarrow> None)
       in case pick of None \<Rightarrow> Inl ''missing_dataset_seed''
          | Some (seed, block, block_hash, source) \<Rightarrow>
            (case or_text (ag_dataset_run_size ag) generator_run_size of
               None \<Rightarrow> Inl ''dataset_generator_disabled''
             | Some run_size \<Rightarrow>
                 Inr \<lparr>pq_member = m, pq_seed = seed, pq_run_size = run_size, pq_seed_block = block, pq_seed_block_hash = block_hash,
                      pq_seed_source = source, pq_existing_sha256 = None\<rparr>)))"

definition pq_pin :: "pending_qualification \<Rightarrow> string \<Rightarrow> dataset_pin" where
  "pq_pin q sha256 = \<lparr>dp_seed = pq_seed q, dp_sha256 = sha256, dp_run_size = pq_run_size q,
     dp_seed_block = pq_seed_block q, dp_seed_block_hash = pq_seed_block_hash q\<rparr>"

definition render :: "(int \<Rightarrow> int \<Rightarrow> string) \<Rightarrow> int \<Rightarrow> pending_qualification \<Rightarrow> string" where
  "render generate desired_version q =
     (case pq_existing_sha256 q of Some s \<Rightarrow> if s = [] then generate (pq_seed q) desired_version else s
      | None \<Rightarrow> generate (pq_seed q) desired_version)"

subsection \<open>Carryover\<close>

datatype dedupe_scope = Dedupe_Coldkey | Dedupe_Hotkey | Dedupe_None

record carryover_settings =
  co_enabled :: bool
  co_max_agents :: int
  co_min_score_count :: int
  co_include_exhausted :: bool
  co_dedupe_scope :: dedupe_scope

record stranded_candidate =
  sg_agent_id :: uuid
  sg_miner_hotkey :: hotkey
  sg_owner_key :: string
  sg_score_count :: int
  sg_created_at :: time

definition TERMINALLY_REJECTED_STATUSES :: "agent_status set" where
  "TERMINALLY_REJECTED_STATUSES = {REJECTED, BANNED, SCREENING_FAILED}"

definition dedupe_owner_key :: "dedupe_scope \<Rightarrow> agent \<Rightarrow> db \<Rightarrow> string" where
  "dedupe_owner_key scope ag d = (if scope = Dedupe_Coldkey then emission_owner_key ag d else hotkey_node (ag_miner_hotkey ag))"

definition carryover_of :: "benchmark_rollout \<Rightarrow> db \<Rightarrow> rollout_carryover list" where
  "carryover_of r d = filter (\<lambda>c. cv_rollout_id c = ro_rollout_id r) (d_rollout_carryover d)"

definition carryover_agent_ids :: "benchmark_rollout \<Rightarrow> db \<Rightarrow> uuid list" where
  "carryover_agent_ids r d = map cv_agent_id (sort_key cv_position (carryover_of r d))"

definition newer_sibling :: "dedupe_scope \<Rightarrow> db \<Rightarrow> agent \<Rightarrow> bool" where
  "newer_sibling scope d ag \<longleftrightarrow>
     list_ex (\<lambda>s. ag_agent_id s \<noteq> ag_agent_id ag \<and> ag_created_at s > ag_created_at ag \<and>
       ag_status s \<notin> TERMINALLY_REJECTED_STATUSES \<and> dedupe_owner_key scope s d = dedupe_owner_key scope ag d) (d_agents d)"

definition stranded :: "env \<Rightarrow> benchmark_rollout \<Rightarrow> carryover_settings \<Rightarrow> db \<Rightarrow> agent \<Rightarrow> bool" where
  "stranded env r settings d ag \<longleftrightarrow>
     (let score_count = int (length (scores_of (ag_agent_id ag) (ro_from_version r) d)) in
      ag_status ag = EVALUATING \<and> ag_created_at ag < ro_created_at r \<and>
      ag_screening_policy_version ag \<ge> e_screening_policy_version env \<and>
      score_count \<ge> co_min_score_count settings \<and> score_count < int SCORING_QUORUM \<and>
      \<not> agent_is_rollout_member r (ag_agent_id ag) d \<and>
      \<not> list_ex (\<lambda>c. cv_agent_id c = ag_agent_id ag) (carryover_of r d) \<and>
      \<not> list_ex (\<lambda>e. a_agent_id e = ag_agent_id ag \<and> a_event e = benchmark_contract_refresh_event (ro_desired_version r)) (d_score_audit d) \<and>
      validator_queue_admission (ro_from_version r) d ag \<and> validator_queue_admission (ro_desired_version r) d ag \<and>
      retirement_admission (ro_from_version r) d ag \<and>
      (co_dedupe_scope settings \<noteq> Dedupe_None \<longrightarrow> \<not> newer_sibling (co_dedupe_scope settings) d ag))"

fun pick_stranded ::
  "dedupe_scope \<Rightarrow> uuid set \<Rightarrow> int \<Rightarrow> string set \<Rightarrow> stranded_candidate list \<Rightarrow> stranded_candidate list \<Rightarrow> stranded_candidate list" where
  "pick_stranded scope excluded remaining seen acc [] = acc"
| "pick_stranded scope excluded remaining seen acc (c # cs) =
     (if sg_agent_id c \<in> excluded then pick_stranded scope excluded remaining seen acc cs
      else if scope \<noteq> Dedupe_None \<and> sg_owner_key c \<in> seen then pick_stranded scope excluded remaining seen acc cs
      else let seen' = (if scope \<noteq> Dedupe_None then insert (sg_owner_key c) seen else seen) in
        if int (length (acc @ [c])) = remaining then acc @ [c]
        else pick_stranded scope excluded remaining seen' (acc @ [c]) cs)"

text \<open>\<open>exhausted\<close> are the agents whose retry state is \<open>exhausted\<close> (\<open>classify_agent_retry_states\<close>).\<close>

definition stranded_prev_gen_candidates ::
  "env \<Rightarrow> benchmark_rollout \<Rightarrow> carryover_settings \<Rightarrow> uuid set \<Rightarrow> db \<Rightarrow> stranded_candidate list" where
  "stranded_prev_gen_candidates env r settings exhausted d =
     (let rows = map (\<lambda>ag. \<lparr>sg_agent_id = ag_agent_id ag, sg_miner_hotkey = ag_miner_hotkey ag,
                   sg_owner_key = dedupe_owner_key (co_dedupe_scope settings) ag d,
                   sg_score_count = int (length (scores_of (ag_agent_id ag) (ro_from_version r) d)), sg_created_at = ag_created_at ag\<rparr>)
                 (filter (stranded env r settings d) (d_agents d));
          ordered = sort_key (\<lambda>c. (- sg_score_count c, sg_created_at c, sg_agent_id c)) rows;
          adopted = carryover_of r d;
          remaining = co_max_agents settings - int (length adopted)
      in if ordered = [] \<or> remaining \<le> 0 then []
         else pick_stranded (co_dedupe_scope settings) (if co_include_exhausted settings then {} else exhausted) remaining
                (set (map cv_frozen_owner_key adopted)) [] ordered)"

definition adopt_carryover_agent ::
  "uuid \<Rightarrow> benchmark_rollout \<Rightarrow> stranded_candidate \<Rightarrow> dataset_pin \<Rightarrow> time \<Rightarrow> db \<Rightarrow> rollout_error + db \<times> bool" where
  "adopt_carryover_agent audit_id r c pin now d =
     (if \<not> open_status (ro_status r) then Inr (d, False)
      else if list_ex (\<lambda>x. cv_agent_id x = sg_agent_id c) (carryover_of r d) then Inr (d, False)
      else case pin_dataset (sg_agent_id c) (ro_desired_version r) pin (d_datasets d) of
        None \<Rightarrow> Inl (RolloutValueError ''existing benchmark dataset does not match carryover'')
      | Some ds \<Rightarrow>
          Inr (append_rollout_audit audit_id r ''carryover_adopted'' now
            (d\<lparr>d_rollout_carryover := d_rollout_carryover d @
                 [\<lparr>cv_rollout_id = ro_rollout_id r, cv_agent_id = sg_agent_id c,
                   cv_position = fold max (map cv_position (carryover_of r d)) 0 + 1,
                   cv_frozen_score_count = sg_score_count c, cv_frozen_owner_key = sg_owner_key c\<rparr>],
               d_datasets := ds\<rparr>), True))"

subsection \<open>The convergence pass\<close>

type_synonym adoption = "stranded_candidate \<times> pending_qualification"

definition stranded_member :: "stranded_candidate \<Rightarrow> snapshot_member" where
  "stranded_member c = \<lparr>sn_agent_id = sg_agent_id c, sn_miner_hotkey = sg_miner_hotkey c, sn_composite = 0\<rparr>"

definition qualify :: "benchmark_rollout \<Rightarrow> string option \<Rightarrow> db \<Rightarrow> snapshot_member \<Rightarrow> string + pending_qualification" where
  "qualify r run_size d m = qualification_candidate (ro_from_version r) (ro_desired_version r) m run_size d"

definition right_of :: "'e + 'a \<Rightarrow> 'a option" where
  "right_of x = (case x of Inl _ \<Rightarrow> None | Inr y \<Rightarrow> Some y)"

definition select_carryover ::
  "env \<Rightarrow> benchmark_rollout \<Rightarrow> carryover_settings \<Rightarrow> uuid set \<Rightarrow> string option \<Rightarrow> db \<Rightarrow> adoption list" where
  "select_carryover env r settings exhausted run_size d =
     (if \<not> co_enabled settings then []
      else List.map_filter (\<lambda>c. map_option (\<lambda>q. (c, q)) (right_of (qualify r run_size d (stranded_member c))))
             (stranded_prev_gen_candidates env r settings exhausted d))"

text \<open>\<open>None\<close> in place of the work list is the early return.\<close>

definition refresh_prepare ::
  "live \<Rightarrow> string option \<Rightarrow> carryover_settings \<Rightarrow> uuid set \<Rightarrow> db \<Rightarrow>
   rollout_error + db \<times> (uuid \<times> pending_qualification list \<times> adoption list) option" where
  "refresh_prepare lv run_size settings exhausted d =
     (case open_rollout d of None \<Rightarrow> Inr (d, None)
      | Some r \<Rightarrow>
        (case rollout_rescore_cohort lv r None d of Inl e \<Rightarrow> Inl e
         | Inr cohort \<Rightarrow>
             if int (length cohort) < PRIORITY_COHORT_SIZE then Inr (d, None)
             else let r' = r\<lparr>ro_cohort_size := int (length cohort)\<rparr>; d' = set_rollout r' d in
               Inr (d', Some (ro_rollout_id r,
                 List.map_filter (\<lambda>m. right_of (qualify r run_size d' m))
                   (filter (\<lambda>m. \<not> agent_is_rollout_member r (sn_agent_id m) d) cohort),
                 select_carryover (l_env lv) r' settings exhausted run_size d'))))"

fun commit_members ::
  "uuid \<Rightarrow> benchmark_rollout \<Rightarrow> snapshot_member list \<Rightarrow> string option \<Rightarrow> time \<Rightarrow> (uuid \<times> pending_qualification \<times> string) list \<Rightarrow>
   db \<Rightarrow> rollout_error + db \<times> nat" where
  "commit_members rid r cohort run_size now [] d = Inr (d, 0)"
| "commit_members rid r cohort run_size now ((audit_id, q, sha256) # rest) d =
     (case get_row sn_agent_id (sn_agent_id (pq_member q)) cohort of
        None \<Rightarrow> commit_members rid r cohort run_size now rest d
      | Some m \<Rightarrow>
          if qualify r run_size d m \<noteq> Inr q then commit_members rid r cohort run_size now rest d
          else case append_rollout_member audit_id rid (pq_member q) (pq_pin q sha256) now d of
            Inl e \<Rightarrow> Inl e
          | Inr (d', b) \<Rightarrow> map_sum id (\<lambda>(d'', n). (d'', n + (if b then 1 else 0))) (commit_members rid r cohort run_size now rest d'))"

fun adopt_all ::
  "benchmark_rollout \<Rightarrow> time \<Rightarrow> (uuid \<times> adoption \<times> string) list \<Rightarrow> db \<Rightarrow> rollout_error + db \<times> nat" where
  "adopt_all r now [] d = Inr (d, 0)"
| "adopt_all r now ((audit_id, (c, q), sha256) # rest) d =
     (if qualify r (Some (pq_run_size q)) d (pq_member q) \<noteq> Inr q then adopt_all r now rest d
      else case adopt_carryover_agent audit_id r c (pq_pin q sha256) now d of
        Inl e \<Rightarrow> Inl e
      | Inr (d', b) \<Rightarrow> map_sum id (\<lambda>(d'', n). (d'', n + (if b then 1 else 0))) (adopt_all r now rest d'))"

definition refresh_commit ::
  "live \<Rightarrow> uuid \<Rightarrow> string option \<Rightarrow> (uuid \<times> pending_qualification \<times> string) list \<Rightarrow> (uuid \<times> adoption \<times> string) list \<Rightarrow> uuid \<Rightarrow>
   inference_requirements option \<Rightarrow> time \<Rightarrow> db \<Rightarrow> rollout_error + db \<times> nat" where
  "refresh_commit lv rid run_size rendered carried audit_id requirements now d =
     (case get_row ro_rollout_id rid (d_rollouts d) of None \<Rightarrow> Inr (d, 0)
      | Some r \<Rightarrow>
          if \<not> open_status (ro_status r) then Inr (d, 0)
          else case rollout_rescore_cohort lv r None d of Inl e \<Rightarrow> Inl e
          | Inr cohort \<Rightarrow>
            (case commit_members rid r cohort run_size now rendered d of Inl e \<Rightarrow> Inl e
             | Inr (d1, appended) \<Rightarrow>
               (case get_row ro_rollout_id rid (d_rollouts d1) of None \<Rightarrow> Inr (d1, appended)
                | Some r1 \<Rightarrow>
                  (case adopt_all r1 now carried d1 of Inl e \<Rightarrow> Inl e
                   | Inr (d2, adopted) \<Rightarrow> Inr (fst (maybe_activate_rollout lv audit_id r1 now requirements d2), appended)))))"

subsection \<open>Expansion by an operator\<close>

definition expand_prepare ::
  "live \<Rightarrow> string option \<Rightarrow> int \<Rightarrow> int \<Rightarrow> int \<Rightarrow> int \<Rightarrow> time \<Rightarrow> db \<Rightarrow> rollout_error + uuid \<times> pending_qualification list" where
  "expand_prepare lv run_size desired_version expected_active_version expected_current_target new_target now d =
     (if \<not> (PRIORITY_COHORT_SIZE \<le> expected_current_target \<and> expected_current_target < new_target) then
        Inl (RolloutConflictError ''rollout expansion must increase the current target'')
      else if new_target > MAX_PERSISTED_RESCORE_COHORT_SIZE then
        Inl (RolloutConflictError ''rollout expansion target is too large'')
      else if active_bench_version lv now d \<noteq> expected_active_version then Inl (RolloutConflictError ''active benchmark changed'')
      else case open_rollout d of None \<Rightarrow> Inl (RolloutConflictError ''no open benchmark rollout is available'')
      | Some r \<Rightarrow>
        if ro_desired_version r \<noteq> desired_version then Inl (RolloutConflictError ''no open benchmark rollout is available'')
        else if ro_rescore_cohort_target r \<noteq> expected_current_target then
          Inl (RolloutConflictError ''rollout rescore target changed'')
        else case rollout_rescore_cohort lv r (Some new_target) d of Inl e \<Rightarrow> Inl e
        | Inr cohort \<Rightarrow>
          if int (length cohort) \<noteq> new_target then Inl (RolloutConflictError ''too few qualified historical members'')
          else let fresh = filter (\<lambda>m. sn_agent_id m \<notin> member_ids r d) cohort in
            if list_ex (\<lambda>m. right_of (qualify r run_size d m) = None) fresh then
              Inl (RolloutConflictError ''a cohort agent cannot qualify'')
            else let pending = List.map_filter (\<lambda>m. right_of (qualify r run_size d m)) fresh in
              if int (card (member_ids r d) + length pending) \<noteq> new_target then
                Inl (RolloutConflictError ''rollout membership changed while expansion was prepared'')
              else Inr (ro_rollout_id r, pending))"

fun append_all ::
  "uuid \<Rightarrow> time \<Rightarrow> (uuid \<times> pending_qualification \<times> string) list \<Rightarrow> db \<Rightarrow> rollout_error + db \<times> nat" where
  "append_all rid now [] d = Inr (d, 0)"
| "append_all rid now ((audit_id, q, sha256) # rest) d =
     (case append_rollout_member audit_id rid (pq_member q) (pq_pin q sha256) now d of
        Inl e \<Rightarrow> Inl e
      | Inr (d', b) \<Rightarrow> map_sum id (\<lambda>(d'', n). (d'', n + (if b then 1 else 0))) (append_all rid now rest d'))"

definition expand_commit ::
  "live \<Rightarrow> string option \<Rightarrow> uuid \<Rightarrow> int \<Rightarrow> int \<Rightarrow> int \<Rightarrow> int \<Rightarrow> (uuid \<times> pending_qualification \<times> string) list \<Rightarrow> uuid \<Rightarrow> time \<Rightarrow> db \<Rightarrow>
   rollout_error + db \<times> nat" where
  "expand_commit lv run_size rid desired_version expected_active_version expected_current_target new_target rendered audit_id now d =
     (if active_bench_version lv now d \<noteq> expected_active_version then
        Inl (RolloutConflictError ''active benchmark changed while expansion datasets were rendered'')
      else case get_row ro_rollout_id rid (d_rollouts d) of
        None \<Rightarrow> Inl (RolloutConflictError ''open rollout changed while expansion datasets were rendered'')
      | Some r \<Rightarrow>
        if \<not> open_status (ro_status r) \<or> ro_desired_version r \<noteq> desired_version \<or> ro_rescore_cohort_target r \<noteq> expected_current_target then
          Inl (RolloutConflictError ''open rollout changed while expansion datasets were rendered'')
        else case rollout_rescore_cohort lv r (Some new_target) d of Inl e \<Rightarrow> Inl e
        | Inr cohort \<Rightarrow>
          if int (card (set (map sn_agent_id cohort))) \<noteq> new_target \<or>
             list_ex (\<lambda>(i, q, sha256). case get_row sn_agent_id (sn_agent_id (pq_member q)) cohort of
                 None \<Rightarrow> True | Some m \<Rightarrow> qualify r run_size d m \<noteq> Inr q) rendered
          then Inl (RolloutConflictError ''rollout ranking changed while expansion datasets were rendered'')
          else let d1 = set_rollout (r\<lparr>ro_rescore_cohort_target := new_target\<rparr>) d in
            case append_all rid now rendered d1 of Inl e \<Rightarrow> Inl e
            | Inr (d2, appended) \<Rightarrow>
              if appended \<noteq> length rendered then Inl (RolloutConflictError ''rollout membership changed while expansion was committed'')
              else case get_row ro_rollout_id rid (d_rollouts d2) of
                None \<Rightarrow> Inl (RolloutConflictError ''assertion'')
              | Some r2 \<Rightarrow>
                let r3 = r2\<lparr>ro_cohort_size := new_target\<rparr> in
                Inr (append_rollout_audit audit_id r3 ''cohort_expanded'' now (set_rollout r3 d2), appended))"

subsection \<open>Starting a rollout\<close>

fun render_pins :: "(int \<Rightarrow> int \<Rightarrow> string) \<Rightarrow> int \<Rightarrow> int \<Rightarrow> string option \<Rightarrow> db \<Rightarrow> snapshot_member list \<Rightarrow>
    rollout_error + (uuid \<times> dataset_pin) list" where
  "render_pins generate from_version target run_size d [] = Inr []"
| "render_pins generate from_version target run_size d (m # ms) =
     (case qualification_candidate from_version target m run_size d of
        Inl blocker \<Rightarrow> Inl (RolloutConflictError blocker)
      | Inr q \<Rightarrow> map_sum id (\<lambda>ps. (sn_agent_id m, pq_pin q (render generate target q)) # ps)
                   (render_pins generate from_version target run_size d ms))"

text \<open>
  The checks before a start: the deployed proxy configuration, one capable validator, and from version 7 on a reviewed
  calibrated route that a capable validator supports. Every rollout targets version 7 or later, so the aggregate route is
  that of \<open>V7_MODEL\<close>.
\<close>

record proxy_settings =
  ps_enabled :: bool
  ps_openrouter_api_key :: "string option"
  ps_routing_mode :: routing_mode
  ps_reviewed_calibration_manifest_sha256 :: "string option"

definition AGGREGATE_PROVIDER :: string where "AGGREGATE_PROVIDER = ''openrouter''"
definition AGGREGATE_CALIBRATION_SAMPLES :: int where "AGGREGATE_CALIBRATION_SAMPLES = 60"
definition V7_AGGREGATE_PROFILE_REVISION :: string where
  "V7_AGGREGATE_PROFILE_REVISION = ''openrouter-route-a471cd87ae7df5b9-v1''"
definition MINIMUM_ROLLOUT_START_VALIDATORS :: nat where "MINIMUM_ROLLOUT_START_VALIDATORS = 1"

definition calibrated_route :: "int \<Rightarrow> routing_mode \<Rightarrow> string option \<Rightarrow> provider_route \<Rightarrow> routing_policy \<Rightarrow> bool" where
  "calibrated_route desired_version mode reviewed_manifest_sha256 r pol \<longleftrightarrow>
     rp_model pol = pr_model r \<and> pr_model r = benchmark_model desired_version \<and>
     (case mode of
        Adaptive \<Rightarrow> rp_enabled pol \<and> pr_calibration_sample_count r \<ge> rp_min_calibration_samples pol
      | Aggregate_Throughput \<Rightarrow>
          pr_provider r = AGGREGATE_PROVIDER \<and> pr_profile_revision r = V7_AGGREGATE_PROFILE_REVISION \<and>
          pr_calibration_sample_count r = AGGREGATE_CALIBRATION_SAMPLES) \<and>
     pr_status r \<in> {''discovered'', ''healthy''} \<and> pr_calibration_status r = ''eligible'' \<and>
     ge_null (pr_calibration_tool_accuracy r) (rp_min_tool_accuracy pol) \<and>
     ge_null (pr_calibration_composite r) (rp_min_composite pol) \<and>
     pr_calibration_manifest_sha256 r \<noteq> None \<and>
     (reviewed_manifest_sha256 \<noteq> None \<longrightarrow> pr_calibration_manifest_sha256 r = reviewed_manifest_sha256)"

definition report_matches_route :: "int \<Rightarrow> time \<Rightarrow> provider_route list \<Rightarrow> validator_report \<Rightarrow> bool" where
  "report_matches_route desired_version now routes hb \<longleftrightarrow>
     heartbeat_supports_version hb now desired_version \<and>
     (case vp_capabilities hb of None \<Rightarrow> False
      | Some caps \<Rightarrow>
        (case (case vcap_scorer_benchmarks caps of None \<Rightarrow> None | Some scorer \<Rightarrow> sc_v7_calibration scorer) of
           None \<Rightarrow> False
         | Some calibration \<Rightarrow>
             list_ex (\<lambda>r. pr_calibration_manifest_sha256 r = Some (v7_manifest_sha256 calibration) \<and>
               list_ex (\<lambda>x. vr_model x = pr_model r \<and> vr_provider x = pr_provider r \<and> vr_profile_revision x = pr_profile_revision r)
                 (v7_supported_routes calibration)) routes))"

text \<open>\<open>None\<close> lets the start pass; \<open>Some\<close> is the detail of the 409.\<close>

definition require_rollout_start_capacity :: "live \<Rightarrow> time \<Rightarrow> int \<Rightarrow> routing_mode \<Rightarrow> string option \<Rightarrow> string option" where
  "require_rollout_start_capacity lv now desired_version mode reviewed_manifest_sha256 =
     (if length (filter (\<lambda>hb. heartbeat_supports_version hb now desired_version) (l_reports lv)) < MINIMUM_ROLLOUT_START_VALIDATORS then
        Some ''rollout requires fresh, identity-matched scorer validators''
      else if desired_version \<ge> 7 then
        (let routes = filter (\<lambda>r. list_ex (calibrated_route desired_version mode reviewed_manifest_sha256 r) (l_policies lv)) (l_routes lv) in
         if routes = [] then Some ''rollout requires at least one healthy reviewed inference calibration''
         else if \<not> list_ex (report_matches_route desired_version now routes) (l_reports lv) then
           Some ''rollout requires a capable validator whose exact route and manifest match''
         else None)
      else None)"

definition proxy_undeployed :: "int \<Rightarrow> proxy_settings option \<Rightarrow> bool" where
  "proxy_undeployed target cfg =
     (case cfg of None \<Rightarrow> False
      | Some c \<Rightarrow> target \<ge> 7 \<and>
          (\<not> ps_enabled c \<or> ps_openrouter_api_key c = None \<or> ps_reviewed_calibration_manifest_sha256 c = None))"

definition start_blocked :: "live \<Rightarrow> proxy_settings option \<Rightarrow> time \<Rightarrow> int \<Rightarrow> string option" where
  "start_blocked lv cfg now target =
     (if proxy_undeployed target cfg then Some ''rollout requires the enabled platform inference proxy''
      else require_rollout_start_capacity lv now target
             (case cfg of Some c \<Rightarrow> ps_routing_mode c | None \<Rightarrow> Adaptive)
             (case cfg of Some c \<Rightarrow> if target \<ge> 7 then ps_reviewed_calibration_manifest_sha256 c else None | None \<Rightarrow> None))"

definition expected_confirmation :: "string \<Rightarrow> int \<Rightarrow> string" where
  "expected_confirmation action version = action @ '' BENCHMARK V'' @ dec_int version"

text \<open>
  A request to start: the parsed version of the path, the payload, the operator policy read once, the dataset generator's run size,
  and the identifiers the transaction draws.
\<close>

record start_request =
  st_target :: int
  st_confirmation :: string
  st_expected_active_version :: int
  st_rescore_cohort_size :: int
  st_priority_cohort_size :: int
  st_run_size :: "string option"
  st_rollout_id :: uuid
  st_audit_id :: uuid

text \<open>
  \<open>start_rollout\<close> of the admin endpoint. \<open>Inr (d, None)\<close> is the idempotent case, in which the endpoint runs a convergence pass
  instead. A generator that fails ends the request like any other error and is left out.
\<close>

definition start_rollout ::
  "live \<Rightarrow> proxy_settings option \<Rightarrow> (int \<Rightarrow> int \<Rightarrow> string) \<Rightarrow> start_request \<Rightarrow> time \<Rightarrow> db \<Rightarrow>
   rollout_error + db \<times> benchmark_rollout option" where
  "start_rollout lv cfg generate q now d =
     (let target = st_target q in
      if get_contract target = None then Inl (RolloutConflictError ''benchmark version has no shipped contract'')
      else if st_confirmation q \<noteq> expected_confirmation ''START'' target then Inl (RolloutConflictError ''confirm this operation'')
      else if target < MIN_SCOREABLE_BENCH_VERSION then Inl (RolloutConflictError ''benchmark is retired'')
      else let from_version = active_bench_version lv now d in
      if st_expected_active_version q \<noteq> from_version then Inl (RolloutConflictError ''active benchmark changed'')
      else let existing = (case rollout_for_desired_version target d of None \<Rightarrow> None
             | Some r \<Rightarrow> if ro_status r = ''superseded'' \<and> ro_from_version r \<noteq> from_version then None else Some r) in
      case existing of Some r \<Rightarrow> Inr (d, None)
      | None \<Rightarrow>
        if target \<le> from_version then Inl (RolloutConflictError ''cannot start benchmark rollout'')
        else case start_blocked lv cfg now target of Some reason \<Rightarrow> Inl (RolloutConflictError reason)
        | None \<Rightarrow>
        (case historical_rescore_cohort lv from_version (st_rescore_cohort_size q) d of Inl e \<Rightarrow> Inl e
         | Inr members \<Rightarrow>
          if int (length members) < PRIORITY_COHORT_SIZE then Inl (RolloutConflictError ''rollout requires eligible distinct miners'')
          else case render_pins generate from_version target (st_run_size q) d members of Inl e \<Rightarrow> Inl e
          | Inr pins \<Rightarrow>
            map_sum id (\<lambda>(d', r). (d', Some r))
              (create_rollout_snapshot (st_rollout_id q) (st_audit_id q) members pins now from_version target
                 (st_rescore_cohort_size q) (st_priority_cohort_size q) d)))"

subsection \<open>Authority along every run\<close>

text \<open>
  The operations, one transaction each; an operation that raises is rolled back. \<open>Outside\<close> is any transaction of the rest of
  the service, which writes every table except the rollout's own.
\<close>

datatype rollout_op =
    Start live "proxy_settings option" "int \<Rightarrow> int \<Rightarrow> string" start_request
  | Refresh_Prepare live "string option" carryover_settings "uuid set"
  | Refresh_Commit live uuid "string option" "(uuid \<times> pending_qualification \<times> string) list" "(uuid \<times> adoption \<times> string) list" uuid
      "inference_requirements option"
  | Expand_Commit live "string option" uuid int int int int "(uuid \<times> pending_qualification \<times> string) list" uuid
  | Supersede live uuid
  | Select_Active live uuid int "inference_requirements option"
  | Outside db

definition committed :: "db \<Rightarrow> 'e + db \<times> 'a \<Rightarrow> db" where
  "committed d res = (case res of Inl _ \<Rightarrow> d | Inr (d', _) \<Rightarrow> d')"

fun rollout_run_op :: "rollout_op \<Rightarrow> time \<Rightarrow> db \<Rightarrow> db" where
  "rollout_run_op (Start lv cfg generate q) now d =
     (if st_rollout_id q \<in> ro_rollout_id ` set (d_rollouts d) then d else committed d (start_rollout lv cfg generate q now d))"
| "rollout_run_op (Refresh_Prepare lv run_size settings exhausted) now d = committed d (refresh_prepare lv run_size settings exhausted d)"
| "rollout_run_op (Refresh_Commit lv rid run_size rendered carried aid rq) now d =
     committed d (refresh_commit lv rid run_size rendered carried aid rq now d)"
| "rollout_run_op (Expand_Commit lv run_size rid desired expected_active expected_target new_target rendered aid) now d =
     committed d (expand_commit lv run_size rid desired expected_active expected_target new_target rendered aid now d)"
| "rollout_run_op (Supersede lv aid) now d = committed d (supersede_open_rollout lv aid now d)"
| "rollout_run_op (Select_Active lv aid v rq) now d = committed d (select_active_bench_version lv aid v now rq d)"
| "rollout_run_op (Outside d') now d =
     d'\<lparr>d_rollouts := d_rollouts d, d_rollout_members := d_rollout_members d, d_rollout_audit := d_rollout_audit d\<rparr>"

text \<open>Every transaction reads a later clock than the one before it.\<close>

definition rollout_step :: "nat \<times> rollout_op \<Rightarrow> time \<times> db \<Rightarrow> time \<times> db" where
  "rollout_step x s = (let now = fst s + 1 + int (fst x) in (now, rollout_run_op (snd x) now (snd s)))"

abbreviation kept :: "time \<Rightarrow> db \<Rightarrow> db \<Rightarrow> bool" where
  "kept c d d' \<equiv> rollout_inv c d' \<and> db_grows d d'"

lemma rewrite_open_silent:
  assumes inv: "rollout_inv c d" and r: "r \<in> set (d_rollouts d)" "open_status (ro_status r)"
    and r': "ro_rollout_id r' = ro_rollout_id r" "ro_from_version r' = ro_from_version r" "ro_desired_version r' = ro_desired_version r"
      "ro_status r' = ro_status r" "ro_activated_at r' = ro_activated_at r"
  shows "rollout_inv c (set_rollout r' d)" and "db_grows d (set_rollout r' d)"
proof -
  have st: "ro_status r' \<in> {''collecting'', ''blocked_ineligible'', ''superseded''}" using r(2) r'(4) by (auto simp: open_status_def)
  note step = open_row_step [OF inv r r'(1-3) st r'(5)]
  show "rollout_inv c (set_rollout r' d)" by (rule step(1))
  have "row_grows r r'" using r' r(2) by (simp add: row_grows_def)
  from set_rollout_rows [OF rollout_distinct [OF inv] r(1) this] step(2)
  show "db_grows d (set_rollout r' d)" unfolding db_grows_def by simp (simp add: set_rollout_def)
qed

lemma commit_members_keeps:
  "commit_members rid r cohort run_size now rendered d = Inr (d', n) \<Longrightarrow> rollout_inv c d \<Longrightarrow> kept c d d'"
proof (induction rid r cohort run_size now rendered d arbitrary: c d' n rule: commit_members.induct)
  case (1 rid r cohort run_size now d)
  then show ?case by simp
next
  case (2 rid r cohort run_size now audit_id q sha256 rest d)
  show ?case
  proof (cases "get_row sn_agent_id (sn_agent_id (pq_member q)) cohort")
    case None
    with 2 show ?thesis by auto
  next
    case (Some m)
    show ?thesis
    proof (cases "qualify r run_size d m = Inr q")
      case False
      with 2 Some show ?thesis by auto
    next
      case True
      from 2(4) Some True obtain d1 b k where a: "append_rollout_member audit_id rid (pq_member q) (pq_pin q sha256) now d = Inr (d1, b)"
        and rest: "commit_members rid r cohort run_size now rest d1 = Inr (d', k)"
        by (auto split: sum.splits prod.splits simp: map_sum_def)
      note s1 = append_keeps [OF 2(5) a]
      have "kept c d1 d'" using 2(3) [OF Some _ a _ rest, where c = c] True s1 by simp
      with s1 show ?thesis using db_grows_trans by blast
    qed
  qed
qed

lemma append_all_keeps:
  "append_all rid now rendered d = Inr (d', n) \<Longrightarrow> rollout_inv c d \<Longrightarrow> kept c d d'"
proof (induction rid now rendered d arbitrary: c d' n rule: append_all.induct)
  case (1 rid now d)
  then show ?case by simp
next
  case (2 rid now audit_id q sha256 rest d)
  from 2(2) obtain d1 b k where a: "append_rollout_member audit_id rid (pq_member q) (pq_pin q sha256) now d = Inr (d1, b)"
    and rest: "append_all rid now rest d1 = Inr (d', k)"
    by (auto split: sum.splits prod.splits simp: map_sum_def)
  note s1 = append_keeps [OF 2(3) a]
  have "kept c d1 d'" using 2(1) [OF a _ rest, where c = c] s1 by simp
  with s1 show ?case using db_grows_trans by blast
qed

lemma adopt_keeps:
  assumes "adopt_carryover_agent i r x pin now d = Inr (d', b)" and inv: "rollout_inv c d"
    and r: "ro_rollout_id r \<in> ro_rollout_id ` set (d_rollouts d)"
  shows "kept c d d' \<and> d_rollouts d' = d_rollouts d"
proof (cases "d' = d")
  case True
  then show ?thesis using inv by simp
next
  case False
  then obtain ds cs where d': "d' = append_rollout_audit i r ''carryover_adopted'' now (d\<lparr>d_rollout_carryover := cs, d_datasets := ds\<rparr>)"
    using assms(1) by (auto simp: adopt_carryover_agent_def split: if_splits option.splits)
  let ?e = "d\<lparr>d_rollout_carryover := cs, d_datasets := ds\<rparr>"
  have e: "rollout_inv c ?e" "persisted_active_bench_version ?e = persisted_active_bench_version d"
    using inv decisions_cong(3,4) [of ?e d] by auto
  note step = audit_step [OF e(1), of "''carryover_adopted''" r i now]
  have "db_grows d d'" using step(2) e(2) r unfolding d' by (intro db_growsI) (simp_all add: append_rollout_audit_def)
  with step(1) r show ?thesis by (simp add: d') (simp add: append_rollout_audit_def)
qed

lemma adopt_all_keeps:
  "adopt_all r now carried d = Inr (d', n) \<Longrightarrow> rollout_inv c d \<Longrightarrow>
   ro_rollout_id r \<in> ro_rollout_id ` set (d_rollouts d) \<Longrightarrow> kept c d d' \<and> d_rollouts d' = d_rollouts d"
proof (induction r now carried d arbitrary: c d' n rule: adopt_all.induct)
  case (1 r now d)
  then show ?case by simp
next
  case (2 r now audit_id x q sha256 rest d)
  show ?case
  proof (cases "qualify r (Some (pq_run_size q)) d (pq_member q) = Inr q")
    case False
    with 2 show ?thesis by auto
  next
    case True
    from 2(3) True obtain d1 b k where a: "adopt_carryover_agent audit_id r x (pq_pin q sha256) now d = Inr (d1, b)"
      and rest: "adopt_all r now rest d1 = Inr (d', k)"
      by (auto split: sum.splits prod.splits simp: map_sum_def)
    note s1 = adopt_keeps [OF a 2(4,5)]
    have "kept c d1 d' \<and> d_rollouts d' = d_rollouts d1" using 2(2) [OF _ a _ rest, where c = c] True s1 2(5) by simp
    with s1 show ?thesis using db_grows_trans by metis
  qed
qed

lemma start_keeps:
  assumes inv: "rollout_inv c d" and fresh: "st_rollout_id q \<notin> ro_rollout_id ` set (d_rollouts d)"
    and res: "start_rollout lv cfg generate q now d = Inr (d', out)"
  shows "kept c d d'"
proof (cases "d' = d")
  case True
  then show ?thesis using inv by simp
next
  case False
  with res obtain members pins r where
    "create_rollout_snapshot (st_rollout_id q) (st_audit_id q) members pins now (active_bench_version lv now d) (st_target q)
       (st_rescore_cohort_size q) (st_priority_cohort_size q) d = Inr (d', r)"
    by (auto simp: start_rollout_def Let_def map_sum_def split: if_splits option.splits sum.splits)
  from create_keeps [OF inv fresh refl this] show ?thesis .
qed

lemma refresh_prepare_keeps:
  assumes inv: "rollout_inv c d" and res: "refresh_prepare lv run_size settings exhausted d = Inr (d', out)"
  shows "kept c d d'"
proof (cases "d' = d")
  case True
  then show ?thesis using inv by simp
next
  case False
  with res obtain r n where r: "open_rollout d = Some r" and d': "d' = set_rollout (r\<lparr>ro_cohort_size := n\<rparr>) d"
    by (auto simp: refresh_prepare_def Let_def split: option.splits sum.splits if_splits)
  have mem: "r \<in> set (d_rollouts d)" "open_status (ro_status r)" using open_rollout_SomeD [OF r] by simp_all
  show ?thesis using rewrite_open_silent [OF inv mem, of "r\<lparr>ro_cohort_size := n\<rparr>"] by (simp add: d')
qed

lemma refresh_commit_keeps:
  assumes inv: "rollout_inv c d" and now: "c < now" and res: "refresh_commit lv rid run_size rendered carried aid rq now d = Inr (d', out)"
  shows "kept now d d'"
proof (cases "d' = d")
  case True
  then show ?thesis using rollout_inv_later [OF inv] now by simp
next
  case False
  with res obtain r cohort d1 n where m: "commit_members rid r cohort run_size now rendered d = Inr (d1, n)"
    and rest: "(case get_row ro_rollout_id rid (d_rollouts d1) of None \<Rightarrow> Inr (d1, n)
        | Some r1 \<Rightarrow> (case adopt_all r1 now carried d1 of Inl e \<Rightarrow> Inl e
            | Inr (d2, adopted) \<Rightarrow> Inr (fst (maybe_activate_rollout lv aid r1 now rq d2), n))) = (Inr (d', out) :: rollout_error + db \<times> nat)"
    by (auto simp: refresh_commit_def split: option.splits sum.splits if_splits prod.splits)
  note k1 = commit_members_keeps [OF m inv]
  show ?thesis
  proof (cases "get_row ro_rollout_id rid (d_rollouts d1)")
    case None
    with rest have "d' = d1" by simp
    with k1 now show ?thesis using rollout_inv_later [of c d1 now] by simp
  next
    case (Some r1)
    with rest obtain d2 k where a: "adopt_all r1 now carried d1 = Inr (d2, k)" and d': "d' = fst (maybe_activate_rollout lv aid r1 now rq d2)"
      by (auto split: sum.splits prod.splits)
    have r1: "r1 \<in> set (d_rollouts d1)" using get_row_SomeD [OF Some] by simp
    note k2 = adopt_all_keeps [OF a conjunct1 [OF k1]]
    have "kept c d1 d2" "r1 \<in> set (d_rollouts d2)" using k2 r1 by auto
    moreover from this have "kept now d2 d'" unfolding d' using activate_keeps now by blast
    ultimately show ?thesis using k1 db_grows_trans by blast
  qed
qed

lemma append_open:
  assumes "append_rollout_member i rid m pin now d = Inr (d', b)" and "get_row ro_rollout_id rid (d_rollouts d) = Some r" "open_status (ro_status r)"
  shows "\<exists>r'. get_row ro_rollout_id rid (d_rollouts d') = Some r' \<and> open_status (ro_status r')"
proof -
  have "ro_rollout_id r = rid" using get_row_SomeD [OF assms(2)] by simp
  then show ?thesis using assms
    by (auto simp: append_rollout_member_def Let_def append_rollout_audit_def set_rollout_def get_row_set_row split: if_splits option.splits)
qed

lemma append_all_open:
  "append_all rid now rendered d = Inr (d', n) \<Longrightarrow> get_row ro_rollout_id rid (d_rollouts d) = Some r \<Longrightarrow> open_status (ro_status r) \<Longrightarrow>
   \<exists>r'. get_row ro_rollout_id rid (d_rollouts d') = Some r' \<and> open_status (ro_status r')"
proof (induction rid now rendered d arbitrary: d' n r rule: append_all.induct)
  case (2 rid now audit_id q sha256 rest d)
  from 2(2) obtain d1 b k where a: "append_rollout_member audit_id rid (pq_member q) (pq_pin q sha256) now d = Inr (d1, b)"
    and rest: "append_all rid now rest d1 = Inr (d', k)"
    by (auto split: sum.splits prod.splits simp: map_sum_def)
  from append_open [OF a 2(3,4)] obtain r1 where "get_row ro_rollout_id rid (d_rollouts d1) = Some r1" "open_status (ro_status r1)" by blast
  with 2(1) [OF a _ rest] show ?case by simp
qed simp

lemma expand_commit_keeps:
  assumes inv: "rollout_inv c d"
    and res: "expand_commit lv run_size rid desired active target new_target rendered aid now d = Inr (d', out)"
  shows "kept c d d'"
proof -
  from res obtain r d2 r2 where r: "get_row ro_rollout_id rid (d_rollouts d) = Some r" "open_status (ro_status r)"
    and a: "append_all rid now rendered (set_rollout (r\<lparr>ro_rescore_cohort_target := new_target\<rparr>) d) = Inr (d2, out)"
    and r2: "get_row ro_rollout_id rid (d_rollouts d2) = Some r2"
    and d': "d' = append_rollout_audit aid (r2\<lparr>ro_cohort_size := new_target\<rparr>) ''cohort_expanded'' now
        (set_rollout (r2\<lparr>ro_cohort_size := new_target\<rparr>) d2)"
    by (auto simp: expand_commit_def Let_def split: if_splits option.splits sum.splits prod.splits)
  let ?d1 = "set_rollout (r\<lparr>ro_rescore_cohort_target := new_target\<rparr>) d"
  have mem: "r \<in> set (d_rollouts d)" and id: "ro_rollout_id r = rid" using get_row_SomeD [OF r(1)] by simp_all
  have k1: "kept c d ?d1" using rewrite_open_silent [OF inv mem r(2), of "r\<lparr>ro_rescore_cohort_target := new_target\<rparr>"] by simp
  have k2: "kept c ?d1 d2" using append_all_keeps [OF a conjunct1 [OF k1]] .
  have mem2: "r2 \<in> set (d_rollouts d2)" "ro_rollout_id r2 = rid" using get_row_SomeD [OF r2] by simp_all
  have "get_row ro_rollout_id rid (d_rollouts ?d1) = Some (r\<lparr>ro_rescore_cohort_target := new_target\<rparr>)"
    using r(1) id by (simp add: set_rollout_def get_row_set_row)
  with append_all_open [OF a] r(2) r2 have o2: "open_status (ro_status r2)" by auto
  then have "ro_status r2 \<in> {''collecting'', ''blocked_ineligible'', ''superseded''}" by (auto simp: open_status_def)
  then have "kept c d2 d'" unfolding d' using k2 mem2 o2 by (intro rewrite_open) simp_all
  with k1 k2 show ?thesis using db_grows_trans by blast
qed

lemma committedE:
  assumes "\<And>d' x. res = Inr (d', x) \<Longrightarrow> kept c d d'" and "rollout_inv c d"
  shows "kept c d (committed d res)"
  using assms by (cases res) (auto simp: committed_def)

lemma rollout_run_op_keeps:
  assumes inv: "rollout_inv c d" and now: "c < now"
  shows "kept now d (rollout_run_op op now d)"
proof -
  have later: "rollout_inv now d" using rollout_inv_later [OF inv] now by simp
  show ?thesis
  proof (cases op)
    case (Start lv cfg generate q)
    then show ?thesis using later by (cases "st_rollout_id q \<in> ro_rollout_id ` set (d_rollouts d)") (auto intro!: committedE [THEN conjunct1] committedE [THEN conjunct2] dest: start_keeps [OF later])
  next
    case (Refresh_Prepare lv run_size settings exhausted)
    then show ?thesis using committedE [OF refresh_prepare_keeps [OF later] later] by simp
  next
    case (Refresh_Commit lv rid run_size rendered carried aid rq)
    then show ?thesis using committedE [OF refresh_commit_keeps [OF inv now] later] by simp
  next
    case (Expand_Commit lv run_size rid desired active target new_target rendered aid)
    then show ?thesis using committedE [OF expand_commit_keeps [OF later] later] by simp
  next
    case (Supersede lv aid)
    then show ?thesis using committedE [OF supersede_keeps [OF later] later] by simp
  next
    case (Select_Active lv aid v rq)
    then show ?thesis using committedE [OF _ later] select_keeps [OF inv now] by simp blast
  next
    case (Outside e)
    let ?d = "e\<lparr>d_rollouts := d_rollouts d, d_rollout_members := d_rollout_members d, d_rollout_audit := d_rollout_audit d\<rparr>"
    have "rollout_inv now ?d" "db_grows d ?d" using later decisions_cong(3,4) [of ?d d] by (auto intro: db_growsI)
    with Outside show ?thesis by simp
  qed
qed

interpretation rollout: monotone_machine rollout_step "\<lambda>(clock, d). rollout_inv clock d" "\<lambda>s t. db_grows (snd s) (snd t)"
proof
  show "case rollout_step x s of (clock, d) \<Rightarrow> rollout_inv clock d" if "case s of (clock, d) \<Rightarrow> rollout_inv clock d" for x s
    using that rollout_run_op_keeps [of "fst s" "snd s"] by (auto simp: rollout_step_def Let_def split: prod.splits)
  show "db_grows (snd s) (snd (rollout_step x s))" if "case s of (clock, d) \<Rightarrow> rollout_inv clock d" for x s
    using that rollout_run_op_keeps [of "fst s" "snd s"] by (auto simp: rollout_step_def Let_def split: prod.splits)
qed (auto intro: db_grows_trans)

text \<open>
  C7. Benchmark authority never moves back. Take any run of the service from a consistent rollout table: any interleaving of
  starting, converging, expanding, activating, superseding and selecting rollouts with any other writes (scores, screening,
  attestations). Afterwards the table is consistent, so at most one rollout is open; the durable version has not fallen, and
  the version every reader is served is at least the durable one; the rollouts that existed still do, with their versions, and those
  that were activated or superseded still are; and no cohort member has been removed.
\<close>

theorem authority_never_moves_back:
  assumes "rollout_inv clock d" and "fold rollout_step ops (clock, d) = (clock', d')"
  shows "rollout_inv clock' d'
    \<and> length (filter (\<lambda>r. open_status (ro_status r)) (d_rollouts d')) \<le> 1
    \<and> persisted_active_bench_version d \<le> persisted_active_bench_version d'
    \<and> persisted_active_bench_version d' \<le> active_bench_version lv now d'
    \<and> (\<forall>r \<in> set (d_rollouts d). \<exists>r' \<in> set (d_rollouts d'). ro_rollout_id r' = ro_rollout_id r \<and>
         ro_desired_version r' = ro_desired_version r \<and> (\<not> open_status (ro_status r) \<longrightarrow> ro_status r' = ro_status r))
    \<and> set (d_rollout_members d) \<subseteq> set (d_rollout_members d')"
proof -
  have inv: "rollout_inv clock' d'" using rollout.run_invar [of "(clock, d)" ops] assms by simp
  have grows: "db_grows d d'" using rollout.run_grows [of "(clock, d)" ops] assms by simp
  from inv have "length (filter (\<lambda>r. open_status (ro_status r)) (d_rollouts d')) \<le> 1" by (simp add: rollout_inv_def)
  moreover have "persisted_active_bench_version d' \<le> active_bench_version lv now d'" using inv by (rule active_at_least_persisted)
  ultimately show ?thesis using inv grows unfolding db_grows_def row_grows_def by blast
qed

definition demo_convergence :: "(nat \<times> rollout_op) list" where
  "demo_convergence = [(0, Outside rollout_db), (0, Refresh_Commit demo_live 1 None [] [] 1 (Some demo_requirements)), (4, Supersede demo_live 2)]"

lemma demo_convergence_versions:
  "map (\<lambda>n. persisted_active_bench_version (snd (fold rollout_step (take n demo_convergence) (0, rollout_db)))) [0, 1, 2, 3] = [7, 7, 8, 8]"
  by code_simp

theorem authority_never_moves_back_witness:
  "rollout_inv (fst (fold rollout_step demo_convergence (0, rollout_db))) (snd (fold rollout_step demo_convergence (0, rollout_db)))
   \<and> 7 \<le> persisted_active_bench_version (snd (fold rollout_step demo_convergence (0, rollout_db)))"
proof -
  have "persisted_active_bench_version rollout_db = 7" using demo_convergence_versions by simp
  with authority_never_moves_back [OF rollout_db_inv, of demo_convergence
      "fst (fold rollout_step demo_convergence (0, rollout_db))" "snd (fold rollout_step demo_convergence (0, rollout_db))"]
  show ?thesis by simp
qed

subsection \<open>One member per family\<close>

text \<open>The loop keeps the first row of every owner, up to its limit.\<close>

fun firsts :: "('a \<Rightarrow> 'b) \<Rightarrow> 'a list \<Rightarrow> 'a list" where
  "firsts f [] = []"
| "firsts f (x # xs) = x # filter (\<lambda>y. f y \<noteq> f x) (firsts f xs)"

lemma set_firsts: "set (firsts f xs) \<subseteq> set xs"
  by (induction xs) auto

lemma firsts_keys: "f ` set (firsts f xs) = f ` set xs"
proof (induction xs)
  case (Cons a xs)
  have "f ` set (firsts f (a # xs)) = insert (f a) (f ` {y \<in> set (firsts f xs). f y \<noteq> f a})" by simp
  also have "\<dots> = insert (f a) (f ` set (firsts f xs))" by auto
  finally show ?case using Cons by simp
qed simp

lemma distinct_firsts: "distinct (map f (firsts f xs))"
  by (induction xs) (auto simp: distinct_map inj_on_def)

lemma filter_notin_insert: "filter (\<lambda>y. f y \<notin> insert k S) xs = filter (\<lambda>y. f y \<noteq> k) (filter (\<lambda>y. f y \<notin> S) xs)"
  by (induction xs) auto

lemma first_per_owner_take:
  "length acc < limit \<Longrightarrow>
   first_per_owner f limit seen acc xs = acc @ take (limit - length acc) (filter (\<lambda>y. f y \<notin> seen) (firsts f xs))"
proof (induction f limit seen acc xs rule: first_per_owner.induct)
  case (2 f limit seen acc x xs)
  show ?case
  proof (cases "f x \<in> seen")
    case True
    have "filter (\<lambda>y. f y \<notin> seen) (filter (\<lambda>y. f y \<noteq> f x) (firsts f xs)) = filter (\<lambda>y. f y \<notin> seen) (firsts f xs)"
      using True by (auto intro: filter_cong)
    with True 2 show ?thesis by simp
  next
    case False
    have swap: "filter (\<lambda>y. f y \<notin> seen) (filter (\<lambda>y. f y \<noteq> f x) (firsts f xs)) = filter (\<lambda>y. f y \<notin> insert (f x) seen) (firsts f xs)"
      by (auto intro: filter_cong)
    show ?thesis
    proof (cases "length (acc @ [x]) = limit")
      case True
      then have "limit - length acc = 1" by simp
      with True False show ?thesis by simp
    next
      case len: False
      then have "limit - length acc = Suc (limit - length (acc @ [x]))" using 2(3) by simp
      with len False 2 show ?thesis by (simp add: swap [symmetric])
    qed
  qed
qed simp

lemma firsts_first:
  "x \<in> set (firsts f xs) \<Longrightarrow> \<exists>ys zs. xs = ys @ x # zs \<and> f x \<notin> f ` set ys"
proof (induction xs)
  case (Cons a xs)
  show ?case
  proof (cases "x = a")
    case True
    then show ?thesis by (intro exI [of _ "[]"] exI [of _ xs]) simp
  next
    case False
    with Cons.prems have "x \<in> set (firsts f xs)" "f x \<noteq> f a" by auto
    with Cons.IH obtain ys zs where "xs = ys @ x # zs" "f x \<notin> f ` set ys" by blast
    with \<open>f x \<noteq> f a\<close> show ?thesis by (intro exI [of _ "a # ys"] exI [of _ zs]) simp
  qed
qed simp

lemma era_ranking_mem:
  "(ag, c) \<in> set (era_ranking d v) \<longleftrightarrow> ag \<in> set (d_agents d) \<and> finalized_in v d ag \<and> c = s_composite (median_row (scores_of (ag_agent_id ag) v d))"
  by (auto simp: era_ranking_def)

lemma historical_versions_two: "length (historical_versions v d) \<le> 2"
  by (simp add: historical_versions_def)

text \<open>
  C29. The cohort a rollout freezes. Whenever a cohort is drawn it has at most as many members as asked for; its members belong
  to pairwise different ownership families; each is a finalized agent holding a ranked quorum in one of the at most two newest
  scored versions, with the median composite of that version; and a cohort shorter than asked for leaves no family of such
  agents out.
\<close>

theorem rescore_cohort_one_per_family:
  assumes "historical_rescore_cohort lv source_version limit d = Inr ms"
  shows "\<exists>rows. ms = map snapshot_of rows
    \<and> int (length rows) \<le> limit
    \<and> distinct (map (\<lambda>(ag, c). family_root (l_env lv) d ag) rows)
    \<and> (\<forall>(ag, c) \<in> set rows. \<exists>v \<in> set (historical_versions source_version d). v \<le> source_version \<and> ag \<in> set (d_agents d) \<and>
         finalized_in v d ag \<and> c = s_composite (median_row (scores_of (ag_agent_id ag) v d)))
    \<and> (int (length rows) < limit \<longrightarrow>
         (\<forall>v \<in> set (historical_versions source_version d). \<forall>ag \<in> set (d_agents d). finalized_in v d ag \<longrightarrow>
            family_root (l_env lv) d ag \<in> (\<lambda>(ag, c). family_root (l_env lv) d ag) ` set rows))"
proof -
  let ?f = "\<lambda>(ag, c :: rat). family_root (l_env lv) d ag"
  let ?xs = "concat (map (era_ranking d) (historical_versions source_version d))"
  let ?rows = "take (nat limit) (firsts ?f ?xs)"
  from assms have lim: "5 \<le> limit" and ms: "ms = map snapshot_of (first_per_owner ?f (nat limit) {} [] ?xs)"
    by (auto simp: historical_rescore_cohort_def PRIORITY_COHORT_SIZE_def split: if_splits)
  then have rows: "ms = map snapshot_of ?rows" using first_per_owner_take [of "[]" "nat limit" ?f "{}" ?xs] by simp
  have len: "int (length ?rows) \<le> limit" using lim by simp
  have dist: "distinct (map ?f ?rows)" using distinct_take [OF distinct_firsts [of ?f ?xs], of "nat limit"] by (simp add: take_map)
  have vs: "v \<le> source_version" if "v \<in> set (historical_versions source_version d)" for v
    using that by (auto simp: historical_versions_def dest: in_set_takeD)
  have mem: "\<forall>(ag, c) \<in> set ?rows. \<exists>v \<in> set (historical_versions source_version d). v \<le> source_version \<and> ag \<in> set (d_agents d) \<and>
      finalized_in v d ag \<and> c = s_composite (median_row (scores_of (ag_agent_id ag) v d))"
  proof clarify
    fix ag c assume "(ag, c) \<in> set ?rows"
    then have "(ag, c) \<in> set ?xs" using set_firsts [of ?f ?xs] by (meson in_set_takeD subsetD)
    then obtain v where v: "v \<in> set (historical_versions source_version d)" "(ag, c) \<in> set (era_ranking d v)" by auto
    with vs show "\<exists>v \<in> set (historical_versions source_version d). v \<le> source_version \<and> ag \<in> set (d_agents d) \<and>
        finalized_in v d ag \<and> c = s_composite (median_row (scores_of (ag_agent_id ag) v d))"
      by (auto simp: era_ranking_mem)
  qed
  have all: "int (length ?rows) < limit \<longrightarrow>
      (\<forall>v \<in> set (historical_versions source_version d). \<forall>ag \<in> set (d_agents d). finalized_in v d ag \<longrightarrow> family_root (l_env lv) d ag \<in> ?f ` set ?rows)"
  proof (intro impI ballI)
    fix v ag assume short: "int (length ?rows) < limit" and v: "v \<in> set (historical_versions source_version d)"
      and ag: "ag \<in> set (d_agents d)" "finalized_in v d ag"
    have "?rows = firsts ?f ?xs" using short by simp
    moreover have "(ag, s_composite (median_row (scores_of (ag_agent_id ag) v d))) \<in> set ?xs" using v ag by (auto simp: era_ranking_mem)
    ultimately show "family_root (l_env lv) d ag \<in> ?f ` set ?rows" using firsts_keys [of ?f ?xs] by force
  qed
  show ?thesis using rows len dist mem all by blast
qed

theorem rescore_cohort_one_per_family_witness:
  "\<exists>rows. historical_rescore_cohort demo_live 8 5 rollout_db = Inr (map snapshot_of rows) \<and> length rows = 5
    \<and> distinct (map (\<lambda>(ag, c). family_root demo_env rollout_db ag) rows)"
proof -
  have "map_sum id length (historical_rescore_cohort demo_live 8 5 rollout_db) = Inr 5" by code_simp
  then obtain ms where ms: "historical_rescore_cohort demo_live 8 5 rollout_db = Inr ms" "length ms = 5"
    by (cases "historical_rescore_cohort demo_live 8 5 rollout_db") simp_all
  have "l_env demo_live = demo_env" by (simp add: demo_live_def)
  with rescore_cohort_one_per_family [OF ms(1)] ms show ?thesis by auto
qed

end
