(* ===== verification/Screening.thy ===== *)
theory Screening
  imports Rollout
begin

text \<open>
  The screening queue (\<open>ditto/db/queries/screening.py\<close>): submissions are leased to screeners as attempts, overdue and
  orphaned attempts are swept, a submission that keeps expiring is parked for an operator, and a claim checks whether the same bytes
  were submitted earlier by somebody else. The policy version is \<open>e_screening_policy_version\<close>; the identifiers a claim
  draws for an agent are the argument \<open>draw\<close>; rows locked by other transactions are the argument \<open>locked\<close>.
\<close>

subsection \<open>Tables\<close>

datatype attempt_status =
    Attempt_Running | Attempt_Passed | Attempt_Rejected | Attempt_Failed | Attempt_Expired | Attempt_Quarantined

record screening_attempt =
  sa_attempt_id :: uuid
  sa_agent_id :: uuid
  sa_screener_hotkey :: hotkey
  sa_policy_version :: int
  sa_status :: attempt_status
  sa_started_at :: time
  sa_deadline :: time
  sa_finished_at :: "time option"
  sa_public_reason :: "string option"
  sa_reason_code :: "string option"
  sa_duplicate_of :: "uuid option"
  sa_build_only :: bool
  sa_review_settings_revision :: "int option"
  sa_review_settings_instance_id :: "string option"
  sa_review_settings_scope :: "string option"
  sa_review_settings_checksum :: "string option"

record screening_quarantine =
  sq_quarantine_id :: uuid
  sq_agent_id :: uuid
  sq_attempt_id :: uuid
  sq_reason_code :: string
  sq_status :: string
  sq_resolved_at :: "time option"
  sq_resolution :: "string option"

record screener_heartbeat =
  sh_screener_hotkey :: hotkey
  sh_seen_at :: time
  sh_state :: string
  sh_active_agent_id :: "uuid option"

text \<open>\<open>av_review_kind\<close> is that key of the provenance, \<open>av_previous_status\<close> of the original evidence.\<close>

record ath_review =
  av_review_id :: uuid
  av_agent_id :: uuid
  av_status :: string
  av_opened_at :: time
  av_reopened_at :: "time option"
  av_resolved_at :: "time option"
  av_resolution :: "string option"
  av_review_kind :: "string option"
  av_previous_status :: "string option"

text \<open>An override waives the backoff of one attempt, whose id it is here.\<close>

record screening_db =
  sd_db :: db
  sd_attempts :: "screening_attempt list"
  sd_quarantines :: "screening_quarantine list"
  sd_retry_overrides :: "uuid list"
  sd_heartbeats :: "screener_heartbeat list"
  sd_reviews :: "ath_review list"

definition MAX_SCREENING_EXPIRIES :: nat where "MAX_SCREENING_EXPIRIES = 5"
definition USABLE_OWNER_STATUSES :: "agent_status set" where
  "USABLE_OWNER_STATUSES = {EVALUATING, AGENT_SCORED, LIVE, ATH_PENDING_REVIEW}"
definition ADJUDICATED_NEGATIVE_OWNER_STATUSES :: "agent_status set" where
  "ADJUDICATED_NEGATIVE_OWNER_STATUSES = {REJECTED, QUARANTINED, BANNED}"
definition EXHAUSTED_REASON_CODE :: string where "EXHAUSTED_REASON_CODE = ''repeatedly-inconclusive''"
definition EXHAUSTED_PUBLIC_REASON :: string where
  "EXHAUSTED_PUBLIC_REASON = ''Screening was inconclusive repeatedly; held for operator review''"
definition DEFERRED_MECHANICAL_REASON :: string where "DEFERRED_MECHANICAL_REASON = ''deferred-mechanical-admission''"
definition DEFERRED_REVIEW_KIND :: string where "DEFERRED_REVIEW_KIND = ''deferred_source_review''"
definition ORPHANED_ATTEMPT_REASON_CODE :: string where "ORPHANED_ATTEMPT_REASON_CODE = ''worker-lease-orphaned''"
definition ORPHANED_ATTEMPT_REASON :: string where
  "ORPHANED_ATTEMPT_REASON = ''Screening worker stopped reporting this attempt; retry scheduled''"
definition ORPHANED_ATTEMPT_GRACE :: timedelta where "ORPHANED_ATTEMPT_GRACE = td_minutes 5"
definition SCREENER_HEARTBEAT_FRESHNESS :: timedelta where "SCREENER_HEARTBEAT_FRESHNESS = td_minutes 5"

definition set_agents :: "(agent list \<Rightarrow> agent list) \<Rightarrow> screening_db \<Rightarrow> screening_db" where
  "set_agents f s = s\<lparr>sd_db := (sd_db s)\<lparr>d_agents := f (d_agents (sd_db s))\<rparr>\<rparr>"

definition set_agent :: "agent \<Rightarrow> screening_db \<Rightarrow> screening_db" where
  "set_agent ag s = set_agents (set_row ag_agent_id ag) s"

definition running :: "screening_attempt \<Rightarrow> bool" where
  "running a \<longleftrightarrow> sa_status a = Attempt_Running"

subsection \<open>Sweeps\<close>

definition attempt_overdue :: "time \<Rightarrow> screening_attempt \<Rightarrow> bool" where
  "attempt_overdue now a \<longleftrightarrow> running a \<and> sa_deadline a < now"

definition expire_attempt :: "time \<Rightarrow> screening_attempt \<Rightarrow> screening_attempt" where
  "expire_attempt now a =
     a\<lparr>sa_status := Attempt_Expired, sa_finished_at := Some now, sa_public_reason := Some ''Screening lease expired''\<rparr>"

definition expire_screening_attempts :: "time \<Rightarrow> screening_db \<Rightarrow> screening_db \<times> nat" where
  "expire_screening_attempts now s =
     (let ids = set (map sa_agent_id (filter (attempt_overdue now) (sd_attempts s))) in
      (set_agents (update_where (\<lambda>ag. ag_agent_id ag \<in> ids \<and> ag_status ag = SCREENING)
           (\<lambda>ag. ag\<lparr>ag_status := SCREENING_FAILED, ag_screening_reason := Some ''Screening lease expired''\<rparr>))
         (s\<lparr>sd_attempts := update_where (attempt_overdue now) (expire_attempt now) (sd_attempts s)\<rparr>),
       length (filter (attempt_overdue now) (sd_attempts s))))"

definition fresh_heartbeats :: "hotkey \<Rightarrow> time \<Rightarrow> screening_db \<Rightarrow> screener_heartbeat list" where
  "fresh_heartbeats screener_hotkey now s =
     filter (\<lambda>h. sh_screener_hotkey h = screener_hotkey \<and> sh_seen_at h \<ge> now - SCREENER_HEARTBEAT_FRESHNESS) (sd_heartbeats s)"

definition attempt_orphaned :: "hotkey \<Rightarrow> time \<Rightarrow> screener_heartbeat list \<Rightarrow> screening_attempt \<Rightarrow> bool" where
  "attempt_orphaned screener_hotkey now hbs a \<longleftrightarrow>
     sa_screener_hotkey a = screener_hotkey \<and> running a \<and> sa_started_at a \<le> now - ORPHANED_ATTEMPT_GRACE \<and> sa_deadline a > now \<and>
     list_ex (\<lambda>h. sh_seen_at h > sa_started_at a) hbs \<and>
     \<not> list_ex (\<lambda>h. sh_state h = ''screening'' \<and> sh_active_agent_id h = Some (sa_agent_id a)) hbs"

definition fail_attempt :: "time \<Rightarrow> screening_attempt \<Rightarrow> screening_attempt" where
  "fail_attempt now a =
     a\<lparr>sa_status := Attempt_Failed, sa_finished_at := Some now, sa_public_reason := Some ORPHANED_ATTEMPT_REASON,
       sa_reason_code := Some ORPHANED_ATTEMPT_REASON_CODE\<rparr>"

definition fail_orphaned_screening_attempts :: "hotkey \<Rightarrow> time \<Rightarrow> screening_db \<Rightarrow> screening_db \<times> nat" where
  "fail_orphaned_screening_attempts screener_hotkey now s =
     (let orphaned = attempt_orphaned screener_hotkey now (fresh_heartbeats screener_hotkey now s);
          ids = set (map sa_agent_id (filter orphaned (sd_attempts s))) in
      (set_agents (update_where (\<lambda>ag. ag_agent_id ag \<in> ids \<and> ag_status ag = SCREENING)
           (\<lambda>ag. ag\<lparr>ag_status := SCREENING_FAILED, ag_screening_reason := Some ORPHANED_ATTEMPT_REASON,
                    ag_screening_reason_code := Some ORPHANED_ATTEMPT_REASON_CODE\<rparr>))
         (s\<lparr>sd_attempts := update_where orphaned (fail_attempt now) (sd_attempts s)\<rparr>),
       length (filter orphaned (sd_attempts s))))"

subsection \<open>The cap on expiries\<close>

definition operator_clears :: "uuid \<Rightarrow> screening_db \<Rightarrow> time list" where
  "operator_clears agent_id s =
     List.map_filter sq_resolved_at
       (filter (\<lambda>q. sq_agent_id q = agent_id \<and> sq_resolution q \<in> {Some ''release'', Some ''rescreen''}) (sd_quarantines s))"

text \<open>The aggregate of no rows is \<open>NULL\<close>, and the epoch then bounds the count.\<close>

definition last_operator_clear :: "uuid \<Rightarrow> screening_db \<Rightarrow> time" where
  "last_operator_clear agent_id s = (case operator_clears agent_id s of [] \<Rightarrow> 0 | t # ts \<Rightarrow> fold max ts t)"

definition expired_attempt_count :: "env \<Rightarrow> uuid \<Rightarrow> screening_db \<Rightarrow> nat" where
  "expired_attempt_count env agent_id s =
     length (filter (\<lambda>a. sa_agent_id a = agent_id \<and> sa_policy_version a = e_screening_policy_version env \<and>
        sa_status a = Attempt_Expired \<and> sa_started_at a > last_operator_clear agent_id s) (sd_attempts s))"

definition new_attempt :: "int \<Rightarrow> uuid \<Rightarrow> uuid \<Rightarrow> hotkey \<Rightarrow> attempt_status \<Rightarrow> time \<Rightarrow> time \<Rightarrow> screening_attempt" where
  "new_attempt policy_version attempt_id agent_id screener_hotkey status started_at deadline =
     \<lparr>sa_attempt_id = attempt_id, sa_agent_id = agent_id, sa_screener_hotkey = screener_hotkey,
      sa_policy_version = policy_version, sa_status = status, sa_started_at = started_at, sa_deadline = deadline,
      sa_finished_at = None, sa_public_reason = None, sa_reason_code = None, sa_duplicate_of = None, sa_build_only = False,
      sa_review_settings_revision = None, sa_review_settings_instance_id = None, sa_review_settings_scope = None,
      sa_review_settings_checksum = None\<rparr>"

definition park_repeatedly_inconclusive ::
  "env \<Rightarrow> (uuid \<Rightarrow> nat \<Rightarrow> uuid) \<Rightarrow> agent \<Rightarrow> hotkey \<Rightarrow> time \<Rightarrow> screening_db \<Rightarrow> screening_db" where
  "park_repeatedly_inconclusive env draw ag screener_hotkey now s =
     (let i = ag_agent_id ag in
      set_agent (ag\<lparr>ag_status := QUARANTINED, ag_screening_reason := Some EXHAUSTED_PUBLIC_REASON,
                    ag_screening_reason_code := Some EXHAUSTED_REASON_CODE\<rparr>)
        (s\<lparr>sd_attempts := sd_attempts s @
             [(new_attempt (e_screening_policy_version env) (draw i 0) i screener_hotkey Attempt_Quarantined now now)
                \<lparr>sa_finished_at := Some now, sa_public_reason := Some EXHAUSTED_PUBLIC_REASON,
                 sa_reason_code := Some EXHAUSTED_REASON_CODE\<rparr>],
           sd_quarantines := sd_quarantines s @
             [\<lparr>sq_quarantine_id = draw i 1, sq_agent_id = i, sq_attempt_id = draw i 0, sq_reason_code = EXHAUSTED_REASON_CODE,
               sq_status = ''active'', sq_resolved_at = None, sq_resolution = None\<rparr>]\<rparr>))"

subsection \<open>What is eligible\<close>

definition has_running_or_backoff :: "time \<Rightarrow> screening_db \<Rightarrow> agent \<Rightarrow> bool" where
  "has_running_or_backoff now s ag \<longleftrightarrow>
     list_ex (\<lambda>a. sa_agent_id a = ag_agent_id ag \<and>
       (running a \<or> sa_status a = Attempt_Expired \<and> sa_deadline a > now \<and> sa_attempt_id a \<notin> set (sd_retry_overrides s)))
       (sd_attempts s)"

definition rolling_qualified :: "db \<Rightarrow> uuid \<Rightarrow> bool" where
  "rolling_qualified d agent_id \<longleftrightarrow>
     list_ex (\<lambda>m. rm_agent_id m = agent_id \<and>
       list_ex (\<lambda>r. ro_rollout_id r = rm_rollout_id m \<and> open_status (ro_status r)) (d_rollouts d)) (d_rollout_members d)"

definition missing_v3_screen :: "env \<Rightarrow> agent \<Rightarrow> bool" where
  "missing_v3_screen env ag \<longleftrightarrow>
     ag_screening_policy_version ag < e_screening_policy_version env \<or> \<not> complete_screened_image ag"

definition required_version :: "live \<Rightarrow> time \<Rightarrow> db \<Rightarrow> agent \<Rightarrow> int" where
  "required_version lv now d ag =
     (case open_rollout d of
        Some r \<Rightarrow> if ag_created_at ag \<ge> ro_created_at r then ro_desired_version r else active_bench_version lv now d
      | None \<Rightarrow> active_bench_version lv now d)"

definition missing_dataset :: "live \<Rightarrow> time \<Rightarrow> db \<Rightarrow> agent \<Rightarrow> bool" where
  "missing_dataset lv now d ag \<longleftrightarrow>
     list_ex (\<lambda>r. ro_status r = ''activated'') (d_rollouts d) \<and>
     \<not> list_ex (\<lambda>b. bd_agent_id b = ag_agent_id ag \<and> bd_bench_version b = required_version lv now d ag) (d_datasets d)"

definition admitted_for :: "int \<Rightarrow> benchmark_rollout option \<Rightarrow> db \<Rightarrow> agent \<Rightarrow> bool" where
  "admitted_for bench_version authority d ag \<longleftrightarrow>
     validator_queue_admission bench_version d ag \<and>
     (case authority of None \<Rightarrow> True | Some r \<Rightarrow> benchmark_admission r bench_version d ag)"

definition prerequisite_admitted :: "live \<Rightarrow> time \<Rightarrow> db \<Rightarrow> agent \<Rightarrow> bool" where
  "prerequisite_admitted lv now d ag =
     (let effective_version = active_bench_version lv now d;
          active_admission = admitted_for effective_version (activated_rollout_for_version effective_version d) d ag
      in case open_rollout d of
           None \<Rightarrow> active_admission
         | Some r \<Rightarrow>
             (let desired_admission = admitted_for (ro_desired_version r) (Some r) d ag in
              if effective_version = ro_desired_version r then desired_admission
              else if ag_created_at ag \<ge> ro_created_at r then desired_admission
              else active_admission \<or> desired_admission))"

definition missing_active_screened_image :: "db \<Rightarrow> agent \<Rightarrow> bool" where
  "missing_active_screened_image d ag =
     (case first_by (\<lambda>r. desc_nulls_first (ro_activated_at r)) (filter (\<lambda>r. ro_status r = ''activated'') (d_rollouts d)) of
        None \<Rightarrow> False
      | Some r \<Rightarrow>
          ro_desired_version r \<in> set (map bc_version (filter bc_requires_screened_image benchmark_contracts)) \<and>
          \<not> complete_screened_image ag)"

definition pending_deferred_review :: "screening_db \<Rightarrow> uuid \<Rightarrow> bool" where
  "pending_deferred_review s agent_id \<longleftrightarrow>
     list_ex (\<lambda>v. av_agent_id v = agent_id \<and> av_status v = ''pending'' \<and> av_review_kind v = Some DEFERRED_REVIEW_KIND \<and>
       \<not> list_ex (\<lambda>a. sa_agent_id a = agent_id \<and> \<not> sa_build_only a \<and> sa_status a \<in> {Attempt_Passed, Attempt_Quarantined} \<and>
            sa_started_at a \<ge> (case av_reopened_at v of Some t \<Rightarrow> t | None \<Rightarrow> av_opened_at v)) (sd_attempts s)) (sd_reviews s)"

definition screening_eligible :: "live \<Rightarrow> time \<Rightarrow> string \<Rightarrow> screening_db \<Rightarrow> agent \<Rightarrow> bool" where
  "screening_eligible lv now deferred_review_mode s ag =
     (let env = l_env lv; d = sd_db s in
      case ag_status ag of
        UPLOADED \<Rightarrow> True
      | SCREENING_FAILED \<Rightarrow> True
      | EVALUATING \<Rightarrow>
          ag_screening_policy_version ag < e_screening_policy_version env \<or>
          prerequisite_admitted lv now d ag \<and> (missing_dataset lv now d ag \<or> missing_active_screened_image d ag)
      | AGENT_SCORED \<Rightarrow> rolling_qualified d (ag_agent_id ag) \<and> missing_v3_screen env ag
      | LIVE \<Rightarrow> rolling_qualified d (ag_agent_id ag) \<and> missing_v3_screen env ag
      | ATH_PENDING_REVIEW \<Rightarrow> deferred_review_mode = ''enforce'' \<and> pending_deferred_review s (ag_agent_id ag)
      | _ \<Rightarrow> False)"

subsection \<open>The same bytes from somebody else\<close>

definition direct_owner_link :: "int \<Rightarrow> db \<Rightarrow> hotkey \<Rightarrow> hotkey \<Rightarrow> bool" where
  "direct_owner_link netuid d x y \<longleftrightarrow>
     list_ex (\<lambda>a. oa_netuid a = netuid \<and> oa_revoked_at a = None \<and>
       (oa_hotkey_lo a = x \<and> oa_hotkey_hi a = y \<or> oa_hotkey_lo a = y \<and> oa_hotkey_hi a = x)) (d_attestations d)"

definition different_owner :: "int \<Rightarrow> db \<Rightarrow> agent \<Rightarrow> agent \<Rightarrow> bool" where
  "different_owner netuid d ag other \<longleftrightarrow>
     ag_miner_hotkey other \<noteq> ag_miner_hotkey ag \<and>
     \<not> direct_owner_link netuid d (ag_miner_hotkey ag) (ag_miner_hotkey other) \<and>
     (coldkey_of ag d = None \<or> coldkey_of other d = None \<or> coldkey_of other d \<noteq> coldkey_of ag d)"

definition submitted_before :: "agent \<Rightarrow> agent \<Rightarrow> bool" where
  "submitted_before x y \<longleftrightarrow>
     ag_created_at x < ag_created_at y \<or> ag_created_at x = ag_created_at y \<and> ag_agent_id x < ag_agent_id y"

definition earlier_copy :: "int \<Rightarrow> db \<Rightarrow> agent \<Rightarrow> agent \<Rightarrow> bool" where
  "earlier_copy netuid d ag other \<longleftrightarrow>
     ag_sha256 other = ag_sha256 ag \<and> different_owner netuid d ag other \<and> submitted_before other ag"

definition earlier_pending :: "int \<Rightarrow> db \<Rightarrow> agent \<Rightarrow> bool" where
  "earlier_pending netuid d ag \<longleftrightarrow>
     list_ex (\<lambda>e. earlier_copy netuid d ag e \<and> ag_status e \<in> {UPLOADED, SCREENING, SCREENING_FAILED}) (d_agents d)"

definition refused_for_cause :: "screening_db \<Rightarrow> agent \<Rightarrow> bool" where
  "refused_for_cause s ag \<longleftrightarrow>
     ag_status ag = BANNED \<or>
     list_ex (\<lambda>q. sq_agent_id q = ag_agent_id ag \<and>
       (sq_status q = ''active'' \<and> sq_reason_code q \<noteq> EXHAUSTED_REASON_CODE \<or> sq_resolution q = Some ''reject'')) (sd_quarantines s)"

definition duplicate_owner :: "int \<Rightarrow> screening_db \<Rightarrow> agent \<Rightarrow> agent \<Rightarrow> bool" where
  "duplicate_owner netuid s ag owner \<longleftrightarrow>
     earlier_copy netuid (sd_db s) ag owner \<and>
     (ag_status owner \<in> USABLE_OWNER_STATUSES \<or>
      ag_status owner \<in> ADJUDICATED_NEGATIVE_OWNER_STATUSES \<and> refused_for_cause s owner)"

definition find_duplicate :: "int \<Rightarrow> screening_db \<Rightarrow> agent \<Rightarrow> uuid option" where
  "find_duplicate netuid s ag =
     map_option ag_agent_id
       (first_by (\<lambda>w. (ag_created_at w, ag_agent_id w)) (filter (duplicate_owner netuid s ag) (d_agents (sd_db s))))"

subsection \<open>Claiming\<close>

definition screening_scores :: "uuid \<Rightarrow> db \<Rightarrow> score list" where
  "screening_scores agent_id d = filter (\<lambda>r. s_agent_id r = agent_id) (d_scores d)"

definition screening_last_served_at :: "env \<Rightarrow> screening_db \<Rightarrow> agent \<Rightarrow> time" where
  "screening_last_served_at env s ag =
     (case map (\<lambda>a. case sa_finished_at a of Some t \<Rightarrow> t | None \<Rightarrow> sa_deadline a)
             (filter (\<lambda>a. sa_agent_id a = ag_agent_id ag \<and> sa_policy_version a = e_screening_policy_version env) (sd_attempts s)) of
        [] \<Rightarrow> ag_created_at ag | t # ts \<Rightarrow> fold max ts t)"

definition screening_priority_order :: "env \<Rightarrow> screening_db \<Rightarrow> agent \<Rightarrow> int \<times> rat \<times> nat \<times> time \<times> time \<times> uuid" where
  "screening_priority_order env s ag =
     (let rows = screening_scores (ag_agent_id ag) (sd_db s); near = (length rows \<ge> SCORING_QUORUM - 1) in
      (- lane near, - (if near then avg_composite rows else 0), length rows, screening_last_served_at env s ag,
       ag_created_at ag, ag_agent_id ag))"

definition claimable :: "live \<Rightarrow> time \<Rightarrow> string \<Rightarrow> screening_db \<Rightarrow> agent \<Rightarrow> bool" where
  "claimable lv now deferred_review_mode s ag \<longleftrightarrow>
     screening_eligible lv now deferred_review_mode s ag \<and> \<not> has_running_or_backoff now s ag \<and>
     \<not> earlier_pending (e_netuid (l_env lv)) (sd_db s) ag"

definition claim_candidates :: "live \<Rightarrow> time \<Rightarrow> string \<Rightarrow> uuid set \<Rightarrow> nat \<Rightarrow> screening_db \<Rightarrow> uuid list" where
  "claim_candidates lv now deferred_review_mode locked limit s =
     map ag_agent_id (take limit (filter (\<lambda>ag. ag_agent_id ag \<notin> locked)
       (sort_key (screening_priority_order (l_env lv) s) (filter (claimable lv now deferred_review_mode s) (d_agents (sd_db s))))))"

definition legacy_status :: "agent_status \<Rightarrow> attempt_status option" where
  "legacy_status st =
     (case st of EVALUATING \<Rightarrow> Some Attempt_Passed | REJECTED \<Rightarrow> Some Attempt_Rejected
      | SCREENING_FAILED \<Rightarrow> Some Attempt_Failed | _ \<Rightarrow> None)"

text \<open>A submission screened before attempts were recorded gets one row for its history.\<close>

definition legacy_attempts :: "(uuid \<Rightarrow> nat \<Rightarrow> uuid) \<Rightarrow> hotkey \<Rightarrow> agent \<Rightarrow> screening_db \<Rightarrow> screening_attempt list" where
  "legacy_attempts draw screener_hotkey ag s =
     (if \<not> list_ex (\<lambda>a. sa_agent_id a = ag_agent_id ag) (sd_attempts s) \<and> ag_screening_policy_version ag > 0 then
        (case legacy_status (ag_status ag) of None \<Rightarrow> []
         | Some st \<Rightarrow>
             [(new_attempt (ag_screening_policy_version ag) (draw (ag_agent_id ag) 0) (ag_agent_id ag) screener_hotkey st (ag_created_at ag) (ag_created_at ag))
                \<lparr>sa_finished_at := Some (ag_created_at ag),
                 sa_public_reason := ag_screening_reason ag\<rparr>])
      else [])"

definition mechanical_first :: "string \<Rightarrow> agent \<Rightarrow> bool" where
  "mechanical_first deferred_review_mode ag \<longleftrightarrow>
     deferred_review_mode = ''enforce'' \<and> ag_status ag \<in> {UPLOADED, SCREENING_FAILED}"

definition claim_build_only :: "env \<Rightarrow> string \<Rightarrow> agent \<Rightarrow> bool" where
  "claim_build_only env deferred_review_mode ag \<longleftrightarrow>
     ag_status ag \<noteq> ATH_PENDING_REVIEW \<and>
     (mechanical_first deferred_review_mode ag \<or>
      ag_status ag = EVALUATING \<and> ag_screening_policy_version ag \<ge> e_screening_policy_version env)"

definition claimed_attempt ::
  "env \<Rightarrow> (uuid \<Rightarrow> nat \<Rightarrow> uuid) \<Rightarrow> hotkey \<Rightarrow> time \<Rightarrow> timedelta \<Rightarrow> string \<Rightarrow> agent \<Rightarrow> uuid option \<Rightarrow> screening_attempt" where
  "claimed_attempt env draw screener_hotkey now ttl deferred_review_mode ag duplicate_of =
     (new_attempt (e_screening_policy_version env) (draw (ag_agent_id ag) 1) (ag_agent_id ag) screener_hotkey Attempt_Running now (now + ttl))
       \<lparr>sa_reason_code := (if duplicate_of \<noteq> None then Some ''exact-cross-miner-duplicate''
           else if mechanical_first deferred_review_mode ag then Some DEFERRED_MECHANICAL_REASON else None),
        sa_duplicate_of := duplicate_of, sa_build_only := claim_build_only env deferred_review_mode ag\<rparr>"

definition claimed_agent :: "agent \<Rightarrow> agent" where
  "claimed_agent ag =
     ag\<lparr>ag_status := (if ag_status ag \<in> {AGENT_SCORED, LIVE, ATH_PENDING_REVIEW} then ag_status ag else SCREENING),
        ag_screening_reason := None, ag_screening_reason_code := None\<rparr>"

fun claim_loop_screening ::
  "env \<Rightarrow> (uuid \<Rightarrow> nat \<Rightarrow> uuid) \<Rightarrow> hotkey \<Rightarrow> time \<Rightarrow> timedelta \<Rightarrow> string \<Rightarrow> uuid list \<Rightarrow> screening_db \<Rightarrow>
   screening_db \<times> screening_attempt list" where
  "claim_loop_screening env draw hk now ttl mode [] s = (s, [])"
| "claim_loop_screening env draw hk now ttl mode (i # is) s =
     (case get_row ag_agent_id i (d_agents (sd_db s)) of
        None \<Rightarrow> claim_loop_screening env draw hk now ttl mode is s
      | Some ag \<Rightarrow>
          if expired_attempt_count env i s \<ge> MAX_SCREENING_EXPIRIES then
            claim_loop_screening env draw hk now ttl mode is (park_repeatedly_inconclusive env draw ag hk now s)
          else
            (let attempt = claimed_attempt env draw hk now ttl mode ag (find_duplicate (e_netuid env) s ag);
                 s1 = set_agent (claimed_agent ag)
                        (s\<lparr>sd_attempts := sd_attempts s @ legacy_attempts draw hk ag s @ [attempt]\<rparr>);
                 (s2, claimed) = claim_loop_screening env draw hk now ttl mode is s1
             in (s2, attempt # claimed)))"

text \<open>Both sweeps run before the candidates are read.\<close>

definition swept :: "hotkey \<Rightarrow> time \<Rightarrow> screening_db \<Rightarrow> screening_db" where
  "swept screener_hotkey now s =
     fst (fail_orphaned_screening_attempts screener_hotkey now (fst (expire_screening_attempts now s)))"

definition claim_screening_attempts ::
  "live \<Rightarrow> (uuid \<Rightarrow> nat \<Rightarrow> uuid) \<Rightarrow> uuid set \<Rightarrow> hotkey \<Rightarrow> time \<Rightarrow> timedelta \<Rightarrow> nat \<Rightarrow> string \<Rightarrow> screening_db \<Rightarrow>
   screening_db \<times> screening_attempt list" where
  "claim_screening_attempts lv draw locked screener_hotkey now ttl limit deferred_review_mode s =
     (let s2 = swept screener_hotkey now s
      in claim_loop_screening (l_env lv) draw screener_hotkey now ttl deferred_review_mode
           (claim_candidates lv now deferred_review_mode locked limit s2) s2)"

definition get_screening_attempt :: "uuid \<Rightarrow> screening_db \<Rightarrow> screening_attempt option" where
  "get_screening_attempt attempt_id s = get_row sa_attempt_id attempt_id (sd_attempts s)"

definition list_screening_attempts :: "uuid \<Rightarrow> screening_db \<Rightarrow> screening_attempt list" where
  "list_screening_attempts agent_id s =
     sort_key (\<lambda>a. (- sa_started_at a, - int (sa_attempt_id a))) (filter (\<lambda>a. sa_agent_id a = agent_id) (sd_attempts s))"

definition get_running_screening_attempts :: "uuid list \<Rightarrow> screening_db \<Rightarrow> (uuid \<times> screening_attempt) list" where
  "get_running_screening_attempts agent_ids s =
     map (\<lambda>a. (sa_agent_id a, a)) (filter (\<lambda>a. sa_agent_id a \<in> set agent_ids \<and> running a) (sd_attempts s))"

subsection \<open>What a sweep and a claim leave alone\<close>

text \<open>
  A step that has dealt with the agents \<open>I\<close>: nobody else's row changes, nor what identifies a submission, and the new attempts and
  quarantines are theirs.
\<close>

definition submission :: "agent \<Rightarrow> uuid \<times> hotkey \<times> time \<times> string" where
  "submission ag = (ag_agent_id ag, ag_miner_hotkey ag, ag_created_at ag, ag_sha256 ag)"

definition touched :: "uuid set \<Rightarrow> screening_db \<Rightarrow> screening_db \<Rightarrow> bool" where
  "touched I s t \<longleftrightarrow>
     map submission (d_agents (sd_db t)) = map submission (d_agents (sd_db s)) \<and>
     (\<forall>j. j \<notin> I \<longrightarrow> get_row ag_agent_id j (d_agents (sd_db t)) = get_row ag_agent_id j (d_agents (sd_db s))) \<and>
     (sd_db t)\<lparr>d_agents := d_agents (sd_db s)\<rparr> = sd_db s \<and>
     (\<exists>xs. sd_attempts t = sd_attempts s @ xs \<and> sa_agent_id ` set xs \<subseteq> I) \<and>
     (\<exists>qs. sd_quarantines t = sd_quarantines s @ qs \<and> sq_agent_id ` set qs \<subseteq> I)"

lemma touched_refl [simp]: "touched I s s"
  by (simp add: touched_def)

lemma touched_trans:
  assumes st: "touched I s t" and tu: "touched J t u"
  shows "touched (I \<union> J) s u"
proof -
  from st obtain xs qs where a: "sd_attempts t = sd_attempts s @ xs" "sa_agent_id ` set xs \<subseteq> I"
    and q: "sd_quarantines t = sd_quarantines s @ qs" "sq_agent_id ` set qs \<subseteq> I" by (auto simp: touched_def)
  from tu obtain ys rs where b: "sd_attempts u = sd_attempts t @ ys" "sa_agent_id ` set ys \<subseteq> J"
    and r: "sd_quarantines u = sd_quarantines t @ rs" "sq_agent_id ` set rs \<subseteq> J" by (auto simp: touched_def)
  have "\<exists>zs. sd_attempts u = sd_attempts s @ zs \<and> sa_agent_id ` set zs \<subseteq> I \<union> J" using a b by (intro exI [of _ "xs @ ys"]) auto
  moreover have "\<exists>zs. sd_quarantines u = sd_quarantines s @ zs \<and> sq_agent_id ` set zs \<subseteq> I \<union> J" using q r by (intro exI [of _ "qs @ rs"]) auto
  moreover have "(sd_db u)\<lparr>d_agents := d_agents (sd_db s)\<rparr> = sd_db s"
  proof -
    have "(sd_db u)\<lparr>d_agents := d_agents (sd_db t)\<rparr> = sd_db t" "(sd_db t)\<lparr>d_agents := d_agents (sd_db s)\<rparr> = sd_db s"
      using st tu by (simp_all add: touched_def)
    then show ?thesis by (metis db.update_convs(1) db.surjective)
  qed
  ultimately show ?thesis using st tu by (simp add: touched_def)
qed

lemma touched_mono: "touched I s t \<Longrightarrow> I \<subseteq> J \<Longrightarrow> touched J s t"
  unfolding touched_def by (meson subset_iff subset_trans)

lemma touched_ids: "touched I s t \<Longrightarrow> map ag_agent_id (d_agents (sd_db t)) = map ag_agent_id (d_agents (sd_db s))"
proof -
  assume "touched I s t"
  then have "map fst (map submission (d_agents (sd_db t))) = map fst (map submission (d_agents (sd_db s)))" by (simp add: touched_def)
  then show ?thesis by (simp add: submission_def comp_def)
qed

lemma touched_set_agent:
  assumes "submission ag' = submission ag" and "get_row ag_agent_id i (d_agents (sd_db s)) = Some ag" "i \<in> I"
    and "distinct (map ag_agent_id (d_agents (sd_db s)))"
    and "sa_agent_id ` set xs \<subseteq> I" "sq_agent_id ` set qs \<subseteq> I"
  shows "touched I s (set_agent ag' (s\<lparr>sd_attempts := sd_attempts s @ xs, sd_quarantines := sd_quarantines s @ qs\<rparr>))"
proof -
  have ag: "ag \<in> set (d_agents (sd_db s))" "ag_agent_id ag = i" using get_row_SomeD [OF assms(2)] by simp_all
  have id': "ag_agent_id ag' = i" using assms(1) ag(2) by (simp add: submission_def)
  have "submission (if ag_agent_id x = ag_agent_id ag' then ag' else x) = submission x" if "x \<in> set (d_agents (sd_db s))" for x
    using distinct_key_eq [OF assms(4) that ag(1)] ag(2) id' assms(1) by auto
  then have "map submission (set_row ag_agent_id ag' (d_agents (sd_db s))) = map submission (d_agents (sd_db s))"
    by (simp add: set_row_def update_where_def)
  moreover have "get_row ag_agent_id j (set_row ag_agent_id ag' (d_agents (sd_db s))) = get_row ag_agent_id j (d_agents (sd_db s))" if "j \<notin> I" for j
    using that assms(3) id' by (auto simp: get_row_set_row)
  ultimately show ?thesis using assms(5,6) by (simp add: touched_def set_agent_def set_agents_def)
qed

lemma expired_count_touched:
  assumes "touched I s t" and "j \<notin> I"
  shows "expired_attempt_count env j t = expired_attempt_count env j s"
proof -
  from assms(1) obtain xs qs where a: "sd_attempts t = sd_attempts s @ xs" "sa_agent_id ` set xs \<subseteq> I"
    and q: "sd_quarantines t = sd_quarantines s @ qs" "sq_agent_id ` set qs \<subseteq> I" by (auto simp: touched_def)
  have "filter (\<lambda>r. sq_agent_id r = j \<and> P r) qs = []" for P using q(2) assms(2) by (auto simp: filter_empty_conv)
  then have "last_operator_clear j t = last_operator_clear j s" by (simp add: last_operator_clear_def operator_clears_def q(1))
  moreover have "filter (\<lambda>r. sa_agent_id r = j \<and> P r) xs = []" for P using a(2) assms(2) by (auto simp: filter_empty_conv)
  ultimately show ?thesis by (simp add: expired_attempt_count_def a(1))
qed

lemma set_agent_record [simp]:
  "sd_attempts (set_agent ag s) = sd_attempts s" "sd_quarantines (set_agent ag s) = sd_quarantines s"
  "d_agents (sd_db (set_agent ag s)) = set_row ag_agent_id ag (d_agents (sd_db s))"
  by (simp_all add: set_agent_def set_agents_def)

lemma park_touched:
  assumes "get_row ag_agent_id i (d_agents (sd_db s)) = Some ag" and "distinct (map ag_agent_id (d_agents (sd_db s)))"
  shows "touched {i} s (park_repeatedly_inconclusive env draw ag hk now s)"
proof -
  have "ag_agent_id ag = i" using get_row_SomeD [OF assms(1)] by simp
  then show ?thesis unfolding park_repeatedly_inconclusive_def Let_def
    by (intro touched_set_agent [OF _ assms(1) _ assms(2)]) (simp_all add: submission_def new_attempt_def)
qed

lemma legacy_status_finished: "legacy_status st \<noteq> Some Attempt_Running"
  by (cases st) (simp_all add: legacy_status_def)

lemma legacy_cases:
  obtains "legacy_attempts draw hk ag s = []"
  | st where "legacy_status (ag_status ag) = Some st"
      "legacy_attempts draw hk ag s =
         [(new_attempt (ag_screening_policy_version ag) (draw (ag_agent_id ag) 0) (ag_agent_id ag) hk st (ag_created_at ag) (ag_created_at ag))
                \<lparr>sa_finished_at := Some (ag_created_at ag), sa_public_reason := ag_screening_reason ag\<rparr>]"
proof (cases "legacy_status (ag_status ag)")
  case None
  then show thesis using that(1) by (simp only: legacy_attempts_def option.case if_cancel)
next
  case (Some st)
  show thesis
  proof (cases "\<not> list_ex (\<lambda>a. sa_agent_id a = ag_agent_id ag) (sd_attempts s) \<and> ag_screening_policy_version ag > 0")
    case True
    then show thesis using Some that(2) by (simp only: legacy_attempts_def option.case if_True simp_thms)
  next
    case False
    then show thesis using that(1) by (simp only: legacy_attempts_def if_False)
  qed
qed

lemma legacy_agent_id:
  assumes "a \<in> set (legacy_attempts draw hk ag s)"
  shows "sa_agent_id a = ag_agent_id ag \<and> \<not> running a"
  by (rule legacy_cases [of draw hk ag s])
    (use assms legacy_status_finished [of "ag_status ag"] in \<open>auto simp: new_attempt_def running_def\<close>)

lemma claimed_attempt_fields [simp]:
  "sa_agent_id (claimed_attempt env draw hk now ttl mode ag dup) = ag_agent_id ag"
  "sa_status (claimed_attempt env draw hk now ttl mode ag dup) = Attempt_Running"
  "sa_started_at (claimed_attempt env draw hk now ttl mode ag dup) = now"
  "sa_deadline (claimed_attempt env draw hk now ttl mode ag dup) = now + ttl"
  "sa_duplicate_of (claimed_attempt env draw hk now ttl mode ag dup) = dup"
  "sa_policy_version (claimed_attempt env draw hk now ttl mode ag dup) = e_screening_policy_version env"
  "sa_screener_hotkey (claimed_attempt env draw hk now ttl mode ag dup) = hk"
  by (simp_all add: claimed_attempt_def new_attempt_def)

lemma submission_claimed_agent [simp]: "submission (claimed_agent ag) = submission ag"
  by (simp add: claimed_agent_def submission_def)

lemma claim_one_touched:
  assumes "get_row ag_agent_id i (d_agents (sd_db s)) = Some ag" and "distinct (map ag_agent_id (d_agents (sd_db s)))"
  shows "touched {i} s (set_agent (claimed_agent ag)
     (s\<lparr>sd_attempts := sd_attempts s @ legacy_attempts draw hk ag s @ [claimed_attempt env draw hk now ttl mode ag dup]\<rparr>))"
  using touched_set_agent [OF submission_claimed_agent assms(1) _ assms(2), of "{i}" "legacy_attempts draw hk ag s @ [claimed_attempt env draw hk now ttl mode ag dup]" "[]"]
    get_row_SomeD [OF assms(1)] legacy_agent_id [of _ draw hk ag s]
  by (auto simp: image_subset_iff)

subsection \<open>The loop of a claim\<close>

lemma claim_loop_spec:
  assumes "claim_loop_screening env draw hk now ttl mode is s = (s', claimed)"
    and "distinct is" and "distinct (map ag_agent_id (d_agents (sd_db s)))" and "set is \<subseteq> ag_agent_id ` set (d_agents (sd_db s))"
  shows "touched (set is) s s'
    \<and> map sa_agent_id claimed = filter (\<lambda>i. expired_attempt_count env i s < MAX_SCREENING_EXPIRIES) is
    \<and> (\<forall>a \<in> set claimed. a \<in> set (sd_attempts s') \<and> (\<exists>st ag. touched (set is - {sa_agent_id a}) s st \<and>
         get_row ag_agent_id (sa_agent_id a) (d_agents (sd_db s)) = Some ag \<and>
         a = claimed_attempt env draw hk now ttl mode ag (find_duplicate (e_netuid env) st ag)))"
  using assms
proof (induction "is" arbitrary: s claimed)
  case Nil
  then show ?case by simp
next
  case (Cons i "is")
  from Cons.prems(4) obtain ag where ag: "get_row ag_agent_id i (d_agents (sd_db s)) = Some ag"
    by (cases "get_row ag_agent_id i (d_agents (sd_db s))") (auto simp: get_row_None_iff)
  have i: "i \<notin> set is" and d: "distinct is" using Cons.prems(2) by simp_all
  define step where "step = (if expired_attempt_count env i s \<ge> MAX_SCREENING_EXPIRIES then park_repeatedly_inconclusive env draw ag hk now s
    else set_agent (claimed_agent ag) (s\<lparr>sd_attempts := sd_attempts s @ legacy_attempts draw hk ag s @
      [claimed_attempt env draw hk now ttl mode ag (find_duplicate (e_netuid env) s ag)]\<rparr>))"
  define first where "first = (if expired_attempt_count env i s \<ge> MAX_SCREENING_EXPIRIES then []
    else [claimed_attempt env draw hk now ttl mode ag (find_duplicate (e_netuid env) s ag)])"
  have t1: "touched {i} s step" unfolding step_def using park_touched [OF ag Cons.prems(3)] claim_one_touched [OF ag Cons.prems(3)] by simp
  from Cons.prems(1) ag obtain cs where rest: "claim_loop_screening env draw hk now ttl mode is step = (s', cs)" and cl: "claimed = first @ cs"
    by (auto simp: step_def first_def Let_def split: if_splits prod.splits)
  have ids: "map ag_agent_id (d_agents (sd_db step)) = map ag_agent_id (d_agents (sd_db s))" using touched_ids [OF t1] .
  then have sets: "ag_agent_id ` set (d_agents (sd_db step)) = ag_agent_id ` set (d_agents (sd_db s))" by (metis list.set_map)
  note IH = Cons.IH [OF rest d, unfolded ids sets, OF Cons.prems(3)]
  then have t2: "touched (set is) step s'" and m: "map sa_agent_id cs = filter (\<lambda>i. expired_attempt_count env i step < MAX_SCREENING_EXPIRIES) is"
    and each: "\<forall>a \<in> set cs. a \<in> set (sd_attempts s') \<and> (\<exists>st ag. touched (set is - {sa_agent_id a}) step st \<and>
         get_row ag_agent_id (sa_agent_id a) (d_agents (sd_db step)) = Some ag \<and>
         a = claimed_attempt env draw hk now ttl mode ag (find_duplicate (e_netuid env) st ag))"
    using Cons.prems(4) by auto
  have t: "touched (set (i # is)) s s'" using touched_trans [OF t1 t2] by simp
  have m': "map sa_agent_id cs = filter (\<lambda>i. expired_attempt_count env i s < MAX_SCREENING_EXPIRIES) is"
    unfolding m
  proof (rule filter_cong [OF refl])
    fix j assume "j \<in> set is"
    with i have "j \<notin> {i}" by auto
    then show "expired_attempt_count env j step < MAX_SCREENING_EXPIRIES \<longleftrightarrow> expired_attempt_count env j s < MAX_SCREENING_EXPIRIES"
      using expired_count_touched [OF t1] by simp
  qed
  have mem1: "a \<in> set (sd_attempts s')" if "a \<in> set first" for a
  proof -
    have "a \<in> set (sd_attempts step)" using that by (auto simp: first_def step_def split: if_splits)
    with t2 show ?thesis by (auto simp: touched_def)
  qed
  have ai: "ag_agent_id ag = i" using get_row_SomeD [OF ag] by simp
  have head: "\<exists>st ag. touched (set (i # is) - {sa_agent_id a}) s st \<and> get_row ag_agent_id (sa_agent_id a) (d_agents (sd_db s)) = Some ag \<and>
      a = claimed_attempt env draw hk now ttl mode ag (find_duplicate (e_netuid env) st ag)" if "a \<in> set first" for a
    using that ag ai by (intro exI [of _ s] exI [of _ ag]) (auto simp: first_def split: if_splits)
  have tail: "\<exists>st ag. touched (set (i # is) - {sa_agent_id a}) s st \<and> get_row ag_agent_id (sa_agent_id a) (d_agents (sd_db s)) = Some ag \<and>
      a = claimed_attempt env draw hk now ttl mode ag (find_duplicate (e_netuid env) st ag)" if a: "a \<in> set cs" for a
  proof -
    from each a obtain st ag' where st: "touched (set is - {sa_agent_id a}) step st" "get_row ag_agent_id (sa_agent_id a) (d_agents (sd_db step)) = Some ag'"
      "a = claimed_attempt env draw hk now ttl mode ag' (find_duplicate (e_netuid env) st ag')" by blast
    have "sa_agent_id a \<in> set is" using a m' by (metis filter_is_subset image_eqI list.set_map subsetD)
    with i have ne: "sa_agent_id a \<noteq> i" by auto
    have "touched (set (i # is) - {sa_agent_id a}) s st"
      using touched_trans [OF t1 st(1)] by (rule touched_mono) (use ne in auto)
    moreover have "get_row ag_agent_id (sa_agent_id a) (d_agents (sd_db s)) = Some ag'" using t1 st(2) ne by (simp add: touched_def)
    ultimately show ?thesis using st(3) by blast
  qed
  show ?case
  proof (intro conjI ballI)
    show "touched (set (i # is)) s s'" by (rule t)
    show "map sa_agent_id claimed = filter (\<lambda>i. expired_attempt_count env i s < MAX_SCREENING_EXPIRIES) (i # is)"
      using m' ai by (simp add: cl first_def not_le)
  next
    fix a assume "a \<in> set claimed"
    then consider "a \<in> set first" | "a \<in> set cs" by (auto simp: cl)
    then show "a \<in> set (sd_attempts s')" "\<exists>st ag. touched (set (i # is) - {sa_agent_id a}) s st \<and>
        get_row ag_agent_id (sa_agent_id a) (d_agents (sd_db s)) = Some ag \<and>
        a = claimed_attempt env draw hk now ttl mode ag (find_duplicate (e_netuid env) st ag)"
      using mem1 head tail each by blast+
  qed
qed

subsection \<open>An append-only history\<close>

definition lease_of :: "screening_attempt \<Rightarrow> uuid \<times> uuid \<times> hotkey \<times> int \<times> time \<times> time \<times> uuid option \<times> bool" where
  "lease_of a = (sa_attempt_id a, sa_agent_id a, sa_screener_hotkey a, sa_policy_version a, sa_started_at a, sa_deadline a,
     sa_duplicate_of a, sa_build_only a)"

text \<open>An attempt may finish once; what was leased and every finished attempt stay as they are.\<close>

definition attempt_grows :: "screening_attempt \<Rightarrow> screening_attempt \<Rightarrow> bool" where
  "attempt_grows a b \<longleftrightarrow> b = a \<or> running a \<and> \<not> running b \<and> sa_finished_at b \<noteq> None \<and> lease_of b = lease_of a"

definition history_grows :: "screening_db \<Rightarrow> screening_db \<Rightarrow> bool" where
  "history_grows s t \<longleftrightarrow> (\<exists>xs ys. sd_attempts t = xs @ ys \<and> list_all2 attempt_grows (sd_attempts s) xs)"

definition one_running :: "screening_db \<Rightarrow> bool" where
  "one_running s \<longleftrightarrow> distinct (map sa_agent_id (filter running (sd_attempts s)))"

lemma attempt_grows_refl [simp]: "attempt_grows a a"
  by (simp add: attempt_grows_def)

lemma attempt_grows_trans: "attempt_grows a b \<Longrightarrow> attempt_grows b c \<Longrightarrow> attempt_grows a c"
  by (auto simp: attempt_grows_def)

lemma history_refl [simp]: "history_grows s s"
  unfolding history_grows_def by (intro exI [of _ "sd_attempts s"] exI [of _ "[]"]) (simp add: list_all2_same)

lemma history_trans:
  assumes "history_grows s t" and "history_grows t u"
  shows "history_grows s u"
proof -
  from assms obtain xs ys vs ws where t: "sd_attempts t = xs @ ys" "list_all2 attempt_grows (sd_attempts s) xs"
    and u: "sd_attempts u = vs @ ws" "list_all2 attempt_grows (xs @ ys) vs" by (auto simp: history_grows_def)
  from u(2) obtain v1 v2 where v: "vs = v1 @ v2" "list_all2 attempt_grows xs v1" by (auto simp: list_all2_append1)
  have "list_all2 attempt_grows (sd_attempts s) v1" using list_all2_trans [OF _ t(2) v(2)] attempt_grows_trans by blast
  then show ?thesis unfolding history_grows_def u(1) v(1) by (intro exI [of _ v1] exI [of _ "v2 @ ws"]) simp
qed

lemma history_append: "sd_attempts t = sd_attempts s @ xs \<Longrightarrow> history_grows s t"
  unfolding history_grows_def by (intro exI [of _ "sd_attempts s"] exI [of _ xs]) (simp add: list_all2_same)

lemma history_update:
  assumes "sd_attempts t = update_where p f (sd_attempts s)" and "\<And>a. a \<in> set (sd_attempts s) \<Longrightarrow> p a \<Longrightarrow> attempt_grows a (f a)"
  shows "history_grows s t"
proof -
  have "list_all2 attempt_grows rows (update_where p f rows)" if "\<And>a. a \<in> set rows \<Longrightarrow> p a \<Longrightarrow> attempt_grows a (f a)" for rows
    using that by (induction rows) (auto simp: row_simps)
  with assms show ?thesis unfolding history_grows_def by (intro exI [of _ "sd_attempts t"] exI [of _ "[]"]) simp
qed

lemma history_finished: "history_grows s t \<Longrightarrow> a \<in> set (sd_attempts s) \<Longrightarrow> \<not> running a \<Longrightarrow> a \<in> set (sd_attempts t)"
proof -
  assume "history_grows s t" and a: "a \<in> set (sd_attempts s)" "\<not> running a"
  then obtain xs ys where t: "sd_attempts t = xs @ ys" "list_all2 attempt_grows (sd_attempts s) xs" by (auto simp: history_grows_def)
  from a(1) obtain n where n: "n < length (sd_attempts s)" "sd_attempts s ! n = a" by (auto simp: in_set_conv_nth)
  with t(2) have "attempt_grows a (xs ! n)" "n < length xs" by (auto simp: list_all2_conv_all_nth)
  with a(2) have "a \<in> set xs" by (auto simp: attempt_grows_def)
  then show ?thesis by (simp add: t(1))
qed

lemma one_running_update:
  assumes "one_running s" and "sd_attempts t = update_where p f (sd_attempts s)" and "\<And>a. p a \<Longrightarrow> \<not> running (f a)"
  shows "one_running t"
proof -
  have "filter running (sd_attempts t) = filter (\<lambda>a. \<not> p a) (filter running (sd_attempts s))"
    unfolding assms(2) by (subst filter_update_where_drop) (auto simp: assms(3) intro: filter_cong)
  with assms(1) show ?thesis unfolding one_running_def by (simp add: distinct_map_filter del: filter_filter)
qed

subsection \<open>The sweeps before a claim\<close>

lemma set_agents_record [simp]:
  "sd_attempts (set_agents f s) = sd_attempts s" "sd_quarantines (set_agents f s) = sd_quarantines s"
  "d_agents (sd_db (set_agents f s)) = f (d_agents (sd_db s))"
  by (simp_all add: set_agents_def)

lemma expire_attempts_eq:
  "sd_attempts (fst (expire_screening_attempts now s)) = update_where (attempt_overdue now) (expire_attempt now) (sd_attempts s)"
  by (simp add: expire_screening_attempts_def Let_def)

lemma orphan_attempts_eq:
  "sd_attempts (fst (fail_orphaned_screening_attempts hk now s)) =
   update_where (attempt_orphaned hk now (fresh_heartbeats hk now s)) (fail_attempt now) (sd_attempts s)"
  by (simp add: fail_orphaned_screening_attempts_def Let_def)

lemma expire_attempt_finishes: "attempt_overdue now a \<Longrightarrow> \<not> running (expire_attempt now a) \<and> attempt_grows a (expire_attempt now a)"
  by (simp add: attempt_overdue_def expire_attempt_def attempt_grows_def running_def lease_of_def)

lemma fail_attempt_finishes: "attempt_orphaned hk now hbs a \<Longrightarrow> \<not> running (fail_attempt now a) \<and> attempt_grows a (fail_attempt now a)"
  by (simp add: attempt_orphaned_def fail_attempt_def attempt_grows_def running_def lease_of_def)

lemma not_running_sweep [simp]: "\<not> running (expire_attempt now a)" "\<not> running (fail_attempt now a)"
  by (simp_all add: running_def expire_attempt_def fail_attempt_def)

lemma swept_one_running: "one_running s \<Longrightarrow> one_running (swept hk now s)"
  unfolding swept_def
  by (rule one_running_update [OF one_running_update [OF _ expire_attempts_eq] orphan_attempts_eq]) simp_all

lemma swept_history: "history_grows s (swept hk now s)"
  unfolding swept_def
  by (rule history_trans [OF history_update [OF expire_attempts_eq] history_update [OF orphan_attempts_eq]])
    (use expire_attempt_finishes fail_attempt_finishes in blast)+

lemma swept_ids [simp]: "map ag_agent_id (d_agents (sd_db (swept hk now s))) = map ag_agent_id (d_agents (sd_db s))"
  by (simp add: swept_def expire_screening_attempts_def fail_orphaned_screening_attempts_def Let_def update_where_def comp_def if_distrib cong: if_cong)

lemma swept_not_overdue: "a \<in> set (sd_attempts (swept hk now s)) \<Longrightarrow> running a \<Longrightarrow> now \<le> sa_deadline a"
  by (auto simp: swept_def expire_attempts_eq orphan_attempts_eq set_update_where attempt_overdue_def)

lemma image_disjointI: "(\<And>a. a \<in> A \<Longrightarrow> f a \<notin> B) \<Longrightarrow> B \<inter> f ` A = {}"
  by auto

lemma candidates_spec:
  assumes "distinct (map ag_agent_id (d_agents (sd_db s)))"
  shows "distinct (claim_candidates lv now mode locked limit s)" and "length (claim_candidates lv now mode locked limit s) \<le> limit"
    and "i \<in> set (claim_candidates lv now mode locked limit s) \<Longrightarrow>
      \<exists>ag. get_row ag_agent_id i (d_agents (sd_db s)) = Some ag \<and> claimable lv now mode s ag \<and> i \<notin> locked"
proof -
  let ?rows = "filter (\<lambda>ag. ag_agent_id ag \<notin> locked)
       (sort_key (screening_priority_order (l_env lv) s) (filter (claimable lv now mode s) (d_agents (sd_db s))))"
  have "distinct (map ag_agent_id (filter (claimable lv now mode s) (d_agents (sd_db s))))" using assms by (rule distinct_map_filter)
  then have "inj_on ag_agent_id (set (filter (claimable lv now mode s) (d_agents (sd_db s))))" "distinct (filter (claimable lv now mode s) (d_agents (sd_db s)))"
    by (simp_all add: distinct_map)
  then have "distinct (map ag_agent_id (sort_key (screening_priority_order (l_env lv) s) (filter (claimable lv now mode s) (d_agents (sd_db s)))))"
    by (simp add: distinct_map)
  then have "distinct (map ag_agent_id ?rows)" by (rule distinct_map_filter)
  then show "distinct (claim_candidates lv now mode locked limit s)"
    unfolding claim_candidates_def take_map [symmetric] by (rule distinct_take)
  show "length (claim_candidates lv now mode locked limit s) \<le> limit" by (simp add: claim_candidates_def)
  assume "i \<in> set (claim_candidates lv now mode locked limit s)"
  then obtain ag where "ag \<in> set (take limit ?rows)" and id: "ag_agent_id ag = i" unfolding claim_candidates_def by (metis (no_types, lifting) imageE list.set_map)
  then have ag: "ag \<in> set ?rows" using in_set_takeD by fast
  then have "ag \<in> set (d_agents (sd_db s))" "claimable lv now mode s ag" "i \<notin> locked" using id by auto
  with get_row_eqI [OF assms] id show "\<exists>ag. get_row ag_agent_id i (d_agents (sd_db s)) = Some ag \<and> claimable lv now mode s ag \<and> i \<notin> locked"
    by blast
qed

lemma candidates_subset:
  assumes "distinct (map ag_agent_id (d_agents (sd_db s)))"
  shows "set (claim_candidates lv now mode locked limit s) \<subseteq> ag_agent_id ` set (d_agents (sd_db s))"
  using candidates_spec(3) [OF assms] get_row_SomeD by fast

text \<open>The running attempts of the loop: the old ones and the ones it hands out.\<close>

lemma claim_loop_running:
  "claim_loop_screening env draw hk now ttl mode is s = (s', claimed) \<Longrightarrow>
   filter running (sd_attempts s') = filter running (sd_attempts s) @ claimed"
proof (induction "is" arbitrary: s claimed)
  case (Cons i "is")
  have legacy: "filter running (legacy_attempts draw hk ag s) = []" for ag
    using legacy_agent_id by (auto simp: filter_empty_conv)
  have run: "running (claimed_attempt env draw hk now ttl mode ag dup)" for ag dup by (simp add: running_def)
  have park: "filter running (sd_attempts (park_repeatedly_inconclusive env draw ag hk now s)) = filter running (sd_attempts s)" for ag
    by (simp add: park_repeatedly_inconclusive_def Let_def running_def new_attempt_def)
  from Cons.prems show ?case
    by (auto simp: Let_def legacy run park dest!: Cons.IH split: option.splits if_splits prod.splits)
qed simp

text \<open>A submission that has used up its expiries is parked.\<close>

definition parked :: "uuid \<Rightarrow> screening_db \<Rightarrow> bool" where
  "parked i s \<longleftrightarrow>
     (case get_row ag_agent_id i (d_agents (sd_db s)) of None \<Rightarrow> False | Some ag \<Rightarrow> ag_status ag = QUARANTINED) \<and>
     list_ex (\<lambda>q. sq_agent_id q = i \<and> sq_status q = ''active'') (sd_quarantines s)"

lemma parked_touched: "touched I s t \<Longrightarrow> i \<notin> I \<Longrightarrow> parked i s \<Longrightarrow> parked i t"
  unfolding parked_def touched_def by auto

lemma park_parks:
  assumes "get_row ag_agent_id i (d_agents (sd_db s)) = Some ag"
  shows "parked i (park_repeatedly_inconclusive env draw ag hk now s)"
proof -
  have "ag_agent_id ag = i" using get_row_SomeD [OF assms] by simp
  with assms show ?thesis by (simp add: parked_def park_repeatedly_inconclusive_def Let_def get_row_set_row)
qed

lemma claim_loop_parks:
  assumes "claim_loop_screening env draw hk now ttl mode is s = (s', claimed)"
    and "distinct is" and "distinct (map ag_agent_id (d_agents (sd_db s)))" and "set is \<subseteq> ag_agent_id ` set (d_agents (sd_db s))"
    and "i \<in> set is" "MAX_SCREENING_EXPIRIES \<le> expired_attempt_count env i s"
  shows "parked i s'"
  using assms
proof (induction "is" arbitrary: s claimed)
  case (Cons j "is")
  from Cons.prems(4) obtain ag where ag: "get_row ag_agent_id j (d_agents (sd_db s)) = Some ag"
    by (cases "get_row ag_agent_id j (d_agents (sd_db s))") (auto simp: get_row_None_iff)
  obtain t cs where rest: "claim_loop_screening env draw hk now ttl mode is t = (s', cs)"
    and t: "touched {j} s t" and p: "MAX_SCREENING_EXPIRIES \<le> expired_attempt_count env j s \<Longrightarrow> parked j t"
  proof (cases "MAX_SCREENING_EXPIRIES \<le> expired_attempt_count env j s")
    case True
    with Cons.prems(1) ag have "claim_loop_screening env draw hk now ttl mode is (park_repeatedly_inconclusive env draw ag hk now s) = (s', claimed)" by simp
    then show thesis using that park_touched [OF ag Cons.prems(3)] park_parks [OF ag] by blast
  next
    case False
    from Cons.prems(1) ag False obtain cs where "claim_loop_screening env draw hk now ttl mode is
        (set_agent (claimed_agent ag) (s\<lparr>sd_attempts := sd_attempts s @ legacy_attempts draw hk ag s @
          [claimed_attempt env draw hk now ttl mode ag (find_duplicate (e_netuid env) s ag)]\<rparr>)) = (s', cs)"
      by (simp add: Let_def split: prod.splits)
    then show thesis using that claim_one_touched [OF ag Cons.prems(3)] False by blast
  qed
  have "ag_agent_id ` set (d_agents (sd_db t)) = ag_agent_id ` set (d_agents (sd_db s))"
    using arg_cong [OF touched_ids [OF t], of set] by simp
  then have ids: "distinct (map ag_agent_id (d_agents (sd_db t)))" "set is \<subseteq> ag_agent_id ` set (d_agents (sd_db t))"
    using Cons.prems(3,4) touched_ids [OF t] by simp_all
  show ?case
  proof (cases "i = j")
    case True
    have "touched (set is) t s'" using claim_loop_spec [OF rest _ ids] Cons.prems(2) by simp
    with True p Cons.prems(2,6) show ?thesis using parked_touched by force
  next
    case False
    then have "expired_attempt_count env i t = expired_attempt_count env i s" using expired_count_touched [OF t] by simp
    with Cons.IH [OF rest _ ids] False Cons.prems show ?thesis by simp
  qed
qed simp

lemma claim_hands_out:
  assumes ids: "distinct (map ag_agent_id (d_agents (sd_db s)))" and one: "one_running s" and ttl: "0 \<le> ttl"
    and claim: "claim_screening_attempts lv draw locked hk now ttl limit mode s = (s', claimed)"
  shows "one_running s' \<and> (\<forall>a \<in> set (sd_attempts s'). running a \<longrightarrow> now \<le> sa_deadline a) \<and> length claimed \<le> limit
    \<and> (\<forall>a \<in> set claimed. a \<in> set (sd_attempts s') \<and> running a \<and> sa_started_at a = now \<and> sa_deadline a = now + ttl \<and>
         sa_screener_hotkey a = hk \<and> sa_policy_version a = e_screening_policy_version (l_env lv) \<and> sa_agent_id a \<notin> locked \<and>
         expired_attempt_count (l_env lv) (sa_agent_id a) (swept hk now s) < 5 \<and>
         (\<exists>ag \<in> set (d_agents (sd_db (swept hk now s))). ag_agent_id ag = sa_agent_id a \<and> claimable lv now mode (swept hk now s) ag))
    \<and> (\<forall>i \<in> set (claim_candidates lv now mode locked limit (swept hk now s)).
         5 \<le> expired_attempt_count (l_env lv) i (swept hk now s) \<longrightarrow> parked i s' \<and> i \<notin> sa_agent_id ` set claimed)
    \<and> (\<forall>j. j \<notin> set (claim_candidates lv now mode locked limit (swept hk now s)) \<longrightarrow>
         get_row ag_agent_id j (d_agents (sd_db s')) = get_row ag_agent_id j (d_agents (sd_db (swept hk now s))))"
proof -
  let ?s = "swept hk now s" and ?is = "claim_candidates lv now mode locked limit (swept hk now s)"
  have ids': "distinct (map ag_agent_id (d_agents (sd_db ?s)))" using ids by simp
  from claim have loop: "claim_loop_screening (l_env lv) draw hk now ttl mode ?is ?s = (s', claimed)"
    by (simp add: claim_screening_attempts_def Let_def)
  note spec = claim_loop_spec [OF loop candidates_spec(1) [OF ids'] ids' candidates_subset [OF ids']]
  have m: "map sa_agent_id claimed = filter (\<lambda>i. expired_attempt_count (l_env lv) i ?s < MAX_SCREENING_EXPIRIES) ?is" using spec by blast
  note cand = candidates_spec [OF ids', where lv = lv and now = now and mode = mode and locked = locked and limit = limit]
  have agent: "\<exists>ag. get_row ag_agent_id (sa_agent_id a) (d_agents (sd_db ?s)) = Some ag \<and> claimable lv now mode ?s ag \<and> sa_agent_id a \<notin> locked \<and>
      expired_attempt_count (l_env lv) (sa_agent_id a) ?s < 5" if "a \<in> set claimed" for a
  proof -
    from that m have "sa_agent_id a \<in> set (filter (\<lambda>i. expired_attempt_count (l_env lv) i ?s < MAX_SCREENING_EXPIRIES) ?is)"
      by (metis image_eqI list.set_map)
    with cand(3) [of "sa_agent_id a"] show ?thesis by (auto simp: MAX_SCREENING_EXPIRIES_def)
  qed
  have fresh: "sa_agent_id a \<notin> sa_agent_id ` set (filter running (sd_attempts ?s))" if "a \<in> set claimed" for a
    using agent [OF that] get_row_SomeD by (fastforce simp: claimable_def has_running_or_backoff_def list_ex_iff)
  have run: "filter running (sd_attempts s') = filter running (sd_attempts ?s) @ claimed" using claim_loop_running [OF loop] .
  have "distinct (map sa_agent_id claimed)" unfolding m using cand(1) by simp
  moreover have "sa_agent_id ` set (filter running (sd_attempts ?s)) \<inter> sa_agent_id ` set claimed = {}"
    by (rule image_disjointI) (rule fresh)
  ultimately have "one_running s'" using swept_one_running [OF one, of hk now] unfolding one_running_def run by simp
  moreover have fields: "running a \<and> sa_started_at a = now \<and> sa_deadline a = now + ttl \<and> sa_screener_hotkey a = hk \<and>
      sa_policy_version a = e_screening_policy_version (l_env lv) \<and> a \<in> set (sd_attempts s')" if "a \<in> set claimed" for a
    using spec that by (auto simp: running_def)
  moreover have "now \<le> sa_deadline a" if "a \<in> set (sd_attempts s')" "running a" for a
  proof -
    from that have "a \<in> set (filter running (sd_attempts ?s) @ claimed)" unfolding run [symmetric] by simp
    then show ?thesis using swept_not_overdue fields ttl by auto
  qed
  moreover have "length claimed \<le> limit"
  proof -
    have "length claimed = length (map sa_agent_id claimed)" by simp
    also have "\<dots> \<le> limit" unfolding m using cand(2) order_trans [OF length_filter_le] by blast
    finally show ?thesis .
  qed
  moreover have "get_row ag_agent_id j (d_agents (sd_db s')) = get_row ag_agent_id j (d_agents (sd_db ?s))" if "j \<notin> set ?is" for j
    using spec that by (simp add: touched_def)
  moreover have "parked i s' \<and> i \<notin> sa_agent_id ` set claimed" if "i \<in> set ?is" "5 \<le> expired_attempt_count (l_env lv) i ?s" for i
    using claim_loop_parks [OF loop cand(1) ids' candidates_subset [OF ids'] that(1)] that(2) agent by (force simp: MAX_SCREENING_EXPIRIES_def)
  moreover have "\<exists>ag \<in> set (d_agents (sd_db ?s)). ag_agent_id ag = sa_agent_id a \<and> claimable lv now mode ?s ag" if "a \<in> set claimed" for a
    using agent [OF that] get_row_SomeD by fast
  ultimately show ?thesis using agent by (intro conjI ballI allI impI) blast+
qed


subsection \<open>The duplicate check\<close>

lemma touched_tables:
  assumes "touched I s t"
  shows "d_payments (sd_db t) = d_payments (sd_db s)" "d_attestations (sd_db t) = d_attestations (sd_db s)"
proof -
  have eq: "(sd_db t)\<lparr>d_agents := d_agents (sd_db s)\<rparr> = sd_db s" using assms by (simp add: touched_def)
  from arg_cong [OF eq, of d_payments] show "d_payments (sd_db t) = d_payments (sd_db s)" by simp
  from arg_cong [OF eq, of d_attestations] show "d_attestations (sd_db t) = d_attestations (sd_db s)" by simp
qed

lemma touched_submissions: "touched I s t \<Longrightarrow> submission ` set (d_agents (sd_db t)) = submission ` set (d_agents (sd_db s))"
  unfolding touched_def by (metis list.set_map)

lemma touched_origin:
  assumes "touched I s t" and "v \<in> set (d_agents (sd_db t))"
  obtains u where "u \<in> set (d_agents (sd_db s))" "submission u = submission v"
proof -
  from assms(2) have "submission v \<in> submission ` set (d_agents (sd_db t))" by simp
  with touched_submissions [OF assms(1)] have "submission v \<in> submission ` set (d_agents (sd_db s))" by simp
  then show thesis using that by (metis imageE)
qed

lemma earlier_copy_touched:
  assumes "touched I s t" and "submission w = submission v"
  shows "earlier_copy netuid (sd_db t) ag w \<longleftrightarrow> earlier_copy netuid (sd_db s) ag v"
  using assms(2) touched_tables [OF assms(1)]
  by (simp add: earlier_copy_def different_owner_def submitted_before_def direct_owner_link_def coldkey_of_def payment_of_def submission_def)

lemma duplicate_owner_touched:
  assumes t: "touched I s t" and ids: "distinct (map ag_agent_id (d_agents (sd_db s)))"
    and w: "w \<in> set (d_agents (sd_db s))" "ag_agent_id w \<notin> I" and dup: "duplicate_owner netuid s ag w"
  shows "w \<in> set (d_agents (sd_db t))" and "duplicate_owner netuid t ag w"
proof -
  have "get_row ag_agent_id (ag_agent_id w) (d_agents (sd_db t)) = Some w"
    using t w(2) get_row_eqI [OF ids w(1)] by (simp add: touched_def)
  then show "w \<in> set (d_agents (sd_db t))" using get_row_SomeD by fast
  have "refused_for_cause s w \<Longrightarrow> refused_for_cause t w" using t by (auto simp: refused_for_cause_def touched_def)
  with dup earlier_copy_touched [OF t refl] show "duplicate_owner netuid t ag w" by (auto simp: duplicate_owner_def)
qed

lemma find_duplicate_SomeD:
  assumes "find_duplicate n s ag = Some w"
  shows "\<exists>v \<in> set (d_agents (sd_db s)). duplicate_owner n s ag v \<and> ag_agent_id v = w"
proof (cases "first_by (\<lambda>w. (ag_created_at w, ag_agent_id w)) (filter (duplicate_owner n s ag) (d_agents (sd_db s)))")
  case None
  with assms show ?thesis by (simp only: find_duplicate_def) simp
next
  case (Some v)
  with first_by_SomeD(1) [OF Some] assms show ?thesis by (simp add: find_duplicate_def) blast
qed


subsection \<open>Two copies of the same bytes\<close>

definition demo_draw :: "uuid \<Rightarrow> nat \<Rightarrow> uuid" where
  "demo_draw i k = 10 * i + k"

definition copies_db :: "agent_status \<Rightarrow> screening_db" where
  "copies_db st =
     \<lparr>sd_db = demo_db\<lparr>d_agents := [(demo_agent 1 ''h1'')\<lparr>ag_status := st, ag_screening_policy_version := 8\<rparr>,
                                   (demo_agent 2 ''h2'')\<lparr>ag_status := UPLOADED\<rparr>],
                      d_payments := [], d_attestations := []\<rparr>,
      sd_attempts = [], sd_quarantines = [], sd_retry_overrides = [], sd_heartbeats = [], sd_reviews = []\<rparr>"

abbreviation demo_claim :: "nat \<Rightarrow> agent_status \<Rightarrow> screening_db \<times> screening_attempt list" where
  "demo_claim limit st \<equiv> claim_screening_attempts demo_live demo_draw {} ''s'' 100 (td_minutes 70) limit ''off'' (copies_db st)"

lemma copies_ids: "distinct (map ag_agent_id (d_agents (sd_db (copies_db st))))" "one_running (copies_db st)"
  by (simp_all add: copies_db_def demo_agent_def one_running_def)

lemma copies_claimed:
  "map (\<lambda>a. (sa_agent_id a, sa_duplicate_of a)) (snd (demo_claim 20 LIVE)) = [(2, Some 1)]"
  "map (\<lambda>a. (sa_agent_id a, sa_duplicate_of a)) (snd (demo_claim 20 EVALUATING)) = [(1, None), (2, None)]"
  by code_simp+



text \<open>
  The exception is real. Submission 1 awaits a rescreen under the new policy when somebody else uploads its bytes as submission
  2; one claim of several leases both, the original first, whose status then no longer counts as an owner's, and the copy is
  leased without the duplicate flag, although the original was evaluating when the candidates were chosen.
\<close>

lemma batch_hides_the_original:
  "duplicate_owner (e_netuid demo_env) (copies_db EVALUATING) ((demo_agent 2 ''h2'')\<lparr>ag_status := UPLOADED\<rparr>)
     ((demo_agent 1 ''h1'')\<lparr>ag_status := EVALUATING, ag_screening_policy_version := 8\<rparr>)"
  "map (\<lambda>a. (sa_agent_id a, sa_duplicate_of a)) (snd (demo_claim 20 EVALUATING)) = [(1, None), (2, None)]"
proof -
  show "duplicate_owner (e_netuid demo_env) (copies_db EVALUATING) ((demo_agent 2 ''h2'')\<lparr>ag_status := UPLOADED\<rparr>)
     ((demo_agent 1 ''h1'')\<lparr>ag_status := EVALUATING, ag_screening_policy_version := 8\<rparr>)" by code_simp
qed (rule copies_claimed(2))

end
