(* ===== verification/Screening_Verdict.thy ===== *)
theory Screening_Verdict
  imports Screening
begin

text \<open>
  The verdict of a screener (\<open>submit_result\<close> of \<open>ditto/api_server/endpoints/screener.py\<close>). A verdict is checked, its target status
  is decided from a first read of the tables, and one transaction applies it; anything may happen between the read and the write,
  so they are two functions, \<open>submit_prepare\<close> and \<open>submit_apply\<close>, each of the tables it finds.

  Arguments stand for what lies outside: whether the signature verifies, what object storage holds, the dataset generator, the
  seed derived from the chain, the identifiers drawn and the public wording of a rejection. The review evidence carried for
  display, and the check that a repeated report carries the same evidence, are not modelled.
\<close>

subsection \<open>The report\<close>

datatype screen_outcome =
  Outcome_Pass | Outcome_Pass_Inconclusive | Outcome_Inconclusive | Outcome_Quarantine | Outcome_Retryable_Infra | Outcome_Deterministic_Reject

record screen_result =
  rs_screener_hotkey :: hotkey
  rs_attempt_id :: "uuid option"
  rs_passed :: bool
  rs_policy_version :: int
  rs_outcome :: "screen_outcome option"
  rs_detail :: string
  rs_reason_code :: "string option"
  rs_manifest_digest :: "string option"
  rs_deferred_source_review :: bool
  rs_review_settings_revision :: "int option"
  rs_review_settings_instance_id :: "string option"
  rs_review_settings_scope :: "string option"
  rs_review_settings_checksum :: "string option"
  rs_image_sha256 :: "string option"
  rs_image_size_bytes :: "int option"
  rs_image_id :: "string option"
  rs_image_ref :: "string option"
  rs_image_upload_id :: "uuid option"

record image_upload =
  iu_image_upload_id :: uuid
  iu_agent_id :: uuid
  iu_attempt_id :: uuid
  iu_screener_hotkey :: hotkey
  iu_sha256 :: string
  iu_size_bytes :: int
  iu_image_id :: string
  iu_image_ref :: string
  iu_status :: string
  iu_verified_at :: "time option"

record review_revision =
  rr_revision :: int
  rr_scope :: string
  rr_checksum :: string
  rr_mode :: string

record verdict_world =
  w_live :: live
  w_now :: time
  w_signature_ok :: bool
  w_uploads :: "image_upload list"
  w_stored_size :: "uuid \<Rightarrow> uuid \<Rightarrow> int option"
  w_revisions :: "review_revision list"
  w_run_size :: "string option"
  w_generate :: "int \<Rightarrow> int \<Rightarrow> string"
  w_derived_seed :: "int \<times> int option \<times> string option"
  w_public_reason :: "string \<Rightarrow> string option \<Rightarrow> string"
  w_attempt_id :: uuid
  w_quarantine_id :: uuid

datatype verdict_error = ScreenerAuthError | AgentNotFoundError | AgentNotScreenableError string

subsection \<open>Checks before any write\<close>

definition upload_matches :: "uuid \<Rightarrow> hotkey \<Rightarrow> screen_result \<Rightarrow> image_upload \<Rightarrow> bool" where
  "upload_matches agent_id screener_hotkey p u \<longleftrightarrow>
     iu_status u = ''verified'' \<and> iu_agent_id u = agent_id \<and> Some (iu_attempt_id u) = rs_attempt_id p \<and>
     iu_screener_hotkey u = screener_hotkey \<and> Some (iu_sha256 u) = rs_image_sha256 p \<and>
     Some (iu_size_bytes u) = rs_image_size_bytes p \<and> Some (iu_image_id u) = rs_image_id p \<and>
     Some (iu_image_ref u) = rs_image_ref p \<and> iu_verified_at u \<noteq> None"

text \<open>\<open>Inr\<close> is the verified upload, if an image was reported.\<close>

definition verified_upload :: "verdict_world \<Rightarrow> uuid \<Rightarrow> hotkey \<Rightarrow> screen_result \<Rightarrow> verdict_error + image_upload option" where
  "verified_upload w agent_id screener_hotkey p =
     (if rs_image_sha256 p = None then Inr None
      else case rs_image_upload_id p of
        None \<Rightarrow> Inl (AgentNotScreenableError ''passing screened image is missing its upload identity'')
      | Some upload_id \<Rightarrow>
        (case get_row iu_image_upload_id upload_id (w_uploads w) of
           None \<Rightarrow> Inl (AgentNotScreenableError ''screened image was not verified for this screening attempt'')
         | Some u \<Rightarrow>
             if \<not> upload_matches agent_id screener_hotkey p u then
               Inl (AgentNotScreenableError ''screened image was not verified for this screening attempt'')
             else (case w_stored_size w agent_id upload_id of
                 None \<Rightarrow> Inl (AgentNotScreenableError ''verified screened image is missing from storage'')
               | Some n \<Rightarrow>
                   if Some n \<noteq> rs_image_size_bytes p then
                     Inl (AgentNotScreenableError ''stored screened image size changed after verification'')
                   else Inr (Some u))))"

definition precheck_error :: "verdict_world \<Rightarrow> hotkey \<Rightarrow> screen_result \<Rightarrow> verdict_error option" where
  "precheck_error w screener_hotkey p =
     (if rs_screener_hotkey p \<noteq> screener_hotkey then Some ScreenerAuthError
      else if rs_policy_version p \<ge> 9 \<and> rs_outcome p = None then
        Some (AgentNotScreenableError ''policy-9 verdicts require a typed outcome'')
      else if \<not> w_signature_ok w then Some ScreenerAuthError
      else if rs_passed p \<and> rs_policy_version p \<noteq> e_screening_policy_version (l_env (w_live w)) then
        Some (AgentNotScreenableError ''passing verdict requires the screening policy'')
      else if rs_reason_code p = Some ''exact-cross-miner-duplicate'' \<and> rs_outcome p \<noteq> Some Outcome_Deterministic_Reject then
        Some (AgentNotScreenableError ''exact duplicate precheck requires a deterministic rejection'')
      else None)"

definition records_review_evidence :: "screen_result \<Rightarrow> bool" where
  "records_review_evidence p \<longleftrightarrow>
     rs_outcome p \<in> {Some Outcome_Pass_Inconclusive, Some Outcome_Inconclusive, Some Outcome_Quarantine}"

subsection \<open>The target of a verdict\<close>

definition to_lower :: "char \<Rightarrow> char" where
  "to_lower c = (if of_char c \<ge> (65 :: nat) \<and> of_char c \<le> (90 :: nat) then char_of (of_char c + 32 :: nat) else c)"

fun contains :: "string \<Rightarrow> string \<Rightarrow> bool" where
  "contains sub [] = (sub = [])"
| "contains sub (c # cs) = (take (length sub) (c # cs) = sub \<or> contains sub cs)"

text \<open>The markers start and end with a letter, so stripping the detail does not matter.\<close>

definition failed_screening_target :: "string \<Rightarrow> agent_status" where
  "failed_screening_target detail =
     (let normalized = map to_lower detail in
      if list_ex (\<lambda>m. contains m normalized)
           [''artifact download'', ''screener error'', ''could not resolve published port'', ''cannot connect to the docker daemon'', ''docker daemon'']
      then SCREENING_FAILED else REJECTED)"

record deferral =
  df_lifecycle :: bool
  df_deep :: bool
  df_restore_status :: agent_status
  df_mechanical :: bool
  df_reported :: "screening_attempt option"

definition deferred_review_of :: "uuid \<Rightarrow> screening_db \<Rightarrow> ath_review option" where
  "deferred_review_of agent_id s =
     select_first (\<lambda>v. av_agent_id v = agent_id \<and> av_review_kind v = Some DEFERRED_REVIEW_KIND) (sd_reviews s)"

definition read_deferral :: "uuid \<Rightarrow> screen_result \<Rightarrow> screening_db \<Rightarrow> deferral" where
  "read_deferral agent_id p s =
     (case rs_attempt_id p of
        None \<Rightarrow> \<lparr>df_lifecycle = False, df_deep = False, df_restore_status = AGENT_SCORED, df_mechanical = False, df_reported = None\<rparr>
      | Some i \<Rightarrow>
        (let reported = get_screening_attempt i s;
             current = get_row ag_agent_id agent_id (d_agents (sd_db s));
             review = (if current = None then None else deferred_review_of agent_id s);
             lifecycle = (case (reported, review) of
                 (Some a, Some v) \<Rightarrow> \<not> sa_build_only a \<and> sa_started_at a \<ge> (case av_reopened_at v of Some t \<Rightarrow> t | None \<Rightarrow> av_opened_at v)
               | _ \<Rightarrow> False)
         in \<lparr>df_lifecycle = lifecycle,
             df_deep = lifecycle \<and> (case (current, review) of
                 (Some ag, Some v) \<Rightarrow> ag_status ag = ATH_PENDING_REVIEW \<and> av_status v = ''pending'' | _ \<Rightarrow> False),
             df_restore_status = (case review of Some v \<Rightarrow> if av_previous_status v = Some ''live'' then LIVE else AGENT_SCORED | None \<Rightarrow> AGENT_SCORED),
             df_mechanical = (case reported of Some a \<Rightarrow> sa_build_only a \<and> sa_reason_code a = Some DEFERRED_MECHANICAL_REASON | None \<Rightarrow> False),
             df_reported = reported\<rparr>))"

definition verdict_target ::
  "verdict_world \<Rightarrow> deferral \<Rightarrow> screen_result \<Rightarrow> verdict_error + agent_status \<times> string option" where
  "verdict_target w df p =
     (let outcome = rs_outcome p in
      if df_reported df \<noteq> None \<and> rs_deferred_source_review p \<noteq> df_mechanical df then
        Inl (AgentNotScreenableError ''verdict execution mode does not match the claimed screening attempt'')
      else if df_deep df \<and> outcome = Some Outcome_Pass then Inr (df_restore_status df, None)
      else if df_deep df \<and> records_review_evidence p then
        Inr (ATH_PENDING_REVIEW, Some ''Deferred source review requires operator adjudication'')
      else if df_deep df \<and> outcome = Some Outcome_Retryable_Infra then
        Inr (ATH_PENDING_REVIEW, Some ''Deferred source review was interrupted; retry scheduled'')
      else case outcome of
        Some Outcome_Pass_Inconclusive \<Rightarrow>
          Inr (EVALUATING, Some (if df_mechanical df then ''Mechanical admission passed; deep source review deferred until score qualification''
                                 else ''Bounded source review exhausted; admitted for scoring''))
      | Some Outcome_Inconclusive \<Rightarrow> Inr (SCREENING_FAILED, Some ''Screening was inconclusive; retry scheduled'')
      | Some Outcome_Quarantine \<Rightarrow>
          if (case df_reported df of Some a \<Rightarrow> sa_build_only a | None \<Rightarrow> False) \<and> \<not> (df_mechanical df \<and> rs_deferred_source_review p) then
            Inl (AgentNotScreenableError ''a build-only screening attempt cannot quarantine'')
          else Inr (QUARANTINED, Some ''Submission held for anti-cheat review'')
      | Some Outcome_Retryable_Infra \<Rightarrow> Inr (SCREENING_FAILED, Some ''Screening was interrupted; retry scheduled'')
      | Some Outcome_Deterministic_Reject \<Rightarrow> Inr (REJECTED, Some (w_public_reason w (rs_detail p) (rs_reason_code p)))
      | _ \<Rightarrow>
          Inr (if rs_passed p then EVALUATING else failed_screening_target (rs_detail p),
               if rs_passed p then None else Some (w_public_reason w (rs_detail p) (rs_reason_code p))))"

text \<open>The dataset a passing verdict needs, rendered before the write: version and pin.\<close>

definition needed_dataset ::
  "verdict_world \<Rightarrow> uuid \<Rightarrow> screen_result \<Rightarrow> screening_db \<Rightarrow> verdict_error + (int \<times> dataset_pin) option" where
  "needed_dataset w agent_id p s =
     (case w_run_size w of
        None \<Rightarrow> Inr None
      | Some run_size \<Rightarrow>
        if \<not> rs_passed p then Inr None
        else case get_row ag_agent_id agent_id (d_agents (sd_db s)) of
          None \<Rightarrow> Inl AgentNotFoundError
        | Some ag \<Rightarrow>
          (let bench_version = arrival_bench_version (w_live w) (w_now w) ag (sd_db s);
               (seed, block, block_hash) = (case ag_dataset_seed ag of
                   None \<Rightarrow> w_derived_seed w
                 | Some seed \<Rightarrow> (seed, ag_dataset_seed_block ag, ag_dataset_seed_block_hash ag))
           in if get_row (\<lambda>b. (bd_agent_id b, bd_bench_version b)) (agent_id, bench_version) (d_datasets (sd_db s)) \<noteq> None then Inr None
              else Inr (Some (bench_version, \<lparr>dp_seed = seed, dp_sha256 = w_generate w seed bench_version, dp_run_size = run_size,
                     dp_seed_block = block, dp_seed_block_hash = block_hash\<rparr>))))"

record prepared_verdict =
  pv_deferral :: deferral
  pv_target :: agent_status
  pv_public_reason :: "string option"
  pv_upload :: "image_upload option"
  pv_dataset :: "(int \<times> dataset_pin) option"

definition submit_prepare ::
  "verdict_world \<Rightarrow> uuid \<Rightarrow> hotkey \<Rightarrow> screen_result \<Rightarrow> screening_db \<Rightarrow> verdict_error + prepared_verdict" where
  "submit_prepare w agent_id screener_hotkey p s =
     (case precheck_error w screener_hotkey p of Some e \<Rightarrow> Inl e
      | None \<Rightarrow>
        (case verified_upload w agent_id screener_hotkey p of Inl e \<Rightarrow> Inl e
         | Inr upload \<Rightarrow>
           (let df = read_deferral agent_id p s in
            case verdict_target w df p of Inl e \<Rightarrow> Inl e
            | Inr (target, reason) \<Rightarrow>
              (case needed_dataset w agent_id p s of Inl e \<Rightarrow> Inl e
               | Inr ds \<Rightarrow> Inr \<lparr>pv_deferral = df, pv_target = target, pv_public_reason = reason, pv_upload = upload, pv_dataset = ds\<rparr>))))"

subsection \<open>Reviewer settings\<close>

definition DEFAULT_REVIEW_MODE :: string where "DEFAULT_REVIEW_MODE = ''off''"

definition bound_mode :: "verdict_world \<Rightarrow> screen_result \<Rightarrow> verdict_error + string" where
  "bound_mode w p =
     (case (rs_review_settings_revision p, rs_review_settings_instance_id p, rs_review_settings_scope p, rs_review_settings_checksum p) of
        (Some n, Some inst, Some scope, Some checksum) \<Rightarrow>
          (case get_row rr_revision n (w_revisions w) of
             None \<Rightarrow> Inl (AgentNotScreenableError ''verdict references an unknown reviewer settings revision'')
           | Some r \<Rightarrow>
               if rr_scope r \<noteq> scope \<or> rr_checksum r \<noteq> checksum \<or> rr_scope r \<notin> {''*'', inst} then
                 Inl (AgentNotScreenableError ''verdict reviewer settings binding does not match platform state'')
               else Inr (rr_mode r))
      | _ \<Rightarrow> Inr DEFAULT_REVIEW_MODE)"

definition latest_revision :: "string \<Rightarrow> verdict_world \<Rightarrow> review_revision option" where
  "latest_revision scope w = first_by (\<lambda>r. - rr_revision r) (filter (\<lambda>r. rr_scope r = scope) (w_revisions w))"

definition effective_revision :: "verdict_world \<Rightarrow> screen_result \<Rightarrow> review_revision option" where
  "effective_revision w p =
     (let own = (case rs_review_settings_instance_id p of None \<Rightarrow> None | Some inst \<Rightarrow> latest_revision inst w);
          first = (case own of None \<Rightarrow> latest_revision ''*'' w | Some r \<Rightarrow> Some r)
      in case first of Some r \<Rightarrow> if rr_mode r = ''inherit'' then latest_revision ''*'' w else Some r | None \<Rightarrow> None)"

definition settings_error :: "verdict_world \<Rightarrow> screen_result \<Rightarrow> verdict_error option" where
  "settings_error w p =
     (case bound_mode w p of
        Inl e \<Rightarrow> Some e
      | Inr mode \<Rightarrow>
        (case effective_revision w p of
           None \<Rightarrow> None
         | Some r \<Rightarrow>
             if rr_mode r = ''enforce'' \<and>
                (rs_review_settings_revision p \<noteq> Some (rr_revision r) \<or> rs_review_settings_checksum p \<noteq> Some (rr_checksum r) \<or> mode \<noteq> ''enforce'')
             then Some (AgentNotScreenableError ''enforced reviewer verdict is missing the effective settings binding'')
             else None))"

subsection \<open>Applying the verdict\<close>

definition final_attempt_status :: "prepared_verdict \<Rightarrow> screen_result \<Rightarrow> attempt_status" where
  "final_attempt_status pv p =
     (if df_lifecycle (pv_deferral pv) \<and>
         rs_outcome p \<in> {Some Outcome_Pass, Some Outcome_Pass_Inconclusive, Some Outcome_Inconclusive} then Attempt_Passed
      else if rs_outcome p = Some Outcome_Inconclusive then Attempt_Expired
      else if pv_target pv = QUARANTINED \<or> rs_outcome p = Some Outcome_Quarantine then Attempt_Quarantined
      else if rs_passed p then Attempt_Passed
      else if pv_target pv = REJECTED then Attempt_Rejected else Attempt_Failed)"

datatype attempt_check = Attempt_Error verdict_error | Already_Reported | Attempt_Open "screening_attempt option"

definition check_attempt ::
  "verdict_world \<Rightarrow> agent \<Rightarrow> hotkey \<Rightarrow> screen_result \<Rightarrow> prepared_verdict \<Rightarrow> screening_db \<Rightarrow> attempt_check" where
  "check_attempt w ag screener_hotkey p pv s =
     (case rs_attempt_id p of
        None \<Rightarrow> Attempt_Open None
      | Some i \<Rightarrow>
        (case get_screening_attempt i s of
           None \<Rightarrow> Attempt_Error (AgentNotScreenableError ''verdict does not match the claimed screening attempt'')
         | Some a \<Rightarrow>
             if sa_agent_id a \<noteq> ag_agent_id ag \<or> sa_screener_hotkey a \<noteq> screener_hotkey \<or> sa_policy_version a \<noteq> rs_policy_version p then
               Attempt_Error (AgentNotScreenableError ''verdict does not match the claimed screening attempt'')
             else case settings_error w p of
               Some e \<Rightarrow> Attempt_Error e
             | None \<Rightarrow>
                 if sa_reason_code a = Some ''exact-cross-miner-duplicate'' \<and> rs_reason_code p \<noteq> sa_reason_code a then
                   Attempt_Error (AgentNotScreenableError ''verdict does not match the platform precheck disposition'')
                 else if sa_status a = final_attempt_status pv p \<and>
                    (ag_status ag = pv_target pv \<or> final_attempt_status pv p = Attempt_Passed \<and> ag_status ag \<in> {AGENT_SCORED, LIVE}) then
                   Already_Reported
                 else if \<not> running a \<or> w_now w > sa_deadline a then
                   Attempt_Error (AgentNotScreenableError ''screening attempt is expired or already completed'')
                 else Attempt_Open (Some a)))"

definition review_active_now :: "agent \<Rightarrow> prepared_verdict \<Rightarrow> screening_db \<Rightarrow> bool" where
  "review_active_now ag pv s \<longleftrightarrow>
     df_lifecycle (pv_deferral pv) \<and> ag_status ag = ATH_PENDING_REVIEW \<and>
     (case deferred_review_of (ag_agent_id ag) s of None \<Rightarrow> False | Some v \<Rightarrow> av_status v = ''pending'')"

definition late_result :: "agent \<Rightarrow> prepared_verdict \<Rightarrow> screening_db \<Rightarrow> bool" where
  "late_result ag pv s \<longleftrightarrow> df_lifecycle (pv_deferral pv) \<and> \<not> review_active_now ag pv s"

definition SCREENABLE_STATUSES :: "agent_status set" where "SCREENABLE_STATUSES = {UPLOADED, SCREENING}"

text \<open>\<open>None\<close> is the refusal of a verdict for an agent past screening.\<close>

definition verdict_status :: "env \<Rightarrow> agent \<Rightarrow> screen_result \<Rightarrow> prepared_verdict \<Rightarrow> screening_db \<Rightarrow> agent_status option" where
  "verdict_status env ag p pv s =
     (let rescreening = (ag_status ag \<in> {EVALUATING, SCREENING_FAILED, REJECTED} \<and> ag_screening_policy_version ag < e_screening_policy_version env);
          rolling_rescreen = (rolling_qualified (sd_db s) (ag_agent_id ag) \<and> ag_status ag \<in> {AGENT_SCORED, LIVE})
      in if late_result ag pv s then Some (ag_status ag)
         else if df_deep (pv_deferral pv) then Some (pv_target pv)
         else if rolling_rescreen \<and> rs_passed p then Some (ag_status ag)
         else if rolling_rescreen \<or> ag_status ag \<in> SCREENABLE_STATUSES \<or> rescreening then Some (pv_target pv)
         else if ag_status ag = pv_target pv then Some (ag_status ag)
         else None)"

definition verdict_reason_code :: "screen_result \<Rightarrow> string option" where
  "verdict_reason_code p =
     (if records_review_evidence p then rs_reason_code p else if rs_passed p then None else rs_reason_code p)"

text \<open>The agent row after a verdict that is not late; \<open>None\<close> is a duplicate verdict without a platform precheck.\<close>

definition verdict_agent ::
  "env \<Rightarrow> agent \<Rightarrow> agent_status \<Rightarrow> screen_result \<Rightarrow> prepared_verdict \<Rightarrow> screening_attempt option \<Rightarrow> agent option" where
  "verdict_agent env ag st p pv attempt =
     (let ag1 = ag\<lparr>ag_status := st, ag_screening_reason := pv_public_reason pv, ag_screening_reason_code := verdict_reason_code p,
                  ag_screening_policy_version := (if rs_policy_version p = e_screening_policy_version env then rs_policy_version p
                                                  else ag_screening_policy_version ag)\<rparr>;
          ag2 = (if rs_passed p then
                   ag1\<lparr>ag_screened_image_sha256 := rs_image_sha256 p, ag_screened_image_size_bytes := rs_image_size_bytes p,
                       ag_screened_image_id := rs_image_id p, ag_screened_image_ref := rs_image_ref p,
                       ag_screened_image_upload_id := rs_image_upload_id p,
                       ag_screened_image_verified_at := (case pv_upload pv of None \<Rightarrow> None | Some u \<Rightarrow> iu_verified_at u)\<rparr>
                 else ag1)
      in if rs_reason_code p = Some ''exact-cross-miner-duplicate'' then
           (case attempt of None \<Rightarrow> None
            | Some a \<Rightarrow> (case sa_duplicate_of a of None \<Rightarrow> None | Some d \<Rightarrow> Some (ag2\<lparr>ag_duplicate_of := Some d\<rparr>)))
         else if rs_passed p then Some (ag2\<lparr>ag_duplicate_of := None\<rparr>)
         else Some ag2)"

definition cleared_review :: "time \<Rightarrow> ath_review \<Rightarrow> ath_review" where
  "cleared_review now v = v\<lparr>av_status := ''resolved'', av_resolved_at := Some now, av_resolution := Some ''clear''\<rparr>"

definition finished_attempt :: "time \<Rightarrow> screen_result \<Rightarrow> prepared_verdict \<Rightarrow> screening_attempt \<Rightarrow> screening_attempt" where
  "finished_attempt now p pv a =
     a\<lparr>sa_status := final_attempt_status pv p, sa_finished_at := Some now, sa_public_reason := pv_public_reason pv,
       sa_reason_code := (if sa_reason_code a = Some DEFERRED_MECHANICAL_REASON then sa_reason_code a else rs_reason_code p),
       sa_review_settings_revision := rs_review_settings_revision p, sa_review_settings_instance_id := rs_review_settings_instance_id p,
       sa_review_settings_scope := rs_review_settings_scope p, sa_review_settings_checksum := rs_review_settings_checksum p\<rparr>"

text \<open>The attempt row after the verdict and the table with it; a worker that reports no attempt gets one row for its verdict.\<close>

definition verdict_attempt ::
  "verdict_world \<Rightarrow> uuid \<Rightarrow> hotkey \<Rightarrow> bool \<Rightarrow> screen_result \<Rightarrow> prepared_verdict \<Rightarrow> screening_attempt option \<Rightarrow> screening_attempt list \<Rightarrow>
   screening_attempt list \<times> screening_attempt option" where
  "verdict_attempt w agent_id screener_hotkey idempotent p pv attempt as =
     (case attempt of
        Some a \<Rightarrow> (let b = finished_attempt (w_now w) p pv a in (set_row sa_attempt_id b as, Some b))
      | None \<Rightarrow>
          if idempotent then (as, None)
          else let b = (new_attempt (rs_policy_version p) (w_attempt_id w) agent_id screener_hotkey (final_attempt_status pv p) (w_now w) (w_now w))
                         \<lparr>sa_finished_at := Some (w_now w), sa_public_reason := pv_public_reason pv\<rparr>
               in (as @ [b], Some b))"

definition INCONCLUSIVE_REASON_CODE :: string where "INCONCLUSIVE_REASON_CODE = ''source-review-inconclusive''"

definition evidence_deferred :: "prepared_verdict \<Rightarrow> bool" where
  "evidence_deferred pv \<longleftrightarrow> pv_target pv \<noteq> QUARANTINED \<or> df_lifecycle (pv_deferral pv)"

definition evidence_row :: "verdict_world \<Rightarrow> uuid \<Rightarrow> screen_result \<Rightarrow> prepared_verdict \<Rightarrow> screening_attempt \<Rightarrow> screening_quarantine" where
  "evidence_row w agent_id p pv a =
     \<lparr>sq_quarantine_id = w_quarantine_id w, sq_agent_id = agent_id, sq_attempt_id = sa_attempt_id a,
      sq_reason_code = (case rs_reason_code p of Some c \<Rightarrow> if c = [] then INCONCLUSIVE_REASON_CODE else c | None \<Rightarrow> INCONCLUSIVE_REASON_CODE),
      sq_status = (if evidence_deferred pv then ''resolved'' else ''active''),
      sq_resolved_at = (if evidence_deferred pv then Some (w_now w) else None),
      sq_resolution = (if evidence_deferred pv then Some ''rescreen'' else None)\<rparr>"

definition record_evidence ::
  "verdict_world \<Rightarrow> uuid \<Rightarrow> screen_result \<Rightarrow> prepared_verdict \<Rightarrow> screening_attempt option \<Rightarrow> screening_quarantine list \<Rightarrow>
   verdict_error + screening_quarantine list" where
  "record_evidence w agent_id p pv attempt qs =
     (if pv_target pv = QUARANTINED \<or> records_review_evidence p then
        (case attempt of
           None \<Rightarrow> Inl (AgentNotScreenableError ''source-review evidence requires a claimed screening attempt'')
         | Some a \<Rightarrow>
             if pv_target pv = QUARANTINED \<and> (rs_manifest_digest p = None \<or> rs_reason_code p = None) then
               Inl (AgentNotScreenableError ''quarantine result is missing bounded evidence'')
             else if list_ex (\<lambda>q. sq_attempt_id q = sa_attempt_id a) qs then Inr qs
             else Inr (qs @ [evidence_row w agent_id p pv a]))
      else Inr qs)"

definition pin_verdict_dataset :: "agent \<Rightarrow> (int \<times> dataset_pin) option \<Rightarrow> db \<Rightarrow> agent \<times> db" where
  "pin_verdict_dataset ag ds d =
     (case ds of
        None \<Rightarrow> (ag, d)
      | Some (v, pin) \<Rightarrow>
          if ag_status ag \<notin> {EVALUATING, AGENT_SCORED, LIVE} then (ag, d)
          else ((if ag_dataset_seed ag = None then
                   ag\<lparr>ag_dataset_seed := Some (dp_seed pin), ag_dataset_sha256 := Some (dp_sha256 pin),
                      ag_dataset_run_size := Some (dp_run_size pin), ag_dataset_seed_block := dp_seed_block pin,
                      ag_dataset_seed_block_hash := dp_seed_block_hash pin\<rparr>
                 else ag),
                (if get_row (\<lambda>b. (bd_agent_id b, bd_bench_version b)) (ag_agent_id ag, v) (d_datasets d) = None
                 then d\<lparr>d_datasets := d_datasets d @ [dataset_row (ag_agent_id ag) v pin]\<rparr> else d)))"

definition submit_apply ::
  "verdict_world \<Rightarrow> uuid \<Rightarrow> hotkey \<Rightarrow> screen_result \<Rightarrow> prepared_verdict \<Rightarrow> screening_db \<Rightarrow> verdict_error + screening_db \<times> agent_status" where
  "submit_apply w agent_id screener_hotkey p pv s =
     (case get_row ag_agent_id agent_id (d_agents (sd_db s)) of
        None \<Rightarrow> Inl AgentNotFoundError
      | Some ag \<Rightarrow>
        (case check_attempt w ag screener_hotkey p pv s of
           Attempt_Error e \<Rightarrow> Inl e
         | Already_Reported \<Rightarrow> Inr (s, ag_status ag)
         | Attempt_Open attempt \<Rightarrow>
           (let env = l_env (w_live w); late = late_result ag pv s in
            case verdict_status env ag p pv s of
              None \<Rightarrow> Inl (AgentNotScreenableError ''cannot apply verdict'')
            | Some st \<Rightarrow>
              (case (if late then Some ag else verdict_agent env ag st p pv attempt) of
                 None \<Rightarrow> Inl (AgentNotScreenableError ''exact duplicate verdict requires a platform precheck'')
               | Some ag1 \<Rightarrow>
                 (let clears = (df_deep (pv_deferral pv) \<and> review_active_now ag pv s \<and> rs_outcome p = Some Outcome_Pass);
                      ag2 = (if clears then ag1\<lparr>ag_duplicate_of := None\<rparr> else ag1);
                      reviews = (case deferred_review_of agent_id s of
                                   Some v \<Rightarrow> if clears then set_row av_review_id (cleared_review (w_now w) v) (sd_reviews s) else sd_reviews s
                                 | None \<Rightarrow> sd_reviews s);
                      (as, attempt') = verdict_attempt w agent_id screener_hotkey (ag_status ag = pv_target pv) p pv attempt (sd_attempts s)
                  in case record_evidence w agent_id p pv attempt' (sd_quarantines s) of
                       Inl e \<Rightarrow> Inl e
                     | Inr qs \<Rightarrow>
                       (let (ag3, d) = pin_verdict_dataset ag2 (if late then None else pv_dataset pv) (sd_db s)
                        in Inr (set_agent ag3 (s\<lparr>sd_db := d, sd_attempts := as, sd_quarantines := qs, sd_reviews := reviews\<rparr>),
                                ag_status ag3)))))))"

subsection \<open>What an applied verdict wrote\<close>

lemma submit_applyE:
  assumes "submit_apply w i hk p pv s = Inr (s', st)"
  obtains (repeated) ag where "get_row ag_agent_id i (d_agents (sd_db s)) = Some ag" "check_attempt w ag hk p pv s = Already_Reported"
      "s' = s" "st = ag_status ag"
  | (written) ag attempt st1 ag1 ag2 ag3 d as attempt' qs reviews where
      "get_row ag_agent_id i (d_agents (sd_db s)) = Some ag" "check_attempt w ag hk p pv s = Attempt_Open attempt"
      "verdict_status (l_env (w_live w)) ag p pv s = Some st1"
      "(if late_result ag pv s then Some ag else verdict_agent (l_env (w_live w)) ag st1 p pv attempt) = Some ag1"
      "ag2 = ag1 \<or> ag2 = ag1\<lparr>ag_duplicate_of := None\<rparr>"
      "verdict_attempt w i hk (ag_status ag = pv_target pv) p pv attempt (sd_attempts s) = (as, attempt')"
      "record_evidence w i p pv attempt' (sd_quarantines s) = Inr qs"
      "pin_verdict_dataset ag2 (if late_result ag pv s then None else pv_dataset pv) (sd_db s) = (ag3, d)"
      "s' = set_agent ag3 (s\<lparr>sd_db := d, sd_attempts := as, sd_quarantines := qs, sd_reviews := reviews\<rparr>)" "st = ag_status ag3"
proof (cases "get_row ag_agent_id i (d_agents (sd_db s))")
  case None
  with assms show thesis by (simp add: submit_apply_def)
next
  case (Some ag)
  show thesis
  proof (cases "check_attempt w ag hk p pv s")
    case (Attempt_Error e)
    with assms Some show thesis by (simp add: submit_apply_def)
  next
    case Already_Reported
    with assms Some show thesis by (intro repeated [of ag]) (simp_all add: submit_apply_def)
  next
    case (Attempt_Open attempt)
    let ?late = "late_result ag pv s"
    let ?clears = "df_deep (pv_deferral pv) \<and> review_active_now ag pv s \<and> rs_outcome p = Some Outcome_Pass"
    let ?reviews = "case deferred_review_of i s of
         Some v \<Rightarrow> if ?clears then set_row av_review_id (cleared_review (w_now w) v) (sd_reviews s) else sd_reviews s | None \<Rightarrow> sd_reviews s"
    obtain as attempt' where va: "verdict_attempt w i hk (ag_status ag = pv_target pv) p pv attempt (sd_attempts s) = (as, attempt')" by fastforce
    from assms Some Attempt_Open obtain st1 where st1: "verdict_status (l_env (w_live w)) ag p pv s = Some st1"
      by (cases "verdict_status (l_env (w_live w)) ag p pv s") (simp_all add: submit_apply_def Let_def)
    from assms Some Attempt_Open st1 obtain ag1 where
      ag1: "(if ?late then Some ag else verdict_agent (l_env (w_live w)) ag st1 p pv attempt) = Some ag1"
      by (cases "if ?late then Some ag else verdict_agent (l_env (w_live w)) ag st1 p pv attempt") (simp_all add: submit_apply_def Let_def)
    from assms Some Attempt_Open st1 ag1 va obtain qs where qs: "record_evidence w i p pv attempt' (sd_quarantines s) = Inr qs"
      by (cases "record_evidence w i p pv attempt' (sd_quarantines s)") (simp_all add: submit_apply_def Let_def)
    define ag2 where "ag2 = (if ?clears then ag1\<lparr>ag_duplicate_of := None\<rparr> else ag1)"
    obtain ag3 d where pin: "pin_verdict_dataset ag2 (if ?late then None else pv_dataset pv) (sd_db s) = (ag3, d)" by fastforce
    have out: "s' = set_agent ag3 (s\<lparr>sd_db := d, sd_attempts := as, sd_quarantines := qs, sd_reviews := ?reviews\<rparr>)" "st = ag_status ag3"
      using assms Some Attempt_Open st1 ag1 va qs pin unfolding submit_apply_def Let_def ag2_def by simp_all
    show thesis by (rule written [OF Some Attempt_Open st1 ag1 _ va qs pin out]) (simp add: ag2_def)
  qed
qed

lemma check_attempt_openD:
  assumes "check_attempt w ag hk p pv s = Attempt_Open attempt"
  shows "case attempt of None \<Rightarrow> rs_attempt_id p = None
    | Some a \<Rightarrow> rs_attempt_id p = Some (sa_attempt_id a) \<and> a \<in> set (sd_attempts s) \<and> running a \<and> w_now w \<le> sa_deadline a \<and>
        sa_agent_id a = ag_agent_id ag \<and> sa_screener_hotkey a = hk \<and> sa_policy_version a = rs_policy_version p \<and>
        (sa_reason_code a = Some ''exact-cross-miner-duplicate'' \<longrightarrow> rs_reason_code p = Some ''exact-cross-miner-duplicate'')"
proof (cases "rs_attempt_id p")
  case None
  with assms show ?thesis by (auto simp: check_attempt_def)
next
  case (Some i)
  with assms obtain a where a: "get_screening_attempt i s = Some a" by (cases "get_screening_attempt i s") (simp_all add: check_attempt_def)
  have "sa_attempt_id a = i" "a \<in> set (sd_attempts s)" using get_row_SomeD [OF a [unfolded get_screening_attempt_def]] by simp_all
  moreover have "attempt = Some a \<and> running a \<and> w_now w \<le> sa_deadline a \<and> sa_agent_id a = ag_agent_id ag \<and> sa_screener_hotkey a = hk \<and>
      sa_policy_version a = rs_policy_version p \<and>
      (sa_reason_code a = Some ''exact-cross-miner-duplicate'' \<longrightarrow> rs_reason_code p = Some ''exact-cross-miner-duplicate'')"
    using assms unfolding check_attempt_def Some a option.case by (simp add: not_less split: if_splits option.splits)
  ultimately show ?thesis using Some by simp
qed

lemma final_status_finished: "final_attempt_status pv p \<noteq> Attempt_Running"
  by (simp add: final_attempt_status_def)

lemma finished_attempt_grows:
  assumes "running a"
  shows "attempt_grows a (finished_attempt now p pv a)" "\<not> running (finished_attempt now p pv a)"
    "sa_attempt_id (finished_attempt now p pv a) = sa_attempt_id a"
  using assms final_status_finished [of pv p] by (simp_all add: attempt_grows_def finished_attempt_def running_def lease_of_def)

lemma pin_verdict_fields:
  assumes "pin_verdict_dataset ag ds d = (ag', d')"
  shows "submission ag' = submission ag" "ag_status ag' = ag_status ag" "d_agents d' = d_agents d"
    "ag_screened_image_sha256 ag' = ag_screened_image_sha256 ag" "ag_duplicate_of ag' = ag_duplicate_of ag"
  using assms by (auto simp: pin_verdict_dataset_def submission_def split: option.splits if_splits prod.splits)

lemma verdict_agent_fields:
  assumes "verdict_agent env ag st p pv attempt = Some ag'"
  shows "submission ag' = submission ag" "ag_status ag' = st"
  using assms by (auto simp: verdict_agent_def Let_def submission_def split: if_splits option.splits)

lemma verdict_attempts:
  assumes "check_attempt w ag hk p pv s = Attempt_Open attempt"
    and "verdict_attempt w i hk idem p pv attempt (sd_attempts s) = (as, attempt')"
    and "distinct (map sa_attempt_id (sd_attempts s))"
  shows "history_grows s (s\<lparr>sd_attempts := as\<rparr>)" and "filter running as = filter (\<lambda>a. Some a \<noteq> attempt) (filter running (sd_attempts s))"
    and "set (map sa_attempt_id as) \<subseteq> insert (w_attempt_id w) (set (map sa_attempt_id (sd_attempts s)))"
    and "w_attempt_id w \<notin> set (map sa_attempt_id (sd_attempts s)) \<Longrightarrow> distinct (map sa_attempt_id as)"
proof -
  have "history_grows s (s\<lparr>sd_attempts := as\<rparr>) \<and> filter running as = filter (\<lambda>a. Some a \<noteq> attempt) (filter running (sd_attempts s)) \<and>
      set (map sa_attempt_id as) \<subseteq> insert (w_attempt_id w) (set (map sa_attempt_id (sd_attempts s))) \<and>
      (w_attempt_id w \<notin> set (map sa_attempt_id (sd_attempts s)) \<longrightarrow> distinct (map sa_attempt_id as))"
  proof (cases attempt)
    case (Some a)
    have a: "a \<in> set (sd_attempts s)" "running a" using check_attempt_openD [OF assms(1)] Some by simp_all
    let ?b = "finished_attempt (w_now w) p pv a"
    have as: "as = set_row sa_attempt_id ?b (sd_attempts s)" using assms(2) Some by (simp add: verdict_attempt_def Let_def)
    have only: "r = a" if "r \<in> set (sd_attempts s)" "sa_attempt_id r = sa_attempt_id ?b" for r
      using distinct_key_eq [OF assms(3) that(1) a(1)] that(2) finished_attempt_grows(3) [OF a(2)] by simp
    have "history_grows s (s\<lparr>sd_attempts := as\<rparr>)"
      using only finished_attempt_grows(1) [OF a(2)] by (intro history_update [where p = "\<lambda>r. sa_attempt_id r = sa_attempt_id ?b" and f = "\<lambda>_. ?b"]) (auto simp: as set_row_def)
    moreover have "filter running as = filter (\<lambda>r. running r \<and> sa_attempt_id r \<noteq> sa_attempt_id ?b) (sd_attempts s)"
      unfolding as set_row_def by (rule filter_update_where_drop) (use finished_attempt_grows(2) [OF a(2)] in simp)
    moreover have "filter (\<lambda>r. running r \<and> sa_attempt_id r \<noteq> sa_attempt_id ?b) (sd_attempts s) = filter (\<lambda>r. Some r \<noteq> attempt) (filter running (sd_attempts s))"
      using only finished_attempt_grows(3) [OF a(2)] by (auto simp: Some intro!: filter_cong)
    moreover have "map sa_attempt_id as = map sa_attempt_id (sd_attempts s)" unfolding as by (simp add: row_simps)
    ultimately show ?thesis using assms(3) by auto
  next
    case None
    show ?thesis
    proof (cases idem)
      case True
      with assms(2) None have "as = sd_attempts s" by (simp add: verdict_attempt_def)
      then show ?thesis using assms(3) None by auto
    next
      case False
      let ?b = "(new_attempt (rs_policy_version p) (w_attempt_id w) i hk (final_attempt_status pv p) (w_now w) (w_now w))
                         \<lparr>sa_finished_at := Some (w_now w), sa_public_reason := pv_public_reason pv\<rparr>"
      have as: "as = sd_attempts s @ [?b]" using False assms(2) None by (simp add: verdict_attempt_def Let_def)
      moreover have "\<not> running ?b" "sa_attempt_id ?b = w_attempt_id w" using final_status_finished [of pv p] by (simp_all add: running_def new_attempt_def)
      moreover have "history_grows s (s\<lparr>sd_attempts := as\<rparr>)" by (rule history_append) (simp add: as)
      ultimately show ?thesis using assms(3) None by auto
    qed
  qed
  then show "history_grows s (s\<lparr>sd_attempts := as\<rparr>)" and "filter running as = filter (\<lambda>a. Some a \<noteq> attempt) (filter running (sd_attempts s))"
    and "set (map sa_attempt_id as) \<subseteq> insert (w_attempt_id w) (set (map sa_attempt_id (sd_attempts s)))"
    and "w_attempt_id w \<notin> set (map sa_attempt_id (sd_attempts s)) \<Longrightarrow> distinct (map sa_attempt_id as)" by blast+
qed

subsection \<open>Screening along every run\<close>

definition screening_inv :: "screening_db \<Rightarrow> bool" where
  "screening_inv s \<longleftrightarrow>
     distinct (map ag_agent_id (d_agents (sd_db s))) \<and> distinct (map sa_attempt_id (sd_attempts s)) \<and> one_running s"

lemma history_attempts_cong: "sd_attempts t = sd_attempts u \<Longrightarrow> history_grows s t \<longleftrightarrow> history_grows s u"
  by (simp add: history_grows_def)

lemma submit_keeps:
  assumes inv: "screening_inv s" and fresh: "w_attempt_id w \<notin> set (map sa_attempt_id (sd_attempts s))"
    and res: "submit_apply w i hk p pv s = Inr (s', st)"
  shows "screening_inv s' \<and> history_grows s s'"
  using res
proof (cases rule: submit_applyE)
  case repeated
  with inv show ?thesis by simp
next
  case (written ag attempt st1 ag1 ag2 ag3 d as attempt' qs reviews)
  have dist: "distinct (map sa_attempt_id (sd_attempts s))" using inv by (simp add: screening_inv_def)
  note va = verdict_attempts [OF written(2,6) dist]
  have "history_grows s s'" using va(1) history_attempts_cong [of s' "s\<lparr>sd_attempts := as\<rparr>"] by (simp add: written(9))
  moreover have "one_running s'"
    using inv va(2) unfolding screening_inv_def one_running_def written(9) by (simp add: distinct_map_filter del: filter_filter)
  moreover have "distinct (map ag_agent_id (d_agents (sd_db s')))"
    using inv pin_verdict_fields(3) [OF written(8)] by (simp add: written(9) row_simps screening_inv_def)
  ultimately show ?thesis using va(4) [OF fresh] by (simp add: screening_inv_def written(9))
qed

definition fresh_draws :: "(uuid \<Rightarrow> nat \<Rightarrow> uuid) \<Rightarrow> screening_db \<Rightarrow> bool" where
  "fresh_draws draw s \<longleftrightarrow>
     (let drawn = map (\<lambda>(i, k). draw i k) (List.product (map ag_agent_id (d_agents (sd_db s))) [0, 1])
      in distinct drawn \<and> list_all (\<lambda>a. sa_attempt_id a \<notin> set drawn) (sd_attempts s))"

lemma images_apart: "(\<forall>a \<in> A. f a \<notin> g ` B) \<longleftrightarrow> (\<forall>b \<in> B. g b \<notin> f ` A)"
  by (simp add: image_iff) metis

lemma fresh_draws_iff:
  assumes "distinct (map ag_agent_id (d_agents (sd_db s)))"
  shows "fresh_draws draw s \<longleftrightarrow> inj_on (\<lambda>(i, k). draw i k) (ag_agent_id ` set (d_agents (sd_db s)) \<times> {0, 1}) \<and>
    (\<forall>i \<in> ag_agent_id ` set (d_agents (sd_db s)). \<forall>k \<in> {0, 1}. draw i k \<notin> set (map sa_attempt_id (sd_attempts s)))"
proof -
  let ?l = "List.product (map ag_agent_id (d_agents (sd_db s))) [0, 1 :: nat]" and ?f = "\<lambda>(i, k). draw i k"
  have d: "distinct ?l" using assms by (simp add: distinct_product)
  have l: "set ?l = ag_agent_id ` set (d_agents (sd_db s)) \<times> {0, 1}" by simp
  have "list_all (\<lambda>a. sa_attempt_id a \<notin> set (map ?f ?l)) (sd_attempts s) \<longleftrightarrow>
      (\<forall>x \<in> set ?l. ?f x \<notin> set (map sa_attempt_id (sd_attempts s)))"
    unfolding list_all_iff set_map by (rule images_apart)
  also have "\<dots> \<longleftrightarrow> (\<forall>i \<in> ag_agent_id ` set (d_agents (sd_db s)). \<forall>k \<in> {0, 1}. draw i k \<notin> set (map sa_attempt_id (sd_attempts s)))"
    unfolding l by (simp add: ball_simps)
  finally show ?thesis unfolding fresh_draws_def Let_def distinct_map l using d by blast
qed

lemma legacy_draw: "a \<in> set (legacy_attempts draw hk ag s) \<Longrightarrow> sa_attempt_id a = draw (ag_agent_id ag) 0"
  by (rule legacy_cases [of draw hk ag s]) (auto simp: new_attempt_def)

lemma legacy_distinct: "distinct (map sa_attempt_id (legacy_attempts draw hk ag s))"
  by (rule legacy_cases [of draw hk ag s]) simp_all

lemma claimed_draw: "sa_attempt_id (claimed_attempt env draw hk now ttl mode ag dup) = draw (ag_agent_id ag) 1"
  by (simp add: claimed_attempt_def new_attempt_def)

text \<open>One turn of the loop appends attempts under identifiers drawn for that agent.\<close>

lemma claim_turn_new:
  assumes "inj_on (\<lambda>(i, k). draw i k) (I \<times> {0, 1})" and "ag_agent_id ag \<in> I"
  shows "\<exists>xs. sd_attempts (park_repeatedly_inconclusive env draw ag hk now s) = sd_attempts s @ xs \<and> distinct (map sa_attempt_id xs) \<and>
      (\<forall>x \<in> set xs. \<exists>k \<in> {0, 1}. sa_attempt_id x = draw (ag_agent_id ag) k)"
    and "\<exists>xs. sd_attempts (set_agent (claimed_agent ag) (s\<lparr>sd_attempts := sd_attempts s @ legacy_attempts draw hk ag s @
          [claimed_attempt env draw hk now ttl mode ag dup]\<rparr>)) = sd_attempts s @ xs \<and> distinct (map sa_attempt_id xs) \<and>
      (\<forall>x \<in> set xs. \<exists>k \<in> {0, 1}. sa_attempt_id x = draw (ag_agent_id ag) k)"
proof -
  show "\<exists>xs. sd_attempts (park_repeatedly_inconclusive env draw ag hk now s) = sd_attempts s @ xs \<and> distinct (map sa_attempt_id xs) \<and>
      (\<forall>x \<in> set xs. \<exists>k \<in> {0, 1}. sa_attempt_id x = draw (ag_agent_id ag) k)"
    by (auto simp: park_repeatedly_inconclusive_def Let_def new_attempt_def)
  have "draw (ag_agent_id ag) 1 \<noteq> draw (ag_agent_id ag) 0" using inj_onD [OF assms(1), of "(ag_agent_id ag, 1)" "(ag_agent_id ag, 0)"] assms(2) by auto
  then have "draw (ag_agent_id ag) 1 \<notin> sa_attempt_id ` set (legacy_attempts draw hk ag s)" using legacy_draw by fastforce
  then show "\<exists>xs. sd_attempts (set_agent (claimed_agent ag) (s\<lparr>sd_attempts := sd_attempts s @ legacy_attempts draw hk ag s @
          [claimed_attempt env draw hk now ttl mode ag dup]\<rparr>)) = sd_attempts s @ xs \<and> distinct (map sa_attempt_id xs) \<and>
      (\<forall>x \<in> set xs. \<exists>k \<in> {0, 1}. sa_attempt_id x = draw (ag_agent_id ag) k)"
    using legacy_distinct [of draw hk ag s] legacy_draw [of _ draw hk ag s]
    by (intro exI [of _ "legacy_attempts draw hk ag s @ [claimed_attempt env draw hk now ttl mode ag dup]"]) (auto simp: claimed_draw)
qed

lemma claim_loop_new:
  assumes "claim_loop_screening env draw hk now ttl mode is s = (s', claimed)" and "distinct is" and inj: "inj_on (\<lambda>(i, k). draw i k) (I \<times> {0, 1})" and "set is \<subseteq> I"
  shows "\<exists>xs. sd_attempts s' = sd_attempts s @ xs \<and> distinct (map sa_attempt_id xs) \<and> (\<forall>x \<in> set xs. \<exists>j \<in> set is. \<exists>k \<in> {0, 1}. sa_attempt_id x = draw j k)"
  using assms(1,2,4)
proof (induction "is" arbitrary: s claimed)
  case (Cons i "is")
  show ?case
  proof (cases "get_row ag_agent_id i (d_agents (sd_db s))")
    case None
    with Cons show ?thesis by fastforce
  next
    case (Some ag)
    have i: "ag_agent_id ag = i" "ag_agent_id ag \<in> I" using get_row_SomeD [OF Some] Cons.prems(3) by simp_all
    obtain t cs where rest: "claim_loop_screening env draw hk now ttl mode is t = (s', cs)" and
      t: "\<exists>xs. sd_attempts t = sd_attempts s @ xs \<and> distinct (map sa_attempt_id xs) \<and> (\<forall>x \<in> set xs. \<exists>k \<in> {0, 1}. sa_attempt_id x = draw i k)"
    proof (cases "MAX_SCREENING_EXPIRIES \<le> expired_attempt_count env i s")
      case True
      with Cons.prems(1) Some have "claim_loop_screening env draw hk now ttl mode is (park_repeatedly_inconclusive env draw ag hk now s) = (s', claimed)" by simp
      then show thesis using claim_turn_new(1) [OF inj i(2), of env hk now s, unfolded i(1)] by (intro that)
    next
      case False
      from Cons.prems(1) Some False obtain cs where "claim_loop_screening env draw hk now ttl mode is
          (set_agent (claimed_agent ag) (s\<lparr>sd_attempts := sd_attempts s @ legacy_attempts draw hk ag s @
            [claimed_attempt env draw hk now ttl mode ag (find_duplicate (e_netuid env) s ag)]\<rparr>)) = (s', cs)"
        by (simp add: Let_def split: prod.splits)
      then show thesis
        using claim_turn_new(2) [OF inj i(2), of s hk env now ttl mode "find_duplicate (e_netuid env) s ag", unfolded i(1)] by (rule that)
    qed
    from t obtain xs where xs: "sd_attempts t = sd_attempts s @ xs" "distinct (map sa_attempt_id xs)" "\<forall>x \<in> set xs. \<exists>k \<in> {0, 1}. sa_attempt_id x = draw i k" by blast
    from Cons.IH [OF rest] Cons.prems(2,3) obtain ys where ys: "sd_attempts s' = sd_attempts t @ ys" "distinct (map sa_attempt_id ys)"
      "\<forall>x \<in> set ys. \<exists>j \<in> set is. \<exists>k \<in> {0, 1}. sa_attempt_id x = draw j k" by auto
    have "sa_attempt_id x \<noteq> sa_attempt_id y" if "x \<in> set xs" "y \<in> set ys" for x y
    proof
      assume eq: "sa_attempt_id x = sa_attempt_id y"
      from xs(3) ys(3) that obtain k j l where "sa_attempt_id x = draw i k" "k \<in> {0, 1}" "j \<in> set is" "sa_attempt_id y = draw j l" "l \<in> {0, 1}" by blast
      with eq inj_onD [OF inj, of "(i, k)" "(j, l)"] Cons.prems(2,3) show False by auto
    qed
    then have "distinct (map sa_attempt_id (xs @ ys))" using xs(2) ys(2) by auto
    with xs ys show ?thesis by (intro exI [of _ "xs @ ys"]) auto
  qed
qed simp

lemma claim_keeps:
  assumes inv: "screening_inv s" and fresh: "fresh_draws draw s" and ttl: "0 \<le> ttl"
    and claim: "claim_screening_attempts lv draw locked hk now ttl limit mode s = (s', claimed)"
  shows "screening_inv s' \<and> history_grows s s'"
proof -
  let ?s = "swept hk now s" and ?is = "claim_candidates lv now mode locked limit (swept hk now s)"
  have ids: "distinct (map ag_agent_id (d_agents (sd_db s)))" "distinct (map ag_agent_id (d_agents (sd_db ?s)))"
    and dist: "distinct (map sa_attempt_id (sd_attempts s))" and one: "one_running s" using inv by (simp_all add: screening_inv_def)
  let ?I = "ag_agent_id ` set (d_agents (sd_db s))"
  have inj: "inj_on (\<lambda>(i, k). draw i k) (?I \<times> {0, 1})"
    and new: "\<And>i k. i \<in> ?I \<Longrightarrow> k \<in> {0, 1} \<Longrightarrow> draw i k \<notin> set (map sa_attempt_id (sd_attempts s))"
    using fresh unfolding fresh_draws_iff [OF ids(1)] by blast+
  have I: "ag_agent_id ` set (d_agents (sd_db ?s)) = ?I" by (metis swept_ids list.set_map)
  from claim have loop: "claim_loop_screening (l_env lv) draw hk now ttl mode ?is ?s = (s', claimed)"
    by (simp add: claim_screening_attempts_def Let_def)
  have sub: "set ?is \<subseteq> ?I" using candidates_subset [OF ids(2)] unfolding I .
  from claim_loop_new [OF loop candidates_spec(1) [OF ids(2)] inj sub] obtain xs where xs: "sd_attempts s' = sd_attempts ?s @ xs"
    "distinct (map sa_attempt_id xs)" "\<forall>x \<in> set xs. \<exists>j \<in> set ?is. \<exists>k \<in> {0, 1}. sa_attempt_id x = draw j k" by blast
  have sw: "map sa_attempt_id (sd_attempts ?s) = map sa_attempt_id (sd_attempts s)"
    by (simp add: swept_def expire_attempts_eq orphan_attempts_eq map_update_where_same expire_attempt_def fail_attempt_def)
  have "set (map sa_attempt_id (sd_attempts s)) \<inter> sa_attempt_id ` set xs = {}"
  proof (rule image_disjointI)
    fix a assume "a \<in> set xs"
    with xs(3) obtain j k where "sa_attempt_id a = draw j k" "j \<in> set ?is" "k \<in> {0, 1}" by blast
    with new [of j k] sub show "sa_attempt_id a \<notin> set (map sa_attempt_id (sd_attempts s))" by auto
  qed
  then have "distinct (map sa_attempt_id (sd_attempts s'))" using dist xs(2) unfolding xs(1) map_append sw by auto
  moreover have "history_grows s s'" using history_trans [OF swept_history history_append [OF xs(1)]] .
  moreover have "one_running s'" using claim_hands_out [OF ids(1) one ttl claim] by simp
  moreover have "map ag_agent_id (d_agents (sd_db s')) = map ag_agent_id (d_agents (sd_db ?s))"
    using claim_loop_spec [OF loop candidates_spec(1) [OF ids(2)] ids(2) candidates_subset [OF ids(2)]] touched_ids by blast
  ultimately show ?thesis using ids(1) by (simp add: screening_inv_def)
qed

text \<open>
  A run of the platform, as the screening tables see it: claims, verdicts, whose decision was prepared on some earlier state of
  the tables, and whatever else writes the other tables. A refused verdict changes nothing.
\<close>

datatype screening_op =
    Op_Claim live "uuid \<Rightarrow> nat \<Rightarrow> uuid" "uuid set" hotkey time timedelta nat string
  | Op_Verdict verdict_world uuid hotkey screen_result screening_db
  | Op_Other screening_db

fun screening_step :: "screening_op \<Rightarrow> screening_db \<Rightarrow> screening_db" where
  "screening_step (Op_Claim lv draw locked hk now ttl limit mode) s =
     (if fresh_draws draw s \<and> 0 \<le> ttl then fst (claim_screening_attempts lv draw locked hk now ttl limit mode s) else s)"
| "screening_step (Op_Verdict w i hk p s0) s =
     (case submit_prepare w i hk p s0 of
        Inl _ \<Rightarrow> s
      | Inr pv \<Rightarrow>
          if w_attempt_id w \<in> set (map sa_attempt_id (sd_attempts s)) then s
          else (case submit_apply w i hk p pv s of Inl _ \<Rightarrow> s | Inr (s', _) \<Rightarrow> s'))"
| "screening_step (Op_Other t) s =
     (if distinct (map ag_agent_id (d_agents (sd_db t))) then t\<lparr>sd_attempts := sd_attempts s\<rparr> else s)"

lemma step_keeps:
  assumes "screening_inv s"
  shows "screening_inv (screening_step x s) \<and> history_grows s (screening_step x s)"
proof (cases x)
  case (Op_Claim lv draw locked hk now ttl limit mode)
  with claim_keeps [OF assms _ _ prod.collapse [symmetric], of draw ttl lv locked hk now limit mode] show ?thesis using assms by simp
next
  case (Op_Verdict w i hk p s0)
  with submit_keeps [OF assms, of w i hk p] show ?thesis using assms by (auto split: sum.splits)
next
  case (Op_Other t)
  then show ?thesis using assms history_attempts_cong [of "t\<lparr>sd_attempts := sd_attempts s\<rparr>" s s]
    by (simp add: screening_inv_def one_running_def)
qed

interpretation screening: monotone_machine screening_step screening_inv history_grows
  by unfold_locales (use step_keeps history_trans in \<open>auto\<close>)

lemma distinct_filter_eq_le: "distinct xs \<Longrightarrow> length (filter (\<lambda>j. j = i) xs) \<le> 1"
  by (induction xs) (auto simp: filter_empty_conv)

lemma one_running_count:
  assumes "one_running s"
  shows "length (filter (\<lambda>a. running a \<and> sa_agent_id a = i) (sd_attempts s)) \<le> 1"
proof -
  have "length (filter (\<lambda>a. running a \<and> sa_agent_id a = i) (sd_attempts s)) =
      length (filter (\<lambda>j. j = i) (map sa_agent_id (filter running (sd_attempts s))))"
    by (simp add: filter_map comp_def)
  also have "\<dots> \<le> 1" using assms unfolding one_running_def by (rule distinct_filter_eq_le)
  finally show ?thesis .
qed

lemma history_keeps:
  assumes "history_grows s t" and "a \<in> set (sd_attempts s)"
  shows "\<exists>b \<in> set (sd_attempts t). lease_of b = lease_of a \<and> (\<not> running a \<longrightarrow> b = a)"
proof -
  from assms(1) obtain xs ys where t: "sd_attempts t = xs @ ys" "list_all2 attempt_grows (sd_attempts s) xs" by (auto simp: history_grows_def)
  from assms(2) obtain n where "n < length (sd_attempts s)" "sd_attempts s ! n = a" by (auto simp: in_set_conv_nth)
  with t(2) have "attempt_grows a (xs ! n)" "xs ! n \<in> set (sd_attempts t)" by (auto simp: list_all2_conv_all_nth t(1))
  then show ?thesis by (auto simp: attempt_grows_def)
qed

text \<open>
  C9. The screening history is append-only and exclusive. Along every run of claims, verdicts and writes to other tables, agent
  and attempt identifiers stay unique and no submission ever has two running attempts; no attempt row is lost or changes its
  submission, screener, policy, start or deadline, and a finished one never changes at all.
\<close>

theorem screening_history_append_only:
  fixes ops :: "screening_op list"
  assumes "screening_inv s"
  defines "s' \<equiv> fold screening_step ops s"
  shows "screening_inv s' \<and> length (filter (\<lambda>a. running a \<and> sa_agent_id a = i) (sd_attempts s')) \<le> 1 \<and>
    (\<forall>a \<in> set (sd_attempts s). \<exists>b \<in> set (sd_attempts s'). lease_of b = lease_of a \<and> (\<not> running a \<longrightarrow> b = a))"
proof -
  have inv: "screening_inv s'" unfolding s'_def using assms(1) by (rule screening.run_invar)
  have grows: "history_grows s s'" unfolding s'_def using assms(1) by (rule screening.run_grows)
  have "length (filter (\<lambda>a. running a \<and> sa_agent_id a = i) (sd_attempts s')) \<le> 1"
    using inv one_running_count by (simp add: screening_inv_def)
  with inv history_keeps [OF grows] show ?thesis by blast
qed

subsection \<open>Promotion\<close>

lemma submit_prepareD:
  assumes "submit_prepare w i hk p s = Inr pv"
  shows "precheck_error w hk p = None" "verified_upload w i hk p = Inr (pv_upload pv)"
    "pv_deferral pv = read_deferral i p s" "verdict_target w (read_deferral i p s) p = Inr (pv_target pv, pv_public_reason pv)"
  using assms by (auto simp: submit_prepare_def Let_def split: option.splits sum.splits)

lemma verified_uploadD:
  assumes "verified_upload w i hk p = Inr u" and "rs_image_sha256 p \<noteq> None"
  shows "\<exists>v \<in> set (w_uploads w). u = Some v \<and> upload_matches i hk p v \<and> w_stored_size w i (iu_image_upload_id v) = rs_image_size_bytes p"
proof -
  from assms obtain k where k: "rs_image_upload_id p = Some k" by (auto simp: verified_upload_def split: option.splits)
  with assms obtain v where v: "get_row iu_image_upload_id k (w_uploads w) = Some v"
    by (cases "get_row iu_image_upload_id k (w_uploads w)") (simp_all add: verified_upload_def)
  have "v \<in> set (w_uploads w)" "iu_image_upload_id v = k" using get_row_SomeD [OF v] by simp_all
  moreover have "u = Some v \<and> upload_matches i hk p v \<and> w_stored_size w i k = rs_image_size_bytes p"
    using assms k v by (auto simp: verified_upload_def split: if_splits option.splits)
  ultimately show ?thesis by blast
qed

lemma deep_lifecycle: "df_deep (read_deferral i p s) \<Longrightarrow> df_lifecycle (read_deferral i p s)"
  by (cases "rs_attempt_id p") (simp_all add: read_deferral_def Let_def)

lemma restore_status: "df_restore_status (read_deferral i p s) \<in> {AGENT_SCORED, LIVE}"
  by (simp add: read_deferral_def Let_def split: option.splits)

lemma failed_target: "failed_screening_target detail \<in> {SCREENING_FAILED, REJECTED}"
  by (simp add: failed_screening_target_def Let_def)

lemma evaluating_target:
  assumes "verdict_target w (read_deferral i p s) p = Inr (EVALUATING, r)"
  shows "rs_outcome p = Some Outcome_Pass_Inconclusive \<or> rs_outcome p \<in> {None, Some Outcome_Pass} \<and> rs_passed p"
  using assms restore_status [of i p s] failed_target [of "rs_detail p"]
  by (auto simp: verdict_target_def Let_def split: if_splits option.splits screen_outcome.splits)

lemma inconclusive_target:
  assumes "verdict_target w df p = Inr (st, r)" and "rs_outcome p = Some Outcome_Inconclusive"
  shows "st \<noteq> QUARANTINED"
  using assms by (auto simp: verdict_target_def Let_def split: if_splits)

lemma promoted_from:
  assumes "verdict_status env ag p pv s = Some EVALUATING" and "ag_status ag \<noteq> EVALUATING"
    and "df_deep (pv_deferral pv) \<Longrightarrow> df_lifecycle (pv_deferral pv)"
  shows "pv_target pv = EVALUATING \<and> \<not> late_result ag pv s \<and>
    ag_status ag \<in> {UPLOADED, SCREENING, SCREENING_FAILED, REJECTED, AGENT_SCORED, LIVE, ATH_PENDING_REVIEW}"
  using assms by (auto simp: verdict_status_def Let_def SCREENABLE_STATUSES_def late_result_def review_active_now_def split: if_splits)


subsection \<open>An inconclusive verdict and the expiry cap\<close>

lemma last_operator_clear_ge:
  assumes "q \<in> set (sd_quarantines s)" and "sq_agent_id q = i" and "sq_resolution q \<in> {Some ''release'', Some ''rescreen''}"
    and "sq_resolved_at q = Some t"
  shows "t \<le> last_operator_clear i s"
proof -
  have mem: "t \<in> set (operator_clears i s)" using assms by (force simp: operator_clears_def List.map_filter_def)
  have ge: "x \<le> fold max ts (u :: time)" if "x \<in> set (u # ts)" for x u ts
    using Max.set_eq_fold [of u ts] Max_ge [OF _ that] by simp
  show ?thesis
  proof (cases "operator_clears i s")
    case Nil
    with mem show ?thesis by simp
  next
    case (Cons u ts)
    with mem ge [of t u ts] show ?thesis by (simp add: last_operator_clear_def)
  qed
qed


subsection \<open>A screened submission\<close>

text \<open>Submission 1 is leased to screener \<open>s\<close> as attempt 11; the screener reports.\<close>

definition leased_db :: screening_db where
  "leased_db = fst (demo_claim 1 EVALUATING)"

definition demo_report_world :: verdict_world where
  "demo_report_world =
     \<lparr>w_live = demo_live, w_now = 200, w_signature_ok = True, w_uploads = [], w_stored_size = (\<lambda>_ _. None), w_revisions = [],
      w_run_size = None, w_generate = (\<lambda>_ _. []), w_derived_seed = (0, None, None), w_public_reason = (\<lambda>d _. d),
      w_attempt_id = 900, w_quarantine_id = 901\<rparr>"

definition demo_result :: "screen_outcome \<Rightarrow> screen_result" where
  "demo_result outcome =
     \<lparr>rs_screener_hotkey = ''s'', rs_attempt_id = Some 11, rs_passed = (outcome = Outcome_Pass), rs_policy_version = 9, rs_outcome = Some outcome,
      rs_detail = [], rs_reason_code = None, rs_manifest_digest = None, rs_deferred_source_review = False,
      rs_review_settings_revision = None, rs_review_settings_instance_id = None, rs_review_settings_scope = None,
      rs_review_settings_checksum = None, rs_image_sha256 = None, rs_image_size_bytes = None, rs_image_id = None,
      rs_image_ref = None, rs_image_upload_id = None\<rparr>"

definition demo_submit :: "screen_outcome \<Rightarrow> verdict_error + screening_db \<times> agent_status" where
  "demo_submit outcome =
     (case submit_prepare demo_report_world 1 ''s'' (demo_result outcome) leased_db of
        Inl e \<Rightarrow> Inl e | Inr pv \<Rightarrow> submit_apply demo_report_world 1 ''s'' (demo_result outcome) pv leased_db)"

lemma demo_submitE:
  assumes "case demo_submit outcome of Inl _ \<Rightarrow> False | Inr (_, st) \<Rightarrow> st = t"
  obtains pv s' where "submit_prepare demo_report_world 1 ''s'' (demo_result outcome) leased_db = Inr pv"
    "submit_apply demo_report_world 1 ''s'' (demo_result outcome) pv leased_db = Inr (s', t)" "demo_submit outcome = Inr (s', t)"
  using assms unfolding demo_submit_def by (auto split: sum.splits)

lemma demo_submit_runs:
  "case demo_submit Outcome_Pass of Inl _ \<Rightarrow> False | Inr (_, st) \<Rightarrow> st = EVALUATING"
  "case demo_submit Outcome_Inconclusive of Inl _ \<Rightarrow> False | Inr (_, st) \<Rightarrow> st = SCREENING_FAILED"
  by code_simp+

definition demo_run :: "screening_op list" where
  "demo_run = [Op_Claim demo_live demo_draw {} ''s'' 100 (td_minutes 70) 1 ''off'',
     Op_Verdict demo_report_world 1 ''s'' (demo_result Outcome_Inconclusive) leased_db]"

lemma copies_inv: "screening_inv (copies_db st)"
  using copies_ids [of st] by (simp add: screening_inv_def copies_db_def)

theorem screening_history_append_only_witness:
  "screening_inv (fold screening_step demo_run (copies_db EVALUATING)) \<and>
   map sa_status (sd_attempts (fold screening_step demo_run (copies_db EVALUATING))) = [Attempt_Passed, Attempt_Expired]"
proof
  show "screening_inv (fold screening_step demo_run (copies_db EVALUATING))"
    using screening_history_append_only [OF copies_inv, of demo_run EVALUATING] by (rule conjunct1)
  show "map sa_status (sd_attempts (fold screening_step demo_run (copies_db EVALUATING))) = [Attempt_Passed, Attempt_Expired]" by code_simp
qed

lemma leased_row:
  "map_option (\<lambda>ag. ag_status ag = SCREENING) (get_row ag_agent_id 1 (d_agents (sd_db leased_db))) = Some True"
  "map_option running (get_screening_attempt 11 leased_db) = Some True"
  "sd_quarantines leased_db = [] \<and> list_all (\<lambda>b. sa_started_at b \<le> 200) (sd_attempts leased_db)"
  by code_simp+



end
