(* ===== verification/Confirmation.thy ===== *)
theory Confirmation
  imports Koth "HOL-Library.Sublist"
begin

text \<open>
  The confirmation scores of retested submissions (\<open>ditto/db/queries/confirmation_scores.py\<close>): an append-only table of one
  composite per submission, validator, version and seed; which seeds a member still has to catch up on, and which seeds may
  enter the continual mean. A dict of seeds by agent is a map to sets.
\<close>

subsection \<open>The table\<close>

record confirmation_score =
  cs_agent_id :: uuid
  cs_validator_hotkey :: hotkey
  cs_bench_version :: int
  cs_seed :: int
  cs_composite :: rat
  cs_run_id :: string
  cs_signature :: "string option"
  cs_created_at :: time

record confirmation_seed_score =
  csr_agent_id :: uuid
  csr_validator_hotkey :: hotkey
  csr_seed :: int
  csr_composite :: rat
  csr_run_id :: string
  csr_signature :: "string option"

definition ckey :: "confirmation_score \<Rightarrow> uuid \<times> int \<times> hotkey \<times> int" where
  "ckey c = (cs_agent_id c, cs_bench_version c, cs_validator_hotkey c, cs_seed c)"

definition confirmation_row :: "int \<Rightarrow> time \<Rightarrow> confirmation_seed_score \<Rightarrow> confirmation_score" where
  "confirmation_row bench_version created_at r =
     \<lparr>cs_agent_id = csr_agent_id r, cs_validator_hotkey = csr_validator_hotkey r, cs_bench_version = bench_version,
      cs_seed = csr_seed r, cs_composite = csr_composite r, cs_run_id = csr_run_id r, cs_signature = csr_signature r,
      cs_created_at = created_at\<rparr>"

text \<open>\<open>ON CONFLICT DO NOTHING\<close>, row by row.\<close>

fun insert_new :: "confirmation_score list \<Rightarrow> confirmation_score list \<Rightarrow> confirmation_score list" where
  "insert_new [] cs = cs"
| "insert_new (r # rs) cs = insert_new rs (if ckey r \<in> set (map ckey cs) then cs else cs @ [r])"

definition append_confirmation_scores ::
  "confirmation_seed_score list \<Rightarrow> int \<Rightarrow> time \<Rightarrow> confirmation_score list \<Rightarrow> confirmation_score list \<times> nat" where
  "append_confirmation_scores rows bench_version created_at cs =
     (let cs' = insert_new (map (confirmation_row bench_version created_at) rows) cs in (cs', length cs' - length cs))"

subsection \<open>Reads\<close>

definition rows_of :: "uuid \<Rightarrow> int \<Rightarrow> confirmation_score list \<Rightarrow> confirmation_score list" where
  "rows_of agent_id bench_version cs = filter (\<lambda>c. cs_agent_id c = agent_id \<and> cs_bench_version c = bench_version) cs"

definition seeds_of :: "uuid \<Rightarrow> int \<Rightarrow> confirmation_score list \<Rightarrow> int list" where
  "seeds_of agent_id bench_version cs = remdups (map cs_seed (rows_of agent_id bench_version cs))"

definition seed_rows :: "uuid \<Rightarrow> int \<Rightarrow> int \<Rightarrow> confirmation_score list \<Rightarrow> confirmation_score list" where
  "seed_rows agent_id bench_version seed cs = filter (\<lambda>c. cs_seed c = seed) (rows_of agent_id bench_version cs)"

text \<open>\<open>None\<close> is an agent missing from the dict.\<close>

definition confirmation_composites_by_seed ::
  "uuid list \<Rightarrow> int \<Rightarrow> confirmation_score list \<Rightarrow> uuid \<Rightarrow> (int \<times> rat) list option" where
  "confirmation_composites_by_seed agent_ids bench_version cs agent_id =
     (if agent_id \<in> set agent_ids \<and> rows_of agent_id bench_version cs \<noteq> [] then
        Some (map (\<lambda>seed. (seed, statistics_median (map cs_composite (seed_rows agent_id bench_version seed cs)))) (seeds_of agent_id bench_version cs))
      else None)"

definition confirmation_history_by_agent :: "uuid list \<Rightarrow> int \<Rightarrow> confirmation_score list \<Rightarrow> uuid \<Rightarrow> confirmation_score list option" where
  "confirmation_history_by_agent agent_ids bench_version cs agent_id =
     (if agent_id \<in> set agent_ids \<and> rows_of agent_id bench_version cs \<noteq> [] then
        Some (sort_key (\<lambda>c. (cs_seed c, cs_validator_hotkey c)) (rows_of agent_id bench_version cs))
      else None)"

definition confirmation_depths :: "uuid list \<Rightarrow> int \<Rightarrow> confirmation_score list \<Rightarrow> uuid \<Rightarrow> nat option" where
  "confirmation_depths agent_ids bench_version cs agent_id =
     (if agent_id \<in> set agent_ids \<and> rows_of agent_id bench_version cs \<noteq> [] then Some (card (set (map cs_seed (rows_of agent_id bench_version cs))))
      else None)"

definition lane_seed_universe :: "uuid list \<Rightarrow> int \<Rightarrow> confirmation_score list \<Rightarrow> int list" where
  "lane_seed_universe agent_ids bench_version cs =
     sorted_list_of_set (set (map cs_seed (filter (\<lambda>c. cs_agent_id c \<in> set agent_ids \<and> cs_bench_version c = bench_version) cs)))"

subsection \<open>Waves\<close>

definition held :: "(uuid \<rightharpoonup> int set) \<Rightarrow> uuid \<Rightarrow> int set" where
  "held seeds_by_agent a = (case seeds_by_agent a of None \<Rightarrow> {} | Some s \<Rightarrow> s)"

text \<open>The intersection over the members, left early once it is empty.\<close>

fun wave_loop :: "(uuid \<rightharpoonup> int set) \<Rightarrow> int set option \<Rightarrow> uuid list \<Rightarrow> int set" where
  "wave_loop m common [] = (case common of None \<Rightarrow> {} | Some s \<Rightarrow> s)"
| "wave_loop m common (a # as) =
     (let common' = (case common of None \<Rightarrow> held m a | Some s \<Rightarrow> s \<inter> held m a)
      in if common' = {} then {} else wave_loop m (Some common') as)"

definition completed_confirmation_wave_seeds :: "uuid list \<Rightarrow> (uuid \<rightharpoonup> int set) \<Rightarrow> int set" where
  "completed_confirmation_wave_seeds member_ids seeds_by_agent =
     (if member_ids = [] then {} else wave_loop seeds_by_agent None (remdups member_ids))"

definition confirmation_catchup_seeds :: "uuid \<Rightarrow> uuid list \<Rightarrow> int list \<Rightarrow> (uuid \<rightharpoonup> int set) \<Rightarrow> int list" where
  "confirmation_catchup_seeds member_id peer_ids anchored_seeds seeds_by_agent =
     (let peers = filter (\<lambda>p. p \<noteq> member_id) (remdups peer_ids);
          reached = \<Union> (held seeds_by_agent ` set peers)
      in if peers = [] \<or> reached = {} then []
         else filter (\<lambda>s. s \<in> reached \<and> s \<notin> held seeds_by_agent member_id) anchored_seeds)"

datatype wave_membership = Strict | Participants | Per_Agent

definition own_seeds :: "int list option \<Rightarrow> (uuid \<rightharpoonup> int set) \<Rightarrow> (uuid \<rightharpoonup> int set)" where
  "own_seeds anchored_seeds m a = map_option (\<lambda>s. case anchored_seeds of None \<Rightarrow> s | Some anchor \<Rightarrow> s \<inter> set anchor) (m a)"

definition overlapping :: "(uuid \<rightharpoonup> int set) \<Rightarrow> uuid list \<Rightarrow> uuid list" where
  "overlapping own members =
     filter (\<lambda>a. held own a \<inter> \<Union> (held own ` set (filter (\<lambda>b. b \<noteq> a) members)) \<noteq> {}) members"

definition wave_members :: "wave_membership \<Rightarrow> (uuid \<rightharpoonup> int set) \<Rightarrow> uuid list \<Rightarrow> uuid list" where
  "wave_members mode own member_ids =
     (let members = remdups member_ids in
      if mode = Participants then
        (let holding = filter (\<lambda>a. held own a \<noteq> {}) members; over = overlapping own holding
         in if over \<noteq> [] then over else holding)
      else members)"

definition fold_eligible_seeds_by_agent ::
  "uuid list \<Rightarrow> (uuid \<rightharpoonup> int set) \<Rightarrow> wave_membership \<Rightarrow> int list option \<Rightarrow> (uuid \<rightharpoonup> int set)" where
  "fold_eligible_seeds_by_agent member_ids seeds_by_agent mode anchored_seeds =
     (let own = own_seeds anchored_seeds seeds_by_agent in
      if mode = Per_Agent then own
      else let shared = completed_confirmation_wave_seeds (wave_members mode own member_ids) own
           in (\<lambda>a. map_option (\<lambda>s. s \<inter> shared) (own a)))"

subsection \<open>The table only grows\<close>

lemma insert_new_spec:
  "\<exists>xs. insert_new rs cs = cs @ xs \<and> set xs \<subseteq> set rs \<and>
     set (map ckey (insert_new rs cs)) = set (map ckey cs) \<union> set (map ckey rs) \<and>
     (distinct (map ckey cs) \<longrightarrow> distinct (map ckey (insert_new rs cs)))"
proof (induction rs arbitrary: cs)
  case (Cons r rs)
  let ?cs = "if ckey r \<in> set (map ckey cs) then cs else cs @ [r]"
  from Cons.IH [of ?cs] obtain xs where xs: "insert_new rs ?cs = ?cs @ xs" "set xs \<subseteq> set rs"
    "set (map ckey (insert_new rs ?cs)) = set (map ckey ?cs) \<union> set (map ckey rs)"
    "distinct (map ckey ?cs) \<longrightarrow> distinct (map ckey (insert_new rs ?cs))" by blast
  have k: "set (map ckey ?cs) = insert (ckey r) (set (map ckey cs))" "distinct (map ckey cs) \<longrightarrow> distinct (map ckey ?cs)" by auto
  let ?xs = "(if ckey r \<in> set (map ckey cs) then [] else [r]) @ xs"
  have "insert_new (r # rs) cs = cs @ ?xs" using xs(1) by simp
  moreover have "set ?xs \<subseteq> set (r # rs)" using xs(2) by auto
  moreover have "set (map ckey (insert_new (r # rs) cs)) = set (map ckey cs) \<union> set (map ckey (r # rs))"
    unfolding insert_new.simps xs(3) k(1) by auto
  moreover have "distinct (map ckey cs) \<longrightarrow> distinct (map ckey (insert_new (r # rs) cs))" using xs(4) k(2) by simp
  ultimately show ?case by blast
qed simp

lemma insert_new_known: "set (map ckey rs) \<subseteq> set (map ckey cs) \<Longrightarrow> insert_new rs cs = cs"
  by (induction rs) auto

record append_confirmations =
  ac_rows :: "confirmation_seed_score list"
  ac_version :: int
  ac_at :: time

definition confirmation_step :: "append_confirmations \<Rightarrow> confirmation_score list \<Rightarrow> confirmation_score list" where
  "confirmation_step x cs = fst (append_confirmation_scores (ac_rows x) (ac_version x) (ac_at x) cs)"

lemma confirmation_step_eq: "confirmation_step x cs = insert_new (map (confirmation_row (ac_version x) (ac_at x)) (ac_rows x)) cs"
  by (simp add: confirmation_step_def append_confirmation_scores_def Let_def)

interpretation cledger: monotone_machine confirmation_step "\<lambda>cs. distinct (map ckey cs)" prefix
proof
  fix x cs and cs2 cs3 :: "confirmation_score list"
  show "distinct (map ckey cs) \<Longrightarrow> distinct (map ckey (confirmation_step x cs))"
    using insert_new_spec unfolding confirmation_step_eq by blast
  show "prefix cs (confirmation_step x cs)"
    using insert_new_spec unfolding confirmation_step_eq by (metis prefixI)
qed auto

lemma confirmation_step_keys: "set (map ckey (confirmation_step x cs)) = set (map ckey cs) \<union> set (map ckey (confirmation_step x []))"
  using insert_new_spec [of "map (confirmation_row (ac_version x) (ac_at x)) (ac_rows x)" cs]
    insert_new_spec [of "map (confirmation_row (ac_version x) (ac_at x)) (ac_rows x)" "[]"] unfolding confirmation_step_eq by auto

lemma run_keys: "set (map ckey cs) \<union> (\<Union>x \<in> set ops. set (map ckey (confirmation_step x []))) \<subseteq> set (map ckey (fold confirmation_step ops cs))"
proof (induction ops arbitrary: cs)
  case (Cons x ops)
  show ?case using Cons.IH [of "confirmation_step x cs"] confirmation_step_keys [of x cs] by auto
qed simp

lemma confirmation_step_known: "set (map ckey (confirmation_step x [])) \<subseteq> set (map ckey cs) \<Longrightarrow> confirmation_step x cs = cs"
  unfolding confirmation_step_eq using insert_new_spec [of "map (confirmation_row (ac_version x) (ac_at x)) (ac_rows x)" "[]"]
  by (intro insert_new_known) auto

text \<open>
  C38. The confirmation table is append-only and replays are harmless. Along every sequence of appends the rows already there
  stay where they are, no validator ever has two composites for one seed of one submission and version, so the first one written
  counts for good; and sending any of the batches again changes nothing.
\<close>

theorem confirmation_table_append_only:
  assumes "distinct (map ckey cs)"
  shows "prefix cs (fold confirmation_step ops cs) \<and> distinct (map ckey (fold confirmation_step ops cs))
    \<and> (\<forall>x \<in> set ops. append_confirmation_scores (ac_rows x) (ac_version x) t (fold confirmation_step ops cs) = (fold confirmation_step ops cs, 0))"
proof (intro conjI ballI)
  show "prefix cs (fold confirmation_step ops cs)" using assms by (rule cledger.run_grows)
  show "distinct (map ckey (fold confirmation_step ops cs))" using assms by (rule cledger.run_invar)
  fix x assume x: "x \<in> set ops"
  let ?y = "x\<lparr>ac_at := t\<rparr>"
  have "map ckey (map (confirmation_row (ac_version x) t) (ac_rows x)) = map ckey (map (confirmation_row (ac_version x) (ac_at x)) (ac_rows x))"
    by (simp add: confirmation_row_def ckey_def)
  then have "set (map ckey (confirmation_step ?y [])) = set (map ckey (confirmation_step x []))"
    using insert_new_spec [of "map (confirmation_row (ac_version x) t) (ac_rows x)" "[]"]
      insert_new_spec [of "map (confirmation_row (ac_version x) (ac_at x)) (ac_rows x)" "[]"] unfolding confirmation_step_eq by simp
  moreover have "set (map ckey (confirmation_step x [])) \<subseteq> set (map ckey (fold confirmation_step ops cs))" using run_keys [of cs ops] x by blast
  ultimately have "confirmation_step ?y (fold confirmation_step ops cs) = fold confirmation_step ops cs"
    by (intro confirmation_step_known) simp
  then show "append_confirmation_scores (ac_rows x) (ac_version x) t (fold confirmation_step ops cs) = (fold confirmation_step ops cs, 0)"
    by (simp add: confirmation_step_def append_confirmation_scores_def Let_def)
qed

subsection \<open>Which seeds count\<close>

lemma wave_loop_Some: "wave_loop m (Some s) as = s \<inter> (\<Inter>a \<in> set as. held m a)"
  by (induction as arbitrary: s) (auto simp: Let_def)

lemma completed_wave_eq:
  "completed_confirmation_wave_seeds members m = (if members = [] then {} else \<Inter>a \<in> set members. held m a)"
proof (cases "remdups members")
  case Nil
  then show ?thesis by (simp add: completed_confirmation_wave_seeds_def)
next
  case (Cons a as)
  then have "set members = insert a (set as)" by (metis list.simps(15) set_remdups)
  moreover have "members \<noteq> []" using Cons by auto
  ultimately show ?thesis using Cons by (simp add: completed_confirmation_wave_seeds_def wave_loop_Some Let_def)
qed

lemma set_wave_members: "set (wave_members mode own members) \<subseteq> set members"
  by (auto simp: wave_members_def overlapping_def Let_def)

lemma held_fold:
  "held (fold_eligible_seeds_by_agent members m mode anchor) a =
     (if mode = Per_Agent then held (own_seeds anchor m) a
      else held (own_seeds anchor m) a \<inter> completed_confirmation_wave_seeds (wave_members mode (own_seeds anchor m) members) (own_seeds anchor m))"
  by (simp add: fold_eligible_seeds_by_agent_def Let_def held_def split: option.splits)

lemma participants_nonempty:
  assumes "members \<noteq> []" and "\<And>a. a \<in> set members \<Longrightarrow> held own a \<noteq> {}"
  shows "wave_members Participants own members \<noteq> []"
proof -
  from assms have "filter (\<lambda>a. held own a \<noteq> {}) (remdups members) \<noteq> []" by (auto simp: filter_empty_conv neq_Nil_conv)
  then show ?thesis by (simp add: wave_members_def Let_def)
qed

text \<open>
  The three admission policies widen in order. For every submission the strict policy admits no seed the default policy
  does not, and the default none that the submission does not hold within the anchor itself; under the strict and the default
  policy every member the wave is taken over is averaged on exactly the same seeds.
\<close>

theorem fold_policies_widen:
  defines "elig \<equiv> \<lambda>members m anchor mode. held (fold_eligible_seeds_by_agent members m mode anchor)"
  shows "elig members m anchor Strict a \<subseteq> elig members m anchor Participants a
    \<and> elig members m anchor Participants a \<subseteq> elig members m anchor Per_Agent a
    \<and> elig members m anchor Per_Agent a = held m a \<inter> (case anchor of None \<Rightarrow> UNIV | Some s \<Rightarrow> set s)
    \<and> ({a, b} \<subseteq> set (wave_members mode (own_seeds anchor m) members) \<and> mode \<noteq> Per_Agent \<longrightarrow>
      elig members m anchor mode a = elig members m anchor mode b)"
proof (intro conjI impI)
  let ?own = "own_seeds anchor m"
  show "elig members m anchor Strict a \<subseteq> elig members m anchor Participants a"
  proof (cases "members = [] \<or> (\<exists>c \<in> set members. held ?own c = {})")
    case True
    then have "completed_confirmation_wave_seeds (wave_members Strict ?own members) ?own = {}"
      by (auto simp: completed_wave_eq wave_members_def Let_def)
    then show ?thesis by (simp add: elig_def held_fold)
  next
    case False
    then have "wave_members Participants ?own members \<noteq> []" by (intro participants_nonempty) auto
    then show ?thesis using set_wave_members [of Participants ?own members] False
      by (auto simp: elig_def held_fold completed_wave_eq wave_members_def [of Strict] Let_def)
  qed
  show "elig members m anchor Participants a \<subseteq> elig members m anchor Per_Agent a" by (simp add: elig_def held_fold)
  show "elig members m anchor Per_Agent a = held m a \<inter> (case anchor of None \<Rightarrow> UNIV | Some s \<Rightarrow> set s)"
    by (simp add: elig_def held_fold) (auto simp: own_seeds_def held_def split: option.splits)
  show "elig members m anchor mode a = elig members m anchor mode b"
    if "{a, b} \<subseteq> set (wave_members mode ?own members) \<and> mode \<noteq> Per_Agent"
    using that by (auto simp: elig_def held_fold completed_wave_eq)
qed

lemma Inter_within: "M \<noteq> {} \<Longrightarrow> (\<And>a. a \<in> M \<Longrightarrow> X a \<inter> A = B) \<Longrightarrow> (\<Inter>a \<in> M. X a) \<inter> A = B"
  by blast

definition caught_up :: "uuid list \<Rightarrow> int list \<Rightarrow> (uuid \<rightharpoonup> int set) \<Rightarrow> (uuid \<rightharpoonup> int set)" where
  "caught_up members anchor m a =
     (if a \<in> set members then Some (held m a \<union> set (confirmation_catchup_seeds a members anchor m)) else m a)"

text \<open>
  Catching up completes the wave. When every member of a cohort of at least two runs its whole backlog, the seeds of the
  anchor that every member then holds are all those that any member held before: nothing that was scored is orphaned.
\<close>

theorem catch_up_completes_wave:
  assumes "2 \<le> card (set members)"
  shows "completed_confirmation_wave_seeds members (caught_up members anchor m) \<inter> set anchor = set anchor \<inter> (\<Union>a \<in> set members. held m a)"
proof -
  have ne: "members \<noteq> []" using assms(1) by auto
  have peers: "filter (\<lambda>p. p \<noteq> a) (remdups members) \<noteq> []" if "a \<in> set members" for a
  proof
    assume "filter (\<lambda>p. p \<noteq> a) (remdups members) = []"
    then have "set members \<subseteq> {a}" by (auto simp: filter_empty_conv)
    then have "card (set members) \<le> 1" using card_mono [of "{a}" "set members"] by simp
    with assms(1) show False by simp
  qed
  have "(held m a \<union> set (confirmation_catchup_seeds a members anchor m)) \<inter> set anchor = set anchor \<inter> (\<Union>b \<in> set members. held m b)"
    if "a \<in> set members" for a
    using that peers [OF that] by (auto simp: confirmation_catchup_seeds_def Let_def)
  then have "held (caught_up members anchor m) a \<inter> set anchor = set anchor \<inter> (\<Union>b \<in> set members. held m b)" if "a \<in> set members" for a
    using that by (simp add: caught_up_def held_def)
  then show ?thesis using ne unfolding completed_wave_eq by (subst if_not_P) (simp_all add: Inter_within)
qed

subsection \<open>A cohort with a newcomer\<close>

definition demo_seeds :: "uuid \<rightharpoonup> int set" where
  "demo_seeds = [2 \<mapsto> {10, 11}, 3 \<mapsto> {10, 11, 12}]"

definition demo_batch :: append_confirmations where
  "demo_batch = \<lparr>ac_rows = [\<lparr>csr_agent_id = 1, csr_validator_hotkey = ''v'', csr_seed = 10, csr_composite = 1 / 2, csr_run_id = ''r'',
     csr_signature = None\<rparr>], ac_version = 7, ac_at = 0\<rparr>"

theorem confirmation_table_append_only_witness:
  "append_confirmation_scores (ac_rows demo_batch) 7 5 (confirmation_step demo_batch []) = (confirmation_step demo_batch [], 0)
   \<and> length (confirmation_step demo_batch []) = 1"
  using confirmation_table_append_only [of "[]" "[demo_batch]" 5]
  by (simp add: demo_batch_def confirmation_step_eq)

text \<open>Member 4 has no retests yet: the strict policy drops everybody's, the default keeps the shared ones.\<close>

theorem fold_policies_widen_witness:
  "held (fold_eligible_seeds_by_agent [2, 3, 4] demo_seeds Strict None) 2 = {}
   \<and> held (fold_eligible_seeds_by_agent [2, 3, 4] demo_seeds Participants None) 2 = {10, 11}
   \<and> held (fold_eligible_seeds_by_agent [2, 3, 4] demo_seeds Participants None) 2 = held (fold_eligible_seeds_by_agent [2, 3, 4] demo_seeds Participants None) 3"
proof -
  have own: "own_seeds None demo_seeds = demo_seeds" by (auto simp: own_seeds_def demo_seeds_def)
  have mem: "wave_members Participants demo_seeds [2, 3, 4] = [2, 3]"
    by (simp add: wave_members_def overlapping_def held_def demo_seeds_def Let_def) (rule exI [of _ 3], simp)
  have "held (fold_eligible_seeds_by_agent [2, 3, 4] demo_seeds Strict None) 2 = {}"
    "held (fold_eligible_seeds_by_agent [2, 3, 4] demo_seeds Participants None) 2 = {10, 11}"
    unfolding held_fold own mem completed_wave_eq by (simp_all add: wave_members_def held_def demo_seeds_def Let_def)
  with fold_policies_widen [of "[2, 3, 4]" demo_seeds None 2 3 Participants] show ?thesis by (simp add: own mem)
qed

theorem catch_up_completes_wave_witness:
  "completed_confirmation_wave_seeds [2, 3, 4] (caught_up [2, 3, 4] [11, 12, 13] demo_seeds) \<inter> {11, 12, 13} = {11, 12}"
  using catch_up_completes_wave [of "[2, 3, 4]" "[11, 12, 13]" demo_seeds] by (auto simp: held_def demo_seeds_def)

end
