(* ===== verification/Ledger.thy ===== *)
theory Ledger
  imports Confirmation Rollout
begin

text \<open>
  The score ledger every validator folds into weights (\<open>list_eligible_ledger\<close> of \<open>ditto/db/queries/scores.py\<close>). The ledger takes each finalized
  submission's median row of its authoritative benchmark version, scores it, and keeps the best submission of every owner
  family. The columns carried for display and moderation (telemetry, sketches, names) are left out.
\<close>

subsection \<open>When the continual mean counts\<close>

definition CONTINUAL_MEAN_PROTOCOL :: int where "CONTINUAL_MEAN_PROTOCOL = 14"
definition VALIDATOR_STALE_WINDOW :: timedelta where "VALIDATOR_STALE_WINDOW = td_minutes 15"

definition capable_protocols :: "int \<Rightarrow> time \<Rightarrow> timedelta \<Rightarrow> validator_report list \<Rightarrow> int list" where
  "capable_protocols bench_version now freshness reports =
     map vp_protocol_version (filter (\<lambda>h. vp_seen_at h \<ge> now - freshness \<and>
       (case vp_capabilities h of None \<Rightarrow> False
        | Some c \<Rightarrow> (case vcap_scorer_benchmarks c of None \<Rightarrow> False
           | Some s \<Rightarrow> sc_status s = ''fresh_verified'' \<and> bench_version \<in> set (sc_supported_bench_versions s)))) reports)"

definition live_validator_fleet_supports_protocol :: "int \<Rightarrow> int \<Rightarrow> time \<Rightarrow> timedelta \<Rightarrow> validator_report list \<Rightarrow> bool" where
  "live_validator_fleet_supports_protocol minimum_protocol bench_version now freshness reports \<longleftrightarrow>
     (let protocols = capable_protocols bench_version now freshness reports
      in protocols \<noteq> [] \<and> list_all (\<lambda>p. p \<ge> minimum_protocol) protocols)"

definition aggregate_is_active :: "string \<Rightarrow> bool \<Rightarrow> bool" where
  "aggregate_is_active aggregate_mode fleet_protocol_ready =
     (if aggregate_mode = ''enabled'' then True else if aggregate_mode = ''disabled'' then False else fleet_protocol_ready)"

record ledger_world =
  lw_live :: live
  lw_now :: time
  lw_confirmations :: "confirmation_score list"
  lw_aggregate_mode :: string

definition continual_mean_is_active :: "ledger_world \<Rightarrow> int option \<Rightarrow> int \<Rightarrow> bool" where
  "continual_mean_is_active w bench_version active_version =
     (if bench_version \<noteq> None \<and> bench_version \<noteq> Some active_version then False
      else aggregate_is_active (lw_aggregate_mode w)
        (live_validator_fleet_supports_protocol CONTINUAL_MEAN_PROTOCOL active_version (lw_now w) VALIDATOR_STALE_WINDOW
          (l_reports (lw_live w))))"

subsection \<open>The authoritative row of a submission\<close>

record ledger_candidate =
  lc_agent :: agent
  lc_coldkey :: "string option"
  lc_score :: score
  lc_count :: nat

definition lc_version :: "ledger_candidate \<Rightarrow> int" where
  "lc_version c = s_bench_version (lc_score c)"

text \<open>The median row of each of a submission's benchmark versions.\<close>

definition agent_best :: "int list \<Rightarrow> db \<Rightarrow> agent \<Rightarrow> ledger_candidate list" where
  "agent_best versions d ag =
     concat (map (\<lambda>v. let rows = scores_of (ag_agent_id ag) v d in
       map (\<lambda>s. \<lparr>lc_agent = ag, lc_coldkey = coldkey_of ag d, lc_score = s, lc_count = length rows\<rparr>) (median_rows rows)) versions)"

text \<open>\<open>au_desired\<close> is the version of an open rollout, \<open>au_flipped\<close> that its version has taken the whole ledger over.\<close>

record authority_rule =
  au_versions :: "int list"
  au_canonical :: int
  au_desired :: "int option"
  au_flipped :: bool

definition ledger_authority :: "ledger_world \<Rightarrow> int option \<Rightarrow> db \<Rightarrow> authority_rule" where
  "ledger_authority w bench_version d =
     (let canonical_version = active_bench_version (lw_live w) (lw_now w) d;
          rollout = (if bench_version \<noteq> None then None else open_rollout d);
          desired_version = map_option ro_desired_version rollout
      in \<lparr>au_versions = (case bench_version of Some v \<Rightarrow> [v]
            | None \<Rightarrow> remdups (canonical_version # (case desired_version of None \<Rightarrow> [] | Some v \<Rightarrow> [v]))),
          au_canonical = canonical_version, au_desired = desired_version,
          au_flipped = (case rollout of None \<Rightarrow> False
            | Some r \<Rightarrow>
               (let ids = set (map rm_agent_id (filter (\<lambda>m. rm_position m \<le> int MIN_DESIRED_AUTHORITY_AGENTS) (members_of (ro_rollout_id r) d)))
                in count_ranked_quorum_agents (l_env (lw_live w)) (ro_desired_version r) (Some ids) d \<ge> MIN_DESIRED_AUTHORITY_AGENTS))\<rparr>)"

definition desired_at_quorum :: "authority_rule \<Rightarrow> ledger_candidate \<Rightarrow> bool" where
  "desired_at_quorum au c \<longleftrightarrow> au_desired au = Some (lc_version c) \<and> lc_count c \<ge> SCORING_QUORUM"

definition version_priority :: "authority_rule \<Rightarrow> ledger_candidate \<Rightarrow> int" where
  "version_priority au c =
     (if au_desired au = None \<or> au_flipped au then lc_version c
      else if lc_version c = au_canonical au then 0 else if desired_at_quorum au c then 1 else 2)"

definition authoritative :: "authority_rule \<Rightarrow> db \<Rightarrow> ledger_candidate list" where
  "authoritative au d =
     List.map_filter (\<lambda>ag. first_by (\<lambda>c. (version_priority au c, - lc_version c))
         (filter (\<lambda>c. au_flipped au \<longrightarrow> desired_at_quorum au c) (agent_best (au_versions au) d ag)))
       (filter (\<lambda>ag. ag_status ag = AGENT_SCORED) (d_agents d))"

subsection \<open>The score the owners' submissions compete on\<close>

datatype owner_score = Official | Canonical

text \<open>
  The median of one seed as the query computes it: the average of the rows whose doubled number is the count, the count plus
  one or the count plus two.
\<close>

definition seed_median :: "confirmation_score list \<Rightarrow> rat" where
  "seed_median rows =
     (let n = length rows;
          mid = map snd (filter (\<lambda>(k, c). k * 2 \<in> {n, n + 1, n + 2})
                  (enumerate 1 (sort_key (\<lambda>c. (cs_composite c, cs_validator_hotkey c)) rows)))
      in sum_list (map cs_composite mid) / of_nat (length mid))"

text \<open>\<open>None\<close> is a \<open>NULL\<close> of the outer join.\<close>

definition quorum_aggregate :: "db \<Rightarrow> ledger_candidate \<Rightarrow> (nat \<times> rat) option" where
  "quorum_aggregate d c =
     (let rows = scores_of (ag_agent_id (lc_agent c)) (lc_version c) d in
      if length rows = SCORING_QUORUM then Some (length rows, sum_list (map s_composite rows)) else None)"

definition confirmation_aggregate :: "confirmation_score list \<Rightarrow> ledger_candidate \<Rightarrow> (nat \<times> rat) option" where
  "confirmation_aggregate cs c =
     (let i = ag_agent_id (lc_agent c); v = lc_version c; seeds = seeds_of i v cs in
      if seeds = [] then None else Some (length seeds, sum_list (map (\<lambda>seed. seed_median (seed_rows i v seed cs)) seeds)))"

definition selection_score :: "bool \<Rightarrow> confirmation_score list \<Rightarrow> db \<Rightarrow> ledger_candidate \<Rightarrow> rat" where
  "selection_score continual_active cs d c =
     (if continual_active then
        (case (quorum_aggregate d c, confirmation_aggregate cs c) of
           (Some (qn, qs), Some (cn, csum)) \<Rightarrow> (qs + csum) / of_nat (qn + cn)
         | _ \<Rightarrow> s_composite (lc_score c))
      else s_composite (lc_score c))"

subsection \<open>The ledger\<close>

record ledger_row =
  lr_candidate :: ledger_candidate
  lr_eligible :: bool
  lr_official_composite :: rat
  lr_owner_root :: string
  lr_family_members :: "(uuid \<times> rat) list"

definition row_key :: "ledger_row \<Rightarrow> bool \<times> rat \<times> time \<times> uuid" where
  "row_key r = (\<not> lr_eligible r, - lr_official_composite r, ag_created_at (lc_agent (lr_candidate r)), ag_agent_id (lc_agent (lr_candidate r)))"

definition rooted_candidates :: "ledger_world \<Rightarrow> bool \<Rightarrow> db \<Rightarrow> ledger_candidate list \<Rightarrow> ledger_row list" where
  "rooted_candidates w continual_active d cs =
     (let identities = identities_of (map lc_agent cs) d in
      map (\<lambda>c. \<lparr>lr_candidate = c, lr_eligible = is_ranked (lc_score c),
                lr_official_composite = selection_score continual_active (lw_confirmations w) d c,
                lr_owner_root = owner_root (l_env (lw_live w)) d identities (ag_miner_hotkey (lc_agent c)),
                lr_family_members = []\<rparr>) cs)"

definition family_members :: "ledger_row list \<Rightarrow> ledger_row \<Rightarrow> (uuid \<times> rat) list" where
  "family_members rooted winner =
     map (\<lambda>r. (ag_agent_id (lc_agent (lr_candidate r)), s_composite (lc_score (lr_candidate r))))
       (sort_key (\<lambda>r. (- s_composite (lc_score (lr_candidate r)), ag_created_at (lc_agent (lr_candidate r)), ag_agent_id (lc_agent (lr_candidate r))))
         (filter (\<lambda>r. lr_owner_root r = lr_owner_root winner) rooted))"

definition ledger_winners :: "ledger_row list \<Rightarrow> ledger_row list" where
  "ledger_winners rooted =
     filter (\<lambda>r. first_by row_key (filter (\<lambda>q. lr_owner_root q = lr_owner_root r) rooted) = Some r) rooted"

definition list_eligible_ledger :: "ledger_world \<Rightarrow> bool \<Rightarrow> int option \<Rightarrow> owner_score \<Rightarrow> db \<Rightarrow> ledger_row list" where
  "list_eligible_ledger w include_family_members bench_version owner_score d =
     (let au = ledger_authority w bench_version d;
          continual_active = (owner_score = Official \<and> continual_mean_is_active w bench_version (au_canonical au));
          rooted = rooted_candidates w continual_active d (authoritative au d)
      in map (\<lambda>r. if include_family_members then r\<lparr>lr_family_members := family_members rooted r\<rparr> else r)
           (sort_key row_key (ledger_winners rooted)))"

subsection \<open>The authoritative rows\<close>

lemma map_filter_keys:
  "distinct (map k xs) \<Longrightarrow> (\<And>x y. f x = Some y \<Longrightarrow> g y = k x) \<Longrightarrow> distinct (map g (List.map_filter f xs))"
proof (induction xs)
  case (Cons x xs)
  have "g y = k z" if "z \<in> set xs" "f z = Some y" for y z using Cons.prems(2) that by blast
  then have "g ` set (List.map_filter f xs) \<subseteq> k ` set xs" by (force simp: map_filter_def)
  with Cons show ?case by (auto simp: map_filter_simps split: option.split)
qed (simp add: map_filter_simps)

lemma agent_bestD:
  assumes "c \<in> set (agent_best versions d ag)"
  shows "lc_agent c = ag \<and> lc_coldkey c = coldkey_of ag d \<and> lc_version c \<in> set versions \<and>
    median_rows (scores_of (ag_agent_id ag) (lc_version c) d) = [lc_score c] \<and> lc_count c = length (scores_of (ag_agent_id ag) (lc_version c) d)"
proof -
  from assms obtain v s where v: "v \<in> set versions" and s: "s \<in> set (median_rows (scores_of (ag_agent_id ag) v d))"
    and c: "c = \<lparr>lc_agent = ag, lc_coldkey = coldkey_of ag d, lc_score = s, lc_count = length (scores_of (ag_agent_id ag) v d)\<rparr>"
    by (auto simp: agent_best_def Let_def)
  have "scores_of (ag_agent_id ag) v d \<noteq> []" using s by auto
  then obtain r where "median_rows (scores_of (ag_agent_id ag) v d) = [r]" using median_rows_lower_middle by blast
  moreover have "s_bench_version s = v" using median_row_mem [OF s] by (simp add: scores_of_def)
  ultimately show ?thesis using s v by (simp add: c lc_version_def)
qed

lemma authoritativeD:
  assumes "c \<in> set (authoritative au d)"
  shows "lc_agent c \<in> set (d_agents d) \<and> ag_status (lc_agent c) = AGENT_SCORED \<and> c \<in> set (agent_best (au_versions au) d (lc_agent c)) \<and>
    (au_flipped au \<longrightarrow> desired_at_quorum au c) \<and>
    (\<forall>b \<in> set (agent_best (au_versions au) d (lc_agent c)). (au_flipped au \<longrightarrow> desired_at_quorum au b) \<longrightarrow>
       (version_priority au c, - lc_version c) \<le> (version_priority au b, - lc_version b))"
proof -
  from assms obtain ag where ag: "ag \<in> set (d_agents d)" "ag_status ag = AGENT_SCORED"
    "first_by (\<lambda>c. (version_priority au c, - lc_version c)) (filter (\<lambda>c. au_flipped au \<longrightarrow> desired_at_quorum au c) (agent_best (au_versions au) d ag)) = Some c"
    by (auto simp: authoritative_def map_filter_def)
  note f = first_by_SomeD [OF ag(3)]
  have "lc_agent c = ag" using f(1) agent_bestD by auto
  with ag f show ?thesis by auto
qed

lemma authoritative_ids:
  assumes "distinct (map ag_agent_id (d_agents d))"
  shows "distinct (map (\<lambda>c. ag_agent_id (lc_agent c)) (authoritative au d))"
  unfolding authoritative_def
proof (rule map_filter_keys [where k = ag_agent_id])
  show "distinct (map ag_agent_id (filter (\<lambda>ag. ag_status ag = AGENT_SCORED) (d_agents d)))" using assms by (rule distinct_map_filter)
next
  fix ag c
  assume "first_by (\<lambda>c. (version_priority au c, - lc_version c)) (filter (\<lambda>c. au_flipped au \<longrightarrow> desired_at_quorum au c) (agent_best (au_versions au) d ag)) = Some c"
  then have "c \<in> set (agent_best (au_versions au) d ag)" using first_by_SomeD(1) by fastforce
  then show "ag_agent_id (lc_agent c) = ag_agent_id ag" using agent_bestD by blast
qed

subsection \<open>One row for every owner family\<close>

lemma winners_distinct: "distinct (map (\<lambda>r. k (lr_candidate r)) rooted) \<Longrightarrow> distinct (map lr_owner_root (ledger_winners rooted))"
proof -
  assume d: "distinct (map (\<lambda>r. k (lr_candidate r)) rooted)"
  have first: "first_by row_key (filter (\<lambda>q. lr_owner_root q = lr_owner_root r) rooted) = Some r" if "r \<in> set (ledger_winners rooted)" for r
    using that by (simp add: ledger_winners_def)
  have "inj_on lr_owner_root (set (ledger_winners rooted))"
  proof (rule inj_onI)
    fix x y assume x: "x \<in> set (ledger_winners rooted)" and y: "y \<in> set (ledger_winners rooted)" and eq: "lr_owner_root x = lr_owner_root y"
    have "Some x = Some y" using trans [OF first [OF x, unfolded eq, symmetric] first [OF y]] .
    then show "x = y" by (rule option.inject [THEN iffD1])
  qed
  moreover have "distinct (ledger_winners rooted)" using d by (auto simp: ledger_winners_def distinct_map)
  ultimately show ?thesis by (simp add: distinct_map)
qed

lemma winner_exists:
  assumes "q \<in> set rooted"
  shows "\<exists>r \<in> set (ledger_winners rooted). lr_owner_root r = lr_owner_root q \<and> row_key r \<le> row_key q"
proof -
  let ?fam = "filter (\<lambda>p. lr_owner_root p = lr_owner_root q) rooted"
  from assms have "q \<in> set ?fam" by simp
  then have "?fam \<noteq> []" by force
  then obtain r where r: "first_by row_key ?fam = Some r" using first_by_None_iff by blast
  from first_by_SomeD [OF r] have "r \<in> set ?fam" "row_key r \<le> row_key q" using \<open>q \<in> set ?fam\<close> by auto
  with r show ?thesis by (intro bexI [of _ r]) (auto simp: ledger_winners_def)
qed

definition rooted_row :: "ledger_world \<Rightarrow> bool \<Rightarrow> db \<Rightarrow> ledger_candidate list \<Rightarrow> ledger_candidate \<Rightarrow> ledger_row" where
  "rooted_row w continual_active d cs c =
     \<lparr>lr_candidate = c, lr_eligible = is_ranked (lc_score c),
      lr_official_composite = selection_score continual_active (lw_confirmations w) d c,
      lr_owner_root = owner_root (l_env (lw_live w)) d (identities_of (map lc_agent cs) d) (ag_miner_hotkey (lc_agent c)),
      lr_family_members = []\<rparr>"

lemma rooted_candidates_eq: "rooted_candidates w act d cs = map (rooted_row w act d cs) cs"
  by (simp add: rooted_candidates_def rooted_row_def Let_def)

text \<open>
  C14. The ledger holds the best submission of every owner family. Its rows are in the canonical order and no two of them
  belong to one family; each is the authoritative row of a finalized submission, that is the median row of the scores of
  one benchmark version; and every authoritative row has a row of its own family in the ledger that ranks no worse.
\<close>

theorem ledger_best_of_each_family:
  fixes w :: ledger_world and bench_version :: "int option" and owner_score :: owner_score and fam :: bool and d :: db
  assumes ids: "distinct (map ag_agent_id (d_agents d))"
  defines "au \<equiv> ledger_authority w bench_version d"
  defines "act \<equiv> owner_score = Official \<and> continual_mean_is_active w bench_version (au_canonical au)"
  defines "L \<equiv> list_eligible_ledger w fam bench_version owner_score d" and "row \<equiv> rooted_row w act d (authoritative au d)"
  shows "sorted (map row_key L) \<and> distinct (map lr_owner_root L)
    \<and> (\<forall>r \<in> set L. \<exists>c \<in> set (authoritative au d). r\<lparr>lr_family_members := []\<rparr> = row c)
    \<and> (\<forall>c \<in> set (authoritative au d). (\<exists>r \<in> set L. lr_owner_root r = lr_owner_root (row c) \<and> row_key r \<le> row_key (row c))
        \<and> ag_status (lc_agent c) = AGENT_SCORED \<and> median_rows (scores_of (ag_agent_id (lc_agent c)) (lc_version c) d) = [lc_score c])"
proof -
  define R where "R = map row (authoritative au d)"
  define famf where "famf r = (if fam then r\<lparr>lr_family_members := family_members R r\<rparr> else r)" for r
  have L: "L = map famf (sort_key row_key (ledger_winners R))"
    by (simp add: L_def list_eligible_ledger_def Let_def rooted_candidates_eq R_def row_def act_def au_def famf_def)
  have [simp]: "row_key (famf r) = row_key r" "lr_owner_root (famf r) = lr_owner_root r" "lr_candidate (famf r) = lr_candidate r" for r
    by (simp_all add: row_key_def famf_def)
  have keys: "map row_key L = map row_key (sort_key row_key (ledger_winners R))" by (simp add: L comp_def)
  have roots: "map lr_owner_root L = map lr_owner_root (sort_key row_key (ledger_winners R))" by (simp add: L comp_def)
  have "distinct (map (\<lambda>r. ag_agent_id (lc_agent (lr_candidate r))) R)"
    using authoritative_ids [OF ids, of au] by (simp add: R_def comp_def row_def rooted_row_def)
  from winners_distinct [where k = "\<lambda>c. ag_agent_id (lc_agent c)", OF this] have "distinct (map lr_owner_root L)"
    unfolding roots by (simp add: distinct_map)
  moreover have "sorted (map row_key L)" unfolding keys by simp
  moreover have "\<exists>c \<in> set (authoritative au d). r\<lparr>lr_family_members := []\<rparr> = row c" if "r \<in> set L" for r
  proof -
    from that obtain q where "q \<in> set (ledger_winners R)" and q: "r = famf q" unfolding L by auto
    then have "q \<in> set R" by (simp add: ledger_winners_def)
    then obtain c where "c \<in> set (authoritative au d)" "q = row c" by (auto simp: R_def)
    with q show ?thesis by (intro bexI [of _ c]) (auto simp: row_def rooted_row_def famf_def)
  qed
  moreover have "\<exists>r \<in> set L. lr_owner_root r = lr_owner_root (row c) \<and> row_key r \<le> row_key (row c)" if "c \<in> set (authoritative au d)" for c
  proof -
    have "row c \<in> set R" using that by (simp add: R_def)
    from winner_exists [OF this] obtain r where "r \<in> set (ledger_winners R)" "lr_owner_root r = lr_owner_root (row c)" "row_key r \<le> row_key (row c)" by blast
    then show ?thesis by (intro bexI [of _ "famf r"]) (auto simp: L)
  qed
  moreover have "ag_status (lc_agent c) = AGENT_SCORED \<and> median_rows (scores_of (ag_agent_id (lc_agent c)) (lc_version c) d) = [lc_score c]"
    if "c \<in> set (authoritative au d)" for c using authoritativeD [OF that] agent_bestD by blast
  ultimately show ?thesis by blast
qed

subsection \<open>One benchmark version\<close>

lemma ledger_rowD:
  assumes "r \<in> set (list_eligible_ledger w fam bench_version owner_score d)"
  shows "lr_candidate r \<in> set (authoritative (ledger_authority w bench_version d) d)"
  using assms by (auto simp: list_eligible_ledger_def Let_def rooted_candidates_eq ledger_winners_def rooted_row_def)

lemma ledger_version:
  assumes "r \<in> set (list_eligible_ledger w fam bench_version owner_score d)"
  shows "lc_version (lr_candidate r) \<in> set (au_versions (ledger_authority w bench_version d))"
  using authoritativeD [OF ledger_rowD [OF assms]] agent_bestD by blast

text \<open>
  C16. When the ledger is on one benchmark version. A read of an explicit version and a read without an open rollout are on
  that version and on the active one; and once the five priority members of an open rollout have ranked quorums,
  every row is of the desired version and backed by a full quorum. While the rollout is short of that, a submission that has
  a score of the active version is ranked on the active version.
\<close>

theorem ledger_one_version:
  assumes r: "r \<in> set (list_eligible_ledger w fam bench_version owner_score d)"
  shows "(bench_version = Some v \<longrightarrow> lc_version (lr_candidate r) = v)
    \<and> (bench_version = None \<and> open_rollout d = None \<longrightarrow> lc_version (lr_candidate r) = active_bench_version (lw_live w) (lw_now w) d)
    \<and> (bench_version = None \<and> open_rollout d = Some ro \<and> au_flipped (ledger_authority w None d) \<longrightarrow>
        lc_version (lr_candidate r) = ro_desired_version ro \<and> SCORING_QUORUM \<le> lc_count (lr_candidate r))
    \<and> (bench_version = None \<and> open_rollout d = Some ro \<and> \<not> au_flipped (ledger_authority w None d) \<and>
        scores_of (ag_agent_id (lc_agent (lr_candidate r))) (active_bench_version (lw_live w) (lw_now w) d) d \<noteq> [] \<longrightarrow>
        lc_version (lr_candidate r) = active_bench_version (lw_live w) (lw_now w) d)"
proof (intro conjI impI; (elim conjE)?)
  let ?au = "ledger_authority w bench_version d" and ?c = "lr_candidate r" and ?v = "active_bench_version (lw_live w) (lw_now w) d"
  note ver = ledger_version [OF r] and auth = authoritativeD [OF ledger_rowD [OF r]]
  show "bench_version = Some v \<Longrightarrow> lc_version ?c = v" using ver by (simp add: ledger_authority_def Let_def)
  show "bench_version = None \<Longrightarrow> open_rollout d = None \<Longrightarrow> lc_version ?c = active_bench_version (lw_live w) (lw_now w) d"
    using ver by (simp add: ledger_authority_def Let_def)
  assume bv: "bench_version = None" and ro: "open_rollout d = Some ro"
  have des: "au_desired ?au = Some (ro_desired_version ro)" by (simp add: ledger_authority_def Let_def bv ro)
  show "lc_version ?c = ro_desired_version ro" "SCORING_QUORUM \<le> lc_count ?c" if "au_flipped (ledger_authority w None d)"
    using that auth bv des by (auto simp: desired_at_quorum_def)
  show "lc_version ?c = ?v"
    if nf: "\<not> au_flipped (ledger_authority w None d)" and ne: "scores_of (ag_agent_id (lc_agent ?c)) ?v d \<noteq> []"
  proof -
    let ?rows = "scores_of (ag_agent_id (lc_agent ?c)) ?v d"
    obtain m where m: "median_rows ?rows = [m]" using median_rows_lower_middle [OF ne] by blast
    define b where "b = \<lparr>lc_agent = lc_agent ?c, lc_coldkey = coldkey_of (lc_agent ?c) d, lc_score = m, lc_count = length ?rows\<rparr>"
    have "?v \<in> set (au_versions ?au)" by (simp add: ledger_authority_def Let_def bv ro)
    then have "b \<in> set (agent_best (au_versions ?au) d (lc_agent ?c))" using m by (force simp: agent_best_def b_def Let_def)
    with auth nf bv have le: "(version_priority ?au ?c, - lc_version ?c) \<le> (version_priority ?au b, - lc_version b)" by blast
    have can: "au_canonical ?au = ?v" by (simp add: ledger_authority_def Let_def)
    have "lc_version b = ?v" using median_row_mem [of m ?rows] m by (simp add: b_def lc_version_def scores_of_def)
    then have "version_priority ?au b = 0" using nf bv des can by (simp add: version_priority_def)
    with le have "version_priority ?au ?c \<le> 0" by (auto simp: less_eq_prod_def)
    then show ?thesis using des nf bv can by (simp add: version_priority_def split: if_splits)
  qed
qed

subsection \<open>The official score in two languages\<close>

lemma enumerate_filter_two:
  assumes "Suc m < length ys"
  shows "map snd (filter (\<lambda>(k, x). k = Suc m \<or> k = Suc (Suc m)) (enumerate 1 ys)) = [ys ! m, ys ! Suc m]"
proof -
  have ys: "ys = take m ys @ [ys ! m, ys ! Suc m] @ drop (Suc (Suc m)) ys"
    using assms by (metis Cons_nth_drop_Suc Suc_lessD append_Cons append_Nil append_take_drop_id)
  have none: "filter (\<lambda>(k, x). k = Suc m \<or> k = Suc (Suc m)) (enumerate 1 (take m ys)) = []"
    "filter (\<lambda>(k, x). k = Suc m \<or> k = Suc (Suc m)) (enumerate (Suc (Suc (Suc m))) (drop (Suc (Suc m)) ys)) = []"
    by (auto simp: filter_empty_conv in_set_enumerate_eq)
  have "enumerate 1 ys = enumerate 1 (take m ys) @ [(Suc m, ys ! m), (Suc (Suc m), ys ! Suc m)] @ enumerate (Suc (Suc (Suc m))) (drop (Suc (Suc m)) ys)"
    by (subst ys) (use assms in \<open>simp add: enumerate_append_eq\<close>)
  then show ?thesis using none by (simp only: filter_append) simp
qed

lemma sorted_composites: "map cs_composite (sort_key (\<lambda>c. (cs_composite c, cs_validator_hotkey c)) rows) = sort (map cs_composite rows)"
proof (rule properties_for_sort [symmetric])
  have "sorted (map (\<lambda>c. (cs_composite c, cs_validator_hotkey c)) (sort_key (\<lambda>c. (cs_composite c, cs_validator_hotkey c)) rows))" by simp
  then show "sorted (map cs_composite (sort_key (\<lambda>c. (cs_composite c, cs_validator_hotkey c)) rows))"
    unfolding sorted_map by (rule sorted_wrt_mono_rel [rotated]) (auto simp: less_eq_prod_def)
qed simp

lemma seed_median_eq:
  assumes "rows \<noteq> []"
  shows "seed_median rows = statistics_median (map cs_composite rows)"
proof -
  let ?ys = "sort_key (\<lambda>c. (cs_composite c, cs_validator_hotkey c)) rows" and ?n = "length rows"
  have srt: "sort (map cs_composite rows) ! k = cs_composite (?ys ! k)" if "k < ?n" for k
    using that by (simp flip: sorted_composites)
  show ?thesis
  proof (cases "odd ?n")
    case True
    then obtain m where m: "?n = 2 * m + 1" by (rule oddE)
    have k: "k * 2 \<in> {?n, ?n + 1, ?n + 2} \<longleftrightarrow> k = Suc m" for k :: nat by (auto simp: m)
    have "filter (\<lambda>(k, c). k * 2 \<in> {?n, ?n + 1, ?n + 2}) (enumerate 1 ?ys) = [(Suc m, ?ys ! (Suc m - 1))]"
      by (rule filter_enumerate_single [where k = "Suc m"]) (use m k in simp_all)
    then have mid: "map snd (filter (\<lambda>(k, c). k * 2 \<in> {?n, ?n + 1, ?n + 2}) (enumerate 1 ?ys)) = [?ys ! m]" by simp
    show ?thesis unfolding seed_median_def Let_def mid using srt [of m] True by (simp add: statistics_median_def Let_def m)
  next
    case False
    then obtain m' where m': "?n = 2 * m'" by (auto elim: evenE)
    then obtain m where m: "m' = Suc m" using assms by (cases m') auto
    have "k * 2 \<in> {?n, ?n + 1, ?n + 2} \<longleftrightarrow> k = Suc m \<or> k = Suc (Suc m)" for k :: nat by (auto simp: m' m)
    then have mid: "map snd (filter (\<lambda>(k, c). k * 2 \<in> {?n, ?n + 1, ?n + 2}) (enumerate 1 ?ys)) = [?ys ! m, ?ys ! Suc m]"
      using enumerate_filter_two [of m ?ys] by (simp only: length_sort m' m mult_Suc_right)
    show ?thesis unfolding seed_median_def Let_def mid using srt [of m] srt [of "Suc m"] False
      by (simp add: statistics_median_def Let_def m' m)
  qed
qed

text \<open>The Python fold of one ledger row: its quorum, its confirmation medians by seed, and no efficiency bonus.\<close>

definition ledger_entry :: "confirmation_score list \<Rightarrow> db \<Rightarrow> ledger_candidate \<Rightarrow> koth_entry" where
  "ledger_entry cs d c =
     (let i = ag_agent_id (lc_agent c); v = lc_version c in
      official_entry
        \<lparr>fr_agent_id = i, fr_miner_hotkey = ag_miner_hotkey (lc_agent c), fr_first_seen = ag_created_at (lc_agent c),
         fr_composite = of_rat (s_composite (lc_score c)), fr_bench_version = v, fr_eligible = Some (is_ranked (lc_score c))\<rparr>
        [i \<mapsto> map (\<lambda>s. Finite (of_rat (s_composite s))) (scores_of i v d)]
        (\<lambda>a. map_option (map (\<lambda>(seed, x). (seed, Finite (of_rat x)))) (confirmation_composites_by_seed [i] v cs a)) Map.empty False)"

definition in_range :: "rat \<Rightarrow> bool" where
  "in_range x \<longleftrightarrow> 0 \<le> x \<and> x \<le> 1"

lemma score_values_in_range: "list_all in_range xs \<Longrightarrow> score_values (map (\<lambda>x. Finite (of_rat x)) xs) = Some (map of_rat xs)"
  by (induction xs) (auto simp: in_range_def)

lemma median_in_range:
  assumes "xs \<noteq> []" and "list_all in_range xs"
  shows "in_range (statistics_median xs)"
proof -
  have nth: "in_range (sort xs ! k)" if "k < length xs" for k
    using assms(2) that nth_mem [of k "sort xs"] by (simp add: list_all_iff)
  have len: "0 < length xs" using assms(1) by simp
  have half: "in_range ((a + b) / 2)" if "in_range a" "in_range b" for a b using that by (auto simp: in_range_def)
  have "in_range (sort xs ! (length xs div 2))" "in_range (sort xs ! (length xs div 2 - 1))"
    by (rule nth, use len in linarith)+
  then show ?thesis unfolding statistics_median_def Let_def length_sort using half by presburger
qed

lemma sum_list_of_rat: "sum_list (map of_rat xs) = (of_rat (sum_list xs) :: real)"
  by (induction xs) (simp_all add: of_rat_add)

lemma seed_rows_nonempty: "seed \<in> set (seeds_of i v cs) \<Longrightarrow> seed_rows i v seed cs \<noteq> []"
  by (auto simp: seeds_of_def seed_rows_def filter_empty_conv)


subsection \<open>Instances\<close>

text \<open>
  A rollout from version 7 to version 8 that is open and short of its flip: submission 2 has a quorum of version 7, submission
  3 of version 8 only, and submission 2 two confirmations of version 7.
\<close>

definition ledger_scores :: "uuid \<Rightarrow> int \<Rightarrow> rat list \<Rightarrow> score list" where
  "ledger_scores i v cs = map (\<lambda>(h, c). (demo_score h c)\<lparr>s_agent_id := i, s_bench_version := v\<rparr>) (zip [''u'', ''v'', ''w''] cs)"

definition ledger_db :: db where
  "ledger_db = demo_db\<lparr>
     d_agents := [(demo_agent 2 ''h2'')\<lparr>ag_status := AGENT_SCORED\<rparr>, (demo_agent 3 ''h3'')\<lparr>ag_status := AGENT_SCORED\<rparr>],
     d_tickets := [], d_scores := ledger_scores 2 7 [1 / 2, 1 / 4, 3 / 4] @ ledger_scores 3 8 [1, 1, 1],
     d_payments := [], d_attestations := [], d_rollouts := [demo_rollout], d_rollout_members := []\<rparr>"

definition demo_ledger_world :: ledger_world where
  "demo_ledger_world = \<lparr>lw_live = demo_live, lw_now = 0, lw_confirmations = [], lw_aggregate_mode = ''enabled''\<rparr>"

lemma ledger_mixes_versions:
  "map (\<lambda>r. (ag_agent_id (lc_agent (lr_candidate r)), lc_version (lr_candidate r))) (list_eligible_ledger demo_ledger_world False None Official ledger_db) = [(3, 8), (2, 7)]"
  by code_simp

theorem ledger_best_of_each_family_witness:
  "sorted (map row_key (list_eligible_ledger demo_ledger_world True None Official ledger_db))
   \<and> distinct (map lr_owner_root (list_eligible_ledger demo_ledger_world True None Official ledger_db))
   \<and> length (list_eligible_ledger demo_ledger_world True None Official ledger_db) = 2"
proof -
  have "distinct (map ag_agent_id (d_agents ledger_db))" by code_simp
  moreover have "length (list_eligible_ledger demo_ledger_world True None Official ledger_db) = 2" by code_simp
  ultimately show ?thesis using ledger_best_of_each_family [of ledger_db demo_ledger_world True None Official] by blast
qed

theorem ledger_one_version_witness:
  "lc_version (lr_candidate (hd (list_eligible_ledger demo_ledger_world False (Some 8) Official ledger_db))) = 8"
proof -
  have "list_eligible_ledger demo_ledger_world False (Some 8) Official ledger_db \<noteq> []" by code_simp
  from ledger_one_version [OF hd_in_set [OF this], of 8 demo_rollout] show ?thesis by blast
qed

definition demo_confirmation :: "hotkey \<Rightarrow> rat \<Rightarrow> confirmation_score" where
  "demo_confirmation h x = \<lparr>cs_agent_id = 2, cs_validator_hotkey = h, cs_bench_version = 7, cs_seed = 10, cs_composite = x,
     cs_run_id = ''r'', cs_signature = None, cs_created_at = 0\<rparr>"

definition demo_candidate :: ledger_candidate where
  "demo_candidate = \<lparr>lc_agent = demo_agent 2 ''h2'', lc_coldkey = None, lc_score = (demo_score ''u'' (1 / 2))\<lparr>s_agent_id := 2\<rparr>, lc_count = 3\<rparr>"


end
