(* ===== verification/Copy_Gate.thy ===== *)
theory Copy_Gate
  imports Fingerprint Inference_Proxy Queue_Order
begin

text \<open>
  What is decided about a submission at its scoring quorum: the anti-copy gate (\<open>ditto/api_server/scoring_gate.py\<close>) and the
  reproduce-under-transform audit (\<open>_binomial_tail\<close>, \<open>_pool_audit_pairs\<close> and \<open>_transform_audit_verdict\<close> of
  \<open>ditto/api_server/endpoints/validator.py\<close>). The wording of a hold is its rule; the float thresholds are the decimals
  they are written as, and probabilities are exact.
\<close>

subsection \<open>The anti-copy gate\<close>

text \<open>What the gate reads of the submission that was just scored and of every row of the ledger.\<close>

record gate_row =
  gr_agent_id :: uuid
  gr_miner_hotkey :: hotkey
  gr_miner_coldkey :: "string option"
  gr_first_seen :: time
  gr_sha256 :: string
  gr_composite :: rat
  gr_size_bytes :: "int option"
  gr_normalized_source_hash :: "string option"
  gr_content_fingerprint :: "fingerprint option"
  gr_structural_fingerprint :: "fingerprint option"

definition DEFAULT_SCORE_TOL :: rat where "DEFAULT_SCORE_TOL = 3 / 100"
definition DEFAULT_SIZE_TOL :: int where "DEFAULT_SIZE_TOL = 8192"
definition DEFAULT_JACCARD_TOL :: rat where "DEFAULT_JACCARD_TOL = 75 / 100"
definition DEFAULT_CONTAINMENT_TOL :: rat where "DEFAULT_CONTAINMENT_TOL = 95 / 100"

datatype hold_rule = Exact_Copy | Exact_Repack | Inconclusive_Pair | Near_Duplicate | Size_Fallback

definition fingerprint_versions_incompatible :: "fingerprint option \<Rightarrow> fingerprint option \<Rightarrow> bool" where
  "fingerprint_versions_incompatible fa fb =
     (case (fa, fb) of
        (Some a, Some b) \<Rightarrow> fp_v a \<noteq> None \<and> fp_v b \<noteq> None \<and> (fp_v a \<noteq> fp_v b \<or> fp_corpus a \<noteq> fp_corpus b)
      | _ \<Rightarrow> False)"

definition fingerprint_corpora_incompatible :: "fingerprint option \<Rightarrow> fingerprint option \<Rightarrow> bool" where
  "fingerprint_corpora_incompatible fa fb =
     (case (fa, fb) of
        (Some a, Some b) \<Rightarrow> fp_v a \<noteq> None \<and> fp_v a = fp_v b \<and> fp_corpus a \<noteq> fp_corpus b
      | _ \<Rightarrow> False)"

definition other_miner :: "gate_row \<Rightarrow> gate_row \<Rightarrow> bool" where
  "other_miner me e \<longleftrightarrow> gr_agent_id e \<noteq> gr_agent_id me \<and> gr_miner_hotkey e \<noteq> gr_miner_hotkey me \<and>
     \<not> (gr_miner_coldkey me \<noteq> None \<and> gr_miner_coldkey e = gr_miner_coldkey me)"

definition submitted_key :: "gate_row \<Rightarrow> time \<times> uuid" where
  "submitted_key e = (gr_first_seen e, gr_agent_id e)"

definition earlier_others :: "gate_row \<Rightarrow> gate_row list \<Rightarrow> gate_row list" where
  "earlier_others me eligible =
     sort_key submitted_key (filter (\<lambda>e. submitted_key e < submitted_key me) (filter (other_miner me) eligible))"

definition earlier_unattested :: "gate_row \<Rightarrow> hotkey set \<Rightarrow> gate_row list \<Rightarrow> gate_row list" where
  "earlier_unattested me linked_owner_hotkeys eligible =
     (if linked_owner_hotkeys = {} then earlier_others me eligible
      else filter (\<lambda>e. gr_miner_hotkey e \<notin> linked_owner_hotkeys) (earlier_others me eligible))"

text \<open>The first row with a property, as a decision to hold under a rule.\<close>

definition hold_first :: "hold_rule \<Rightarrow> (gate_row \<Rightarrow> bool) \<Rightarrow> gate_row list \<Rightarrow> (uuid \<times> hold_rule) option" where
  "hold_first r P rows = map_option (\<lambda>e. (gr_agent_id e, r)) (List.find P rows)"

fun near_duplicate_loop :: "gate_row \<Rightarrow> gate_row list \<Rightarrow> (uuid \<times> hold_rule) option" where
  "near_duplicate_loop me [] = None"
| "near_duplicate_loop me (e # rest) =
     (if fingerprint_corpora_incompatible (gr_content_fingerprint me) (gr_content_fingerprint e) then near_duplicate_loop me rest
      else if fingerprint_versions_incompatible (gr_content_fingerprint me) (gr_content_fingerprint e) then
        (if abs (gr_composite me - gr_composite e) > DEFAULT_SCORE_TOL then near_duplicate_loop me rest
         else Some (gr_agent_id e, Inconclusive_Pair))
      else
        (let (lex_j, lex_c) = content_similarity (gr_content_fingerprint me) (gr_content_fingerprint e) in
         if lex_j \<ge> DEFAULT_JACCARD_TOL \<or> lex_c \<ge> DEFAULT_CONTAINMENT_TOL then Some (gr_agent_id e, Near_Duplicate)
         else near_duplicate_loop me rest))"

definition size_near_duplicate :: "gate_row \<Rightarrow> gate_row \<Rightarrow> bool" where
  "size_near_duplicate me e =
     (case (gr_size_bytes me, gr_size_bytes e) of
        (Some m, Some n) \<Rightarrow> abs (gr_composite me - gr_composite e) \<le> DEFAULT_SCORE_TOL \<and> abs (m - n) \<le> DEFAULT_SIZE_TOL \<and>
          gr_content_fingerprint me = None \<and> gr_content_fingerprint e = None \<and>
          gr_structural_fingerprint me = None \<and> gr_structural_fingerprint e = None
      | _ \<Rightarrow> False)"

definition evaluate_duplicate_signals :: "gate_row \<Rightarrow> hotkey set \<Rightarrow> gate_row list \<Rightarrow> (uuid \<times> hold_rule) option" where
  "evaluate_duplicate_signals me linked_owner_hotkeys eligible =
     (let rows = earlier_unattested me linked_owner_hotkeys eligible in
      case hold_first Exact_Copy (\<lambda>e. gr_sha256 e = gr_sha256 me) rows of
        Some held \<Rightarrow> Some held
      | None \<Rightarrow>
          (case hold_first Exact_Repack (\<lambda>e. gr_normalized_source_hash me \<noteq> None \<and>
                  gr_normalized_source_hash e = gr_normalized_source_hash me) rows of
             Some held \<Rightarrow> Some held
           | None \<Rightarrow>
               (case near_duplicate_loop me rows of
                  Some held \<Rightarrow> Some held
                | None \<Rightarrow> hold_first Size_Fallback (size_near_duplicate me) rows)))"

subsection \<open>The transform audit\<close>

definition AUDIT_ALPHA :: rat where "AUDIT_ALPHA = 1 / 100"
definition AUDIT_MIN_DISCORDANT :: int where "AUDIT_MIN_DISCORDANT = 6"

text \<open>One turn of the loop: the running sum and the binomial coefficient of the index.\<close>

definition binomial_step :: "nat \<Rightarrow> nat \<Rightarrow> rat \<Rightarrow> nat \<Rightarrow> rat \<times> rat \<Rightarrow> rat \<times> rat" where
  "binomial_step k n p i = (\<lambda>(tail, coeff).
     (if i \<ge> k then tail + coeff * (p ^ i * (1 - p) ^ (n - i)) else tail, coeff * of_nat (n - i) / of_nat (i + 1)))"

definition binomial_tail :: "int \<Rightarrow> int \<Rightarrow> rat \<Rightarrow> rat" where
  "binomial_tail k n p =
     (if n \<le> 0 then 1
      else min 1 (fst (fold (binomial_step (nat (max 0 k)) (nat n) p) [0..<nat n + 1] (0, 1))))"

record audit_pairs =
  both_correct :: int
  base_only :: int
  transform_only :: int
  both_wrong :: int

fun truthy :: "json \<Rightarrow> bool" where
  "truthy JNull = False"
| "truthy (JBool b) = b"
| "truthy (JInt n) = (n \<noteq> 0)"
| "truthy (JFloat f) = (f \<noteq> ''0.0'' \<and> f \<noteq> ''-0.0'')"
| "truthy (JStr s) = (s \<noteq> [])"
| "truthy (JArr xs) = (xs \<noteq> [])"
| "truthy (JObj d) = (d \<noteq> [])"

text \<open>\<open>raw.get(key, 0)\<close>, counted when it is a non-negative int.\<close>

definition counted :: "payload \<Rightarrow> string \<Rightarrow> int" where
  "counted raw key = (case map_of raw (ptext key) of Some (JInt v) \<Rightarrow> (if v \<ge> 0 then v else 0) | _ \<Rightarrow> 0)"

definition reported_pairs :: "score \<Rightarrow> payload option" where
  "reported_pairs s =
     (case s_details s of
        Some (JObj details) \<Rightarrow>
          (let pooled = (case map_of details (ptext ''audit_pairs_pooled'') of Some v \<Rightarrow> v | None \<Rightarrow> JNull);
               own = (case map_of details (ptext ''audit_pairs'') of Some v \<Rightarrow> v | None \<Rightarrow> JNull)
           in case (if truthy pooled then pooled else own) of JObj raw \<Rightarrow> Some raw | _ \<Rightarrow> None)
      | _ \<Rightarrow> None)"

definition pool_audit_pairs :: "score list \<Rightarrow> audit_pairs" where
  "pool_audit_pairs agent_scores =
     (let total_of = (\<lambda>key. sum_list (map (\<lambda>raw. counted raw key) (List.map_filter reported_pairs agent_scores)))
      in \<lparr>both_correct = total_of ''both_correct'', base_only = total_of ''base_only'',
          transform_only = total_of ''transform_only'', both_wrong = total_of ''both_wrong''\<rparr>)"

definition pair_count :: "audit_pairs \<Rightarrow> int" where
  "pair_count p = both_correct p + base_only p + transform_only p + both_wrong p"

definition transform_audit_verdict :: "score list \<Rightarrow> rat option \<times> audit_pairs \<times> bool" where
  "transform_audit_verdict agent_scores =
     (let pooled = pool_audit_pairs agent_scores; discordant = base_only pooled + transform_only pooled in
      if pair_count pooled = 0 then (None, pooled, False)
      else if discordant < AUDIT_MIN_DISCORDANT then (None, pooled, False)
      else (let pvalue = binomial_tail (base_only pooled) discordant (1 / 2) in (Some pvalue, pooled, pvalue \<le> AUDIT_ALPHA)))"

subsection \<open>The loop is the binomial tail\<close>

lemma binomial_coeff_step: "(of_nat (n choose i) :: rat) * of_nat (n - i) / of_nat (i + 1) = of_nat (n choose Suc i)"
proof -
  have "Suc i * (n choose Suc i) = (n - i) * (n choose i)"
    by (cases "i \<le> n") (use binomial_absorb_comp [of n i] binomial_absorption in \<open>auto simp: binomial_eq_0\<close>)
  then have "(of_nat (Suc i) :: rat) * of_nat (n choose Suc i) = of_nat (n - i) * of_nat (n choose i)" by (metis of_nat_mult)
  then show ?thesis by (simp add: field_simps)
qed

lemma binomial_loop:
  "fold (binomial_step k n p) [0..<m] (0, 1) =
     ((\<Sum>i \<in> {k..<m}. of_nat (n choose i) * (p ^ i * (1 - p) ^ (n - i))), of_nat (n choose m))"
proof (induction m)
  case (Suc m)
  show ?case
  proof (cases "k \<le> m")
    case True
    then have "{k..<Suc m} = insert m {k..<m}" by auto
    with True Suc show ?thesis by (simp add: binomial_step_def binomial_coeff_step [simplified])
  qed (use Suc in \<open>simp add: binomial_step_def binomial_coeff_step [simplified]\<close>)
qed simp

lemma binomial_tail_sum:
  assumes "0 < n" and "0 \<le> p" and "p \<le> 1"
  shows "binomial_tail k n p = (\<Sum>i \<in> {nat k..nat n}. of_nat (nat n choose i) * (p ^ i * (1 - p) ^ (nat n - i)))"
proof -
  let ?f = "\<lambda>i. (of_nat (nat n choose i) :: rat) * (p ^ i * (1 - p) ^ (nat n - i))"
  have "sum ?f {nat k..nat n} \<le> sum ?f {..nat n}" using assms by (intro sum_mono2) auto
  also have "\<dots> = (p + (1 - p)) ^ nat n" by (simp only: binomial_ring mult.assoc)
  finally have "sum ?f {nat k..nat n} \<le> 1" by simp
  moreover have "nat (max 0 k) = nat k" "{nat k..<nat n + 1} = {nat k..nat n}" by auto
  ultimately show ?thesis using assms(1) by (simp only: binomial_tail_def binomial_loop) simp
qed

lemma binomial_tail_half:
  assumes "0 < n"
  shows "binomial_tail k n (1 / 2) = of_nat (\<Sum>i \<in> {nat k..nat n}. nat n choose i) / 2 ^ nat n"
proof -
  have "(1 / 2 :: rat) ^ i * (1 / 2) ^ (nat n - i) = 1 / 2 ^ nat n" if "i \<le> nat n" for i
    using that by (simp add: power_one_over flip: power_add)
  then show ?thesis using assms by (simp add: binomial_tail_sum sum_divide_distrib)
qed

lemma upper_half_large:
  assumes "2 * b \<le> d"
  shows "2 ^ d \<le> 2 * (\<Sum>i \<in> {b..d}. d choose i)"
proof -
  have "(\<Sum>i \<in> {b..d}. d choose i) = (\<Sum>i \<in> {0..d - b}. d choose i)"
    by (rule sum.reindex_bij_witness [of _ "\<lambda>i. d - i" "\<lambda>i. d - i"]) (use assms in \<open>auto simp: binomial_symmetric [symmetric]\<close>)
  moreover have "{0..d - b} \<union> {b..d} = {..d}" using assms by auto
  then have "(2 :: nat) ^ d = (\<Sum>i \<in> {0..d - b} \<union> {b..d}. d choose i)" by (simp add: choose_row_sum)
  then have "2 ^ d \<le> (\<Sum>i \<in> {0..d - b}. d choose i) + (\<Sum>i \<in> {b..d}. d choose i)" by (simp add: sum_Un_nat)
  ultimately show ?thesis by simp
qed

lemma pool_nonneg: "0 \<le> base_only (pool_audit_pairs ss) \<and> 0 \<le> transform_only (pool_audit_pairs ss) \<and>
    0 \<le> both_correct (pool_audit_pairs ss) \<and> 0 \<le> both_wrong (pool_audit_pairs ss)"
proof -
  have "0 \<le> counted raw key" for raw key by (simp add: counted_def split: option.split json.split)
  then have "0 \<le> sum_list (map (\<lambda>raw. counted raw key) rs)" for rs key by (induction rs) simp_all
  then show ?thesis by (simp add: pool_audit_pairs_def Let_def)
qed


subsection \<open>The gate\<close>

text \<open>The evidence each rule holds on. Sketches that cannot be compared have similarity zero, so a near duplicate is comparable.\<close>

fun copy_evidence :: "hold_rule \<Rightarrow> gate_row \<Rightarrow> gate_row \<Rightarrow> bool" where
  "copy_evidence Exact_Copy me e = (gr_sha256 e = gr_sha256 me)"
| "copy_evidence Exact_Repack me e = (gr_normalized_source_hash me \<noteq> None \<and> gr_normalized_source_hash e = gr_normalized_source_hash me)"
| "copy_evidence Inconclusive_Pair me e =
     (fingerprint_versions_incompatible (gr_content_fingerprint me) (gr_content_fingerprint e) \<and>
      \<not> fingerprint_corpora_incompatible (gr_content_fingerprint me) (gr_content_fingerprint e) \<and>
      abs (gr_composite me - gr_composite e) \<le> DEFAULT_SCORE_TOL)"
| "copy_evidence Near_Duplicate me e =
     (let (j, c) = content_similarity (gr_content_fingerprint me) (gr_content_fingerprint e) in
      j \<ge> DEFAULT_JACCARD_TOL \<or> c \<ge> DEFAULT_CONTAINMENT_TOL)"
| "copy_evidence Size_Fallback me e = size_near_duplicate me e"

fun rule_rank :: "hold_rule \<Rightarrow> nat" where
  "rule_rank Exact_Copy = 0"
| "rule_rank Exact_Repack = 1"
| "rule_rank Inconclusive_Pair = 2"
| "rule_rank Near_Duplicate = 2"
| "rule_rank Size_Fallback = 3"

definition foreign_earlier :: "gate_row \<Rightarrow> hotkey set \<Rightarrow> gate_row \<Rightarrow> bool" where
  "foreign_earlier me linked e \<longleftrightarrow> other_miner me e \<and> gr_miner_hotkey e \<notin> linked \<and> submitted_key e < submitted_key me"

lemma incomparable_similarity:
  "fingerprint_corpora_incompatible a b \<or> fingerprint_versions_incompatible a b \<Longrightarrow> content_similarity a b = (0, 0)"
  by (auto simp: fingerprint_corpora_incompatible_def fingerprint_versions_incompatible_def content_similarity_def split: option.splits)

lemma near_duplicate_loop_eq:
  "near_duplicate_loop me rows =
     map_option (\<lambda>e. (gr_agent_id e, if copy_evidence Inconclusive_Pair me e then Inconclusive_Pair else Near_Duplicate))
       (List.find (\<lambda>e. copy_evidence Inconclusive_Pair me e \<or> copy_evidence Near_Duplicate me e) rows)"
proof (induction rows)
  case (Cons e rows)
  note inc = incomparable_similarity [of "gr_content_fingerprint me" "gr_content_fingerprint e"]
  show ?case
  proof (cases "fingerprint_corpora_incompatible (gr_content_fingerprint me) (gr_content_fingerprint e)
      \<or> fingerprint_versions_incompatible (gr_content_fingerprint me) (gr_content_fingerprint e)")
    case True
    with inc Cons show ?thesis by (auto simp: DEFAULT_JACCARD_TOL_def DEFAULT_CONTAINMENT_TOL_def)
  qed (use Cons in \<open>auto split: prod.split\<close>)
qed simp

lemma find_sorted:
  "List.find P rows = Some e \<Longrightarrow> sorted (map k rows) \<Longrightarrow> e \<in> set rows \<and> P e \<and> (\<forall>f \<in> set rows. P f \<longrightarrow> k e \<le> k f)"
  by (induction rows) (auto split: if_splits)

lemma set_unattested: "set (earlier_unattested me linked eligible) = {e \<in> set eligible. foreign_earlier me linked e}"
  by (auto simp: earlier_unattested_def earlier_others_def foreign_earlier_def)

lemma sorted_unattested: "sorted (map submitted_key (earlier_unattested me linked eligible))"
  by (simp add: earlier_unattested_def earlier_others_def sorted_filter)

lemma hold_rule_cases: "(\<forall>r. P r) \<longleftrightarrow> P Exact_Copy \<and> P Exact_Repack \<and> P Inconclusive_Pair \<and> P Near_Duplicate \<and> P Size_Fallback"
  by (metis hold_rule.exhaust)

lemma copy_evidence_fun:
  "copy_evidence Exact_Copy me = (\<lambda>e. gr_sha256 e = gr_sha256 me)"
  "copy_evidence Exact_Repack me = (\<lambda>e. gr_normalized_source_hash me \<noteq> None \<and> gr_normalized_source_hash e = gr_normalized_source_hash me)"
  "copy_evidence Size_Fallback me = size_near_duplicate me"
  by (rule ext, simp)+

text \<open>The gate as one search: the rules in order, the rows in upload order within each.\<close>

fun staged_search :: "((gate_row \<Rightarrow> bool) \<times> (gate_row \<Rightarrow> hold_rule)) list \<Rightarrow> gate_row list \<Rightarrow> (uuid \<times> hold_rule) option" where
  "staged_search [] rows = None"
| "staged_search ((P, rule) # stages) rows =
     (case List.find P rows of Some e \<Rightarrow> Some (gr_agent_id e, rule e) | None \<Rightarrow> staged_search stages rows)"

definition gate_stages :: "gate_row \<Rightarrow> ((gate_row \<Rightarrow> bool) \<times> (gate_row \<Rightarrow> hold_rule)) list" where
  "gate_stages me =
     [(copy_evidence Exact_Copy me, \<lambda>e. Exact_Copy), (copy_evidence Exact_Repack me, \<lambda>e. Exact_Repack),
      (\<lambda>e. copy_evidence Inconclusive_Pair me e \<or> copy_evidence Near_Duplicate me e,
       \<lambda>e. if copy_evidence Inconclusive_Pair me e then Inconclusive_Pair else Near_Duplicate),
      (copy_evidence Size_Fallback me, \<lambda>e. Size_Fallback)]"

lemma gate_staged: "evaluate_duplicate_signals me linked eligible = staged_search (gate_stages me) (earlier_unattested me linked eligible)"
  by (simp add: evaluate_duplicate_signals_def gate_stages_def hold_first_def near_duplicate_loop_eq copy_evidence_fun Let_def
      del: copy_evidence.simps split: option.split)

lemma staged_search_None: "staged_search stages rows = None \<longleftrightarrow> (\<forall>(P, rule) \<in> set stages. \<forall>f \<in> set rows. \<not> P f)"
  by (induction stages rows rule: staged_search.induct) (auto simp: find_None_iff find_Some_iff split: option.splits)

lemma staged_search_Some:
  "staged_search stages rows = Some (i, r) \<Longrightarrow>
     \<exists>k e. k < length stages \<and> List.find (fst (stages ! k)) rows = Some e \<and> i = gr_agent_id e \<and> r = snd (stages ! k) e \<and>
       (\<forall>j < k. \<forall>f \<in> set rows. \<not> fst (stages ! j) f)"
proof (induction stages rows rule: staged_search.induct)
  case (2 P rule stages rows)
  show ?case
  proof (cases "List.find P rows")
    case None
    with 2 obtain k e where k: "k < length stages" "List.find (fst (stages ! k)) rows = Some e" "i = gr_agent_id e" "r = snd (stages ! k) e"
      "\<forall>j < k. \<forall>f \<in> set rows. \<not> fst (stages ! j) f" by auto
    moreover have "\<forall>f \<in> set rows. \<not> P f" using None by (simp add: find_None_iff)
    ultimately show ?thesis by (intro exI [of _ "Suc k"] exI [of _ e]) (auto simp: less_Suc_eq_0_disj)
  qed (use 2 in \<open>auto intro!: exI [of _ 0]\<close>)
qed simp

lemma gate_stage_evidence: "copy_evidence q me f \<Longrightarrow> rule_rank q < 4 \<and> fst (gate_stages me ! rule_rank q) f"
  by (cases q) (simp_all add: gate_stages_def numeral_eq_Suc)

lemma gate_stage_rule:
  assumes "k < 4" and "fst (gate_stages me ! k) e"
  shows "copy_evidence (snd (gate_stages me ! k) e) me e \<and> rule_rank (snd (gate_stages me ! k) e) = k"
proof -
  from assms(1) consider "k = 0" | "k = 1" | "k = 2" | "k = 3" by linarith
  then show ?thesis using assms(2) by cases (auto simp: gate_stages_def numeral_eq_Suc simp del: copy_evidence.simps)
qed


subsection \<open>Instances\<close>

definition demo_gate_row :: "uuid \<Rightarrow> string \<Rightarrow> string option \<Rightarrow> gate_row" where
  "demo_gate_row n sha nsh = \<lparr>gr_agent_id = n, gr_miner_hotkey = dec_int (int n), gr_miner_coldkey = None, gr_first_seen = int n,
     gr_sha256 = sha, gr_composite = 1 / 2, gr_size_bytes = Some 100, gr_normalized_source_hash = nsh,
     gr_content_fingerprint = None, gr_structural_fingerprint = None\<rparr>"

text \<open>The named row is the oldest match of the first rule that matches, not the oldest match: submission 2 is the same source.\<close>

lemma younger_exact_copy_named:
  "evaluate_duplicate_signals (demo_gate_row 4 ''x'' (Some ''s'')) {} [demo_gate_row 2 ''y'' (Some ''s''), demo_gate_row 3 ''x'' None]
   = Some (3, Exact_Copy)"
  by code_simp


definition audited_score :: "int \<Rightarrow> score" where
  "audited_score n = (demo_score ''v'' (1 / 2))\<lparr>s_details := Some (JObj [(ptext ''audit_pairs'', JObj [(ptext ''base_only'', JInt n)])])\<rparr>"

text \<open>Six one-directional pairs, the fewest the audit lets a verdict rest on, pass it.\<close>

lemma six_pairs_pass:
  "fst (transform_audit_verdict [audited_score 2, audited_score 2, audited_score 2]) = Some (1 / 64)
   \<and> \<not> snd (snd (transform_audit_verdict [audited_score 2, audited_score 2, audited_score 2]))"
  by code_simp


end
