(* ===== verification/Deferred_Review.thy ===== *)
theory Deferred_Review
  imports Screening Ledger Copy_Gate
begin

text \<open>
  The deep source review that a score can trigger (\<open>evaluate_deferred_review\<close> of \<open>ditto/api_server/deferred_source_review.py\<close>,
  and \<open>_deferred_screening_attempts\<close>, \<open>_record_deferred_review_decision\<close> and \<open>_evaluate_and_record_deferred_review\<close> of
  \<open>ditto/api_server/endpoints/validator.py\<close>), over the tables of the score transaction. Of a review's evidence the kind and
  the previous status are kept, of a hold's text the rule.
\<close>

subsection \<open>The tables of the score transaction\<close>

datatype review_reason = Copy_Hold hold_rule | Transform_Brittleness | Deferred_Source_Review

text \<open>The anti-copy and moderation columns of a submission.\<close>

record agent_source =
  ax_agent_id :: uuid
  ax_size_bytes :: "int option"
  ax_normalized_source_hash :: "string option"
  ax_content_fingerprint :: "fingerprint option"
  ax_structural_fingerprint :: "fingerprint option"
  ax_review_reason :: "review_reason option"

record review_action =
  rx_review_id :: uuid
  rx_action :: string
  rx_created_at :: time

text \<open>The quality of a provider route, and the weight of a new observation by model.\<close>

record route_quality =
  rq_model :: string
  rq_provider :: string
  rq_profile :: string
  rq_tool_accuracy :: "rat option"
  rq_composite :: "rat option"
  rq_updated_at :: time

record scoring_db =
  xd_screening :: screening_db
  xd_grants :: "inference_grant list"
  xd_requests :: "inference_request list"
  xd_sources :: "agent_source list"
  xd_actions :: "review_action list"
  xd_quality :: "route_quality list"
  xd_alphas :: "(string \<times> rat) list"

definition xdb :: "scoring_db \<Rightarrow> db" where
  "xdb x = sd_db (xd_screening x)"

definition on_db :: "(db \<Rightarrow> db) \<Rightarrow> scoring_db \<Rightarrow> scoring_db" where
  "on_db f x = x\<lparr>xd_screening := (xd_screening x)\<lparr>sd_db := f (xdb x)\<rparr>\<rparr>"

definition on_agent :: "uuid \<Rightarrow> (agent \<Rightarrow> agent) \<Rightarrow> scoring_db \<Rightarrow> scoring_db" where
  "on_agent i f = on_db (\<lambda>d. d\<lparr>d_agents := update_where (\<lambda>ag. ag_agent_id ag = i) f (d_agents d)\<rparr>)"

definition on_source :: "uuid \<Rightarrow> (agent_source \<Rightarrow> agent_source) \<Rightarrow> scoring_db \<Rightarrow> scoring_db" where
  "on_source i f x = x\<lparr>xd_sources := update_where (\<lambda>s. ax_agent_id s = i) f (xd_sources x)\<rparr>"

definition on_reviews :: "(ath_review list \<Rightarrow> ath_review list) \<Rightarrow> scoring_db \<Rightarrow> scoring_db" where
  "on_reviews f x = x\<lparr>xd_screening := (xd_screening x)\<lparr>sd_reviews := f (sd_reviews (xd_screening x))\<rparr>\<rparr>"

text \<open>
  What a score transaction reads from outside the tables: the ledger's world, SHA-256, the gap the audit sequence leaves, the instant it
  records, the texts of instants and floats, the ids of new reviews, and the settings.
\<close>

record deferred_settings =
  ds_mode :: string
  ds_min_cohort_size :: int
  ds_composite_mad_multiplier :: rat
  ds_axis_mad_multiplier :: rat
  ds_min_composite_delta :: rat
  ds_min_axis_delta :: rat

record score_world =
  cw_ledger :: ledger_world
  cw_sha :: "string \<Rightarrow> string"
  cw_gap :: nat
  cw_recorded_at :: datetime
  cw_iso :: "time \<Rightarrow> string"
  cw_repr :: "rat \<Rightarrow> string"
  cw_review_id :: "uuid \<Rightarrow> uuid"
  cw_deferred :: deferred_settings
  cw_transform_enforce :: bool

abbreviation cw_now :: "score_world \<Rightarrow> time" where
  "cw_now w \<equiv> lw_now (cw_ledger w)"

abbreviation cw_env :: "score_world \<Rightarrow> env" where
  "cw_env w \<equiv> l_env (lw_live (cw_ledger w))"

definition append_audit :: "score_world \<Rightarrow> uuid \<Rightarrow> hotkey option \<Rightarrow> string \<Rightarrow> payload \<Rightarrow> scoring_db \<Rightarrow> scoring_db" where
  "append_audit w agent_id validator_hotkey event body =
     on_db (\<lambda>d. d\<lparr>d_score_audit := audit_step (cw_sha w)
       \<lparr>o_gap = cw_gap w, o_agent_id = agent_id, o_validator_hotkey = map_option ptext validator_hotkey, o_event = ptext event,
        o_payload = body, o_recorded_at = cw_recorded_at w\<rparr> (d_score_audit d)\<rparr>)"

definition EVENT_SCORE :: string where "EVENT_SCORE = ''score''"
definition EVENT_FINALIZED :: string where "EVENT_FINALIZED = ''agent_finalized''"
definition EVENT_AUDIT :: string where "EVENT_AUDIT = ''transform_audit''"

fun agent_status_value :: "agent_status \<Rightarrow> string" where
  "agent_status_value UPLOADED = ''uploaded''"
| "agent_status_value SCREENING = ''screening''"
| "agent_status_value SCREENING_PASSED = ''screening_passed''"
| "agent_status_value SCREENING_FAILED = ''screening_failed''"
| "agent_status_value EVALUATING = ''evaluating''"
| "agent_status_value AGENT_SCORED = ''scored''"
| "agent_status_value LIVE = ''live''"
| "agent_status_value ATH_PENDING_REVIEW = ''ath_pending_review''"
| "agent_status_value BANNED = ''banned''"
| "agent_status_value REJECTED = ''rejected''"
| "agent_status_value QUARANTINED = ''quarantined''"

subsection \<open>The decision\<close>

datatype review_trigger = Top_Five | Composite_Anomaly | Tool_Anomaly | Memory_Anomaly

fun trigger_kind :: "review_trigger \<Rightarrow> string" where
  "trigger_kind Top_Five = ''top_five''"
| "trigger_kind Composite_Anomaly = ''composite_anomaly''"
| "trigger_kind Tool_Anomaly = ''tool_anomaly''"
| "trigger_kind Memory_Anomaly = ''memory_anomaly''"

definition TOP_FIVE_SIZE :: nat where "TOP_FIVE_SIZE = 5"

definition median_mad :: "rat list \<Rightarrow> rat \<times> rat" where
  "median_mad values =
     (let center = statistics_median values in (center, statistics_median (map (\<lambda>v. abs (v - center)) values)))"

definition anomalous :: "(score \<Rightarrow> rat) \<Rightarrow> rat \<Rightarrow> rat \<Rightarrow> ledger_row \<Rightarrow> ledger_row list \<Rightarrow> bool" where
  "anomalous field multiplier least candidate peers \<longleftrightarrow>
     (let (center, mad) = median_mad (map (\<lambda>r. field (lc_score (lr_candidate r))) peers)
      in field (lc_score (lr_candidate candidate)) > min 1 (center + max least (multiplier * mad)))"

definition row_agent_id :: "ledger_row \<Rightarrow> uuid" where
  "row_agent_id r = ag_agent_id (lc_agent (lr_candidate r))"

text \<open>The triggers; the decision is triggered when there is one.\<close>

definition evaluate_deferred_review :: "uuid \<Rightarrow> ledger_row list \<Rightarrow> deferred_settings \<Rightarrow> review_trigger list" where
  "evaluate_deferred_review agent_id ledger settings =
     (case List.find (\<lambda>r. row_agent_id r = agent_id) ledger of
        None \<Rightarrow> []
      | Some candidate \<Rightarrow>
          if \<not> lr_eligible candidate then []
          else
            (let rank = Suc (length (takeWhile (\<lambda>r. row_agent_id r \<noteq> agent_id) ledger));
                 peers = filter (\<lambda>r. row_agent_id r \<noteq> agent_id \<and> lr_eligible r) ledger
             in (if rank \<le> TOP_FIVE_SIZE then [Top_Five] else []) @
                (if int (length peers) \<ge> ds_min_cohort_size settings then
                   (if anomalous s_composite (ds_composite_mad_multiplier settings) (ds_min_composite_delta settings) candidate peers
                    then [Composite_Anomaly] else []) @
                   (if anomalous s_tool_mean (ds_axis_mad_multiplier settings) (ds_min_axis_delta settings) candidate peers
                    then [Tool_Anomaly] else []) @
                   (if anomalous s_memory_mean (ds_axis_mad_multiplier settings) (ds_min_axis_delta settings) candidate peers
                    then [Memory_Anomaly] else [])
                 else [])))"

subsection \<open>Recording it\<close>

text \<open>The newest mechanical admission of a submission, a row without an end first; \<open>None\<close> when a deep review has begun or ended.\<close>

definition deferred_screening_attempt :: "env \<Rightarrow> screening_db \<Rightarrow> uuid \<Rightarrow> screening_attempt option" where
  "deferred_screening_attempt env s agent_id =
     (let reviewed = list_ex (\<lambda>v. av_agent_id v = agent_id \<and> av_review_kind v = Some DEFERRED_REVIEW_KIND) (sd_reviews s);
          current = filter (\<lambda>a. sa_agent_id a = agent_id \<and> sa_policy_version a = e_screening_policy_version env) (sd_attempts s);
          ended = list_ex (\<lambda>a. \<not> sa_build_only a \<and> (sa_status a = Attempt_Passed \<or> sa_status a = Attempt_Quarantined)) current
      in if reviewed \<or> ended then None
         else first_by (\<lambda>a. (case sa_finished_at a of None \<Rightarrow> (0 :: nat, 0) | Some t \<Rightarrow> (1, - t), sa_attempt_id a))
           (filter (\<lambda>a. sa_build_only a \<and> sa_status a = Attempt_Passed \<and> sa_reason_code a = Some DEFERRED_MECHANICAL_REASON) current))"

text \<open>A row inserted for, or put back to pending on, a submission.\<close>

definition opened_review :: "score_world \<Rightarrow> uuid \<Rightarrow> string option \<Rightarrow> string option \<Rightarrow> ath_review" where
  "opened_review w agent_id kind previous_status =
     \<lparr>av_review_id = cw_review_id w agent_id, av_agent_id = agent_id, av_status = ''pending'', av_opened_at = cw_now w, av_reopened_at = None,
      av_resolved_at = None, av_resolution = None, av_review_kind = kind, av_previous_status = previous_status\<rparr>"

definition reopened_review :: "score_world \<Rightarrow> string \<Rightarrow> ath_review \<Rightarrow> ath_review" where
  "reopened_review w previous_status v =
     v\<lparr>av_status := ''pending'', av_reopened_at := Some (cw_now w), av_resolved_at := None, av_resolution := None,
       av_review_kind := Some DEFERRED_REVIEW_KIND, av_previous_status := Some previous_status\<rparr>"

definition hold_agent :: "uuid \<Rightarrow> uuid option \<Rightarrow> review_reason \<Rightarrow> scoring_db \<Rightarrow> scoring_db" where
  "hold_agent i duplicate_of reason x =
     on_source i (\<lambda>s. s\<lparr>ax_review_reason := Some reason\<rparr>)
       (on_agent i (\<lambda>ag. ag\<lparr>ag_status := ATH_PENDING_REVIEW, ag_duplicate_of := duplicate_of\<rparr>) x)"

definition record_observation :: "score_world \<Rightarrow> uuid \<Rightarrow> review_trigger list \<Rightarrow> scoring_db \<Rightarrow> scoring_db" where
  "record_observation w agent_id triggers x =
     (if triggers = [] then x
      else append_audit w agent_id None EVENT_AUDIT
        [(ptext ''audit_kind'', JStr (ptext DEFERRED_REVIEW_KIND)), (ptext ''enforced'', JBool False), (ptext ''qualified'', JBool True),
         (ptext ''trigger_kinds'', JArr (map (\<lambda>t. JStr (ptext (trigger_kind t))) triggers))] x)"

definition enforce_review :: "score_world \<Rightarrow> uuid \<Rightarrow> review_trigger list \<Rightarrow> scoring_db \<Rightarrow> scoring_db" where
  "enforce_review w agent_id triggers x =
     (if triggers = [] then x
      else case get_row ag_agent_id agent_id (d_agents (xdb x)) of
        None \<Rightarrow> x
      | Some ag \<Rightarrow>
          (let previous_status = agent_status_value (ag_status ag) in
           case select_first (\<lambda>v. av_agent_id v = agent_id) (sd_reviews (xd_screening x)) of
             None \<Rightarrow>
               hold_agent agent_id None Deferred_Source_Review
                 (on_reviews (\<lambda>vs. vs @ [opened_review w agent_id (Some DEFERRED_REVIEW_KIND) (Some previous_status)]) x)
           | Some v \<Rightarrow>
               if av_status v = ''pending'' then x
               else
                 (let x1 = on_reviews (set_row av_agent_id (reopened_review w previous_status v)) x in
                  hold_agent agent_id None Deferred_Source_Review
                    (x1\<lparr>xd_actions := xd_actions x1 @ [\<lparr>rx_review_id = av_review_id v, rx_action = ''reopen'', rx_created_at = cw_now w\<rparr>]\<rparr>))))"

fun enforce_loop :: "score_world \<Rightarrow> ledger_row list \<Rightarrow> (uuid \<Rightarrow> bool) \<Rightarrow> ledger_row list \<Rightarrow> scoring_db \<Rightarrow> scoring_db" where
  "enforce_loop w ledger adm [] x = x"
| "enforce_loop w ledger adm (r # rest) x =
     enforce_loop w ledger adm rest
       (if lr_eligible r \<and> adm (row_agent_id r)
        then enforce_review w (row_agent_id r) (evaluate_deferred_review (row_agent_id r) ledger (cw_deferred w)) x else x)"

text \<open>\<open>adm\<close>: the candidates, finalized rows of the ledger, with their outstanding admissions, all read before the loop.\<close>

definition finalized :: "agent_status \<Rightarrow> bool" where
  "finalized st \<longleftrightarrow> st = AGENT_SCORED \<or> st = LIVE"

definition admitted_before :: "score_world \<Rightarrow> scoring_db \<Rightarrow> uuid \<Rightarrow> bool" where
  "admitted_before w x i \<longleftrightarrow>
     (case get_row ag_agent_id i (d_agents (xdb x)) of None \<Rightarrow> False | Some ag \<Rightarrow> finalized (ag_status ag)) \<and>
     deferred_screening_attempt (cw_env w) (xd_screening x) i \<noteq> None"

definition evaluate_and_record_deferred_review :: "score_world \<Rightarrow> uuid \<Rightarrow> int \<Rightarrow> scoring_db \<Rightarrow> scoring_db" where
  "evaluate_and_record_deferred_review w agent_id bench_version x =
     (case get_row ag_agent_id agent_id (d_agents (xdb x)) of
        None \<Rightarrow> x
      | Some ag \<Rightarrow>
          if ds_mode (cw_deferred w) = ''off'' \<or> \<not> finalized (ag_status ag) then x
          else
            (let ledger = list_eligible_ledger (cw_ledger w) False (Some bench_version) Official (xdb x) in
             if ds_mode (cw_deferred w) = ''observe''
             then record_observation w agent_id (evaluate_deferred_review agent_id ledger (cw_deferred w)) x
             else enforce_loop w ledger (admitted_before w x) ledger x))"

subsection \<open>What enforcement does\<close>

definition agent_of :: "uuid \<Rightarrow> scoring_db \<Rightarrow> agent option" where
  "agent_of i x = get_row ag_agent_id i (d_agents (xdb x))"

definition review_of :: "uuid \<Rightarrow> scoring_db \<Rightarrow> ath_review option" where
  "review_of i x = select_first (\<lambda>v. av_agent_id v = i) (sd_reviews (xd_screening x))"

definition review_pending :: "uuid \<Rightarrow> scoring_db \<Rightarrow> bool" where
  "review_pending i x \<longleftrightarrow> (case review_of i x of None \<Rightarrow> False | Some v \<Rightarrow> av_status v = ''pending'')"

lemma xdb_simps [simp]:
  "xdb (on_db f x) = f (xdb x)" "xdb (on_source i g x) = xdb x" "xdb (on_reviews h x) = xdb x"
  "xdb (x\<lparr>xd_actions := a\<rparr>) = xdb x" "xdb (x\<lparr>xd_quality := q\<rparr>) = xdb x" "xdb (x\<lparr>xd_grants := gs\<rparr>) = xdb x" "xdb (x\<lparr>xd_requests := rs\<rparr>) = xdb x"
  by (simp_all add: xdb_def on_db_def on_source_def on_reviews_def)

lemma reviews_simps [simp]:
  "sd_reviews (xd_screening (on_db f x)) = sd_reviews (xd_screening x)" "sd_reviews (xd_screening (on_source i g x)) = sd_reviews (xd_screening x)"
  "sd_reviews (xd_screening (on_reviews h x)) = h (sd_reviews (xd_screening x))" "sd_reviews (xd_screening (on_agent i k x)) = sd_reviews (xd_screening x)"
  by (simp_all add: on_db_def on_source_def on_reviews_def on_agent_def)

lemma get_row_update_where:
  "(\<And>r. key (f r) = key r) \<Longrightarrow> get_row key i (update_where (\<lambda>r. key r = j) f rows) = (if i = j then map_option f (get_row key i rows) else get_row key i rows)"
  by (induction rows) (auto simp: get_row_def update_where_def)

lemma agent_of_on_agent: "(\<And>ag. ag_agent_id (f ag) = ag_agent_id ag) \<Longrightarrow>
    agent_of i (on_agent j f x) = (if i = j then map_option f (agent_of i x) else agent_of i x)"
  by (simp add: agent_of_def on_agent_def get_row_update_where)

lemma agent_of_simps [simp]:
  "agent_of i (on_source j g x) = agent_of i x" "agent_of i (on_reviews h x) = agent_of i x" "agent_of i (x\<lparr>xd_actions := a\<rparr>) = agent_of i x"
  by (simp_all add: agent_of_def)

lemma hold_agent_simps [simp]:
  "agent_of i (hold_agent j dup r x) =
     (if i = j then map_option (\<lambda>ag. ag\<lparr>ag_status := ATH_PENDING_REVIEW, ag_duplicate_of := dup\<rparr>) (agent_of i x) else agent_of i x)"
  "review_of i (hold_agent j dup r x) = review_of i x"
  "xd_grants (hold_agent j dup r x) = xd_grants x" "xd_requests (hold_agent j dup r x) = xd_requests x"
  by (simp_all add: hold_agent_def agent_of_on_agent review_of_def) (simp_all add: on_source_def on_agent_def on_db_def)

lemma find_append: "List.find p (xs @ ys) = (case List.find p xs of Some a \<Rightarrow> Some a | None \<Rightarrow> List.find p ys)"
  by (induction xs) auto

lemma review_of_append: "review_of i (on_reviews (\<lambda>vs. vs @ [v]) x) =
    (case review_of i x of Some u \<Rightarrow> Some u | None \<Rightarrow> if av_agent_id v = i then Some v else None)"
  by (auto simp: review_of_def select_first_def find_append split: option.split)

lemma review_of_set: "av_agent_id v = j \<Longrightarrow> review_of j x \<noteq> None \<Longrightarrow>
    review_of i (on_reviews (set_row av_agent_id v) x) = (if i = j then Some v else review_of i x)"
proof -
  assume "av_agent_id v = j" "review_of j x \<noteq> None"
  moreover have "List.find (\<lambda>u. av_agent_id u = i) (map (\<lambda>r. if av_agent_id r = av_agent_id v then v else r) vs) =
      (if i = av_agent_id v then map_option (\<lambda>_. v) (List.find (\<lambda>u. av_agent_id u = i) vs) else List.find (\<lambda>u. av_agent_id u = i) vs)" for vs
    by (induction vs) auto
  ultimately show ?thesis by (auto simp: review_of_def set_row_def update_where_def select_first_def)
qed

lemma enforce_review_other:
  assumes "i \<noteq> j"
  shows "agent_of i (enforce_review w j ts x) = agent_of i x \<and> review_of i (enforce_review w j ts x) = review_of i x"
proof (cases "ts = [] \<or> agent_of j x = None \<or> review_pending j x")
  case True
  then have "enforce_review w j ts x = x" by (auto simp: enforce_review_def agent_of_def review_pending_def review_of_def Let_def split: option.splits)
  then show ?thesis by simp
next
  case False
  then obtain ag where "agent_of j x = Some ag" by auto
  have act: "review_of k (y\<lparr>xd_actions := a\<rparr>) = review_of k y" for k y a by (simp add: review_of_def)
  show ?thesis
  proof (cases "review_of j x")
    case None
    with False \<open>agent_of j x = Some ag\<close> show ?thesis using assms
      by (simp add: enforce_review_def agent_of_def [symmetric] review_of_def [symmetric] Let_def review_of_append opened_review_def split: option.split)
  next
    case (Some v)
    then have "av_agent_id v = j" by (auto simp: review_of_def dest: select_first_SomeD)
    with Some False \<open>agent_of j x = Some ag\<close> show ?thesis using assms
      by (simp add: enforce_review_def agent_of_def [symmetric] review_of_def [symmetric] review_pending_def Let_def review_of_set reopened_review_def act)
  qed
qed

lemma enforce_review_self:
  assumes "ts \<noteq> []" and ag: "agent_of i x = Some ag" and "\<not> review_pending i x"
  shows "map_option ag_status (agent_of i (enforce_review w i ts x)) = Some ATH_PENDING_REVIEW \<and> review_pending i (enforce_review w i ts x)"
proof -
  have act: "review_of k (y\<lparr>xd_actions := a\<rparr>) = review_of k y" for k y a by (simp add: review_of_def)
  show ?thesis
  proof (cases "review_of i x")
    case None
    with assms show ?thesis
      by (simp add: enforce_review_def agent_of_def [symmetric] review_of_def [symmetric] Let_def review_of_append opened_review_def review_pending_def)
  next
    case (Some v)
    then have "av_agent_id v = i" by (auto simp: review_of_def dest: select_first_SomeD)
    with Some assms show ?thesis
      by (simp add: enforce_review_def agent_of_def [symmetric] review_of_def [symmetric] review_pending_def Let_def review_of_set reopened_review_def act)
  qed
qed

lemma enforce_review_idle: "ts = [] \<or> review_pending i x \<Longrightarrow> enforce_review w i ts x = x"
  by (auto simp: enforce_review_def review_pending_def review_of_def Let_def split: option.splits)

text \<open>The submissions a pass qualifies for a hold.\<close>

definition qualifies :: "score_world \<Rightarrow> ledger_row list \<Rightarrow> (uuid \<Rightarrow> bool) \<Rightarrow> ledger_row list \<Rightarrow> uuid \<Rightarrow> bool" where
  "qualifies w ledger adm rows i \<longleftrightarrow> adm i \<and> evaluate_deferred_review i ledger (cw_deferred w) \<noteq> [] \<and>
     (\<exists>r \<in> set rows. row_agent_id r = i \<and> lr_eligible r)"

lemma enforce_loop_status:
  assumes "agent_of i x = Some ag"
  shows "map_option ag_status (agent_of i (enforce_loop w ledger adm rows x)) =
    Some (if qualifies w ledger adm rows i \<and> \<not> review_pending i x then ATH_PENDING_REVIEW else ag_status ag)"
  using assms
proof (induction rows arbitrary: x ag)
  case (Cons r rows)
  let ?ts = "evaluate_deferred_review (row_agent_id r) ledger (cw_deferred w)"
  let ?x = "if lr_eligible r \<and> adm (row_agent_id r) then enforce_review w (row_agent_id r) ?ts x else x"
  show ?case
  proof (cases "row_agent_id r = i")
    case False
    then have "agent_of i ?x = agent_of i x" "review_of i ?x = review_of i x" using enforce_review_other [of i "row_agent_id r"] by auto
    then show ?thesis using Cons.IH [of ?x ag] Cons.prems False by (simp add: qualifies_def review_pending_def)
  next
    case True
    show ?thesis
    proof (cases "lr_eligible r \<and> adm i \<and> ?ts \<noteq> [] \<and> \<not> review_pending i x")
      case hold: True
      with enforce_review_self [of ?ts i x ag w] Cons.prems True
      obtain ag' where "agent_of i ?x = Some ag'" "ag_status ag' = ATH_PENDING_REVIEW" "review_pending i ?x" by auto
      with Cons.IH [of ?x ag'] hold True show ?thesis by (auto simp: qualifies_def)
    next
      case False
      then have "?x = x" using True enforce_review_idle by auto
      with Cons.IH [of x ag] Cons.prems False True show ?thesis by (auto simp: qualifies_def)
    qed
  qed
qed (simp add: qualifies_def)

lemma enforce_loop_pending:
  assumes "agent_of i x = Some ag"
  shows "review_pending i (enforce_loop w ledger adm rows x) \<longleftrightarrow> review_pending i x \<or> qualifies w ledger adm rows i"
  using assms
proof (induction rows arbitrary: x ag)
  case (Cons r rows)
  let ?ts = "evaluate_deferred_review (row_agent_id r) ledger (cw_deferred w)"
  let ?x = "if lr_eligible r \<and> adm (row_agent_id r) then enforce_review w (row_agent_id r) ?ts x else x"
  show ?case
  proof (cases "row_agent_id r = i")
    case False
    then have "agent_of i ?x = agent_of i x" "review_of i ?x = review_of i x" using enforce_review_other [of i "row_agent_id r"] by auto
    then show ?thesis using Cons.IH [of ?x ag] Cons.prems False by (simp add: qualifies_def review_pending_def)
  next
    case True
    show ?thesis
    proof (cases "lr_eligible r \<and> adm i \<and> ?ts \<noteq> [] \<and> \<not> review_pending i x")
      case hold: True
      with enforce_review_self [of ?ts i x ag w] Cons.prems True
      obtain ag' where "agent_of i ?x = Some ag'" "review_pending i ?x" by auto
      with Cons.IH [of ?x ag'] hold True show ?thesis by (auto simp: qualifies_def)
    next
      case False
      then have "?x = x" using True enforce_review_idle by auto
      with Cons.IH [of x ag] Cons.prems False True show ?thesis by (auto simp: qualifies_def)
    qed
  qed
qed (simp add: qualifies_def)

lemma observation_keeps_agents: "agent_of i (record_observation w a ts x) = agent_of i x"
  by (simp add: record_observation_def append_audit_def agent_of_def)

text \<open>
  C21. What a delayed source review does. When the policy is off it does nothing and when it observes it changes no submission.
  When it enforces, a pass puts a submission on hold if and only if it is a ranked row of the version's ledger, is among the
  first five or an outlier against the other ranked rows, was admitted mechanically with its deep review outstanding, and has
  no review pending; every other submission keeps its status.
\<close>

theorem deferred_review_exact:
  fixes w :: score_world and v :: int
  assumes "agent_of i x = Some ag" and "agent_of a x = Some subject" and "finalized (ag_status subject)"
  defines "ledger \<equiv> list_eligible_ledger (cw_ledger w) False (Some v) Official (xdb x)"
  shows "map_option ag_status (agent_of i (evaluate_and_record_deferred_review w a v x)) =
    Some (if ds_mode (cw_deferred w) \<noteq> ''off'' \<and> ds_mode (cw_deferred w) \<noteq> ''observe'' \<and>
             (\<exists>r \<in> set ledger. row_agent_id r = i \<and> lr_eligible r) \<and> evaluate_deferred_review i ledger (cw_deferred w) \<noteq> [] \<and>
             finalized (ag_status ag) \<and> deferred_screening_attempt (cw_env w) (xd_screening x) i \<noteq> None \<and> \<not> review_pending i x
          then ATH_PENDING_REVIEW else ag_status ag)"
proof -
  have subject: "get_row ag_agent_id a (d_agents (xdb x)) = Some subject" using assms(2) by (simp add: agent_of_def)
  have adm: "admitted_before w x i \<longleftrightarrow> finalized (ag_status ag) \<and> deferred_screening_attempt (cw_env w) (xd_screening x) i \<noteq> None"
    using assms(1) by (simp add: admitted_before_def agent_of_def)
  consider "ds_mode (cw_deferred w) = ''off''" | "ds_mode (cw_deferred w) = ''observe''"
    | "ds_mode (cw_deferred w) \<noteq> ''off''" "ds_mode (cw_deferred w) \<noteq> ''observe''" by blast
  then show ?thesis
  proof cases
    case 1 then show ?thesis using assms(1) subject by (simp add: evaluate_and_record_deferred_review_def)
  next
    case 2 then show ?thesis using assms(1,3) subject
      by (simp add: evaluate_and_record_deferred_review_def observation_keeps_agents Let_def)
  next
    case 3
    then have "evaluate_and_record_deferred_review w a v x = enforce_loop w ledger (admitted_before w x) ledger x"
      using subject assms(3) by (simp add: evaluate_and_record_deferred_review_def ledger_def Let_def)
    with enforce_loop_status [OF assms(1), of w ledger "admitted_before w x" ledger] 3 show ?thesis by (simp add: qualifies_def adm conj_ac)
  qed
qed

subsection \<open>An instance\<close>

definition demo_attempt :: "uuid \<Rightarrow> screening_attempt" where
  "demo_attempt i = \<lparr>sa_attempt_id = 7, sa_agent_id = i, sa_screener_hotkey = ''s'', sa_policy_version = 9, sa_status = Attempt_Passed,
     sa_started_at = 0, sa_deadline = 1, sa_finished_at = Some 1, sa_public_reason = None, sa_reason_code = Some DEFERRED_MECHANICAL_REASON,
     sa_duplicate_of = None, sa_build_only = True, sa_review_settings_revision = None, sa_review_settings_instance_id = None,
     sa_review_settings_scope = None, sa_review_settings_checksum = None\<rparr>"

definition demo_scoring :: "db \<Rightarrow> scoring_db" where
  "demo_scoring d = \<lparr>xd_screening = \<lparr>sd_db = d, sd_attempts = [demo_attempt 2], sd_quarantines = [], sd_retry_overrides = [], sd_heartbeats = [], sd_reviews = []\<rparr>,
     xd_grants = [], xd_requests = [], xd_sources = [], xd_actions = [], xd_quality = [], xd_alphas = []\<rparr>"

definition demo_score_world :: "string \<Rightarrow> score_world" where
  "demo_score_world mode = \<lparr>cw_ledger = demo_ledger_world, cw_sha = demo_sha, cw_gap = 0, cw_recorded_at = demo_time, cw_iso = dec_int,
     cw_repr = (\<lambda>r. ''0.5''), cw_review_id = (\<lambda>i. i),
     cw_deferred = \<lparr>ds_mode = mode, ds_min_cohort_size = 8, ds_composite_mad_multiplier = 6, ds_axis_mad_multiplier = 6,
       ds_min_composite_delta = 1 / 10, ds_min_axis_delta = 15 / 100\<rparr>, cw_transform_enforce = False\<rparr>"

theorem deferred_review_exact_witness:
  "map_option ag_status (agent_of 2 (evaluate_and_record_deferred_review (demo_score_world ''enforce'') 2 7 (demo_scoring ledger_db))) = Some ATH_PENDING_REVIEW"
proof -
  let ?w = "demo_score_world ''enforce''" and ?x = "demo_scoring ledger_db"
  let ?ag = "(demo_agent 2 ''h2'')\<lparr>ag_status := AGENT_SCORED\<rparr>" and ?l = "list_eligible_ledger (cw_ledger (demo_score_world ''enforce'')) False (Some 7) Official (xdb (demo_scoring ledger_db))"
  have ag: "agent_of 2 ?x = Some ?ag" "finalized (ag_status ?ag)" by code_simp+
  have "\<exists>r \<in> set ?l. row_agent_id r = 2 \<and> lr_eligible r" by code_simp
  moreover have "evaluate_deferred_review 2 ?l (cw_deferred ?w) \<noteq> []" by code_simp
  moreover have "deferred_screening_attempt (cw_env ?w) (xd_screening ?x) 2 \<noteq> None" "\<not> review_pending 2 ?x"
    "ds_mode (cw_deferred ?w) \<noteq> ''off''" "ds_mode (cw_deferred ?w) \<noteq> ''observe''" by code_simp+
  ultimately show ?thesis using deferred_review_exact [OF ag(1) ag(1) ag(2), of ?w 7] ag(2) by (simp del: agent.update_convs)
qed

end
