(* ===== verification/Scoring.thy ===== *)
theory Scoring
  imports Deferred_Review
begin

text \<open>
  The report of a score (\<open>submit_score\<close> of \<open>ditto/api_server/endpoints/validator.py\<close>) as its checks and its one transaction: the
  retry of an accepted report, the guards of the lease, the replacement of an accepted score, the write with its audit
  entries, and the finalization at the quorum with the anti-copy gate, the transform audit and the deferred review. Signature
  and validator permit are arguments. The publication of a finalized run, the qualification refresh, the recording of
  a reign and the confirmation of weights follow the commit or are best effort, and are left out.
\<close>

subsection \<open>The report\<close>

record score_report =
  rp_run_id :: string
  rp_bench_version :: "int option"
  rp_seed :: int
  rp_composite :: rat
  rp_raw_composite :: "rat option"
  rp_tool_mean :: rat
  rp_memory_mean :: rat
  rp_median_ms :: int
  rp_n :: int
  rp_composite_stderr :: "rat option"
  rp_confirmation_composites :: "rat list option"
  rp_confirmation_seeds :: "int list option"
  rp_generated_at :: time
  rp_per_case :: "json list"
  rp_details :: "payload option"
  rp_structural_fingerprint :: "fingerprint option"

record score_submission =
  sp_validator_hotkey :: hotkey
  sp_signature :: string
  sp_ticket_deadline :: "time option"
  sp_report :: score_report
  sp_signature_ok :: bool
  sp_permitted :: bool

text \<open>\<open>Conflict\<close> is a 409 with its detail, \<open>Unhandled_Score\<close> an exception that becomes a 500.\<close>

datatype score_error =
    Validator_Auth_Error | Validator_Not_Permitted | Retired_Bench_Version_Error | Agent_Not_Found_Error
  | Agent_Not_Evaluatable_Error | Conflict string | Db_Integrity_Error | Unhandled_Score string

definition SCOREABLE_STATUSES :: "agent_status set" where
  "SCOREABLE_STATUSES = {EVALUATING, AGENT_SCORED, LIVE, ATH_PENDING_REVIEW}"

definition report_version :: "score_report \<Rightarrow> int" where
  "report_version r = (case rp_bench_version r of Some v \<Rightarrow> (if v = 0 then LEGACY_BENCH_VERSION else v) | None \<Rightarrow> LEGACY_BENCH_VERSION)"

definition reported_dataset_sha256 :: "score_report \<Rightarrow> pytext option" where
  "reported_dataset_sha256 r =
     (case rp_details r of None \<Rightarrow> None
      | Some details \<Rightarrow> (case map_of details (ptext ''dataset_sha256'') of Some (JStr s) \<Rightarrow> (if s = [] then None else Some s) | _ \<Rightarrow> None))"

definition set_opt :: "string \<Rightarrow> json option \<Rightarrow> payload \<Rightarrow> payload" where
  "set_opt name v d = (case v of None \<Rightarrow> d | Some j \<Rightarrow> dict_set name j d)"

definition score_details :: "score_world \<Rightarrow> score_report \<Rightarrow> time \<Rightarrow> int \<Rightarrow> payload" where
  "score_details w r ticket_deadline bench_version =
     (let float = (\<lambda>q. JFloat (cw_repr w q));
          d0 = (case rp_details r of None \<Rightarrow> [] | Some details \<Rightarrow> details);
          d1 = dict_set ''ticket_deadline'' (JStr (ptext (cw_iso w ticket_deadline))) d0;
          d2 = dict_set ''bench_version'' (JInt bench_version) d1;
          d3 = set_opt ''composite_stderr'' (map_option float (rp_composite_stderr r)) d2;
          d4 = set_opt ''raw_composite'' (map_option float (rp_raw_composite r)) d3;
          d5 = set_opt ''confirmation_composites'' (map_option (\<lambda>qs. JArr (map float qs)) (rp_confirmation_composites r)) d4;
          d6 = set_opt ''confirmation_seeds'' (map_option (\<lambda>ns. JArr (map JInt ns)) (rp_confirmation_seeds r)) d5
      in if rp_per_case r = [] then d6 else dict_set ''per_case'' (JArr (rp_per_case r)) d6)"

text \<open>Equality of dicts, at every depth.\<close>

definition retry_details_match :: "json option \<Rightarrow> payload \<Rightarrow> bool" where
  "retry_details_match stored reported =
     (case stored of
        Some (JObj d) \<Rightarrow> canon (JObj (dict_pop ''model_use'' d)) = canon (JObj reported)
      | Some _ \<Rightarrow> False
      | None \<Rightarrow> reported = [])"

definition skey :: "score \<Rightarrow> uuid \<times> int \<times> hotkey" where
  "skey s = (s_agent_id s, s_bench_version s, s_validator_hotkey s)"

definition exact_retry :: "score_world \<Rightarrow> ticket \<Rightarrow> score option \<Rightarrow> score_submission \<Rightarrow> time \<Rightarrow> bool" where
  "exact_retry w t prior p deadline \<longleftrightarrow>
     (let r = sp_report p in
      t_deadline t = deadline \<and>
      (case prior of None \<Rightarrow> False
       | Some s \<Rightarrow> s_run_id s = rp_run_id r \<and> s_seed s = rp_seed r \<and> s_composite s = rp_composite r \<and> s_tool_mean s = rp_tool_mean r \<and>
           s_memory_mean s = rp_memory_mean r \<and> s_median_ms s = rp_median_ms r \<and> s_n s = rp_n r \<and> s_generated_at s = rp_generated_at r \<and>
           retry_details_match (s_details s) (score_details w r deadline (report_version r))))"

subsection \<open>Model use\<close>

datatype model_use_mode = Use_Off | Use_Shadow | Use_Enforce
datatype model_use_verdict = Use_Unmeasured | Use_Not_Used | Use_Used

definition evaluate_model_use :: "model_use_mode \<Rightarrow> lease_model_usage option \<Rightarrow> int \<Rightarrow> model_use_verdict" where
  "evaluate_model_use mode usage cases =
     (if mode = Use_Off then Use_Unmeasured
      else case usage of None \<Rightarrow> Use_Unmeasured
      | Some u \<Rightarrow>
          if cases \<le> 0 then Use_Unmeasured
          else
            (let per_case = of_int (lu_prompt_tokens u) / of_int cases; calls = of_int (lu_chat_calls u) / of_int cases;
                 per_call = (if lu_chat_calls u = 0 then 0 else of_int (lu_prompt_tokens u) / of_int (lu_chat_calls u))
             in if per_case < (200 :: rat) \<or> calls < (25 / 100 :: rat) \<or> per_call < (300 :: rat) then Use_Not_Used else Use_Used))"

subsection \<open>The writes\<close>

text \<open>\<open>usage\<close> is what the lease's grant metered; a report that was not metered keeps the counts of the row it overwrites.\<close>

definition scored_row :: "score_world \<Rightarrow> score_submission \<Rightarrow> payload \<Rightarrow> lease_model_usage option \<Rightarrow> score \<Rightarrow> score" where
  "scored_row w p details usage s =
     (let r = sp_report p;
          s1 = s\<lparr>s_composite := rp_composite r, s_n := rp_n r, s_seed := rp_seed r, s_run_id := rp_run_id r, s_tool_mean := rp_tool_mean r,
                 s_memory_mean := rp_memory_mean r, s_median_ms := rp_median_ms r, s_generated_at := rp_generated_at r,
                 s_signature := Some (sp_signature p), s_details := (if details = [] then None else Some (JObj details))\<rparr>
      in case usage of None \<Rightarrow> s1
         | Some u \<Rightarrow> s1\<lparr>s_model_calls := Some (lu_chat_calls u), s_model_prompt_tokens := Some (lu_prompt_tokens u),
                         s_model_completion_tokens := Some (lu_completion_tokens u)\<rparr>)"

definition blank_row :: "score_world \<Rightarrow> uuid \<Rightarrow> int \<Rightarrow> hotkey \<Rightarrow> score" where
  "blank_row w i v h = \<lparr>s_agent_id = i, s_validator_hotkey = h, s_bench_version = v, s_composite = 0, s_created_at = cw_now w, s_n = 0, s_seed = 0,
     s_run_id = [], s_tool_mean = 0, s_memory_mean = 0, s_median_ms = 0, s_generated_at = 0, s_signature = None, s_details = None,
     s_model_calls = None, s_model_prompt_tokens = None, s_model_completion_tokens = None\<rparr>"

definition upsert_score :: "score_world \<Rightarrow> uuid \<Rightarrow> int \<Rightarrow> score_submission \<Rightarrow> payload \<Rightarrow> lease_model_usage option \<Rightarrow> score list \<Rightarrow> score list" where
  "upsert_score w i v p details usage ss =
     (case get_row skey (i, v, sp_validator_hotkey p) ss of
        None \<Rightarrow> ss @ [scored_row w p details usage (blank_row w i v (sp_validator_hotkey p))]
      | Some s \<Rightarrow> set_row skey (scored_row w p details usage s) ss)"

definition ewma :: "rat \<Rightarrow> rat option \<Rightarrow> rat \<Rightarrow> rat" where
  "ewma alpha previous observed = (case previous of None \<Rightarrow> observed | Some q \<Rightarrow> alpha * observed + (1 - alpha) * q)"

text \<open>A grant always allows at least one model (\<open>mint_grant\<close>), so the first model of an empty list is never read.\<close>

definition record_route_quality :: "time \<Rightarrow> inference_grant \<Rightarrow> rat \<Rightarrow> rat \<Rightarrow> scoring_db \<Rightarrow> scoring_db" where
  "record_route_quality now g tool_accuracy composite x =
     (case (g_route_provider g, g_route_profile g, g_allowed_models g) of
        (Some provider, Some profile, model # _) \<Rightarrow>
          (if provider = [] \<or> profile = [] then x
           else case map_of (xd_alphas x) model of None \<Rightarrow> x
           | Some alpha \<Rightarrow>
               x\<lparr>xd_quality := update_where (\<lambda>q. rq_model q = model \<and> rq_provider q = provider \<and> rq_profile q = profile)
                   (\<lambda>q. q\<lparr>rq_tool_accuracy := Some (ewma alpha (rq_tool_accuracy q) tool_accuracy),
                          rq_composite := Some (ewma alpha (rq_composite q) composite), rq_updated_at := now\<rparr>) (xd_quality x)\<rparr>)
      | _ \<Rightarrow> x)"

definition record_ticket_route_quality :: "score_world \<Rightarrow> ticket \<Rightarrow> score_report \<Rightarrow> scoring_db \<Rightarrow> scoring_db" where
  "record_ticket_route_quality w t r x =
     (case lease_grant t (xd_grants x) of None \<Rightarrow> x
      | Some g \<Rightarrow> record_route_quality (cw_now w) g (rp_tool_mean r) (rp_composite r) x)"

subsection \<open>The guards of the lease\<close>

definition legacy_completion :: "ticket \<Rightarrow> bool" where
  "legacy_completion t \<longleftrightarrow> t_purpose t = LEGACY_UNCLASSIFIED \<and> t_purpose_revision t = 0 \<and> t_legacy_completion_allowed t"

definition lease_error :: "ticket \<Rightarrow> score_report \<Rightarrow> score_error option" where
  "lease_error t r =
     (if \<not> legacy_completion t \<and> (t_purpose t \<noteq> CANONICAL_QUORUM \<or> t_purpose_revision t \<le> 0)
      then Some (Conflict ''ticket is not authorized for canonical scoring'')
      else if t_bench_version t > LEGACY_BENCH_VERSION \<and> rp_bench_version r \<noteq> Some (t_bench_version t)
      then Some (Conflict ''score must explicitly bind bench_version'')
      else if t_bench_version t \<le> LEGACY_BENCH_VERSION \<and> rp_bench_version r \<noteq> None \<and> rp_bench_version r \<noteq> Some (t_bench_version t)
      then Some (Conflict ''score benchmark version does not match its ticket lease'')
      else if t_seed t \<noteq> None \<and> t_seed t \<noteq> Some (rp_seed r)
      then Some (Conflict ''score seed does not match its validator ticket'')
      else if t_dataset_sha256 t \<noteq> None \<and> reported_dataset_sha256 r \<noteq> map_option ptext (t_dataset_sha256 t)
      then Some (Conflict ''score dataset digest does not match its validator ticket'')
      else None)"

definition classified :: "ticket \<Rightarrow> ticket" where
  "classified t = (if legacy_completion t then t\<lparr>t_purpose := CANONICAL_QUORUM, t_purpose_revision := 1, t_legacy_completion_allowed := False\<rparr> else t)"

text \<open>
  The operator's request an accepted score is replaced under. The request's version is an int, as its only writer stores it.
\<close>

definition replacement_request :: "agent \<Rightarrow> ticket \<Rightarrow> score option \<Rightarrow> audit_entry list \<Rightarrow> score_error + audit_entry option" where
  "replacement_request ag t existing audit =
     (case existing of
        None \<Rightarrow> Inr None
      | Some s \<Rightarrow>
          (case get_latest_score_retest_event (ag_agent_id ag) (ptext (t_validator_hotkey t)) audit of
             Some e \<Rightarrow>
               (if a_event e = EVENT_SCORE_RETEST_REQUESTED then
                  (if (case map_of (a_payload e) (ptext ''bench_version'') of Some (JInt v) \<Rightarrow> v | _ \<Rightarrow> - 1) \<noteq> t_bench_version t
                   then Inl (Conflict ''replacement request benchmark version changed'')
                   else if map_of (a_payload e) (ptext ''run_id'') \<noteq> Some (JStr (ptext (s_run_id s)))
                   then Inl (Conflict ''accepted score changed after replacement request'')
                   else Inr (Some e))
                else if finalized (ag_status ag) then Inl (Conflict ''accepted score has no operator-authorized re-test'') else Inr None)
           | None \<Rightarrow> if finalized (ag_status ag) then Inl (Conflict ''accepted score has no operator-authorized re-test'') else Inr None))"

subsection \<open>The audit entries\<close>

definition jopt :: "('a \<Rightarrow> json) \<Rightarrow> 'a option \<Rightarrow> json" where
  "jopt f v = (case v of None \<Rightarrow> JNull | Some a \<Rightarrow> f a)"

definition score_payload :: "score_world \<Rightarrow> score_submission \<Rightarrow> time \<Rightarrow> int \<Rightarrow> payload" where
  "score_payload w p deadline v =
     (let r = sp_report p; float = (\<lambda>q. JFloat (cw_repr w q)) in
      [(ptext ''run_id'', JStr (ptext (rp_run_id r))), (ptext ''seed'', JInt (rp_seed r)), (ptext ''composite'', float (rp_composite r)),
       (ptext ''tool_mean'', float (rp_tool_mean r)), (ptext ''memory_mean'', float (rp_memory_mean r)),
       (ptext ''median_ms'', JInt (rp_median_ms r)), (ptext ''n'', JInt (rp_n r)), (ptext ''bench_version'', JInt v),
       (ptext ''ticket_deadline'', JStr (ptext (cw_iso w deadline))), (ptext ''signature'', JStr (ptext (sp_signature p))),
       (ptext ''generated_at'', JStr (ptext (cw_iso w (rp_generated_at r))))])"

definition invalidated_score :: "score_world \<Rightarrow> score \<Rightarrow> json" where
  "invalidated_score w s =
     (let float = (\<lambda>q. JFloat (cw_repr w q)) in
      JObj [(ptext ''run_id'', JStr (ptext (s_run_id s))), (ptext ''seed'', JInt (s_seed s)), (ptext ''composite'', float (s_composite s)),
        (ptext ''tool_mean'', float (s_tool_mean s)), (ptext ''memory_mean'', float (s_memory_mean s)), (ptext ''median_ms'', JInt (s_median_ms s)),
        (ptext ''n'', JInt (s_n s)), (ptext ''bench_version'', JInt (s_bench_version s)),
        (ptext ''ticket_deadline'', (case s_details s of Some (JObj d) \<Rightarrow> (case map_of d (ptext ''ticket_deadline'') of Some v \<Rightarrow> v | None \<Rightarrow> JNull) | _ \<Rightarrow> JNull)),
        (ptext ''signature'', jopt (\<lambda>t. JStr (ptext t)) (s_signature s)), (ptext ''generated_at'', JStr (ptext (cw_iso w (s_generated_at s))))])"

text \<open>A key of the request that is missing is the \<open>KeyError\<close>, \<open>None\<close> here.\<close>

definition invalidation_payload :: "score_world \<Rightarrow> audit_entry \<Rightarrow> score \<Rightarrow> score_submission \<Rightarrow> int \<Rightarrow> payload option" where
  "invalidation_payload w e s p v =
     (case (map_of (a_payload e) (ptext ''request_id''), map_of (a_payload e) (ptext ''actor''), map_of (a_payload e) (ptext ''reason'')) of
        (Some request_id, Some actor, Some reason) \<Rightarrow>
          Some [(ptext ''request_id'', request_id), (ptext ''actor'', actor), (ptext ''reason'', reason), (ptext ''bench_version'', JInt v),
            (ptext ''run_id'', JStr (ptext (s_run_id s))), (ptext ''invalidated_score'', invalidated_score w s),
            (ptext ''replacement_run_id'', JStr (ptext (rp_run_id (sp_report p)))), (ptext ''replacement_composite'', JFloat (cw_repr w (rp_composite (sp_report p))))]
      | _ \<Rightarrow> None)"

definition dataset_of :: "uuid \<Rightarrow> int \<Rightarrow> db \<Rightarrow> benchmark_dataset option" where
  "dataset_of i v d = get_row (\<lambda>b. (bd_agent_id b, bd_bench_version b)) (i, v) (d_datasets d)"

definition dataset_fields :: "agent \<Rightarrow> benchmark_dataset option \<Rightarrow> payload" where
  "dataset_fields ag ds =
     [(ptext ''dataset_seed'', (case ds of Some b \<Rightarrow> JInt (bd_seed b) | None \<Rightarrow> jopt JInt (ag_dataset_seed ag))),
      (ptext ''dataset_sha256'', (case ds of Some b \<Rightarrow> JStr (ptext (bd_sha256 b)) | None \<Rightarrow> jopt (\<lambda>t. JStr (ptext t)) (ag_dataset_sha256 ag))),
      (ptext ''dataset_seed_block'', jopt JInt (case ds of Some b \<Rightarrow> bd_seed_block b | None \<Rightarrow> ag_dataset_seed_block ag)),
      (ptext ''dataset_seed_block_hash'', jopt (\<lambda>t. JStr (ptext t)) (case ds of Some b \<Rightarrow> bd_seed_block_hash b | None \<Rightarrow> ag_dataset_seed_block_hash ag))]"

text \<open>\<open>version\<close> is left out of the entry of a replacement.\<close>

definition finalized_payload :: "score_world \<Rightarrow> agent \<Rightarrow> int option \<Rightarrow> score list \<Rightarrow> benchmark_dataset option \<Rightarrow> payload \<Rightarrow> payload" where
  "finalized_payload w ag version scores ds extra_fields =
     [(ptext ''miner_hotkey'', JStr (ptext (ag_miner_hotkey ag))),
      (ptext ''median_composite'', JFloat (cw_repr w (statistics_median (map s_composite scores))))] @
     (case version of None \<Rightarrow> [] | Some v \<Rightarrow> [(ptext ''bench_version'', JInt v)]) @
     [(ptext ''quorum'', JInt (int SCORING_QUORUM)), (ptext ''score_count'', JInt (int (length scores))),
      (ptext ''validator_hotkeys'', JArr (map (\<lambda>h. JStr (ptext h)) (sort (map s_validator_hotkey scores))))] @
     dataset_fields ag ds @ [(ptext ''status'', JStr (ptext (agent_status_value (ag_status ag))))] @ extra_fields"

subsection \<open>Finalization at the quorum\<close>

definition linked_owner_hotkeys :: "env \<Rightarrow> hotkey \<Rightarrow> db \<Rightarrow> hotkey set" where
  "linked_owner_hotkeys env h d =
     set (map (\<lambda>a. if oa_hotkey_lo a = h then oa_hotkey_hi a else oa_hotkey_lo a)
       (filter (\<lambda>a. oa_hotkey_lo a = h \<or> oa_hotkey_hi a = h) (active_attestations env d)))"

definition gate_row_of :: "scoring_db \<Rightarrow> agent \<Rightarrow> string option \<Rightarrow> rat \<Rightarrow> gate_row" where
  "gate_row_of x ag coldkey composite =
     (let src = get_row ax_agent_id (ag_agent_id ag) (xd_sources x) in
      \<lparr>gr_agent_id = ag_agent_id ag, gr_miner_hotkey = ag_miner_hotkey ag, gr_miner_coldkey = coldkey, gr_first_seen = ag_created_at ag,
       gr_sha256 = ag_sha256 ag, gr_composite = composite, gr_size_bytes = Option.bind src ax_size_bytes,
       gr_normalized_source_hash = Option.bind src ax_normalized_source_hash, gr_content_fingerprint = Option.bind src ax_content_fingerprint,
       gr_structural_fingerprint = Option.bind src ax_structural_fingerprint\<rparr>)"

definition copy_decision :: "score_world \<Rightarrow> agent \<Rightarrow> int \<Rightarrow> rat \<Rightarrow> scoring_db \<Rightarrow> (uuid \<times> hold_rule) option" where
  "copy_decision w ag v median_composite x =
     evaluate_duplicate_signals (gate_row_of x ag (coldkey_of ag (xdb x)) median_composite)
       (linked_owner_hotkeys (cw_env w) (ag_miner_hotkey ag) (xdb x))
       (map (\<lambda>r. let c = lr_candidate r in gate_row_of x (lc_agent c) (lc_coldkey c) (s_composite (lc_score c)))
         (list_eligible_ledger (cw_ledger w) False (Some v) Official (xdb x)))"

text \<open>A new review of a submission that already has one violates the unique key on the submission.\<close>

definition open_review :: "score_world \<Rightarrow> uuid \<Rightarrow> uuid option \<Rightarrow> review_reason \<Rightarrow> scoring_db \<Rightarrow> score_error + scoring_db" where
  "open_review w i duplicate_of reason x =
     (if review_of i x \<noteq> None then Inl Db_Integrity_Error
      else Inr (hold_agent i duplicate_of reason (on_reviews (\<lambda>vs. vs @ [opened_review w i None None]) x)))"

definition audit_payload :: "score_world \<Rightarrow> agent \<Rightarrow> benchmark_dataset option \<Rightarrow> rat option \<Rightarrow> audit_pairs \<Rightarrow> bool \<Rightarrow> nat \<Rightarrow> payload" where
  "audit_payload w ag ds pvalue pairs failed score_count =
     [(ptext ''miner_hotkey'', JStr (ptext (ag_miner_hotkey ag))),
      (ptext ''audit_pairs'', JObj [(ptext ''both_correct'', JInt (both_correct pairs)), (ptext ''base_only'', JInt (base_only pairs)),
         (ptext ''transform_only'', JInt (transform_only pairs)), (ptext ''both_wrong'', JInt (both_wrong pairs))]),
      (ptext ''transform_audit_pvalue'', jopt (\<lambda>q. JFloat (cw_repr w q)) pvalue), (ptext ''audit_alpha'', JFloat (cw_repr w AUDIT_ALPHA)),
      (ptext ''audit_bps'', JInt 2500), (ptext ''failed'', JBool failed), (ptext ''enforced'', JBool (cw_transform_enforce w))] @
     dataset_fields ag ds @ [(ptext ''score_count'', JInt (int score_count))]"

definition settle_status :: "score_world \<Rightarrow> agent \<Rightarrow> int \<Rightarrow> score list \<Rightarrow> scoring_db \<Rightarrow> score_error + scoring_db" where
  "settle_status w ag v scores x =
     (let i = ag_agent_id ag; median_composite = statistics_median (map s_composite scores); (pvalue, pairs, failed) = transform_audit_verdict scores in
      case (case copy_decision w ag v median_composite x of
              Some (dup, rule) \<Rightarrow> open_review w i (Some dup) (Copy_Hold rule) x
            | None \<Rightarrow>
                if failed \<and> cw_transform_enforce w then open_review w i (ag_duplicate_of ag) Transform_Brittleness x
                else Inr (on_agent i (\<lambda>a. a\<lparr>ag_status := AGENT_SCORED\<rparr>) x)) of
        Inl e \<Rightarrow> Inl e
      | Inr x1 \<Rightarrow>
          Inr (if pair_count pairs > 0
               then append_audit w i None EVENT_AUDIT (audit_payload w ag (dataset_of i v (xdb x)) pvalue pairs failed (length scores)) x1
               else x1))"

definition log_finalized :: "score_world \<Rightarrow> uuid \<Rightarrow> int \<Rightarrow> int option \<Rightarrow> payload \<Rightarrow> scoring_db \<Rightarrow> scoring_db" where
  "log_finalized w i v version extra_fields x =
     (case agent_of i x of None \<Rightarrow> x
      | Some ag \<Rightarrow> append_audit w i None EVENT_FINALIZED
          (finalized_payload w ag version (scores_of i v (xdb x)) (dataset_of i v (xdb x)) extra_fields) x)"

definition finalize_at_quorum :: "score_world \<Rightarrow> agent \<Rightarrow> int \<Rightarrow> scoring_db \<Rightarrow> score_error + scoring_db" where
  "finalize_at_quorum w ag v x =
     (let i = ag_agent_id ag; scores = scores_of i v (xdb x) in
      if length scores < SCORING_QUORUM then Inr x
      else case settle_status w ag v scores x of
        Inl e \<Rightarrow> Inl e
      | Inr x1 \<Rightarrow> Inr (log_finalized w i v (Some v) [] (evaluate_and_record_deferred_review w i v x1)))"

definition log_migrated :: "score_world \<Rightarrow> uuid \<Rightarrow> int \<Rightarrow> scoring_db \<Rightarrow> scoring_db" where
  "log_migrated w i v x = (if length (scores_of i v (xdb x)) < SCORING_QUORUM then x else log_finalized w i v (Some v) [] x)"

subsection \<open>The transaction\<close>

definition on_ticket :: "ticket \<Rightarrow> scoring_db \<Rightarrow> scoring_db" where
  "on_ticket t = on_db (\<lambda>d. d\<lparr>d_tickets := set_row tkey t (d_tickets d)\<rparr>)"

definition revoke_grants :: "score_world \<Rightarrow> ticket \<Rightarrow> scoring_db \<Rightarrow> scoring_db" where
  "revoke_grants w t x =
     (let s = revoke_ticket_inference t (cw_now w) \<lparr>i_tickets = d_tickets (xdb x), i_grants = xd_grants x, i_requests = xd_requests x\<rparr>
      in x\<lparr>xd_grants := i_grants s, xd_requests := i_requests s\<rparr>)"

text \<open>The stored telemetry: the report's own, with the platform's verdict.\<close>

definition stored_details ::
  "score_world \<Rightarrow> (model_use_verdict \<Rightarrow> lease_model_usage option \<Rightarrow> json) \<Rightarrow> model_use_mode \<Rightarrow> ticket \<Rightarrow> score_report \<Rightarrow> time \<Rightarrow> scoring_db \<Rightarrow> payload" where
  "stored_details w public_dict mode t r deadline x =
     (let usage = get_lease_model_usage t (xd_grants x)
      in dict_set ''model_use'' (public_dict (evaluate_model_use mode usage (rp_n r)) usage) (score_details w r deadline (t_bench_version t)))"

text \<open>The entry that marks the replaced score of a finalized submission, as the write it is.\<close>

definition invalidation ::
  "score_world \<Rightarrow> agent \<Rightarrow> ticket \<Rightarrow> score option \<Rightarrow> audit_entry option \<Rightarrow> score_submission \<Rightarrow> score_error + (scoring_db \<Rightarrow> scoring_db)" where
  "invalidation w ag t existing replacement p =
     (case (replacement, existing) of
        (Some e, Some s) \<Rightarrow>
          if finalized (ag_status ag) then
            (case invalidation_payload w e s p (t_bench_version t) of
               None \<Rightarrow> Inl (Unhandled_Score ''KeyError'')
             | Some body \<Rightarrow> Inr (append_audit w (ag_agent_id ag) (Some (sp_validator_hotkey p)) ''score_invalidated'' body))
          else Inr (\<lambda>y. y)
      | _ \<Rightarrow> Inr (\<lambda>y. y))"

text \<open>Up to the score's own audit entry.\<close>

definition write_score ::
  "score_world \<Rightarrow> (model_use_verdict \<Rightarrow> lease_model_usage option \<Rightarrow> json) \<Rightarrow> model_use_mode \<Rightarrow> agent \<Rightarrow> ticket \<Rightarrow> score option \<Rightarrow>
   audit_entry option \<Rightarrow> score_submission \<Rightarrow> time \<Rightarrow> scoring_db \<Rightarrow> score_error + scoring_db" where
  "write_score w public_dict mode ag t existing replacement p deadline x =
     (let i = ag_agent_id ag; v = t_bench_version t; r = sp_report p; details = stored_details w public_dict mode t r deadline x;
          usage = get_lease_model_usage t (xd_grants x)
      in case invalidation w ag t existing replacement p of Inl e \<Rightarrow> Inl e
      | Inr invalidate \<Rightarrow>
          Inr (append_audit w i (Some (sp_validator_hotkey p)) EVENT_SCORE (score_payload w p deadline v)
                (record_ticket_route_quality w t r
                  (on_db (\<lambda>d. d\<lparr>d_scores := upsert_score w i v p details usage (d_scores d)\<rparr>) (invalidate (on_ticket t x))))))"

definition replace_finalized :: "score_world \<Rightarrow> agent \<Rightarrow> int \<Rightarrow> audit_entry option \<Rightarrow> scoring_db \<Rightarrow> score_error + scoring_db" where
  "replace_finalized w ag v replacement x =
     (case replacement of
        None \<Rightarrow> Inr x
      | Some e \<Rightarrow>
          (case (map_of (a_payload e) (ptext ''request_id''), map_of (a_payload e) (ptext ''run_id'')) of
             (Some request_id, Some run_id) \<Rightarrow>
               Inr (log_finalized w (ag_agent_id ag) v None [(ptext ''replacement_request_id'', request_id), (ptext ''replaced_run_id'', run_id)]
                     (evaluate_and_record_deferred_review w (ag_agent_id ag) v x))
           | _ \<Rightarrow> Inl (Unhandled_Score ''KeyError'')))"

definition store_structure :: "uuid \<Rightarrow> fingerprint option \<Rightarrow> scoring_db \<Rightarrow> scoring_db" where
  "store_structure i fp x = (case fp of None \<Rightarrow> x | Some f \<Rightarrow> on_source i (\<lambda>s. s\<lparr>ax_structural_fingerprint := Some f\<rparr>) x)"

definition advance :: "score_world \<Rightarrow> uuid \<Rightarrow> int \<Rightarrow> score option \<Rightarrow> scoring_db \<Rightarrow> score_error + scoring_db" where
  "advance w i v existing x =
     (case agent_of i x of None \<Rightarrow> Inr x
      | Some ag \<Rightarrow>
          if ag_status ag = EVALUATING then finalize_at_quorum w ag v x
          else if existing = None \<and> finalized (ag_status ag) then Inr (log_migrated w i v x) else Inr x)"

definition consume_lease :: "score_world \<Rightarrow> ticket \<Rightarrow> scoring_db \<Rightarrow> scoring_db" where
  "consume_lease w t x =
     revoke_grants w t (on_db (\<lambda>d. d\<lparr>d_tickets := mark_ticket_scored (t_agent_id t) (t_validator_hotkey t) (t_bench_version t) (d_tickets d)\<rparr>) x)"

definition record_score ::
  "score_world \<Rightarrow> (model_use_verdict \<Rightarrow> lease_model_usage option \<Rightarrow> json) \<Rightarrow> model_use_mode \<Rightarrow> agent \<Rightarrow> score_submission \<Rightarrow> time \<Rightarrow> scoring_db \<Rightarrow>
   score_error + scoring_db" where
  "record_score w public_dict mode ag p deadline x =
     (let i = ag_agent_id ag; r = sp_report p; h = sp_validator_hotkey p in
      if ag_status ag \<notin> SCOREABLE_STATUSES \<or> ag_screening_policy_version ag < e_screening_policy_version (cw_env w) then Inl Agent_Not_Evaluatable_Error
      else case get_open_ticket i h (cw_now w) deadline (Some (report_version r)) None (d_tickets (xdb x)) of
        None \<Rightarrow> Inl (Conflict ''no open scoring ticket for this validator and agent'')
      | Some t0 \<Rightarrow>
          (case lease_error t0 r of Some e \<Rightarrow> Inl e
           | None \<Rightarrow>
               (let t = classified t0; v = t_bench_version t; existing = get_row skey (i, v, h) (d_scores (xdb x)) in
                case replacement_request ag t existing (d_score_audit (xdb x)) of
                  Inl e \<Rightarrow> Inl e
                | Inr replacement \<Rightarrow>
                    (case write_score w public_dict mode ag t existing replacement p deadline x of Inl e \<Rightarrow> Inl e
                     | Inr x1 \<Rightarrow>
                         (case replace_finalized w ag v replacement x1 of Inl e \<Rightarrow> Inl e
                          | Inr x2 \<Rightarrow>
                              (case advance w i v existing (store_structure i (rp_structural_fingerprint r) x2) of Inl e \<Rightarrow> Inl e
                               | Inr x3 \<Rightarrow> Inr (consume_lease w t x3)))))))"

text \<open>The status that is returned is that of the submission after the transaction. A transaction that raises leaves the tables alone.\<close>

definition submit_score ::
  "score_world \<Rightarrow> (model_use_verdict \<Rightarrow> lease_model_usage option \<Rightarrow> json) \<Rightarrow> model_use_mode \<Rightarrow> uuid \<Rightarrow> score_submission \<Rightarrow> scoring_db \<Rightarrow>
   scoring_db \<times> (score_error + agent_status)" where
  "submit_score w public_dict mode agent_id p x =
     (let r = sp_report p in
      if \<not> sp_signature_ok p then (x, Inl Validator_Auth_Error)
      else if \<not> sp_permitted p then (x, Inl Validator_Not_Permitted)
      else if report_version r < MIN_SCOREABLE_BENCH_VERSION then (x, Inl Retired_Bench_Version_Error)
      else case agent_of agent_id x of None \<Rightarrow> (x, Inl Agent_Not_Found_Error)
      | Some ag \<Rightarrow>
          (case sp_ticket_deadline p of None \<Rightarrow> (x, Inl (Conflict ''score submission is missing its ticket lease deadline''))
           | Some deadline \<Rightarrow>
               (let key = (agent_id, report_version r, sp_validator_hotkey p); prior = get_row tkey key (d_tickets (xdb x)) in
                if (case prior of None \<Rightarrow> False | Some t \<Rightarrow> t_status t = SCORED) then
                  (if exact_retry w (the prior) (get_row skey key (d_scores (xdb x))) p deadline then (x, Inr (ag_status ag))
                   else (x, Inl (Conflict ''scoring ticket was already consumed by a different result'')))
                else case record_score w public_dict mode ag p deadline x of
                  Inl e \<Rightarrow> (x, Inl e)
                | Inr x' \<Rightarrow> (x', Inr (case agent_of agent_id x' of None \<Rightarrow> ag_status ag | Some ag' \<Rightarrow> ag_status ag')))))"

subsection \<open>What the steps leave alone\<close>

definition audit_extends :: "(string \<Rightarrow> string) \<Rightarrow> audit_entry list \<Rightarrow> audit_entry list \<Rightarrow> bool" where
  "audit_extends sha a b \<longleftrightarrow> (\<exists>ops. b = fold (audit_step sha) ops a)"

lemma audit_extends_refl [simp]: "audit_extends sha a a"
  unfolding audit_extends_def by (rule exI [of _ "[]"]) simp

lemma audit_extends_step [simp]: "audit_extends sha a (audit_step sha op a)"
  unfolding audit_extends_def by (rule exI [of _ "[op]"]) simp

lemma audit_extends_trans: "audit_extends sha a b \<Longrightarrow> audit_extends sha b c \<Longrightarrow> audit_extends sha a c"
  unfolding audit_extends_def by (metis fold_append comp_apply)

text \<open>A step that writes neither scores nor leases nor grants, and only appends to the audit log.\<close>

definition score_frame :: "(string \<Rightarrow> string) \<Rightarrow> scoring_db \<Rightarrow> scoring_db \<Rightarrow> bool" where
  "score_frame sha x y \<longleftrightarrow> d_scores (xdb y) = d_scores (xdb x) \<and> d_tickets (xdb y) = d_tickets (xdb x) \<and>
     map ag_agent_id (d_agents (xdb y)) = map ag_agent_id (d_agents (xdb x)) \<and> xd_grants y = xd_grants x \<and> xd_requests y = xd_requests x \<and>
     audit_extends sha (d_score_audit (xdb x)) (d_score_audit (xdb y))"

lemma score_frame_refl [simp]: "score_frame sha x x"
  by (simp add: score_frame_def)

lemma score_frame_trans: "score_frame sha x y \<Longrightarrow> score_frame sha y z \<Longrightarrow> score_frame sha x z"
  by (auto simp: score_frame_def intro: audit_extends_trans)

lemma grants_on_db [simp]: "xd_grants (on_db f x) = xd_grants x" "xd_requests (on_db f x) = xd_requests x"
  by (simp_all add: on_db_def)

lemma frame_audit: "score_frame (cw_sha w) x (append_audit w i h e body x)"
  by (simp add: score_frame_def append_audit_def)

lemma frame_agent: "(\<And>ag. ag_agent_id (f ag) = ag_agent_id ag) \<Longrightarrow> score_frame sha x (on_agent i f x)"
  by (simp add: score_frame_def on_agent_def map_update_where_same)

lemma frame_source: "score_frame sha x (on_source i f x)"
  by (simp add: score_frame_def) (simp add: on_source_def)

lemma frame_reviews: "score_frame sha x (on_reviews f x)"
  by (simp add: score_frame_def) (simp add: on_reviews_def)

lemma frame_actions: "score_frame sha x (x\<lparr>xd_actions := a\<rparr>)" "score_frame sha x (x\<lparr>xd_quality := q\<rparr>)"
  by (simp_all add: score_frame_def)

lemma frame_hold: "score_frame sha x (hold_agent i dup r x)"
  unfolding hold_agent_def by (rule score_frame_trans [OF frame_agent frame_source]) simp

lemma frame_enforce_review: "score_frame sha x (enforce_review w i ts x)"
  unfolding enforce_review_def Let_def
  by (auto intro: score_frame_trans [OF frame_reviews frame_hold] score_frame_trans [OF score_frame_trans [OF frame_reviews frame_actions(1)] frame_hold]
      split: option.split)

lemma frame_enforce_loop: "score_frame sha x (enforce_loop w ledger adm rows x)"
proof (induction rows arbitrary: x)
  case (Cons r rows)
  let ?y = "if lr_eligible r \<and> adm (row_agent_id r)
    then enforce_review w (row_agent_id r) (evaluate_deferred_review (row_agent_id r) ledger (cw_deferred w)) x else x"
  have "score_frame sha x ?y" by (simp add: frame_enforce_review)
  then show ?case using Cons [of ?y] by (simp only: enforce_loop.simps) (rule score_frame_trans)
qed simp

lemma frame_deferred: "score_frame (cw_sha w) x (evaluate_and_record_deferred_review w i v x)"
  by (simp add: evaluate_and_record_deferred_review_def record_observation_def frame_audit frame_enforce_loop Let_def split: option.split)

lemma frame_log_finalized: "score_frame (cw_sha w) x (log_finalized w i v version extra_fields x)"
  by (simp add: log_finalized_def frame_audit split: option.split)

lemma frame_open_review: "open_review w i dup r x = Inr y \<Longrightarrow> score_frame sha x y"
  by (auto simp: open_review_def intro: score_frame_trans [OF frame_reviews frame_hold] split: if_splits)

lemma frame_settle:
  assumes "settle_status w ag v scores x = Inr y"
  shows "score_frame (cw_sha w) x y"
proof -
  obtain pvalue pairs failed where v: "transform_audit_verdict scores = (pvalue, pairs, failed)" by (cases "transform_audit_verdict scores")
  let ?first = "case copy_decision w ag v (statistics_median (map s_composite scores)) x of
      Some (dup, rule) \<Rightarrow> open_review w (ag_agent_id ag) (Some dup) (Copy_Hold rule) x
    | None \<Rightarrow> if failed \<and> cw_transform_enforce w then open_review w (ag_agent_id ag) (ag_duplicate_of ag) Transform_Brittleness x
              else Inr (on_agent (ag_agent_id ag) (\<lambda>a. a\<lparr>ag_status := AGENT_SCORED\<rparr>) x)"
  from assms obtain z where z: "?first = Inr z" and y: "score_frame (cw_sha w) z y"
    by (auto simp: settle_status_def Let_def v frame_audit split: sum.splits if_splits)
  have "score_frame (cw_sha w) x z"
    using z by (auto simp: frame_agent dest: frame_open_review split: option.splits prod.splits if_splits)
  then show ?thesis using y by (rule score_frame_trans)
qed

lemma frame_advance:
  assumes "advance w i v existing x = Inr y"
  shows "score_frame (cw_sha w) x y"
proof (cases "agent_of i x")
  case (Some ag)
  have final: "score_frame (cw_sha w) x z" if fin: "finalize_at_quorum w ag v x = Inr z" for z
  proof (cases "length (scores_of (ag_agent_id ag) v (xdb x)) < SCORING_QUORUM")
    case False
    with fin obtain x1 where "settle_status w ag v (scores_of (ag_agent_id ag) v (xdb x)) x = Inr x1"
      and z: "z = log_finalized w (ag_agent_id ag) v (Some v) [] (evaluate_and_record_deferred_review w (ag_agent_id ag) v x1)"
      by (auto simp: finalize_at_quorum_def Let_def split: sum.splits)
    then show ?thesis using score_frame_trans [OF frame_settle score_frame_trans [OF frame_deferred frame_log_finalized]] by blast
  qed (use fin in \<open>simp add: finalize_at_quorum_def Let_def\<close>)
  have "score_frame (cw_sha w) x (log_migrated w i v x)" by (simp add: log_migrated_def frame_log_finalized)
  then show ?thesis using assms Some final by (auto simp: advance_def split: if_splits)
qed (use assms in \<open>simp add: advance_def\<close>)

lemma frame_replace: "replace_finalized w ag v replacement x = Inr y \<Longrightarrow> score_frame (cw_sha w) x y"
  using score_frame_trans [OF frame_deferred frame_log_finalized]
  by (auto simp: replace_finalized_def split: option.splits prod.splits)

lemma frame_structure: "score_frame sha x (store_structure i fp x)"
  by (simp add: store_structure_def frame_source split: option.split)

lemma frame_route: "score_frame sha x (record_ticket_route_quality w t r x)"
  by (simp add: record_ticket_route_quality_def record_route_quality_def frame_actions split: option.split list.split)

subsection \<open>An accepted report\<close>

lemma skey_scored_row [simp]: "skey (scored_row w p details usage s) = skey s"
  by (simp add: skey_def scored_row_def Let_def split: option.split)

lemma skey_blank_row [simp]: "skey (blank_row w i v h) = (i, v, h)"
  by (simp add: skey_def blank_row_def)

lemma set_row_twice: "key s = key r \<Longrightarrow> set_row key s (set_row key r rows) = set_row key s rows"
  by (simp add: set_row_def update_where_def)

lemma set_row_lookup: "get_row key (key r) rows \<noteq> None \<Longrightarrow> get_row key (key r) (set_row key r rows) = Some r"
  by (auto simp: get_row_set_row)

lemma set_row_lookup_other: "k \<noteq> key r \<Longrightarrow> get_row key k (set_row key r rows) = get_row key k rows"
  by (simp add: get_row_set_row)

lemma upsert_lookup: "get_row skey k (upsert_score w i v p details usage ss) =
    (if k = (i, v, sp_validator_hotkey p)
     then Some (scored_row w p details usage (case get_row skey k ss of None \<Rightarrow> blank_row w i v (sp_validator_hotkey p) | Some s \<Rightarrow> s))
     else get_row skey k ss)"
proof (cases "get_row skey (i, v, sp_validator_hotkey p) ss")
  case None
  then show ?thesis by (auto simp: upsert_score_def get_row_def find_append split: option.split)
next
  case (Some s)
  then have "skey s = (i, v, sp_validator_hotkey p)" by (auto dest: get_row_SomeD)
  then show ?thesis using Some set_row_lookup [of skey "scored_row w p details usage s" ss] set_row_lookup_other [of k skey "scored_row w p details usage s" ss]
    by (auto simp: upsert_score_def)
qed

lemma upsert_keys: "distinct (map skey ss) \<Longrightarrow> distinct (map skey (upsert_score w i v p details usage ss))"
proof -
  assume d: "distinct (map skey ss)"
  show ?thesis
  proof (cases "get_row skey (i, v, sp_validator_hotkey p) ss")
    case None
    then have "(i, v, sp_validator_hotkey p) \<notin> skey ` set ss" by (simp add: get_row_None_iff)
    with None show ?thesis using d by (auto simp: upsert_score_def)
  next
    case (Some s)
    then show ?thesis using d by (auto simp: upsert_score_def set_row_def map_update_where_same dest: get_row_SomeD)
  qed
qed

lemma invalidationD: "invalidation w ag t existing replacement p = Inr invd \<Longrightarrow> invd = (\<lambda>z. z) \<or> (\<exists>i h e body. invd = append_audit w i h e body)"
  by (auto simp: invalidation_def split: option.splits if_splits)

lemma append_audit_agents [simp]: "agent_of i (append_audit w j h e body z) = agent_of i z" "review_of i (append_audit w j h e body z) = review_of i z"
  by (simp_all add: append_audit_def agent_of_def review_of_def)

lemma route_agents [simp]: "agent_of i (record_ticket_route_quality w t r x) = agent_of i x" "review_of i (record_ticket_route_quality w t r x) = review_of i x"
  by (simp_all add: record_ticket_route_quality_def record_route_quality_def agent_of_def review_of_def split: option.split list.split)

lemma write_scoreD:
  assumes "write_score w public_dict mode ag t existing replacement p deadline x = Inr y"
  shows "d_scores (xdb y) = upsert_score w (ag_agent_id ag) (t_bench_version t) p (stored_details w public_dict mode t (sp_report p) deadline x)
      (get_lease_model_usage t (xd_grants x)) (d_scores (xdb x))
    \<and> d_tickets (xdb y) = set_row tkey t (d_tickets (xdb x)) \<and> map ag_agent_id (d_agents (xdb y)) = map ag_agent_id (d_agents (xdb x))
    \<and> audit_extends (cw_sha w) (d_score_audit (xdb x)) (d_score_audit (xdb y)) \<and> agent_of i y = agent_of i x \<and> review_of i y = review_of i x"
proof -
  let ?i = "ag_agent_id ag" and ?v = "t_bench_version t" and ?usage = "get_lease_model_usage t (xd_grants x)"
  let ?up = "on_db (\<lambda>d. d\<lparr>d_scores := upsert_score w ?i ?v p (stored_details w public_dict mode t (sp_report p) deadline x) ?usage (d_scores d)\<rparr>)"
  from assms obtain invd where y: "y = append_audit w ?i (Some (sp_validator_hotkey p)) EVENT_SCORE (score_payload w p deadline ?v)
      (record_ticket_route_quality w t (sp_report p) (?up (invd (on_ticket t x))))"
    and "invalidation w ag t existing replacement p = Inr invd" by (auto simp: write_score_def Let_def split: sum.splits)
  note invd = invalidationD [OF this(2)]
  have fb: "score_frame (cw_sha w) (on_ticket t x) (invd (on_ticket t x))" using invd frame_audit by auto
  have fy: "score_frame (cw_sha w) (?up (invd (on_ticket t x))) y" unfolding y by (rule score_frame_trans [OF frame_route frame_audit])
  have ticket: "agent_of i (on_ticket t x) = agent_of i x" "review_of i (on_ticket t x) = review_of i x"
    by (simp_all add: agent_of_def review_of_def on_ticket_def)
  have up: "agent_of i (?up z) = agent_of i z" "review_of i (?up z) = review_of i z" for z by (simp_all add: agent_of_def review_of_def)
  have "agent_of i (invd z) = agent_of i z" "review_of i (invd z) = review_of i z" for z using invd by auto
  then have "agent_of i y = agent_of i x" "review_of i y = review_of i x" by (simp_all add: y ticket up)
  moreover have "audit_extends (cw_sha w) (d_score_audit (xdb x)) (d_score_audit (xdb y))"
    using fb fy by (auto simp: score_frame_def on_ticket_def intro: audit_extends_trans)
  ultimately show ?thesis using fb fy by (simp add: score_frame_def) (simp add: on_ticket_def)
qed

lemma open_ticketD:
  assumes "get_open_ticket i h now deadline (Some v) None ts = Some t"
  shows "t \<in> set ts \<and> tkey t = (i, v, h) \<and> t_status t = ISSUED \<and> t_deadline t = deadline \<and> now < deadline"
  using assms by (auto simp: get_open_ticket_def tkey_def split: option.splits if_splits dest!: select_first_SomeD)

lemma classified_simps [simp]: "tkey (classified t) = tkey t" "t_bench_version (classified t) = t_bench_version t" "t_agent_id (classified t) = t_agent_id t"
  "t_validator_hotkey (classified t) = t_validator_hotkey t" "t_deadline (classified t) = t_deadline t"
  by (simp_all add: classified_def tkey_def)

lemma consume_lease_simps [simp]:
  "d_scores (xdb (consume_lease w t x)) = d_scores (xdb x)" "d_agents (xdb (consume_lease w t x)) = d_agents (xdb x)"
  "d_score_audit (xdb (consume_lease w t x)) = d_score_audit (xdb x)" "agent_of i (consume_lease w t x) = agent_of i x"
  "review_of i (consume_lease w t x) = review_of i x"
  "d_tickets (xdb (consume_lease w t x)) = mark_ticket_scored (t_agent_id t) (t_validator_hotkey t) (t_bench_version t) (d_tickets (xdb x))"
  by (simp_all add: consume_lease_def revoke_grants_def Let_def agent_of_def review_of_def)

lemma mark_after_set:
  assumes "get_row tkey (tkey t) ts \<noteq> None"
  shows "mark_ticket_scored (t_agent_id t) (t_validator_hotkey t) (t_bench_version t) (set_row tkey t ts) = set_row tkey (t\<lparr>t_status := SCORED\<rparr>) ts"
proof -
  have key: "(t_agent_id t, t_bench_version t, t_validator_hotkey t) = tkey t" "tkey (t\<lparr>t_status := SCORED\<rparr>) = tkey t" by (simp_all add: tkey_def)
  show ?thesis using set_row_lookup [of tkey t ts] assms by (simp add: mark_ticket_scored_def key set_row_twice)
qed

text \<open>The steps of an accepted report.\<close>

lemma record_score_steps:
  assumes "record_score w public_dict mode ag p deadline x = Inr x'"
  obtains t rep x1 x2 x3 where
    "ag_status ag \<in> SCOREABLE_STATUSES" "e_screening_policy_version (cw_env w) \<le> ag_screening_policy_version ag"
    "get_open_ticket (ag_agent_id ag) (sp_validator_hotkey p) (cw_now w) deadline (Some (report_version (sp_report p))) None (d_tickets (xdb x)) = Some t"
    "lease_error t (sp_report p) = None"
    "replacement_request ag (classified t) (get_row skey (ag_agent_id ag, t_bench_version t, sp_validator_hotkey p) (d_scores (xdb x))) (d_score_audit (xdb x)) = Inr rep"
    "write_score w public_dict mode ag (classified t) (get_row skey (ag_agent_id ag, t_bench_version t, sp_validator_hotkey p) (d_scores (xdb x))) rep p deadline x = Inr x1"
    "replace_finalized w ag (t_bench_version t) rep x1 = Inr x2"
    "advance w (ag_agent_id ag) (t_bench_version t) (get_row skey (ag_agent_id ag, t_bench_version t, sp_validator_hotkey p) (d_scores (xdb x)))
      (store_structure (ag_agent_id ag) (rp_structural_fingerprint (sp_report p)) x2) = Inr x3"
    "x' = consume_lease w (classified t) x3"
  using assms that unfolding record_score_def Let_def
  by (auto split: if_splits option.splits sum.splits)

lemma record_scoreD:
  assumes "record_score w public_dict mode ag p deadline x = Inr x'"
  obtains t rep where
    "ag_status ag \<in> SCOREABLE_STATUSES" "e_screening_policy_version (cw_env w) \<le> ag_screening_policy_version ag"
    "get_open_ticket (ag_agent_id ag) (sp_validator_hotkey p) (cw_now w) deadline (Some (report_version (sp_report p))) None (d_tickets (xdb x)) = Some t"
    "lease_error t (sp_report p) = None"
    "replacement_request ag (classified t) (get_row skey (tkey t) (d_scores (xdb x))) (d_score_audit (xdb x)) = Inr rep"
    "d_scores (xdb x') = upsert_score w (ag_agent_id ag) (t_bench_version t) p (stored_details w public_dict mode (classified t) (sp_report p) deadline x)
       (get_lease_model_usage (classified t) (xd_grants x)) (d_scores (xdb x))"
    "d_tickets (xdb x') = set_row tkey ((classified t)\<lparr>t_status := SCORED\<rparr>) (d_tickets (xdb x))"
    "map ag_agent_id (d_agents (xdb x')) = map ag_agent_id (d_agents (xdb x))"
    "audit_extends (cw_sha w) (d_score_audit (xdb x)) (d_score_audit (xdb x'))"
proof -
  from assms obtain t rep x1 x2 x3 where s:
    "ag_status ag \<in> SCOREABLE_STATUSES" "e_screening_policy_version (cw_env w) \<le> ag_screening_policy_version ag"
    "get_open_ticket (ag_agent_id ag) (sp_validator_hotkey p) (cw_now w) deadline (Some (report_version (sp_report p))) None (d_tickets (xdb x)) = Some t"
    "lease_error t (sp_report p) = None"
    "replacement_request ag (classified t) (get_row skey (ag_agent_id ag, t_bench_version t, sp_validator_hotkey p) (d_scores (xdb x))) (d_score_audit (xdb x)) = Inr rep"
    and w1: "write_score w public_dict mode ag (classified t) (get_row skey (ag_agent_id ag, t_bench_version t, sp_validator_hotkey p) (d_scores (xdb x))) rep p deadline x = Inr x1"
    and w2: "replace_finalized w ag (t_bench_version t) rep x1 = Inr x2"
    and w3: "advance w (ag_agent_id ag) (t_bench_version t) (get_row skey (ag_agent_id ag, t_bench_version t, sp_validator_hotkey p) (d_scores (xdb x)))
      (store_structure (ag_agent_id ag) (rp_structural_fingerprint (sp_report p)) x2) = Inr x3"
    and x': "x' = consume_lease w (classified t) x3" by (rule record_score_steps)
  have frame: "score_frame (cw_sha w) x1 x3" using frame_replace [OF w2] frame_structure frame_advance [OF w3] by (blast intro: score_frame_trans)
  note wr = write_scoreD [OF w1]
  have t: "t \<in> set (d_tickets (xdb x))" "tkey t = (ag_agent_id ag, t_bench_version t, sp_validator_hotkey p)"
    using open_ticketD [OF s(3)] by (auto simp: tkey_def)
  from t(1) have "get_row tkey (tkey (classified t)) (d_tickets (xdb x)) \<noteq> None" by (simp add: get_row_None_iff)
  note mark = mark_after_set [OF this]
  have tickets: "d_tickets (xdb x') = set_row tkey ((classified t)\<lparr>t_status := SCORED\<rparr>) (d_tickets (xdb x))"
    using mark frame wr by (simp add: x' score_frame_def)
  have audit: "audit_extends (cw_sha w) (d_score_audit (xdb x)) (d_score_audit (xdb x'))"
    using frame wr by (auto simp: x' score_frame_def intro: audit_extends_trans)
  show ?thesis
    by (rule that [OF s(1-4) s(5) [folded t(2)] _ tickets _ audit]) (use frame wr in \<open>simp_all add: x' score_frame_def\<close>)
qed

lemma agent_of_ids: "map ag_agent_id (d_agents (xdb y)) = map ag_agent_id (d_agents (xdb x)) \<Longrightarrow> agent_of i y = None \<longleftrightarrow> agent_of i x = None"
  by (simp add: agent_of_def get_row_None_iff flip: set_map)

lemma agent_of_id: "agent_of i x = Some ag \<Longrightarrow> ag_agent_id ag = i"
  by (auto simp: agent_of_def dest: get_row_SomeD)

text \<open>An accepted report is either the retry of a consumed lease, which writes nothing, or it is recorded.\<close>

lemma submit_score_cases:
  assumes "submit_score w public_dict mode i p x = (x', Inr st)"
  obtains (retry) ag t deadline where "agent_of i x = Some ag" "sp_ticket_deadline p = Some deadline" "x' = x" "st = ag_status ag"
      "get_row tkey (i, report_version (sp_report p), sp_validator_hotkey p) (d_tickets (xdb x)) = Some t" "t_status t = SCORED"
      "exact_retry w t (get_row skey (i, report_version (sp_report p), sp_validator_hotkey p) (d_scores (xdb x))) p deadline"
      "sp_signature_ok p" "sp_permitted p" "MIN_SCOREABLE_BENCH_VERSION \<le> report_version (sp_report p)"
    | (recorded) ag deadline ag' where "agent_of i x = Some ag" "sp_ticket_deadline p = Some deadline"
      "record_score w public_dict mode ag p deadline x = Inr x'" "agent_of i x' = Some ag'" "st = ag_status ag'"
      "sp_signature_ok p" "sp_permitted p" "MIN_SCOREABLE_BENCH_VERSION \<le> report_version (sp_report p)"
proof -
  let ?key = "(i, report_version (sp_report p), sp_validator_hotkey p)"
  from assms obtain ag deadline where pre: "sp_signature_ok p" "sp_permitted p" "MIN_SCOREABLE_BENCH_VERSION \<le> report_version (sp_report p)"
    "agent_of i x = Some ag" "sp_ticket_deadline p = Some deadline"
    by (auto simp: submit_score_def Let_def split: if_splits option.splits)
  show ?thesis
  proof (cases "\<exists>t. get_row tkey ?key (d_tickets (xdb x)) = Some t \<and> t_status t = SCORED")
    case True
    then obtain t where "get_row tkey ?key (d_tickets (xdb x)) = Some t" "t_status t = SCORED" by blast
    with assms pre show ?thesis by (auto simp: submit_score_def split: if_splits intro: retry)
  next
    case False
    then have "\<not> (case get_row tkey ?key (d_tickets (xdb x)) of None \<Rightarrow> False | Some t \<Rightarrow> t_status t = SCORED)" by (auto split: option.splits)
    with assms pre have rec: "record_score w public_dict mode ag p deadline x = Inr x'"
      and st: "st = (case agent_of i x' of None \<Rightarrow> ag_status ag | Some ag' \<Rightarrow> ag_status ag')"
      by (simp_all add: submit_score_def split: sum.splits)
    from rec have "map ag_agent_id (d_agents (xdb x')) = map ag_agent_id (d_agents (xdb x))" by (rule record_scoreD)
    then obtain ag' where "agent_of i x' = Some ag'" using agent_of_ids [of x' x i] pre(4) by auto
    with rec st pre show ?thesis by (intro recorded) simp_all
  qed
qed

lemma scored_row_fields:
  "s_composite (scored_row w p details usage s) = rp_composite (sp_report p)" "s_run_id (scored_row w p details usage s) = rp_run_id (sp_report p)"
  "s_seed (scored_row w p details usage s) = rp_seed (sp_report p)" "s_tool_mean (scored_row w p details usage s) = rp_tool_mean (sp_report p)"
  "s_memory_mean (scored_row w p details usage s) = rp_memory_mean (sp_report p)" "s_median_ms (scored_row w p details usage s) = rp_median_ms (sp_report p)"
  "s_n (scored_row w p details usage s) = rp_n (sp_report p)" "s_generated_at (scored_row w p details usage s) = rp_generated_at (sp_report p)"
  "s_signature (scored_row w p details usage s) = Some (sp_signature p)"
  "s_details (scored_row w p details usage s) = (if details = [] then None else Some (JObj details))"
  by (simp_all add: scored_row_def Let_def split: option.split)

lemma lease_errorD:
  assumes "lease_error t r = None" and "LEGACY_BENCH_VERSION < t_bench_version t"
  shows "(legacy_completion t \<or> t_purpose t = CANONICAL_QUORUM \<and> 0 < t_purpose_revision t) \<and> rp_bench_version r = Some (t_bench_version t) \<and>
    (t_seed t = None \<or> t_seed t = Some (rp_seed r)) \<and> (t_dataset_sha256 t = None \<or> reported_dataset_sha256 r = map_option ptext (t_dataset_sha256 t))"
  using assms by (auto simp: lease_error_def split: if_splits)

lemma replacement_requestD:
  assumes "replacement_request ag t (Some s) audit = Inr rep" and "finalized (ag_status ag)"
  shows "\<exists>e. get_latest_score_retest_event (ag_agent_id ag) (ptext (t_validator_hotkey t)) audit = Some e \<and> a_event e = EVENT_SCORE_RETEST_REQUESTED \<and>
    map_of (a_payload e) (ptext ''run_id'') = Some (JStr (ptext (s_run_id s)))"
  using assms by (auto simp: replacement_request_def split: option.splits if_splits)

text \<open>
  C2. What an accepted report proves and writes. When a report changes the tables, its signature verified, its validator is
  permitted, the submission was scoreable under the current screening policy, and the validator held an issued lease on
  that submission and version, with exactly the reported deadline, not yet over, for the canonical quorum, whose seed and
  dataset are the reported ones. An accepted score of a finalized submission is only replaced under an operator's open
  request for that very run. Afterwards the lease is consumed, the score of the lease's key has the reported values, and every
  other score and lease is as before.
\<close>

theorem accepted_score_sound:
  fixes p :: score_submission
  assumes acc: "submit_score w public_dict mode i p x = (x', Inr st)" and "x' \<noteq> x"
  defines "r \<equiv> sp_report p" and "key \<equiv> (i, report_version (sp_report p), sp_validator_hotkey p)"
  shows "sp_signature_ok p \<and> sp_permitted p \<and>
    (\<exists>ag t s. agent_of i x = Some ag \<and> ag_status ag \<in> SCOREABLE_STATUSES \<and> e_screening_policy_version (cw_env w) \<le> ag_screening_policy_version ag
      \<and> t \<in> set (d_tickets (xdb x)) \<and> tkey t = key \<and> t_status t = ISSUED \<and> sp_ticket_deadline p = Some (t_deadline t) \<and> cw_now w < t_deadline t
      \<and> (legacy_completion t \<or> t_purpose t = CANONICAL_QUORUM \<and> 0 < t_purpose_revision t)
      \<and> rp_bench_version r = Some (t_bench_version t) \<and> MIN_SCOREABLE_BENCH_VERSION \<le> t_bench_version t
      \<and> (t_seed t = None \<or> t_seed t = Some (rp_seed r)) \<and> (t_dataset_sha256 t = None \<or> reported_dataset_sha256 r = map_option ptext (t_dataset_sha256 t))
      \<and> (\<forall>old. get_row skey key (d_scores (xdb x)) = Some old \<and> finalized (ag_status ag) \<longrightarrow>
          (\<exists>e. get_latest_score_retest_event i (ptext (sp_validator_hotkey p)) (d_score_audit (xdb x)) = Some e \<and> a_event e = EVENT_SCORE_RETEST_REQUESTED \<and>
             map_of (a_payload e) (ptext ''run_id'') = Some (JStr (ptext (s_run_id old)))))
      \<and> d_tickets (xdb x') = set_row tkey ((classified t)\<lparr>t_status := SCORED\<rparr>) (d_tickets (xdb x))
      \<and> get_row skey key (d_scores (xdb x')) = Some s \<and> s_composite s = rp_composite r \<and> s_run_id s = rp_run_id r \<and> s_seed s = rp_seed r \<and> s_n s = rp_n r
      \<and> (\<forall>k. k \<noteq> key \<longrightarrow> get_row skey k (d_scores (xdb x')) = get_row skey k (d_scores (xdb x))))"
  using acc
proof (cases rule: submit_score_cases)
  case (recorded ag deadline ag')
  note id = agent_of_id [OF recorded(1)]
  from recorded(3) obtain t rep where t:
    "ag_status ag \<in> SCOREABLE_STATUSES" "e_screening_policy_version (cw_env w) \<le> ag_screening_policy_version ag"
    "get_open_ticket i (sp_validator_hotkey p) (cw_now w) deadline (Some (report_version r)) None (d_tickets (xdb x)) = Some t"
    "lease_error t r = None" "replacement_request ag (classified t) (get_row skey (tkey t) (d_scores (xdb x))) (d_score_audit (xdb x)) = Inr rep"
    "d_scores (xdb x') = upsert_score w i (t_bench_version t) p (stored_details w public_dict mode (classified t) r deadline x)
       (get_lease_model_usage (classified t) (xd_grants x)) (d_scores (xdb x))"
    "d_tickets (xdb x') = set_row tkey ((classified t)\<lparr>t_status := SCORED\<rparr>) (d_tickets (xdb x))"
    unfolding id [symmetric] r_def by (rule record_scoreD)
  note o = open_ticketD [OF t(3)]
  have key: "tkey t = key" "key = (i, t_bench_version t, sp_validator_hotkey p)" and v: "t_bench_version t = report_version r"
    using o by (auto simp: tkey_def key_def r_def)
  have "LEGACY_BENCH_VERSION < t_bench_version t" using recorded(8) v by (simp add: r_def LEGACY_BENCH_VERSION_def MIN_SCOREABLE_BENCH_VERSION_def)
  note le = lease_errorD [OF t(4) this]
  have req: "\<exists>e. get_latest_score_retest_event i (ptext (sp_validator_hotkey p)) (d_score_audit (xdb x)) = Some e \<and> a_event e = EVENT_SCORE_RETEST_REQUESTED \<and>
      map_of (a_payload e) (ptext ''run_id'') = Some (JStr (ptext (s_run_id old)))"
    if "get_row skey key (d_scores (xdb x)) = Some old" "finalized (ag_status ag)" for old
    using replacement_requestD [OF t(5) [unfolded key(1) that(1)] that(2)] id key by (auto simp: tkey_def)
  have look: "get_row skey k (d_scores (xdb x')) = (if k = key
      then Some (scored_row w p (stored_details w public_dict mode (classified t) r deadline x) (get_lease_model_usage (classified t) (xd_grants x))
        (case get_row skey k (d_scores (xdb x)) of None \<Rightarrow> blank_row w i (t_bench_version t) (sp_validator_hotkey p) | Some s \<Rightarrow> s))
      else get_row skey k (d_scores (xdb x)))" for k unfolding t(6) upsert_lookup key(2) ..
  show ?thesis
    by (intro conjI exI [of _ ag] exI [of _ t]
        exI [of _ "scored_row w p (stored_details w public_dict mode (classified t) r deadline x) (get_lease_model_usage (classified t) (xd_grants x))
          (case get_row skey key (d_scores (xdb x)) of None \<Rightarrow> blank_row w i (t_bench_version t) (sp_validator_hotkey p) | Some s \<Rightarrow> s)"])
      (use recorded t o le v key req look in \<open>simp_all add: r_def scored_row_fields\<close>)
qed (use assms(2) in simp)

subsection \<open>A report that is sent again\<close>

lemma has_key_dict_set: "has_key a (dict_set b v d) \<longleftrightarrow> ptext a = ptext b \<or> has_key a d"
  by (force simp: dict_set_def has_key_def keys_of_def)

lemma has_key_set_opt: "has_key a (set_opt b v d) \<longleftrightarrow> v \<noteq> None \<and> ptext a = ptext b \<or> has_key a d"
  by (auto simp: set_opt_def has_key_dict_set split: option.split)

lemma dict_pop_set: "\<not> has_key n d \<Longrightarrow> dict_pop n (dict_set n v d) = d"
proof -
  assume n: "\<not> has_key n d"
  then have "filter (\<lambda>(k, w). k \<noteq> ptext n) d = d" by (force simp: has_key_def keys_of_def filter_id_conv)
  then show ?thesis using n by (simp add: dict_set_def dict_pop_def)
qed

definition names_model_use :: "score_report \<Rightarrow> bool" where
  "names_model_use r \<longleftrightarrow> (case rp_details r of None \<Rightarrow> False | Some d \<Rightarrow> has_key ''model_use'' d)"

lemma score_details_model_use: "has_key ''model_use'' (score_details w r deadline v) \<longleftrightarrow> names_model_use r"
  by (auto simp: score_details_def Let_def has_key_dict_set has_key_set_opt names_model_use_def ptext_def split: option.split)
    (simp_all add: has_key_def keys_of_def)

lemma score_details_cong: "cw_iso w' = cw_iso w \<Longrightarrow> cw_repr w' = cw_repr w \<Longrightarrow> score_details w' r deadline v = score_details w r deadline v"
  by (simp add: score_details_def)

lemma exact_retry_cong:
  assumes "cw_iso w' = cw_iso w" and "cw_repr w' = cw_repr w"
  shows "exact_retry w' = exact_retry w"
  by (intro ext) (simp only: exact_retry_def score_details_cong [OF assms])

lemma exact_retry_stored:
  assumes "\<not> names_model_use (sp_report p)" and "cw_iso w' = cw_iso w" "cw_repr w' = cw_repr w" and "t_deadline t = deadline"
    and "t_bench_version u = report_version (sp_report p)"
  shows "exact_retry w' t (Some (scored_row w p (stored_details w public_dict mode u (sp_report p) deadline x) usage s)) p deadline"
proof -
  let ?d = "stored_details w public_dict mode u (sp_report p) deadline x"
  have ne: "?d \<noteq> []" by (auto simp add: stored_details_def Let_def dict_set_def has_key_def keys_of_def)
  have "dict_pop ''model_use'' ?d = score_details w (sp_report p) deadline (report_version (sp_report p))"
    using assms(1,5) by (simp add: stored_details_def Let_def dict_pop_set score_details_model_use)
  then show ?thesis using ne assms(4) score_details_cong [OF assms(2,3)]
    by (simp add: exact_retry_def Let_def scored_row_fields retry_details_match_def)
qed

text \<open>After an accepted report its lease is consumed and its row holds the stored details.\<close>

lemma recorded_rows:
  assumes "record_score w public_dict mode ag p deadline x = Inr x'"
  obtains t s where "get_row tkey (ag_agent_id ag, report_version (sp_report p), sp_validator_hotkey p) (d_tickets (xdb x')) = Some ((classified t)\<lparr>t_status := SCORED\<rparr>)"
    "t_deadline t = deadline" "t_bench_version t = report_version (sp_report p)"
    "get_row skey (ag_agent_id ag, report_version (sp_report p), sp_validator_hotkey p) (d_scores (xdb x')) =
       Some (scored_row w p (stored_details w public_dict mode (classified t) (sp_report p) deadline x) (get_lease_model_usage (classified t) (xd_grants x)) s)"
proof -
  let ?key = "(ag_agent_id ag, report_version (sp_report p), sp_validator_hotkey p)"
  from assms obtain t where t:
    "get_open_ticket (ag_agent_id ag) (sp_validator_hotkey p) (cw_now w) deadline (Some (report_version (sp_report p))) None (d_tickets (xdb x)) = Some t"
    "d_scores (xdb x') = upsert_score w (ag_agent_id ag) (t_bench_version t) p (stored_details w public_dict mode (classified t) (sp_report p) deadline x)
       (get_lease_model_usage (classified t) (xd_grants x)) (d_scores (xdb x))"
    "d_tickets (xdb x') = set_row tkey ((classified t)\<lparr>t_status := SCORED\<rparr>) (d_tickets (xdb x))" by (rule record_scoreD)
  let ?t = "(classified t)\<lparr>t_status := SCORED\<rparr>"
  note opn = open_ticketD [OF t(1)]
  have key: "tkey ?t = ?key" "t_bench_version t = report_version (sp_report p)" using opn by (auto simp: tkey_def classified_def)
  have "get_row tkey (tkey ?t) (d_tickets (xdb x)) \<noteq> None" using opn key(1) by (simp add: get_row_None_iff) (metis image_eqI)
  from set_row_lookup [OF this] have "get_row tkey ?key (d_tickets (xdb x')) = Some ?t" by (simp add: t(3) key(1))
  then show ?thesis using that [of t] t(2) opn key(2) by (simp add: upsert_lookup)
qed

text \<open>
  C19. Reporting is idempotent. Once a report was accepted, sending the same report again, whenever and however often, is
  accepted with the submission's present status and writes nothing, provided the report's own telemetry has no field
  \<open>model_use\<close> (the name of the platform's annotation).
\<close>

theorem resubmission_idempotent:
  assumes acc: "submit_score w public_dict mode i p x = (x', Inr st)" and clean: "\<not> names_model_use (sp_report p)"
    and same: "cw_iso w' = cw_iso w" "cw_repr w' = cw_repr w"
  shows "submit_score w' public_dict' mode' i p x' = (x', Inr st)"
proof -
  let ?key = "(i, report_version (sp_report p), sp_validator_hotkey p)"
  have again: "submit_score w' public_dict' mode' i p x' = (x', Inr st)"
    if "sp_signature_ok p" "sp_permitted p" "MIN_SCOREABLE_BENCH_VERSION \<le> report_version (sp_report p)" "agent_of i x' = Some ag" "st = ag_status ag"
      "sp_ticket_deadline p = Some deadline" "get_row tkey ?key (d_tickets (xdb x')) = Some t" "t_status t = SCORED"
      "exact_retry w' t (get_row skey ?key (d_scores (xdb x'))) p deadline" for ag deadline t
    using that by (simp add: submit_score_def)
  from acc show ?thesis
  proof (cases rule: submit_score_cases)
    case (retry ag t deadline)
    then show ?thesis using exact_retry_cong [OF same] by (intro again) simp_all
  next
    case (recorded ag deadline ag')
    note id = agent_of_id [OF recorded(1)]
    obtain t s where t: "get_row tkey ?key (d_tickets (xdb x')) = Some ((classified t)\<lparr>t_status := SCORED\<rparr>)" "t_deadline t = deadline"
      "t_bench_version t = report_version (sp_report p)"
      "get_row skey ?key (d_scores (xdb x')) =
         Some (scored_row w p (stored_details w public_dict mode (classified t) (sp_report p) deadline x) (get_lease_model_usage (classified t) (xd_grants x)) s)"
      by (rule recorded_rows [OF recorded(3), unfolded id])
    have "exact_retry w' ((classified t)\<lparr>t_status := SCORED\<rparr>) (get_row skey ?key (d_scores (xdb x'))) p deadline"
      using t(2,3) by (simp add: t(4) exact_retry_stored [OF clean same])
    then show ?thesis using recorded t(1) by (intro again) simp_all
  qed
qed

text \<open>
  The name \<open>model_use\<close> is not reserved in the telemetry, and the comparison drops it from the stored details only: a report that names it is
  accepted once, and its exact retry is then refused as a different result.
\<close>

lemma keys_of_canon: "canon (JObj a) = canon (JObj b) \<Longrightarrow> keys_of a = keys_of b"
  by (simp only: canon_JObj json.inject keys_of_def) (metis (no_types) fst_comp_map_prod id_comp list.map_comp set_map set_sort)

lemma retry_never_matches:
  assumes "has_key ''model_use'' reported"
  shows "\<not> retry_details_match (Some (JObj d)) reported"
proof
  assume "retry_details_match (Some (JObj d)) reported"
  then have "keys_of (dict_pop ''model_use'' d) = keys_of reported" by (intro keys_of_canon) (simp add: retry_details_match_def del: canon.simps)
  with assms have "has_key ''model_use'' (dict_pop ''model_use'' d)" by (simp add: has_key_def)
  then show False by (auto simp: has_key_def keys_of_def dict_pop_def)
qed

lemma model_use_breaks_retry:
  assumes acc: "submit_score w public_dict mode i p x = (x', Inr st)" and "x' \<noteq> x" and "names_model_use (sp_report p)"
  shows "submit_score w' public_dict' mode' i p x' = (x', Inl (Conflict ''scoring ticket was already consumed by a different result''))"
  using acc
proof (cases rule: submit_score_cases)
  case (recorded ag deadline ag')
  let ?key = "(i, report_version (sp_report p), sp_validator_hotkey p)"
  note id = agent_of_id [OF recorded(1)]
  obtain t s where t: "get_row tkey ?key (d_tickets (xdb x')) = Some ((classified t)\<lparr>t_status := SCORED\<rparr>)"
    "get_row skey ?key (d_scores (xdb x')) =
       Some (scored_row w p (stored_details w public_dict mode (classified t) (sp_report p) deadline x) (get_lease_model_usage (classified t) (xd_grants x)) s)"
    by (rule recorded_rows [OF recorded(3), unfolded id])
  let ?d = "stored_details w public_dict mode (classified t) (sp_report p) deadline x"
  have ne: "?d \<noteq> []" by (auto simp add: stored_details_def Let_def dict_set_def has_key_def keys_of_def)
  have "\<not> exact_retry w' ((classified t)\<lparr>t_status := SCORED\<rparr>) (get_row skey ?key (d_scores (xdb x'))) p deadline"
    using retry_never_matches assms(3) ne by (simp add: t(2) exact_retry_def Let_def scored_row_fields score_details_model_use)
  then show ?thesis using recorded t(1) by (simp add: submit_score_def)
qed (use assms(2) in simp)

subsection \<open>The books of scoring\<close>

definition scoring_books :: "(string \<Rightarrow> string) \<Rightarrow> scoring_db \<Rightarrow> bool" where
  "scoring_books sha x \<longleftrightarrow> log_ok sha (d_score_audit (xdb x)) \<and> distinct (map skey (d_scores (xdb x))) \<and>
     (\<forall>t \<in> set (d_tickets (xdb x)). t_status t = SCORED \<longrightarrow> get_row skey (tkey t) (d_scores (xdb x)) \<noteq> None)"

record score_op =
  so_world :: score_world
  so_public_dict :: "model_use_verdict \<Rightarrow> lease_model_usage option \<Rightarrow> json"
  so_mode :: model_use_mode
  so_agent_id :: uuid
  so_submission :: score_submission

definition score_step :: "(string \<Rightarrow> string) \<Rightarrow> score_op \<Rightarrow> scoring_db \<Rightarrow> scoring_db" where
  "score_step sha a x = fst (submit_score ((so_world a)\<lparr>cw_sha := sha\<rparr>) (so_public_dict a) (so_mode a) (so_agent_id a) (so_submission a) x)"

lemma log_ok_extends: "audit_extends sha a b \<Longrightarrow> log_ok sha a \<Longrightarrow> log_ok sha b"
  by (auto simp: audit_extends_def intro: appends.run_invar)

lemma submit_score_unchanged: "submit_score w public_dict mode i p x = (x', Inl e) \<Longrightarrow> x' = x"
  by (auto simp: submit_score_def Let_def split: if_splits option.splits sum.splits)

text \<open>What one report does to the tables: nothing, or what an accepted one writes.\<close>

lemma score_step_cases:
  obtains (kept) "score_step sha a x = x"
    | (wrote) t w p v details usage where "d_scores (xdb (score_step sha a x)) = upsert_score w (t_agent_id t) v p details usage (d_scores (xdb x))"
      "d_tickets (xdb (score_step sha a x)) = set_row tkey t (d_tickets (xdb x))" "t_status t = SCORED" "tkey t = (t_agent_id t, v, sp_validator_hotkey p)"
      "audit_extends sha (d_score_audit (xdb x)) (d_score_audit (xdb (score_step sha a x)))"
proof -
  let ?w = "(so_world a)\<lparr>cw_sha := sha\<rparr>" and ?p = "so_submission a"
  obtain x' res where sub: "submit_score ?w (so_public_dict a) (so_mode a) (so_agent_id a) ?p x = (x', res)" by (rule prod.exhaust)
  then have step: "score_step sha a x = x'" by (simp add: score_step_def)
  show ?thesis
  proof (cases res)
    case (Inl e)
    then have "x' = x" using sub submit_score_unchanged by blast
    then show ?thesis using step by (intro kept) simp
  next
    case (Inr st)
    with sub have "submit_score ?w (so_public_dict a) (so_mode a) (so_agent_id a) ?p x = (x', Inr st)" by simp
    then show ?thesis
    proof (cases rule: submit_score_cases)
      case retry then show ?thesis using step by (intro kept) simp
    next
      case (recorded ag deadline ag')
      from recorded(3) obtain t where t:
        "get_open_ticket (ag_agent_id ag) (sp_validator_hotkey ?p) (cw_now ?w) deadline (Some (report_version (sp_report ?p))) None (d_tickets (xdb x)) = Some t"
        "d_scores (xdb x') = upsert_score ?w (ag_agent_id ag) (t_bench_version t) ?p
           (stored_details ?w (so_public_dict a) (so_mode a) (classified t) (sp_report ?p) deadline x)
           (get_lease_model_usage (classified t) (xd_grants x)) (d_scores (xdb x))"
        "d_tickets (xdb x') = set_row tkey ((classified t)\<lparr>t_status := SCORED\<rparr>) (d_tickets (xdb x))"
        "audit_extends (cw_sha ?w) (d_score_audit (xdb x)) (d_score_audit (xdb x'))" by (rule record_scoreD)
      have "t_agent_id t = ag_agent_id ag" "t_validator_hotkey t = sp_validator_hotkey ?p" using open_ticketD [OF t(1)] by (auto simp: tkey_def)
      then show ?thesis using t step by (intro wrote [where t = "(classified t)\<lparr>t_status := SCORED\<rparr>" and w = ?w and v = "t_bench_version t" and p = ?p])
        (simp_all add: tkey_def)
    qed
  qed
qed

lemma scoring_books_step: "scoring_books sha x \<Longrightarrow> scoring_books sha (score_step sha a x)"
proof (rule score_step_cases [of sha a x])
  fix t w p v details usage
  assume ok: "scoring_books sha x" and sc: "d_scores (xdb (score_step sha a x)) = upsert_score w (t_agent_id t) v p details usage (d_scores (xdb x))"
    and tk: "d_tickets (xdb (score_step sha a x)) = set_row tkey t (d_tickets (xdb x))" and key: "tkey t = (t_agent_id t, v, sp_validator_hotkey p)"
    and au: "audit_extends sha (d_score_audit (xdb x)) (d_score_audit (xdb (score_step sha a x)))"
  have "get_row skey (tkey u) (upsert_score w (t_agent_id t) v p details usage (d_scores (xdb x))) \<noteq> None"
    if "u \<in> set (set_row tkey t (d_tickets (xdb x)))" "t_status u = SCORED" for u
    using that ok by (auto simp: set_row_def upsert_lookup key scoring_books_def elim!: in_update_whereE)
  then show ?thesis using ok sc tk upsert_keys log_ok_extends [OF au] by (simp add: scoring_books_def)
qed simp_all

interpretation scoring: invariant_machine "score_step sha" "scoring_books sha" for sha
  by unfold_locales (rule scoring_books_step)

lemma score_step_grows:
  "audit_extends sha (d_score_audit (xdb x)) (d_score_audit (xdb (score_step sha a x)))
   \<and> (get_row skey k (d_scores (xdb x)) \<noteq> None \<longrightarrow> get_row skey k (d_scores (xdb (score_step sha a x))) \<noteq> None)"
  by (rule score_step_cases [of sha a x]) (simp_all add: upsert_lookup)

text \<open>
  C3. The books of scoring along every run. Whatever reports arrive in whatever order, the audit log stays verifiable
  and only grows, no validator ever has two scores of one submission and version, no score disappears, and every consumed
  lease has the score it was consumed for.
\<close>

theorem scoring_books_kept:
  fixes ops :: "score_op list"
  assumes "scoring_books sha x"
  defines "y \<equiv> fold (score_step sha) ops x"
  shows "log_ok sha (d_score_audit (xdb y)) \<and> audit_extends sha (d_score_audit (xdb x)) (d_score_audit (xdb y)) \<and> distinct (map skey (d_scores (xdb y)))
    \<and> (get_row skey k (d_scores (xdb x)) \<noteq> None \<longrightarrow> get_row skey k (d_scores (xdb y)) \<noteq> None)
    \<and> (\<forall>t \<in> set (d_tickets (xdb y)). t_status t = SCORED \<longrightarrow> get_row skey (tkey t) (d_scores (xdb y)) \<noteq> None)"
proof -
  have grows: "audit_extends sha (d_score_audit (xdb z)) (d_score_audit (xdb (fold (score_step sha) ops z)))
      \<and> (get_row skey k (d_scores (xdb z)) \<noteq> None \<longrightarrow> get_row skey k (d_scores (xdb (fold (score_step sha) ops z))) \<noteq> None)" for z
  proof (induction ops arbitrary: z)
    case (Cons a ops)
    from score_step_grows [where sha = sha and x = z and a = a and k = k] Cons [of "score_step sha a z"] show ?case by (auto intro: audit_extends_trans)
  qed simp
  from scoring.run_invar [OF assms(1), of ops] grows [of x] show ?thesis by (simp add: scoring_books_def y_def)
qed

subsection \<open>Finalization\<close>

lemma deferred_idle: "agent_of i x = Some ag \<Longrightarrow> \<not> finalized (ag_status ag) \<Longrightarrow> evaluate_and_record_deferred_review w i v x = x"
  by (simp add: evaluate_and_record_deferred_review_def agent_of_def)

lemma deferred_status:
  assumes ag: "agent_of i x = Some ag"
  obtains ag' where "agent_of i (evaluate_and_record_deferred_review w i v x) = Some ag'"
    "ag_status ag' = ag_status ag \<or> ag_status ag' = ATH_PENDING_REVIEW \<and> review_pending i (evaluate_and_record_deferred_review w i v x)"
proof (cases "finalized (ag_status ag) \<and> ds_mode (cw_deferred w) \<noteq> ''off''")
  case False
  then have "evaluate_and_record_deferred_review w i v x = x"
    using ag by (auto simp: evaluate_and_record_deferred_review_def agent_of_def)
  then show ?thesis using ag that by simp
next
  case True
  let ?l = "list_eligible_ledger (cw_ledger w) False (Some v) Official (xdb x)"
  have g: "get_row ag_agent_id i (d_agents (xdb x)) = Some ag" using ag by (simp add: agent_of_def)
  show ?thesis
  proof (cases "ds_mode (cw_deferred w) = ''observe''")
    case True
    then have "agent_of i (evaluate_and_record_deferred_review w i v x) = Some ag"
      using ag g by (simp add: evaluate_and_record_deferred_review_def observation_keeps_agents Let_def)
    then show ?thesis using that by simp
  next
    case False
    with True have eq: "evaluate_and_record_deferred_review w i v x = enforce_loop w ?l (admitted_before w x) ?l x"
      using g by (simp add: evaluate_and_record_deferred_review_def Let_def)
    from enforce_loop_status [OF ag, of w ?l "admitted_before w x" ?l] obtain ag' where
      "agent_of i (enforce_loop w ?l (admitted_before w x) ?l x) = Some ag'"
      "ag_status ag' = (if qualifies w ?l (admitted_before w x) ?l i \<and> \<not> review_pending i x then ATH_PENDING_REVIEW else ag_status ag)" by auto
    then show ?thesis using that enforce_loop_pending [OF ag, of w ?l "admitted_before w x" ?l] unfolding eq by (simp split: if_splits)
  qed
qed

lemma log_finalized_agents [simp]:
  "agent_of i (log_finalized w j v version extra_fields x) = agent_of i x" "review_of i (log_finalized w j v version extra_fields x) = review_of i x"
  by (simp_all add: log_finalized_def split: option.split)

lemma structure_agents [simp]: "agent_of i (store_structure j fp x) = agent_of i x" "review_of i (store_structure j fp x) = review_of i x"
  by (simp_all add: store_structure_def review_of_def split: option.split)

lemma open_reviewD:
  assumes "open_review w i dup reason x = Inr y" and "agent_of i x = Some ag"
  obtains ag' where "agent_of i y = Some ag'" "ag_status ag' = ATH_PENDING_REVIEW" "review_pending i y"
proof -
  from assms(1) have "review_of i x = None" and y: "y = hold_agent i dup reason (on_reviews (\<lambda>vs. vs @ [opened_review w i None None]) x)"
    by (auto simp: open_review_def split: if_splits)
  then have "review_of i y = Some (opened_review w i None None)" by (simp add: review_of_append opened_review_def)
  then show ?thesis using that assms(2) y by (simp add: review_pending_def opened_review_def)
qed

lemma settle_statusD:
  assumes "settle_status w ag v scores x = Inr y" and ag: "agent_of (ag_agent_id ag) x = Some ag"
  obtains ag' where "agent_of (ag_agent_id ag) y = Some ag'"
    "ag_status ag' = AGENT_SCORED \<or> ag_status ag' = ATH_PENDING_REVIEW \<and> review_pending (ag_agent_id ag) y"
proof -
  obtain pvalue pairs failed where verdict: "transform_audit_verdict scores = (pvalue, pairs, failed)" by (cases "transform_audit_verdict scores")
  let ?i = "ag_agent_id ag"
  let ?first = "case copy_decision w ag v (statistics_median (map s_composite scores)) x of
      Some (dup, rule) \<Rightarrow> open_review w ?i (Some dup) (Copy_Hold rule) x
    | None \<Rightarrow> if failed \<and> cw_transform_enforce w then open_review w ?i (ag_duplicate_of ag) Transform_Brittleness x
              else Inr (on_agent ?i (\<lambda>a. a\<lparr>ag_status := AGENT_SCORED\<rparr>) x)"
  from assms(1) obtain z where z: "?first = Inr z" and y: "agent_of ?i y = agent_of ?i z" "review_of ?i y = review_of ?i z"
    by (auto simp: settle_status_def Let_def verdict split: sum.splits if_splits)
  have "\<exists>ag'. agent_of ?i z = Some ag' \<and> (ag_status ag' = AGENT_SCORED \<or> ag_status ag' = ATH_PENDING_REVIEW \<and> review_pending ?i z)"
  proof (cases "\<exists>dup reason. open_review w ?i dup reason x = Inr z")
    case True
    then show ?thesis using open_reviewD [OF _ ag] by metis
  next
    case False
    then have "z = on_agent ?i (\<lambda>a. a\<lparr>ag_status := AGENT_SCORED\<rparr>) x" using z by (auto split: option.splits prod.splits if_splits)
    then show ?thesis using ag by (simp add: agent_of_on_agent)
  qed
  then show ?thesis using that y by (auto simp: review_pending_def)
qed

lemma finalize_at_quorumD:
  assumes fin: "finalize_at_quorum w ag v x = Inr y" and ag: "agent_of (ag_agent_id ag) x = Some ag"
  obtains ag' where "agent_of (ag_agent_id ag) y = Some ag'"
    "if length (scores_of (ag_agent_id ag) v (xdb x)) < SCORING_QUORUM then ag' = ag
     else ag_status ag' = AGENT_SCORED \<or> ag_status ag' = ATH_PENDING_REVIEW \<and> review_pending (ag_agent_id ag) y"
proof (cases "length (scores_of (ag_agent_id ag) v (xdb x)) < SCORING_QUORUM")
  case True
  then show ?thesis using fin ag that by (simp add: finalize_at_quorum_def Let_def)
next
  case False
  let ?i = "ag_agent_id ag"
  from fin False obtain z where z: "settle_status w ag v (scores_of ?i v (xdb x)) x = Inr z"
    and y: "y = log_finalized w ?i v (Some v) [] (evaluate_and_record_deferred_review w ?i v z)"
    by (auto simp: finalize_at_quorum_def Let_def split: sum.splits)
  from settle_statusD [OF z ag] obtain az where az: "agent_of ?i z = Some az"
    and st: "ag_status az = AGENT_SCORED \<or> ag_status az = ATH_PENDING_REVIEW \<and> review_pending ?i z" by blast
  let ?e = "evaluate_and_record_deferred_review w ?i v z"
  have pend: "review_pending ?i y = review_pending ?i ?e" "agent_of ?i y = agent_of ?i ?e" by (simp_all add: y review_pending_def)
  show ?thesis
  proof (cases "ag_status az = AGENT_SCORED")
    case True
    from deferred_status [OF az, of w v] obtain ae where "agent_of ?i ?e = Some ae"
      "ag_status ae = ag_status az \<or> ag_status ae = ATH_PENDING_REVIEW \<and> review_pending ?i ?e" by blast
    with True False show ?thesis by (intro that [of ae]) (simp_all add: pend)
  next
    case held: False
    then have "?e = z" using st az by (intro deferred_idle) (auto simp: finalized_def)
    with held st az False show ?thesis by (intro that [of az]) (simp_all add: pend)
  qed
qed

text \<open>
  C4. When a submission is finalized. A report on a submission in evaluation leaves it in evaluation exactly as long as fewer
  than three validators have scored it on the lease's version; the report that completes the quorum makes it scored or puts it on
  hold, and a hold always has a pending review behind it.
\<close>

theorem quorum_finalizes:
  assumes acc: "submit_score w public_dict mode i p x = (x', Inr st)" and "x' \<noteq> x" and ag: "agent_of i x = Some ag" "ag_status ag = EVALUATING"
  shows "(st = EVALUATING \<longleftrightarrow> length (scores_of i (report_version (sp_report p)) (xdb x')) < SCORING_QUORUM)
    \<and> (st \<noteq> EVALUATING \<longrightarrow> st = AGENT_SCORED \<or> st = ATH_PENDING_REVIEW \<and> review_pending i x')"
  using acc
proof (cases rule: submit_score_cases)
  case (recorded ag0 deadline ag')
  have id: "ag_agent_id ag = i" and ag0: "ag0 = ag" using agent_of_id ag recorded(1) by auto
  from recorded(3) obtain t rep x1 x2 x3 where
    t: "get_open_ticket i (sp_validator_hotkey p) (cw_now w) deadline (Some (report_version (sp_report p))) None (d_tickets (xdb x)) = Some t"
    and w1: "write_score w public_dict mode ag (classified t) (get_row skey (i, t_bench_version t, sp_validator_hotkey p) (d_scores (xdb x))) rep p deadline x = Inr x1"
    and w2: "replace_finalized w ag (t_bench_version t) rep x1 = Inr x2"
    and w3: "advance w i (t_bench_version t) (get_row skey (i, t_bench_version t, sp_validator_hotkey p) (d_scores (xdb x)))
      (store_structure i (rp_structural_fingerprint (sp_report p)) x2) = Inr x3"
    and x': "x' = consume_lease w (classified t) x3" unfolding id [symmetric] ag0 by (rule record_score_steps)
  let ?x = "store_structure i (rp_structural_fingerprint (sp_report p)) x2" and ?v = "report_version (sp_report p)"
  have v: "t_bench_version t = ?v" using open_ticketD [OF t] by (simp add: tkey_def)
  have a1: "agent_of i x1 = Some ag" using write_scoreD [OF w1, of i] ag(1) by simp
  have "evaluate_and_record_deferred_review w i ?v x1 = x1" using deferred_idle [OF a1, of w ?v] ag(2) by (simp add: finalized_def)
  then have "agent_of i x2 = Some ag" using w2 a1 by (auto simp: replace_finalized_def v id split: option.splits)
  then have a2: "agent_of (ag_agent_id ag) ?x = Some ag" by (simp add: id)
  then have "finalize_at_quorum w ag ?v ?x = Inr x3" using w3 ag(2) by (simp add: advance_def v id)
  from finalize_at_quorumD [OF this a2] obtain a3 where a3: "agent_of i x3 = Some a3"
    "if length (scores_of i ?v (xdb ?x)) < SCORING_QUORUM then a3 = ag else ag_status a3 = AGENT_SCORED \<or> ag_status a3 = ATH_PENDING_REVIEW \<and> review_pending i x3"
    unfolding id by blast
  have "d_scores (xdb x3) = d_scores (xdb ?x)" using frame_advance [OF w3] by (simp add: score_frame_def)
  then have "scores_of i ?v (xdb x') = scores_of i ?v (xdb ?x)" by (simp add: x' scores_of_def)
  moreover have "st = ag_status a3" using recorded(4,5) a3(1) by (simp add: x')
  moreover have "review_pending i x' = review_pending i x3" by (simp add: x' review_pending_def)
  ultimately show ?thesis using a3(2) ag(2) by (auto split: if_splits)
qed (use assms(2) in simp)

subsection \<open>A valid report is accepted\<close>

lemma settle_status_total: "review_of (ag_agent_id ag) x = None \<Longrightarrow> \<exists>y. settle_status w ag v scores x = Inr y"
  by (auto simp: settle_status_def Let_def open_review_def split: prod.split option.split sum.split)

lemma advance_total:
  assumes "review_of i x = None"
  shows "\<exists>y. advance w i v existing x = Inr y"
proof (cases "agent_of i x")
  case (Some ag)
  then have "review_of (ag_agent_id ag) x = None" using assms agent_of_id by blast
  then obtain y where "settle_status w ag v (scores_of (ag_agent_id ag) v (xdb x)) x = Inr y" using settle_status_total by blast
  then show ?thesis using Some by (simp add: advance_def finalize_at_quorum_def Let_def)
qed (simp add: advance_def)

lemma record_score_total:
  assumes "agent_of i x = Some ag" and "ag_status ag \<in> SCOREABLE_STATUSES" and "e_screening_policy_version (cw_env w) \<le> ag_screening_policy_version ag"
    and t: "get_open_ticket i (sp_validator_hotkey p) (cw_now w) deadline (Some (report_version (sp_report p))) None (d_tickets (xdb x)) = Some t"
    and "lease_error t (sp_report p) = None" and "get_row skey (tkey t) (d_scores (xdb x)) = None" and "review_of i x = None"
  shows "\<exists>x'. record_score w public_dict mode ag p deadline x = Inr x'"
proof -
  have id: "ag_agent_id ag = i" using agent_of_id assms(1) by blast
  have new: "get_row skey (i, t_bench_version t, sp_validator_hotkey p) (d_scores (xdb x)) = None"
    using assms(6) open_ticketD [OF t] by (auto simp: tkey_def)
  obtain x1 where w1: "write_score w public_dict mode ag (classified t) None None p deadline x = Inr x1"
    by (auto simp: write_score_def invalidation_def Let_def)
  then have "review_of i (store_structure i (rp_structural_fingerprint (sp_report p)) x1) = None"
    using write_scoreD [OF w1, of i] assms(7) by simp
  from advance_total [OF this] obtain x3
    where "advance w i (t_bench_version t) None (store_structure i (rp_structural_fingerprint (sp_report p)) x1) = Inr x3" by blast
  then show ?thesis using assms w1 new
    by (simp add: record_score_def Let_def id replacement_request_def replace_finalized_def not_less [symmetric])
qed

lemma open_ticket_of_key:
  assumes "distinct (map tkey ts)" and "t \<in> set ts" "tkey t = (i, v, h)" "t_status t = ISSUED" "t_deadline t = deadline" "now < deadline"
  shows "get_open_ticket i h now deadline (Some v) None ts = Some t"
proof -
  have uniq: "u = t" if "u \<in> set ts" "tkey u = (i, v, h)" for u
    using get_row_eqI [OF assms(1) that(1)] get_row_eqI [OF assms(1,2)] that(2) assms(3) by simp
  have "select_first (\<lambda>t. t_agent_id t = i \<and> t_validator_hotkey t = h \<and> t_status t = ISSUED \<and> (case Some v of None \<Rightarrow> True | Some v \<Rightarrow> t_bench_version t = v)
      \<and> (case None of None \<Rightarrow> True | Some s \<Rightarrow> t_slot_id t = s)) ts = Some t"
  proof (rule select_first_eqI [OF assms(2)])
    fix u
    assume "u \<in> set ts" and "t_agent_id u = i \<and> t_validator_hotkey u = h \<and> t_status u = ISSUED \<and> (case Some v of None \<Rightarrow> True | Some v \<Rightarrow> t_bench_version u = v)
      \<and> (case None of None \<Rightarrow> True | Some s \<Rightarrow> t_slot_id u = s)"
    then show "u = t" by (intro uniq) (simp_all add: tkey_def)
  qed (use assms(3,4) in \<open>simp add: tkey_def\<close>)
  then show ?thesis using assms(5,6) by (simp add: get_open_ticket_def)
qed

lemma upsert_count:
  "get_row skey (i, v, sp_validator_hotkey p) ss = None \<Longrightarrow>
   length (filter (\<lambda>s. s_agent_id s = i \<and> s_bench_version s = v) (upsert_score w i v p details usage ss))
     = Suc (length (filter (\<lambda>s. s_agent_id s = i \<and> s_bench_version s = v) ss))"
  by (simp add: upsert_score_def scored_row_def blank_row_def Let_def split: option.split)

lemma report_recorded:
  assumes "sp_signature_ok p" "sp_permitted p" and "MIN_SCOREABLE_BENCH_VERSION \<le> report_version (sp_report p)" and "sp_ticket_deadline p = Some (t_deadline t)"
    and ag: "agent_of i x = Some ag" "ag_status ag \<in> SCOREABLE_STATUSES" "e_screening_policy_version (cw_env w) \<le> ag_screening_policy_version ag"
    and lease: "t \<in> set (d_tickets (xdb x))" "tkey t = (i, report_version (sp_report p), sp_validator_hotkey p)" "t_status t = ISSUED"
      "cw_now w < t_deadline t" "lease_error t (sp_report p) = None"
    and new: "distinct (map tkey (d_tickets (xdb x)))" "get_row skey (tkey t) (d_scores (xdb x)) = None" "review_of i x = None"
  obtains x' st where "submit_score w public_dict mode i p x = (x', Inr st)" "record_score w public_dict mode ag p (t_deadline t) x = Inr x'"
    "d_tickets (xdb x') = set_row tkey ((classified t)\<lparr>t_status := SCORED\<rparr>) (d_tickets (xdb x))" "get_row skey (tkey t) (d_scores (xdb x')) \<noteq> None"
    "length (scores_of i (report_version (sp_report p)) (xdb x')) = Suc (length (scores_of i (report_version (sp_report p)) (xdb x)))"
proof -
  have row: "get_row tkey (i, report_version (sp_report p), sp_validator_hotkey p) (d_tickets (xdb x)) = Some t"
    using get_row_eqI [OF new(1) lease(1)] lease(2) by simp
  note opn = open_ticket_of_key [OF new(1) lease(1-3) refl lease(4)]
  from record_score_total [OF ag opn lease(5) new(2,3)] obtain x' where rec: "record_score w public_dict mode ag p (t_deadline t) x = Inr x'" by blast
  then obtain st where "submit_score w public_dict mode i p x = (x', Inr st)"
    using assms(1-4) ag(1) row lease(3) by (simp add: submit_score_def)
  moreover from rec have "d_tickets (xdb x') = set_row tkey ((classified t)\<lparr>t_status := SCORED\<rparr>) (d_tickets (xdb x)) \<and> get_row skey (tkey t) (d_scores (xdb x')) \<noteq> None
      \<and> length (scores_of i (report_version (sp_report p)) (xdb x')) = Suc (length (scores_of i (report_version (sp_report p)) (xdb x)))"
  proof (rule record_scoreD)
    fix u rep
    assume u: "get_open_ticket (ag_agent_id ag) (sp_validator_hotkey p) (cw_now w) (t_deadline t) (Some (report_version (sp_report p))) None (d_tickets (xdb x)) = Some u"
      and sc: "d_scores (xdb x') = upsert_score w (ag_agent_id ag) (t_bench_version u) p (stored_details w public_dict mode (classified u) (sp_report p) (t_deadline t) x)
        (get_lease_model_usage (classified u) (xd_grants x)) (d_scores (xdb x))"
      and tk: "d_tickets (xdb x') = set_row tkey ((classified u)\<lparr>t_status := SCORED\<rparr>) (d_tickets (xdb x))"
    have "u = t" using u opn agent_of_id [OF ag(1)] by simp
    moreover have k: "tkey t = (ag_agent_id ag, t_bench_version t, sp_validator_hotkey p)" "ag_agent_id ag = i" "t_bench_version t = report_version (sp_report p)"
      using lease(2) agent_of_id [OF ag(1)] by (simp_all add: tkey_def)
    ultimately show ?thesis using sc tk upsert_count [of i "t_bench_version t" p "d_scores (xdb x)"] new(2) by (simp add: upsert_lookup scores_of_def)
  qed
  ultimately show ?thesis using that rec by blast
qed

lemma consumed_row:
  assumes "t \<in> set ts" "distinct (map tkey ts)"
  shows "get_row tkey (tkey t) (set_row tkey ((classified t)\<lparr>t_status := SCORED\<rparr>) ts) = Some ((classified t)\<lparr>t_status := SCORED\<rparr>)"
proof -
  have "tkey ((classified t)\<lparr>t_status := SCORED\<rparr>) = tkey t" by (simp add: tkey_def)
  then show ?thesis using get_row_eqI [OF assms(2,1)] by (simp add: get_row_set_row)
qed

lemma consumed_changes:
  assumes "t \<in> set ts" "t_status t = ISSUED" "distinct (map tkey ts)"
  shows "set_row tkey ((classified t)\<lparr>t_status := SCORED\<rparr>) ts \<noteq> ts"
proof
  assume "set_row tkey ((classified t)\<lparr>t_status := SCORED\<rparr>) ts = ts"
  then have "t = (classified t)\<lparr>t_status := SCORED\<rparr>" using consumed_row [OF assms(1,3)] get_row_eqI [OF assms(3,1)] by simp
  then have "t_status t = t_status ((classified t)\<lparr>t_status := SCORED\<rparr>)" by (rule arg_cong)
  with assms(2) show False by simp
qed


subsection \<open>Instances\<close>

text \<open>Submission 2 in evaluation, scored by two validators; the third holds a lease.\<close>

definition demo_lease :: ticket where
  "demo_lease = (new_confirmation_ticket 2 ''w'' 0 100 7 None None ''slot-0'')\<lparr>t_purpose := CANONICAL_QUORUM, t_purpose_revision := 1, t_seed := Some 5\<rparr>"

definition evaluating_db :: scoring_db where
  "evaluating_db = demo_scoring (demo_db\<lparr>d_agents := [demo_agent 2 ''h2''], d_tickets := [demo_lease], d_scores := ledger_scores 2 7 [1 / 2, 1 / 4],
     d_payments := [], d_attestations := [], d_rollouts := [], d_rollout_members := [], d_score_audit := []\<rparr>)"

definition demo_score_report :: "payload option \<Rightarrow> score_report" where
  "demo_score_report details = \<lparr>rp_run_id = ''run'', rp_bench_version = Some 7, rp_seed = 5, rp_composite = 3 / 4, rp_raw_composite = None, rp_tool_mean = 1 / 2,
     rp_memory_mean = 1 / 2, rp_median_ms = 10, rp_n = 100, rp_composite_stderr = None, rp_confirmation_composites = None, rp_confirmation_seeds = None,
     rp_generated_at = 1, rp_per_case = [], rp_details = details, rp_structural_fingerprint = None\<rparr>"

definition demo_submission :: "payload option \<Rightarrow> score_submission" where
  "demo_submission details = \<lparr>sp_validator_hotkey = ''w'', sp_signature = ''sig'', sp_ticket_deadline = Some 100, sp_report = demo_score_report details,
     sp_signature_ok = True, sp_permitted = True\<rparr>"

definition demo_submit :: "payload option \<Rightarrow> scoring_db \<Rightarrow> scoring_db \<times> (score_error + agent_status)" where
  "demo_submit details = submit_score (demo_score_world ''off'') (\<lambda>v u. JNull) Use_Shadow 2 (demo_submission details)"

lemma demo_ready:
  "sp_signature_ok (demo_submission None)" "sp_permitted (demo_submission None)" "MIN_SCOREABLE_BENCH_VERSION \<le> report_version (sp_report (demo_submission None))"
  "sp_ticket_deadline (demo_submission None) = Some (t_deadline demo_lease)" "agent_of 2 evaluating_db = Some (demo_agent 2 ''h2'')"
  "ag_status (demo_agent 2 ''h2'') \<in> SCOREABLE_STATUSES" "e_screening_policy_version (cw_env (demo_score_world ''off'')) \<le> ag_screening_policy_version (demo_agent 2 ''h2'')"
  "demo_lease \<in> set (d_tickets (xdb evaluating_db))" "tkey demo_lease = (2, report_version (sp_report (demo_submission None)), sp_validator_hotkey (demo_submission None))"
  "t_status demo_lease = ISSUED" "cw_now (demo_score_world ''off'') < t_deadline demo_lease" "lease_error demo_lease (sp_report (demo_submission None)) = None"
  "distinct (map tkey (d_tickets (xdb evaluating_db)))" "get_row skey (tkey demo_lease) (d_scores (xdb evaluating_db)) = None" "review_of 2 evaluating_db = None"
  by code_simp+

lemma demo_accepted:
  obtains x' st where "demo_submit None evaluating_db = (x', Inr st)" "x' \<noteq> evaluating_db"
    "length (scores_of 2 (report_version (sp_report (demo_submission None))) (xdb x')) = 3"
proof -
  have "length (scores_of 2 (report_version (sp_report (demo_submission None))) (xdb evaluating_db)) = 2" by code_simp
  then show ?thesis
    using report_recorded [OF demo_ready, where public_dict = "\<lambda>v u. JNull" and mode = Use_Shadow] consumed_changes [OF demo_ready(8,10,13)] that
    unfolding demo_submit_def by (metis eval_nat_numeral(3))
qed

lemma demo_clean: "\<not> names_model_use (sp_report (demo_submission None))"
  by code_simp


theorem accepted_score_sound_witness:
  "\<exists>x' st s. demo_submit None evaluating_db = (x', Inr st) \<and> get_row skey (2, 7, ''w'') (d_scores (xdb x')) = Some s \<and> s_composite s = 3 / 4"
proof -
  obtain x' st where x': "demo_submit None evaluating_db = (x', Inr st)" "x' \<noteq> evaluating_db" by (rule demo_accepted)
  have r: "report_version (sp_report (demo_submission None)) = 7" "sp_validator_hotkey (demo_submission None) = ''w''" "rp_composite (sp_report (demo_submission None)) = 3 / 4"
    by code_simp+
  from accepted_score_sound [OF x' [unfolded demo_submit_def]] obtain s where "get_row skey (2, 7, ''w'') (d_scores (xdb x')) = Some s" "s_composite s = 3 / 4"
    unfolding r by blast
  with x' show ?thesis by blast
qed

theorem resubmission_idempotent_witness:
  "\<exists>x' st. demo_submit None evaluating_db = (x', Inr st) \<and> x' \<noteq> evaluating_db \<and> demo_submit None x' = (x', Inr st)"
proof -
  obtain x' st where x': "demo_submit None evaluating_db = (x', Inr st)" "x' \<noteq> evaluating_db" by (rule demo_accepted)
  from resubmission_idempotent [OF x'(1) [unfolded demo_submit_def] demo_clean refl refl] have "demo_submit None x' = (x', Inr st)" by (simp add: demo_submit_def)
  with x' show ?thesis by blast
qed

definition demo_op :: score_op where
  "demo_op = \<lparr>so_world = demo_score_world ''off'', so_public_dict = (\<lambda>v u. JNull), so_mode = Use_Shadow, so_agent_id = 2, so_submission = demo_submission None\<rparr>"

theorem scoring_books_kept_witness:
  "get_row skey (2, 7, ''u'') (d_scores (xdb (fold (score_step demo_sha) [demo_op, demo_op] evaluating_db))) \<noteq> None"
proof -
  have "scoring_books demo_sha evaluating_db" by code_simp
  moreover have "get_row skey (2, 7, ''u'') (d_scores (xdb evaluating_db)) \<noteq> None" by code_simp
  ultimately show ?thesis using scoring_books_kept [of demo_sha evaluating_db "[demo_op, demo_op]" "(2, 7, ''u'')"] by blast
qed

theorem quorum_finalizes_witness:
  "\<exists>x' st. demo_submit None evaluating_db = (x', Inr st) \<and> (st = AGENT_SCORED \<or> st = ATH_PENDING_REVIEW)"
proof -
  obtain x' st where x': "demo_submit None evaluating_db = (x', Inr st)" "x' \<noteq> evaluating_db"
    and n: "length (scores_of 2 (report_version (sp_report (demo_submission None))) (xdb x')) = 3" by (rule demo_accepted)
  have "ag_status (demo_agent 2 ''h2'') = EVALUATING" by code_simp
  note q = quorum_finalizes [OF x' [unfolded demo_submit_def] demo_ready(5) this]
  have "st \<noteq> EVALUATING" using q n by (simp add: SCORING_QUORUM_def)
  with q x'(1) show ?thesis by blast
qed

end
