(* ===== verification/Spec2Isabelle.thy ===== *)
theory Spec2Isabelle
  imports Similarity Koth Inference_Proxy Rollout_Refresh Screening_Verdict Scoring
begin

text \<open>
  A verification of the ditto platform's evaluation core: the service that hands benchmark leases to
  validators, accounts for their inference, and keeps a public tamper-evident score log.

  \<^bold>\<open>The program.\<close> Miners upload agents; screened agents wait in a queue; validators poll for work and
  receive tickets (leases) for one agent and benchmark version each; while a lease runs, the platform
  proxies its model calls under a grant; reports settle the lease. All state is in database
  tables, every operation is one transaction.

  \<^bold>\<open>How it is modelled.\<close> A table is the list of its rows (\<open>Prelude\<close>), a row is a record with the columns the
  modelled code uses (\<open>Schema\<close> and the component theories), a transaction is a function from tables to tables
  and result. An error that is raised is a value of a sum or option type. A time is an \<open>int\<close> of
  microseconds, a token count an \<open>int\<close>, a score a \<open>rat\<close> or \<open>real\<close> (rounding of doubles is left out; NaN and the
  infinities are values where the code tests for them). Row locks serialise transactions and are not
  modelled, except where the code skips locked rows.

  \<^item> \<open>Prelude\<close>: tables, sums over rows, and the machine locales (\<open>guarded_machine\<close>, \<open>invariant_machine\<close>,
    \<open>monotone_machine\<close>) whose run lemmas turn one-step facts into facts of every interleaving.
  \<^item> \<open>Canonical_Json\<close>, \<open>Score_Audit\<close>: \<open>db/queries/audit.py\<close>. The canonical encoding is injective; the hash
    chain always verifies, can be verified in pages, and is tamper evident up to an explicit hash collision. SHA-256 is an
    argument.
  \<^item> \<open>Schema\<close>: the tables of \<open>db/models.py\<close> and the benchmark contracts of \<open>api_models/benchmark_contract.py\<close>.
  \<^item> \<open>Tickets\<close>: \<open>db/queries/tickets.py\<close> without the allocator, and \<open>retry_budget.py\<close>: the overdue sweep, the
    lookups, settlement, the confirmation lane and the no-fault retry grants.
  \<^item> \<open>Lease_Liveness\<close>: \<open>db/queries/lease_liveness.py\<close>: what evidence proves a lease idle, and what a revocation or
    an eviction does. The locale \<open>lease_revoker\<close> is the contract of the revocation.
  \<^item> \<open>Queue_Order\<close>: \<open>db/queries/queue_order.py\<close> and \<open>benchmark_admission.py\<close>: which submissions are candidates, in which
    order, who counts as one owner, which capacity gate holds a submission back, and the public preview.
  \<^item> \<open>Issuance\<close>: the allocator \<open>issue_ticket\<close>. The selection loop terminates for every table, refines a
    declarative specification, and the allocator never over-issues. Locked rows are the argument \<open>locked\<close>; the score
    floors, the capable fleet and the near-identical submissions are arguments too.
  \<^item> \<open>Inference\<close>, \<open>Inference_Books\<close>: \<open>db/queries/inference.py\<close>: grants, admission, settlement, revocation; every
    operation keeps the books of a grant.
  \<^item> \<open>Inference_Proxy\<close>: \<open>api_server/endpoints/inference.py\<close>: the request schema, the payload sent upstream, the provider
    retry and the two transactions of a call; the books along every run of the proxy.
  \<^item> \<open>Fingerprint\<close>: \<open>api_server/fingerprint.py\<close>: decoding, comment stripping, shingling, subtraction of the public
    reference, the sketches, and the similarity estimate with the condition under which it is exact.
  \<^item> \<open>Similarity\<close>: \<open>db/queries/similarity_grouping.py\<close> and \<open>similarity_budget.py\<close>: when two submissions share one
    budget, the union-find that groups them, and the rail of the allocator that enforces the budget
    (\<open>similarity_fleet\<close> supplies the near-identical submissions \<open>Issuance\<close> takes as an argument).
  \<^item> \<open>Koth\<close>: \<open>score_order.py\<close>, \<open>api_server/koth.py\<close>, \<open>db/queries/score_ranking.py\<close> and the score floors of
    \<open>tickets.py\<close>: the canonical ranking, the champion fold, the emission set, the retest cohort and the retest rounds.

  \<^item> \<open>Union_Find\<close>: the union-find with path halving that the similarity grouping and the owner families share.
  \<^item> \<open>Owners\<close>: the owner families and ranked quorums of \<open>db/queries/scores.py\<close>: the union-find in Python and the recursive
    walk in SQL name every owner alike.
  \<^item> \<open>Rollout\<close>: \<open>db/queries/benchmark_rollout.py\<close>: which benchmark version owns the ledger, the readiness of scorers and of
    inference, and the transitions of a rollout from its frozen cohort to activation, supersession or selection.
  \<^item> \<open>Rollout_Refresh\<close>: the rankings, \<open>benchmark_carryover.py\<close>, \<open>api_server/benchmark_rollout.py\<close> and the start in
    \<open>admin_benchmark_rollout.py\<close>: how a cohort is drawn, converged and expanded; the benchmark authority along every run.
  \<^item> \<open>Screening\<close>: \<open>db/queries/screening.py\<close>: the sweeps of overdue and orphaned attempts, the cap on expiries, which
    submissions a screener may claim, the search for an earlier copy of the same bytes, and the claim.
  \<^item> \<open>Screening_Verdict\<close>: \<open>submit_result\<close> of \<open>api_server/endpoints/screener.py\<close>: the checks, the target status and the transaction that
    applies a verdict; the history of attempts along every run, what a promotion proves, and how an inconclusive verdict
    restarts the expiry cap.
  \<^item> \<open>Confirmation\<close>: \<open>db/queries/confirmation_scores.py\<close>: the append-only table of retests on shared seeds, the seeds a member
    has to catch up on, and which seeds enter the continual mean under each of the three policies.
  \<^item> \<open>Ledger\<close>: \<open>list_eligible_ledger\<close> of \<open>db/queries/scores.py\<close>: the authoritative row of every submission, the score owners' submissions
    compete on, and one row for each owner family. The score computed in SQL is the one the champion fold of \<open>Koth\<close> computes, and
    \<open>ledger_mixes_versions\<close> shows that an open rollout can put two benchmark versions on one ledger.
  \<^item> \<open>Copy_Gate\<close>: \<open>api_server/scoring_gate.py\<close> and the transform audit of \<open>endpoints/validator.py\<close>: which earlier submission of another
    owner counts as the original and under which rule, and the exact one-sided test of the audit.
  \<^item> \<open>Deferred_Review\<close>: \<open>api_server/deferred_source_review.py\<close> and its writes in \<open>endpoints/validator.py\<close>: which ranked submissions a score
    sends to the delayed source review, over the tables of the score transaction (\<open>scoring_db\<close>).
  \<^item> \<open>Scoring\<close>: \<open>submit_score\<close> of \<open>endpoints/validator.py\<close> with \<open>upsert_score\<close>, \<open>evaluate_model_use\<close> and the route quality of
    \<open>inference_routing.py\<close>: the report that settles a lease. It composes the leases of \<open>Tickets\<close>, the grants of \<open>Inference\<close>, the
    log of \<open>Score_Audit\<close>, the ledger, the gate, the audit and the delayed review in one transaction; what an accepted report proves and writes, that a
    valid one is accepted, that a repeated one writes nothing, when a submission is finalized, and the books along every
    run. The argument \<open>public_dict\<close> is the public form of the model-use verdict; \<open>model_use_breaks_retry\<close> shows
    which reports cannot be repeated.

  \<^bold>\<open>Bounds.\<close> No definition uses fuel: loops are structural or have a termination proof (\<open>select_candidate\<close>:
    the pass and the rows not yet skipped; \<open>next_scheduled\<close>: the tempos left). \<open>uf_find\<close> follows parent pointers and is partial;
    that it returns on every forest the grouping builds is part of \<open>similarity_budgets_components\<close>.

  \<^bold>\<open>Not modelled.\<close> HTTP routing, authentication of validators against the chain, object storage, logs and metrics; the
  two-phase provider recovery and the reshaping of provider responses; the rollout's own lease lane, the other screener and validator routes,
  uploads, what follows the commit of a score (publication, qualification refresh, reign record, weights) and the admin endpoints.
\<close>

end
